(* ===== verification/Prelude.thy ===== *)
theory Prelude
  imports Main "HOL-Library.Sublist" "HOL-Library.AList"
begin

text \<open>
  The parts of Go's standard library that the program computes with, as executable functions on
  byte strings: \<open>strings.TrimSpace\<close>, \<open>Fields\<close>, \<open>Split\<close>, \<open>SplitN\<close>, \<open>Join\<close>, \<open>HasPrefix\<close>,
  \<open>HasSuffix\<close>, \<open>Contains\<close>, \<open>TrimPrefix\<close>, \<open>Index\<close>, \<open>ToLower\<close>, \<open>EqualFold\<close>, the line reader
  \<open>bufio.Scanner\<close> with its 64 KiB line limit, \<open>strconv.Atoi\<close> and \<open>strconv.Itoa\<close>, and
  \<open>filepath.Clean\<close> and \<open>filepath.Join\<close>.

  A Go string is a list of bytes, so it is HOL's \<^typ>\<open>string\<close> (a list of 8-bit characters).
  White space and letter case are those of ASCII: on bytes from 128 on, which Go decodes as UTF-8,
  the model treats each byte as an ordinary character.  The two agree except on the non-ASCII
  space code points (U+0085, U+00A0, U+1680, U+2000 and following) and on non-ASCII letters that
  have another case.
\<close>

named_theorems go_strings \<open>facts that rewrite the string functions\<close>
named_theorems go_words \<open>facts about the words that splitting a string gives\<close>

section \<open>White space and words\<close>

definition is_space :: "char \<Rightarrow> bool" where
  "is_space c \<longleftrightarrow> c = CHR '' '' \<or> c = CHR 0x09 \<or> c = CHR 0x0A \<or> c = CHR 0x0B \<or> c = CHR 0x0C \<or>
     c = CHR 0x0D"

abbreviation newline :: char where "newline \<equiv> CHR 0x0A"
abbreviation carriage_return :: char where "carriage_return \<equiv> CHR 0x0D"
abbreviation tab :: char where "tab \<equiv> CHR 0x09"
abbreviation dquote :: char where "dquote \<equiv> CHR 0x22"

lemma is_space_simps [simp]:
  "is_space CHR '' ''" "is_space newline" "is_space carriage_return" "is_space tab"
  by (simp_all add: is_space_def)

definition trim_left :: "string \<Rightarrow> string" where
  "trim_left s = dropWhile is_space s"

definition trim_right :: "string \<Rightarrow> string" where
  "trim_right s = rev (dropWhile is_space (rev s))"

definition trim_space :: "string \<Rightarrow> string" where
  "trim_space s = trim_right (trim_left s)"

fun split_by :: "(char \<Rightarrow> bool) \<Rightarrow> string \<Rightarrow> string list" where
  "split_by p [] = [[]]"
| "split_by p (c # cs) =
     (if p c then [] # split_by p cs
      else (case split_by p cs of [] \<Rightarrow> [[c]] | w # ws \<Rightarrow> (c # w) # ws))"

definition split_on :: "char \<Rightarrow> string \<Rightarrow> string list" where
  "split_on sep s = split_by (\<lambda>c. c = sep) s"

definition str_fields :: "string \<Rightarrow> string list" where
  "str_fields s = filter (\<lambda>w. w \<noteq> []) (split_by is_space s)"

fun join :: "string \<Rightarrow> string list \<Rightarrow> string" where
  "join sep [] = []"
| "join sep [w] = w"
| "join sep (w # v # ws) = w @ sep @ join sep (v # ws)"

text \<open>\<open>strings.SplitN(s, sep, 2)\<close>: the part before the first separator and the rest.\<close>

fun cut_at :: "char \<Rightarrow> string \<Rightarrow> string \<times> string option" where
  "cut_at sep [] = ([], None)"
| "cut_at sep (c # cs) =
     (if c = sep then ([], Some cs) else (case cut_at sep cs of (a, b) \<Rightarrow> (c # a, b)))"

definition split_n2 :: "char \<Rightarrow> string \<Rightarrow> string list" where
  "split_n2 sep s = (case cut_at sep s of (a, None) \<Rightarrow> [a] | (a, Some b) \<Rightarrow> [a, b])"

section \<open>Prefixes, substrings and case\<close>

definition has_prefix :: "string \<Rightarrow> string \<Rightarrow> bool" where
  "has_prefix s p \<longleftrightarrow> take (length p) s = p"

definition has_suffix :: "string \<Rightarrow> string \<Rightarrow> bool" where
  "has_suffix s p \<longleftrightarrow> has_prefix (rev s) (rev p)"

fun contains :: "string \<Rightarrow> string \<Rightarrow> bool" where
  "contains [] sub = (sub = [])"
| "contains (c # cs) sub = (has_prefix (c # cs) sub \<or> contains cs sub)"

definition trim_prefix :: "string \<Rightarrow> string \<Rightarrow> string" where
  "trim_prefix s p = (if has_prefix s p then drop (length p) s else s)"

fun index_char :: "string \<Rightarrow> char \<Rightarrow> nat option" where
  "index_char [] x = None"
| "index_char (c # cs) x = (if c = x then Some 0 else map_option Suc (index_char cs x))"

definition lower_char :: "char \<Rightarrow> char" where
  "lower_char c =
     (let n = (of_char c :: nat) in if 65 \<le> n \<and> n \<le> 90 then char_of (n + 32) else c)"

lemma lower_char_code [code]:
  "lower_char (Char b0 b1 b2 b3 b4 b5 b6 b7) =
     (if \<not> b7 \<and> b6 \<and> \<not> b5 \<and> (b0 \<or> b1 \<or> b2 \<or> b3 \<or> b4) \<and> \<not> (b4 \<and> b3 \<and> (b2 \<or> b1 \<and> b0))
      then Char b0 b1 b2 b3 b4 True b6 b7 else Char b0 b1 b2 b3 b4 b5 b6 b7)"
  by (cases b0; cases b1; cases b2; cases b3; cases b4; cases b5; cases b6; cases b7)
     (simp_all add: lower_char_def char_of_def bit_0)

definition to_lower :: "string \<Rightarrow> string" where
  "to_lower s = map lower_char s"

definition equal_fold :: "string \<Rightarrow> string \<Rightarrow> bool" where
  "equal_fold a b \<longleftrightarrow> to_lower a = to_lower b"

section \<open>Reading lines\<close>

text \<open>
  \<open>bufio.Scanner\<close> with \<open>ScanLines\<close>: the lines without their line feed and without one carriage
  return before it; the empty string after a last line feed is no line.  A line of
  \<open>MaxScanTokenSize\<close> (65536) bytes or more stops the scan with \<open>ErrTooLong\<close>, after the lines
  before it were delivered.
\<close>

definition max_scan_token_size :: nat where
  "max_scan_token_size = 65536"

definition raw_lines :: "string \<Rightarrow> string list" where
  "raw_lines s = (let ls = split_on newline s in if last ls = [] then butlast ls else ls)"

definition drop_cr :: "string \<Rightarrow> string" where
  "drop_cr l = (if l \<noteq> [] \<and> last l = carriage_return then butlast l else l)"

definition short_line :: "string \<Rightarrow> bool" where
  "short_line l \<longleftrightarrow> length l < max_scan_token_size"

lemma short_line_code [code]: "short_line l \<longleftrightarrow> int (length l) < 65536"
  by (simp add: short_line_def max_scan_token_size_def)

definition scan_lines :: "string \<Rightarrow> string list" where
  "scan_lines s = map drop_cr (takeWhile short_line (raw_lines s))"

definition scan_too_long :: "string \<Rightarrow> bool" where
  "scan_too_long s \<longleftrightarrow> \<not> list_all short_line (raw_lines s)"

section \<open>Decimal numbers\<close>

definition is_digit :: "char \<Rightarrow> bool" where
  "is_digit c \<longleftrightarrow> 48 \<le> (of_char c :: nat) \<and> (of_char c :: nat) \<le> 57"

lemma is_digit_code [code]:
  "is_digit (Char b0 b1 b2 b3 b4 b5 b6 b7) \<longleftrightarrow> \<not> b7 \<and> \<not> b6 \<and> b5 \<and> b4 \<and> \<not> (b3 \<and> (b2 \<or> b1))"
  by (cases b0; cases b1; cases b2; cases b3; cases b4; cases b5; cases b6; cases b7)
     (simp_all add: is_digit_def)

definition digit_val :: "char \<Rightarrow> nat" where
  "digit_val c = of_char c - 48"

definition digit_char :: "nat \<Rightarrow> char" where
  "digit_char n = char_of (48 + n)"

fun nat_str :: "nat \<Rightarrow> string" where
  "nat_str n = (if n < 10 then [digit_char n] else nat_str (n div 10) @ [digit_char (n mod 10)])"

declare nat_str.simps [simp del]

text \<open>\<open>strconv.Itoa\<close>, and \<open>fmt.Sprintf("%d", n)\<close>.\<close>

definition itoa :: "int \<Rightarrow> string" where
  "itoa i = (if i < 0 then CHR ''-'' # nat_str (nat (- i)) else nat_str (nat i))"

datatype num_err = ErrSyntax | ErrRange

text \<open>The range of \<open>int64\<close>, and of \<open>int\<close> on the machines the program is built for.\<close>

definition int64 :: "int \<Rightarrow> bool" where
  "int64 i \<longleftrightarrow> - 9223372036854775808 \<le> i \<and> i \<le> 9223372036854775807"

text \<open>
  \<open>strconv.ParseUint(s, 10, 64)\<close> after the sign: digit by digit, with the overflow tests of the
  Go loop, so a range error is reported before a bad character that follows it.
\<close>

fun parse_uint_loop :: "nat \<Rightarrow> string \<Rightarrow> nat \<times> num_err option" where
  "parse_uint_loop n [] = (n, None)"
| "parse_uint_loop n (c # cs) =
     (if \<not> is_digit c then (0, Some ErrSyntax)
      else if n \<ge> 1844674407370955162 then (18446744073709551615, Some ErrRange)
      else (let n1 = n * 10 + digit_val c in
        if n1 \<ge> 18446744073709551616 then (18446744073709551615, Some ErrRange)
        else parse_uint_loop n1 cs))"

text \<open>
  \<open>strconv.Atoi\<close> on a 64-bit \<open>int\<close>: the value and the error.  A caller that ignores the error sees
  0 after a syntax error and the nearest 64-bit value after a range error.
\<close>

definition atoi_signed :: "bool \<Rightarrow> string \<Rightarrow> int \<times> num_err option" where
  "atoi_signed neg ds =
     (if ds = [] then (0, Some ErrSyntax)
      else (case parse_uint_loop 0 ds of
        (un, Some ErrSyntax) \<Rightarrow> (0, Some ErrSyntax)
      | (un, _) \<Rightarrow>
          if \<not> neg \<and> un \<ge> 9223372036854775808 then (9223372036854775807, Some ErrRange)
          else if neg \<and> un > 9223372036854775808 then (- 9223372036854775808, Some ErrRange)
          else (if neg then - int un else int un, None)))"

definition atoi :: "string \<Rightarrow> int \<times> num_err option" where
  "atoi s =
     (case s of
        [] \<Rightarrow> (0, Some ErrSyntax)
      | c # cs \<Rightarrow>
          if c = CHR ''-'' then atoi_signed True cs
          else if c = CHR ''+'' then atoi_signed False cs
          else atoi_signed False (c # cs))"

section \<open>File names\<close>

text \<open>
  \<open>filepath.Clean\<close>: split at the slashes, drop empty and \<open>.\<close> elements, resolve \<open>..\<close> against the
  element before it; \<open>..\<close> at the root vanishes, at the start of a relative name it stays.
\<close>

fun clean_elems :: "bool \<Rightarrow> string list \<Rightarrow> string list \<Rightarrow> string list" where
  "clean_elems rooted acc [] = rev acc"
| "clean_elems rooted acc (e # es) =
     (if e = [] \<or> e = ''.'' then clean_elems rooted acc es
      else if e = ''..'' then
        (if acc \<noteq> [] \<and> hd acc \<noteq> ''..'' then clean_elems rooted (tl acc) es
         else if rooted then clean_elems rooted acc es
         else clean_elems rooted (e # acc) es)
      else clean_elems rooted (e # acc) es)"

definition path_rooted :: "string \<Rightarrow> bool" where
  "path_rooted p \<longleftrightarrow> has_prefix p ''/''"

definition path_elems :: "string \<Rightarrow> string list" where
  "path_elems p = clean_elems (path_rooted p) [] (split_on (CHR ''/'') p)"

definition path_clean :: "string \<Rightarrow> string" where
  "path_clean p =
     (let body = join ''/'' (path_elems p) in
      if path_rooted p then ''/'' @ body else if body = [] then ''.'' else body)"

text \<open>\<open>filepath.Join\<close>: the non-empty parts from the first one on, joined by slashes and cleaned.\<close>

definition path_join :: "string list \<Rightarrow> string" where
  "path_join ps =
     (let qs = filter (\<lambda>p. p \<noteq> []) ps in if qs = [] then [] else path_clean (join ''/'' qs))"

definition path_dir :: "string \<Rightarrow> string" where
  "path_dir p = path_clean (rev (dropWhile (\<lambda>c. c \<noteq> CHR ''/'') (rev p)))"

section \<open>Facts about splitting and joining\<close>

lemma split_by_not_Nil [simp]: "split_by p s \<noteq> []"
  by (induction s) (auto split: list.splits)

lemma split_by_none: "\<forall>c \<in> set s. \<not> p c \<Longrightarrow> split_by p s = [s]"
  by (induction s) auto

lemma split_by_append_sep: "p c \<Longrightarrow> split_by p (a @ c # b) = split_by p a @ split_by p b"
  by (induction a) (auto split: list.splits)

lemma split_by_word: "w \<in> set (split_by p s) \<Longrightarrow> c \<in> set w \<Longrightarrow> \<not> p c"
proof (induction s arbitrary: w)
  case Nil
  then show ?case by simp
next
  case (Cons d s)
  then show ?case by (cases "split_by p s") (fastforce split: if_splits)+
qed

lemma split_by_letters: "w \<in> set (split_by p s) \<Longrightarrow> set w \<subseteq> set s"
proof (induction s arbitrary: w)
  case Nil
  then show ?case by simp
next
  case (Cons d s)
  then show ?case by (cases "split_by p s") (fastforce split: if_splits)+
qed

lemma split_on_not_Nil [simp]: "split_on sep s \<noteq> []"
  by (simp add: split_on_def)

lemma split_on_none [go_words]: "sep \<notin> set s \<Longrightarrow> split_on sep s = [s]"
  unfolding split_on_def by (rule split_by_none) auto

lemma split_on_append_sep [go_words]: "split_on sep (a @ sep # b) = split_on sep a @ split_on sep b"
  by (simp add: split_on_def split_by_append_sep)

lemma split_on_word: "w \<in> set (split_on sep s) \<Longrightarrow> sep \<notin> set w"
  unfolding split_on_def using split_by_word by blast

lemma cut_at_append: "sep \<notin> set a \<Longrightarrow> cut_at sep (a @ sep # b) = (a, Some b)"
  and cut_at_none: "sep \<notin> set a \<Longrightarrow> cut_at sep a = (a, None)"
  by (induction a) auto

lemma join_Cons: "ws \<noteq> [] \<Longrightarrow> join sep (w # ws) = w @ sep @ join sep ws"
  by (cases ws) simp_all

lemma join_append: "us \<noteq> [] \<Longrightarrow> vs \<noteq> [] \<Longrightarrow> join sep (us @ vs) = join sep us @ sep @ join sep vs"
proof (induction us)
  case Nil
  then show ?case by simp
next
  case (Cons u us)
  then show ?case by (cases "us = []") (simp_all add: join_Cons)
qed

theorem join_split_on [simp]: "join [sep] (split_on sep s) = s"
proof (induction s)
  case Nil
  show ?case by (simp add: split_on_def)
next
  case (Cons c cs)
  obtain w ws where ws: "split_by (\<lambda>c. c = sep) cs = w # ws"
    by (meson list.exhaust split_by_not_Nil)
  with Cons have "join [sep] (w # ws) = cs" by (simp add: split_on_def)
  with ws show ?case by (cases ws) (auto simp: split_on_def join_Cons)
qed

theorem split_on_join:
  "ws \<noteq> [] \<Longrightarrow> \<forall>w \<in> set ws. sep \<notin> set w \<Longrightarrow> split_on sep (join [sep] ws) = ws"
proof (induction ws)
  case Nil
  then show ?case by simp
next
  case (Cons w ws)
  then show ?case
    by (cases "ws = []") (simp_all add: join_Cons split_on_append_sep split_on_none)
qed

lemma set_join: "set (join sep ws) \<subseteq> (\<Union>w \<in> set ws. set w) \<union> set sep"
proof (induction ws)
  case Nil
  show ?case by simp
next
  case (Cons w ws)
  then show ?case by (cases "ws = []") (auto simp: join_Cons)
qed

lemma fields_Nil [simp]: "str_fields [] = []"
  by (simp add: str_fields_def)

lemma fields_append_space [go_words]: "is_space c \<Longrightarrow> str_fields (a @ c # b) = str_fields a @ str_fields b"
  by (simp add: str_fields_def split_by_append_sep)

lemma fields_space_Cons [go_words]: "is_space c \<Longrightarrow> str_fields (c # b) = str_fields b"
  using fields_append_space [of c "[]" b] by simp

lemma fields_word: "w \<in> set (str_fields s) \<Longrightarrow> w \<noteq> [] \<and> (\<forall>c \<in> set w. \<not> is_space c)"
  using split_by_word by (fastforce simp: str_fields_def)

lemma fields_letters: "w \<in> set (str_fields s) \<Longrightarrow> set w \<subseteq> set s"
  using split_by_letters by (fastforce simp: str_fields_def)

lemma fields_single [go_words]: "w \<noteq> [] \<Longrightarrow> \<forall>c \<in> set w. \<not> is_space c \<Longrightarrow> str_fields w = [w]"
  by (simp add: str_fields_def split_by_none)

theorem fields_join_space:
  "\<forall>w \<in> set ws. w \<noteq> [] \<and> (\<forall>c \<in> set w. \<not> is_space c) \<Longrightarrow> str_fields (join '' '' ws) = ws"
proof (induction ws)
  case Nil
  show ?case by simp
next
  case (Cons w ws)
  then show ?case
    by (cases "ws = []") (simp_all add: join_Cons fields_append_space fields_single)
qed

lemma fields_dropWhile: "str_fields (dropWhile is_space s) = str_fields s"
  by (induction s) (auto simp: fields_space_Cons)

lemma fields_all_space: "\<forall>c \<in> set s. is_space c \<Longrightarrow> str_fields s = []"
  by (induction s) (auto simp: fields_space_Cons)

lemma fields_append_spaces: "\<forall>c \<in> set t. is_space c \<Longrightarrow> str_fields (s @ t) = str_fields s"
  by (cases t) (simp_all add: fields_append_space fields_all_space)

section \<open>Facts about trimming\<close>

lemma trim_right_decomp: "\<exists>t. s = trim_right s @ t \<and> (\<forall>c \<in> set t. is_space c)"
proof -
  have "rev s = takeWhile is_space (rev s) @ dropWhile is_space (rev s)" by simp
  then have "s = trim_right s @ rev (takeWhile is_space (rev s))"
    unfolding trim_right_def by (metis rev_append rev_rev_ident)
  then show ?thesis using set_takeWhileD by fastforce
qed

theorem fields_trim_space [simp]: "str_fields (trim_space s) = str_fields s"
proof -
  obtain t where "trim_left s = trim_space s @ t" and "\<forall>c \<in> set t. is_space c"
    unfolding trim_space_def using trim_right_decomp by blast
  then have "str_fields (trim_left s) = str_fields (trim_space s)"
    by (metis fields_append_spaces)
  then show ?thesis by (simp add: trim_left_def fields_dropWhile)
qed

lemma trim_right_id: "s = [] \<or> \<not> is_space (last s) \<Longrightarrow> trim_right s = s"
  by (cases s rule: rev_cases) (auto simp: trim_right_def)

lemma trim_left_id: "s = [] \<or> \<not> is_space (hd s) \<Longrightarrow> trim_left s = s"
  by (cases s) (auto simp: trim_left_def)

lemma trim_space_id: "s \<noteq> [] \<Longrightarrow> \<not> is_space (hd s) \<Longrightarrow> \<not> is_space (last s) \<Longrightarrow> trim_space s = s"
  by (simp add: trim_space_def trim_left_id trim_right_id)

lemma trim_space_Nil [simp]: "trim_space [] = []"
  by (simp add: trim_space_def trim_left_def trim_right_def)

lemma last_trim_right: "trim_right s \<noteq> [] \<Longrightarrow> \<not> is_space (last (trim_right s))"
  unfolding trim_right_def by (simp add: last_rev hd_dropWhile)

lemma hd_trim_right: "trim_right s \<noteq> [] \<Longrightarrow> hd (trim_right s) = hd s"
  using trim_right_decomp [of s] by (metis hd_append2)

lemma trim_space_ends:
  assumes "trim_space s \<noteq> []"
  shows "\<not> is_space (hd (trim_space s))" and "\<not> is_space (last (trim_space s))"
proof -
  from assms have "hd (trim_space s) = hd (trim_left s)" and "trim_left s \<noteq> []"
    by (auto simp: trim_space_def hd_trim_right) (simp add: trim_right_def)
  then show "\<not> is_space (hd (trim_space s))"
    by (simp add: trim_left_def hd_dropWhile)
  from assms show "\<not> is_space (last (trim_space s))"
    by (simp add: trim_space_def last_trim_right)
qed

theorem trim_space_idem [simp]: "trim_space (trim_space s) = trim_space s"
  by (cases "trim_space s = []") (simp_all add: trim_space_id trim_space_ends)

lemma set_trim_space: "set (trim_space s) \<subseteq> set s"
proof -
  have "set (dropWhile is_space xs) \<subseteq> set xs" for xs by (auto dest: set_dropWhileD)
  then show ?thesis unfolding trim_space_def trim_left_def trim_right_def
    by (metis set_rev subset_trans)
qed

lemma trim_space_Nil_iff: "trim_space s = [] \<longleftrightarrow> (\<forall>c \<in> set s. is_space c)"
proof
  assume "trim_space s = []"
  then have "\<forall>c \<in> set (trim_left s). is_space c"
    by (simp add: trim_space_def trim_right_def)
  then have "trim_left s = []"
    by (metis dropWhile_eq_Cons_conv list.set_intros(1) neq_Nil_conv trim_left_def)
  then show "\<forall>c \<in> set s. is_space c" by (simp add: trim_left_def)
next
  assume "\<forall>c \<in> set s. is_space c"
  then have "trim_left s = []" by (simp add: trim_left_def)
  then show "trim_space s = []" by (simp add: trim_space_def trim_right_def)
qed

lemma trim_space_Cons_space [simp]: "is_space c \<Longrightarrow> trim_space (c # s) = trim_space s"
  by (simp add: trim_space_def trim_left_def)

section \<open>Facts about prefixes, substrings and case\<close>

lemma has_prefix_iff: "has_prefix s p \<longleftrightarrow> (\<exists>t. s = p @ t)"
  unfolding has_prefix_def by (metis append_eq_conv_conj append_take_drop_id)

lemma has_prefix_append [simp]: "has_prefix (p @ t) p"
  by (simp add: has_prefix_def)

lemma has_prefix_Nil [simp]: "has_prefix s []"
  by (simp add: has_prefix_def)

lemma has_prefix_refl [simp]: "has_prefix s s"
  by (simp add: has_prefix_def)

lemma has_prefix_Cons [simp]: "has_prefix (c # s) (d # p) \<longleftrightarrow> c = d \<and> has_prefix s p"
  by (auto simp: has_prefix_def)

lemma has_prefix_empty [simp]: "has_prefix [] p \<longleftrightarrow> p = []"
  by (auto simp: has_prefix_def)

lemma has_prefix_trans: "has_prefix a b \<Longrightarrow> has_prefix b c \<Longrightarrow> has_prefix a c"
  by (auto simp: has_prefix_iff)

lemma has_prefix_appendI: "has_prefix s p \<Longrightarrow> has_prefix (s @ t) p"
  by (auto simp: has_prefix_iff)

lemma contains_iff: "contains s sub \<longleftrightarrow> (\<exists>a b. s = a @ sub @ b)"
proof (induction s)
  case Nil
  show ?case by simp
next
  case (Cons c cs)
  have "(\<exists>a b. c # cs = a @ sub @ b) \<longleftrightarrow> has_prefix (c # cs) sub \<or> (\<exists>a b. cs = a @ sub @ b)"
    by (auto simp: has_prefix_iff Cons_eq_append_conv)
  with Cons show ?case by simp
qed

lemma contains_middle [simp]: "contains (a @ sub @ b) sub"
  by (auto simp: contains_iff)

lemma contains_refl [simp]: "contains s s"
  using contains_middle [of "[]" s "[]"] by simp

lemma trim_prefix_append [simp]: "trim_prefix (p @ s) p = s"
  by (simp add: trim_prefix_def)

lemma lower_char_idem [simp]: "lower_char (lower_char c) = lower_char c"
  by (auto simp: lower_char_def Let_def)

lemma to_lower_idem [simp]: "to_lower (to_lower s) = to_lower s"
  by (simp add: to_lower_def)

lemma equal_fold_refl [simp]: "equal_fold a a"
  and equal_fold_sym: "equal_fold a b \<Longrightarrow> equal_fold b a"
  and equal_fold_trans: "equal_fold a b \<Longrightarrow> equal_fold b c \<Longrightarrow> equal_fold a c"
  by (simp_all add: equal_fold_def)

section \<open>Facts about lines\<close>

text \<open>A file written line by line: every line ends with a line feed.\<close>

definition unlines :: "string list \<Rightarrow> string" where
  "unlines ls = concat (map (\<lambda>l. l @ [newline]) ls)"

text \<open>Text whose last line is complete, so that appending starts a new line.\<close>

definition ends_line :: "string \<Rightarrow> bool" where
  "ends_line s \<longleftrightarrow> s = [] \<or> last s = newline"

lemma unlines_Nil [simp]: "unlines [] = []"
  and unlines_Cons [simp]: "unlines (l # ls) = l @ newline # unlines ls"
  and unlines_append [simp]: "unlines (ks @ ls) = unlines ks @ unlines ls"
  by (simp_all add: unlines_def)

lemma ends_line_unlines [simp]: "ends_line (unlines ls)"
  by (cases ls rule: rev_cases) (simp_all add: ends_line_def)

lemma join_newline_unlines: "ls \<noteq> [] \<Longrightarrow> join [newline] ls @ [newline] = unlines ls"
proof (induction ls)
  case Nil
  then show ?case by simp
next
  case (Cons l ls)
  then show ?case by (cases "ls = []") (simp_all add: join_Cons)
qed

lemma split_on_newline_unlines:
  "\<forall>l \<in> set ls. newline \<notin> set l \<Longrightarrow> split_on newline (unlines ls @ t) = ls @ split_on newline t"
  by (induction ls) (simp_all add: split_on_append_sep split_on_none)

theorem raw_lines_unlines:
  "\<forall>l \<in> set ls. newline \<notin> set l \<Longrightarrow> raw_lines (unlines ls) = ls"
  using split_on_newline_unlines [of ls "[]"] by (simp add: raw_lines_def split_on_none)

lemma raw_line_no_newline: "l \<in> set (raw_lines s) \<Longrightarrow> newline \<notin> set l"
  unfolding raw_lines_def by (auto simp: Let_def split: if_splits dest: in_set_butlastD split_on_word)

lemma raw_lines_decomp:
  "s = unlines (raw_lines s) \<or> (raw_lines s \<noteq> [] \<and> s = join [newline] (raw_lines s) \<and> \<not> ends_line s)"
proof (cases "last (split_on newline s) = []")
  case True
  then obtain ls where ls: "split_on newline s = ls @ [[]]"
    by (metis append_butlast_last_id split_on_not_Nil)
  then have "s = join [newline] (ls @ [[]])" by (metis join_split_on)
  also have "\<dots> = unlines ls"
    by (cases "ls = []") (simp_all add: join_append flip: join_newline_unlines)
  finally show ?thesis using ls by (simp add: raw_lines_def)
next
  case False
  let ?ls = "split_on newline s"
  obtain us u where us: "?ls = us @ [u]" and u: "u \<noteq> []" "newline \<notin> set u"
    using False split_on_word by (metis append_butlast_last_id last_in_set split_on_not_Nil last_snoc)
  have "s = join [newline] (us @ [u])" using us by (metis join_split_on)
  then have "\<exists>v. s = v @ u" by (cases "us = []") (auto simp: join_append)
  with u have "\<not> ends_line s" by (metis append_is_Nil_conv ends_line_def last_appendR last_in_set)
  moreover have "raw_lines s = ?ls" using False by (simp add: raw_lines_def)
  ultimately show ?thesis by simp
qed

lemma unlines_raw_lines: "ends_line s \<Longrightarrow> unlines (raw_lines s) = s"
  using raw_lines_decomp by metis

theorem raw_lines_append:
  assumes "ends_line s"
  shows "raw_lines (s @ t) = raw_lines s @ raw_lines t"
proof -
  have "split_on newline (s @ t) = raw_lines s @ split_on newline t"
    using split_on_newline_unlines [of "raw_lines s" t] assms raw_line_no_newline
    by (simp add: unlines_raw_lines)
  then show ?thesis
    by (simp add: raw_lines_def Let_def butlast_append)
qed

lemma raw_lines_Nil [simp]: "raw_lines [] = []"
  by (simp add: raw_lines_def split_on_none)

lemma raw_lines_line: "newline \<notin> set l \<Longrightarrow> raw_lines (l @ [newline]) = [l]"
  using raw_lines_unlines [of "[l]"] by simp

lemma scan_lines_short:
  "\<not> scan_too_long s \<Longrightarrow> scan_lines s = map drop_cr (raw_lines s)"
  unfolding scan_lines_def scan_too_long_def by (metis list.pred_set takeWhile_eq_all_conv)

lemma trim_space_snoc_space: "is_space c \<Longrightarrow> trim_space (s @ [c]) = trim_space s"
proof -
  assume c: "is_space c"
  show "trim_space (s @ [c]) = trim_space s"
  proof (cases "\<forall>x \<in> set s. is_space x")
    case True
    with c have "trim_space (s @ [c]) = []" and "trim_space s = []" by (simp_all add: trim_space_Nil_iff)
    then show ?thesis by simp
  next
    case False
    then have "trim_left (s @ [c]) = trim_left s @ [c]"
      unfolding trim_left_def by (induction s) auto
    with c show ?thesis by (simp add: trim_space_def trim_right_def)
  qed
qed

lemma trim_space_drop_cr [simp]: "trim_space (drop_cr l) = trim_space l"
proof (cases "l \<noteq> [] \<and> last l = carriage_return")
  case True
  then have "l = butlast l @ [carriage_return]" by (metis append_butlast_last_id)
  then show ?thesis using True trim_space_snoc_space [of carriage_return "butlast l"]
    by (simp add: drop_cr_def)
qed (auto simp: drop_cr_def)

lemma drop_cr_trimmed: "trim_space l = l \<Longrightarrow> drop_cr l = l"
proof (cases "l = []")
  case False
  assume "trim_space l = l"
  with False have "\<not> is_space (last l)" using trim_space_ends(2) [of l] by simp
  then show "drop_cr l = l" by (auto simp: drop_cr_def)
qed (simp add: drop_cr_def)

lemma trim_left_decomp: "\<exists>sp. l = sp @ trim_left l \<and> list_all is_space sp"
  unfolding trim_left_def list_all_iff by (metis set_takeWhileD takeWhile_dropWhile_id)

lemma trim_space_decomp:
  obtains sp t where "l = sp @ trim_space l @ t" "list_all is_space sp" "list_all is_space t"
proof -
  obtain sp where "l = sp @ trim_left l" "list_all is_space sp" using trim_left_decomp by blast
  moreover obtain t where "trim_left l = trim_space l @ t" "list_all is_space t"
    using trim_right_decomp [of "trim_left l"] by (auto simp: trim_space_def list_all_iff)
  ultimately show ?thesis using that by (metis append.assoc)
qed

section \<open>Facts about decimal numbers\<close>

lemma digit_char_props: "n < 10 \<Longrightarrow> is_digit (digit_char n) \<and> digit_val (digit_char n) = n"
  by (simp add: is_digit_def digit_char_def digit_val_def)

lemma digit_not_space: "is_digit c \<Longrightarrow> \<not> is_space c"
  by (auto simp: is_digit_def is_space_def)

lemma nat_str_not_Nil [simp]: "nat_str n \<noteq> []"
  by (subst nat_str.simps) simp

lemma nat_str_digits: "c \<in> set (nat_str n) \<Longrightarrow> is_digit c"
proof (induction n rule: nat_str.induct)
  case (1 n)
  then show ?case
    by (cases "n < 10") (auto simp: nat_str.simps [of n] digit_char_props)
qed

lemma hd_nat_str: "is_digit (hd (nat_str n))"
  by (rule nat_str_digits [of _ n]) simp

lemma parse_uint_loop_append:
  "parse_uint_loop m xs = (k, None) \<Longrightarrow> parse_uint_loop m (xs @ ys) = parse_uint_loop k ys"
  by (induction m xs rule: parse_uint_loop.induct) (auto simp: Let_def split: if_splits)

lemma parse_nat_str:
  "n < 18446744073709551616 \<Longrightarrow> parse_uint_loop 0 (nat_str n) = (n, None)"
proof (induction n rule: nat_str.induct)
  case (1 n)
  show ?case
  proof (cases "n < 10")
    case True
    then show ?thesis by (simp add: nat_str.simps [of n] digit_char_props)
  next
    case False
    with 1 have "parse_uint_loop 0 (nat_str (n div 10)) = (n div 10, None)" by simp
    moreover have "n div 10 * 10 + n mod 10 = n" by simp
    moreover have "n div 10 < 1844674407370955162" using "1.prems" by simp
    ultimately show ?thesis using False "1.prems"
      by (simp add: nat_str.simps [of n] parse_uint_loop_append digit_char_props)
  qed
qed

text \<open>Printing a 64-bit integer and reading it back.\<close>

theorem atoi_itoa:
  assumes "- 9223372036854775808 \<le> i" and "i \<le> 9223372036854775807"
  shows "atoi (itoa i) = (i, None)"
proof (cases "i < 0")
  case True
  then show ?thesis using assms
    by (simp add: itoa_def atoi_def atoi_signed_def parse_nat_str)
next
  case False
  obtain c cs where c: "nat_str (nat i) = c # cs" by (cases "nat_str (nat i)") auto
  then have "c \<noteq> CHR ''-''" and "c \<noteq> CHR ''+''"
    using hd_nat_str [of "nat i"] by (auto simp: is_digit_def)
  with False assms c show ?thesis
    using parse_nat_str [of "nat i"] by (simp add: itoa_def atoi_def atoi_signed_def)
qed

lemma itoa_no_space: "c \<in> set (itoa i) \<Longrightarrow> \<not> is_space c"
  by (auto simp: itoa_def is_space_def split: if_splits dest: nat_str_digits)
     (auto simp: is_digit_def dest!: nat_str_digits)

lemma itoa_not_Nil [simp]: "itoa i \<noteq> []"
  by (simp add: itoa_def)

text \<open>Printing is injective, at any size.\<close>

lemma nat_str_value: "foldl (\<lambda>a c. 10 * a + digit_val c) 0 (nat_str n) = n"
proof (induction n rule: nat_str.induct)
  case (1 n)
  then show ?case by (cases "n < 10") (simp_all add: nat_str.simps [of n] digit_char_props)
qed

lemma nat_str_inject [simp]: "nat_str m = nat_str n \<longleftrightarrow> m = n"
  by (metis nat_str_value)

lemma itoa_inject [simp]: "itoa i = itoa j \<longleftrightarrow> i = j"
proof -
  have "nat_str n \<noteq> CHR ''-'' # s" for s n
  proof
    assume "nat_str n = CHR ''-'' # s"
    then have "is_digit (CHR ''-'')" using hd_nat_str [of n] by simp
    then show False by (simp add: is_digit_def)
  qed
  from this this [symmetric] show ?thesis by (auto simp: itoa_def)
qed

lemma itoa_no_colon [simp]: "CHR '':'' \<notin> set (itoa i)"
  by (auto simp: itoa_def is_digit_def dest!: nat_str_digits split: if_splits)

end
