(* ===== verification/FileSystem.thy ===== *)
theory FileSystem
  imports Prelude
begin

text \<open>
  The file operations of Go's \<open>os\<close> package that the program uses, on an explicit file system:
  \<open>Stat\<close>, \<open>ReadFile\<close>, \<open>WriteFile\<close>, opening a file for appending and writing to it,
  \<open>MkdirAll\<close>, \<open>Rename\<close> and \<open>Remove\<close>.  A state maps the path of every existing file to its
  content; the other fields say which operations the operating system refuses.  Every operation
  returns the new state and, as Go does, the error or \<open>None\<close>.

  \<open>os.WriteFile\<close> truncates before it writes, so a write that fails half way (a full disk) leaves a
  prefix of the data behind: \<open>WShort n\<close> is the fault where only \<open>n\<close> bytes arrive.  Permission bits
  are not part of the state.

  The locale \<open>file_store\<close> is the contract that the components built on one configuration file
  rely on; it is interpreted on the operations below.
\<close>

datatype ioerr = NotExist | IOFail

definition ioerr_msg :: "ioerr \<Rightarrow> string" where
  "ioerr_msg e = (case e of NotExist \<Rightarrow> ''no such file or directory'' | IOFail \<Rightarrow> ''input/output error'')"

datatype write_fault = WOk | WOpenFail | WShort nat

record fsys =
  files :: "string \<rightharpoonup> string"
  stat_denied :: "string \<Rightarrow> bool"
  read_denied :: "string \<Rightarrow> bool"
  write_fault_at :: "string \<Rightarrow> write_fault"
  mkdir_denied :: "string \<Rightarrow> bool"
  rename_denied :: "string \<Rightarrow> string \<Rightarrow> bool"
  remove_denied :: "string \<Rightarrow> bool"

definition os_stat :: "fsys \<Rightarrow> string \<Rightarrow> ioerr option" where
  "os_stat fs p =
     (if stat_denied fs p then Some IOFail
      else (case files fs p of None \<Rightarrow> Some NotExist | Some _ \<Rightarrow> None))"

definition os_read_file :: "fsys \<Rightarrow> string \<Rightarrow> ioerr + string" where
  "os_read_file fs p =
     (case files fs p of
        None \<Rightarrow> Inl NotExist
      | Some d \<Rightarrow> if read_denied fs p then Inl IOFail else Inr d)"

definition set_file :: "string \<Rightarrow> string \<Rightarrow> fsys \<Rightarrow> fsys" where
  "set_file p d fs = fs\<lparr>files := (files fs)(p \<mapsto> d)\<rparr>"

definition del_file :: "string \<Rightarrow> fsys \<Rightarrow> fsys" where
  "del_file p fs = fs\<lparr>files := (files fs)(p := None)\<rparr>"

definition os_write_file :: "string \<Rightarrow> string \<Rightarrow> fsys \<Rightarrow> fsys \<times> ioerr option" where
  "os_write_file p d fs =
     (case write_fault_at fs p of
        WOk \<Rightarrow> (set_file p d fs, None)
      | WOpenFail \<Rightarrow> (fs, Some IOFail)
      | WShort n \<Rightarrow> (set_file p (take n d) fs, Some IOFail))"

text \<open>
  \<open>os.OpenFile(p, O_APPEND|O_CREATE|O_WRONLY, 0600)\<close> and \<open>WriteString\<close> on the result, as the two
  steps the source takes: opening creates an empty file when there is none.
\<close>

definition os_open_append :: "string \<Rightarrow> fsys \<Rightarrow> fsys \<times> ioerr option" where
  "os_open_append p fs =
     (case write_fault_at fs p of
        WOpenFail \<Rightarrow> (fs, Some IOFail)
      | _ \<Rightarrow> (case files fs p of None \<Rightarrow> (set_file p [] fs, None) | Some _ \<Rightarrow> (fs, None)))"

definition os_append_string :: "string \<Rightarrow> string \<Rightarrow> fsys \<Rightarrow> fsys \<times> ioerr option" where
  "os_append_string p d fs =
     (let old = (case files fs p of None \<Rightarrow> [] | Some c \<Rightarrow> c) in
      case write_fault_at fs p of
        WShort n \<Rightarrow> (set_file p (old @ take n d) fs, Some IOFail)
      | _ \<Rightarrow> (set_file p (old @ d) fs, None))"

definition os_mkdir_all :: "string \<Rightarrow> fsys \<Rightarrow> ioerr option" where
  "os_mkdir_all p fs = (if mkdir_denied fs p then Some IOFail else None)"

definition os_rename :: "string \<Rightarrow> string \<Rightarrow> fsys \<Rightarrow> fsys \<times> ioerr option" where
  "os_rename a b fs =
     (case files fs a of
        None \<Rightarrow> (fs, Some NotExist)
      | Some d \<Rightarrow> if rename_denied fs a b then (fs, Some IOFail)
                  else (set_file b d (if a = b then fs else del_file a fs), None))"

definition os_remove :: "string \<Rightarrow> fsys \<Rightarrow> fsys \<times> ioerr option" where
  "os_remove p fs =
     (case files fs p of
        None \<Rightarrow> (fs, Some NotExist)
      | Some _ \<Rightarrow> if remove_denied fs p then (fs, Some IOFail) else (del_file p fs, None))"

text \<open>A file system that refuses nothing, for examples.\<close>

definition fs_with :: "(string \<times> string) list \<Rightarrow> fsys" where
  "fs_with kvs = \<lparr>files = map_of kvs, stat_denied = (\<lambda>_. False), read_denied = (\<lambda>_. False),
     write_fault_at = (\<lambda>_. WOk), mkdir_denied = (\<lambda>_. False), rename_denied = (\<lambda>_ _. False),
     remove_denied = (\<lambda>_. False)\<rparr>"

section \<open>Facts about the operations\<close>

lemma map_prod_None [simp]: "map_prod id (map_option g) x = (a, None) \<longleftrightarrow> x = (a, None)"
  by (cases x) auto

lemma files_set_file [simp]: "files (set_file p d fs) = (files fs)(p \<mapsto> d)"
  and files_del_file [simp]: "files (del_file p fs) = (files fs)(p := None)"
  by (simp_all add: set_file_def del_file_def)

lemma set_file_policy [simp]:
  "stat_denied (set_file p d fs) = stat_denied fs"
  "read_denied (set_file p d fs) = read_denied fs"
  "write_fault_at (set_file p d fs) = write_fault_at fs"
  "mkdir_denied (set_file p d fs) = mkdir_denied fs"
  "rename_denied (set_file p d fs) = rename_denied fs"
  "remove_denied (set_file p d fs) = remove_denied fs"
  by (simp_all add: set_file_def)

lemma del_file_policy [simp]:
  "stat_denied (del_file p fs) = stat_denied fs"
  "read_denied (del_file p fs) = read_denied fs"
  "write_fault_at (del_file p fs) = write_fault_at fs"
  "mkdir_denied (del_file p fs) = mkdir_denied fs"
  "rename_denied (del_file p fs) = rename_denied fs"
  "remove_denied (del_file p fs) = remove_denied fs"
  by (simp_all add: del_file_def)

lemma fs_with_simps [simp]:
  "files (fs_with kvs) = map_of kvs"
  "\<not> stat_denied (fs_with kvs) p" "\<not> read_denied (fs_with kvs) p"
  "write_fault_at (fs_with kvs) p = WOk" "\<not> mkdir_denied (fs_with kvs) p"
  "\<not> rename_denied (fs_with kvs) p q" "\<not> remove_denied (fs_with kvs) p"
  by (simp_all add: fs_with_def)

lemma os_write_file_other: "q \<noteq> p \<Longrightarrow> files (fst (os_write_file p d fs)) q = files fs q"
  by (simp add: os_write_file_def split: write_fault.splits)

lemma os_write_file_read:
  "os_write_file p d fs = (fs', None) \<Longrightarrow> \<not> read_denied fs p \<Longrightarrow> os_read_file fs' p = Inr d"
  by (auto simp: os_write_file_def os_read_file_def split: write_fault.splits)

lemma os_write_file_policy:
  "read_denied (fst (os_write_file p d fs)) = read_denied fs"
  by (simp add: os_write_file_def split: write_fault.splits)

lemma os_write_file_policyD:
  "os_write_file p d fs = (fs', e) \<Longrightarrow> read_denied fs' = read_denied fs"
  using os_write_file_policy [of p d fs] by simp

section \<open>The contract of a component that keeps one file\<close>

text \<open>
  \<open>load\<close> reads a path, \<open>store\<close> replaces its content; \<open>readable\<close> says that reading is permitted.
  The laws: after a successful store, a permitted load gives what was stored; storing keeps what is
  readable and touches no other file.
\<close>

locale file_store =
  fixes load :: "'fs \<Rightarrow> string \<Rightarrow> 'e + string"
    and store :: "string \<Rightarrow> string \<Rightarrow> 'fs \<Rightarrow> 'fs \<times> 'e option"
    and readable :: "'fs \<Rightarrow> string \<Rightarrow> bool"
  assumes load_store:
      "store p d fs = (fs', None) \<Longrightarrow> readable fs p \<Longrightarrow> load fs' p = Inr d"
    and readable_store: "store p d fs = (fs', e) \<Longrightarrow> readable fs' q \<longleftrightarrow> readable fs q"
    and load_other: "store p d fs = (fs', e) \<Longrightarrow> q \<noteq> p \<Longrightarrow> load fs' q = load fs q"
begin

text \<open>
  A component rewrites its file with \<open>f\<close> of the old content.  Doing so with \<open>f\<close> and then with
  \<open>g\<close> shows the reader \<open>g (f d)\<close>; if \<open>g\<close> undoes \<open>f\<close> on \<open>d\<close>, the file is as before.
\<close>

definition rewrite :: "string \<Rightarrow> (string \<Rightarrow> string) \<Rightarrow> 'fs \<Rightarrow> 'fs \<times> 'e option" where
  "rewrite p f fs = (case load fs p of Inl e \<Rightarrow> (fs, Some e) | Inr d \<Rightarrow> store p (f d) fs)"

lemma load_rewrite:
  assumes "load fs p = Inr d" and "rewrite p f fs = (fs', None)" and "readable fs p"
  shows "load fs' p = Inr (f d)" and "readable fs' p"
  using assms load_store readable_store by (auto simp: rewrite_def)

lemma rewrite_undo:
  assumes "load fs p = Inr d" and "rewrite p f fs = (fs1, None)" and "rewrite p g fs1 = (fs2, None)"
    and "readable fs p" and "g (f d) = d"
  shows "load fs2 p = load fs p"
proof -
  have "load fs1 p = Inr (f d)" and "readable fs1 p"
    using load_rewrite [OF assms(1,2,4)] by auto
  then have "load fs2 p = Inr (g (f d))" using load_rewrite(1) assms(3) by blast
  with assms show ?thesis by simp
qed

lemma load_two_stores:
  assumes "store p a fs = (fs1, None)" and "store q b fs1 = (fs2, e)" and "p \<noteq> q" and "readable fs p"
  shows "load fs2 p = Inr a"
  using load_other [OF assms(2) assms(3)] load_store [OF assms(1,4)] by simp

end

interpretation osfs: file_store os_read_file os_write_file "\<lambda>fs p. \<not> read_denied fs p"
proof
  fix p d fs fs' e q
  show "os_read_file fs' p = Inr d"
    if "os_write_file p d fs = (fs', None)" "\<not> read_denied fs p"
    using that by (rule os_write_file_read)
  show "(\<not> read_denied fs' q) \<longleftrightarrow> (\<not> read_denied fs q)" if "os_write_file p d fs = (fs', e)"
    using os_write_file_policy [of p d fs] that by simp
  show "os_read_file fs' q = os_read_file fs q" if "os_write_file p d fs = (fs', e)" "q \<noteq> p"
    using os_write_file_other [of q p d fs] os_write_file_policy [of p d fs] that
    by (simp add: os_read_file_def split: option.split)
qed

end
