(* ===== verification/Paths.thy ===== *)
theory Paths
  imports Prelude
begin

text \<open>
  Facts about \<open>filepath.Clean\<close> and \<open>filepath.Join\<close> on rooted paths: a clean path is a slash and its
  elements joined by slashes, none of them empty, \<open>.\<close> or \<open>..\<close>; cleaning is idempotent; and what
  joining a directory with a relative name gives, without and with \<open>..\<close> elements in the name.
\<close>

abbreviation slash :: char where "slash \<equiv> CHR ''/''"

definition plain_elem :: "string \<Rightarrow> bool" where
  "plain_elem e \<longleftrightarrow> e \<noteq> [] \<and> e \<noteq> ''.'' \<and> e \<noteq> ''..'' \<and> slash \<notin> set e"

definition path_of :: "string list \<Rightarrow> string" where
  "path_of es = slash # join ''/'' es"

text \<open>A clean rooted directory other than the root.\<close>

definition clean_dir :: "string \<Rightarrow> bool" where
  "clean_dir d \<longleftrightarrow> path_rooted d \<and> path_clean d = d \<and> path_elems d \<noteq> []"

text \<open>Without a \<open>..\<close> element, cleaning a path only drops empty and \<open>.\<close> elements.\<close>

lemma clean_elems_no_dotdot:
  "''..'' \<notin> set es \<Longrightarrow>
   clean_elems r acc es = rev acc @ filter (\<lambda>e. e \<noteq> [] \<and> e \<noteq> ''.'') es"
  by (induction es arbitrary: acc) auto

lemma clean_elems_append:
  "clean_elems r acc (xs @ ys) = clean_elems r (rev (clean_elems r acc xs)) ys"
  by (induction r acc xs rule: clean_elems.induct) auto

lemma clean_elems_plain:
  "list_all plain_elem acc \<Longrightarrow> \<forall>e \<in> set es. slash \<notin> set e \<Longrightarrow> list_all plain_elem (clean_elems True acc es)"
proof (induction es arbitrary: acc)
  case Nil
  then show ?case by (simp add: list_all_iff)
next
  case (Cons e es)
  have tl: "list_all plain_elem (tl acc)" using Cons.prems(1) by (cases acc) simp_all
  have e: "slash \<notin> set e" and es: "\<forall>e \<in> set es. slash \<notin> set e" using Cons.prems(2) by auto
  have new: "list_all plain_elem (e # acc)" if "e \<noteq> []" "e \<noteq> ''.''" "e \<noteq> ''..''"
  proof -
    have "plain_elem e" using that e by (simp add: plain_elem_def)
    then show ?thesis using Cons.prems(1) by simp
  qed
  show ?case using Cons.IH [OF _ es] Cons.prems(1) tl new by simp
qed

lemma path_elems_plain: "path_rooted p \<Longrightarrow> list_all plain_elem (path_elems p)"
  by (simp add: path_elems_def clean_elems_plain split_on_word)

lemma path_clean_rooted: "path_rooted p \<Longrightarrow> path_clean p = path_of (path_elems p)"
  by (simp add: path_clean_def path_of_def Let_def)

lemma path_rooted_Cons [simp]: "path_rooted (slash # p)" "path_rooted (path_of es)"
  by (simp_all add: path_rooted_def path_of_def has_prefix_def)

lemma split_path_of: "list_all plain_elem es \<Longrightarrow> es \<noteq> [] \<Longrightarrow> split_on slash (path_of es) = [] # es"
  using split_on_append_sep [of slash "[]" "join ''/'' es"]
  by (simp add: path_of_def split_on_join list_all_iff plain_elem_def split_on_none)

lemma filter_plain:
  "list_all plain_elem es \<Longrightarrow> filter (\<lambda>e. e \<noteq> [] \<and> e \<noteq> ''.'') es = es \<and> ''..'' \<notin> set es"
  by (induction es) (auto simp: plain_elem_def)

lemma path_elems_path_of: "list_all plain_elem es \<Longrightarrow> path_elems (path_of es) = es"
proof (cases "es = []")
  case True
  then show ?thesis by (simp add: path_elems_def path_of_def split_on_def)
next
  case False
  assume es: "list_all plain_elem es"
  then show ?thesis using split_path_of [OF es False] filter_plain [OF es]
    by (simp add: path_elems_def clean_elems_no_dotdot)
qed

lemma path_clean_path_of [simp]: "list_all plain_elem es \<Longrightarrow> path_clean (path_of es) = path_of es"
  by (simp add: path_clean_rooted path_elems_path_of)

theorem path_clean_idem: "path_rooted p \<Longrightarrow> path_clean (path_clean p) = path_clean p"
  by (simp add: path_clean_rooted path_elems_plain path_elems_path_of)

lemma path_rooted_append: "path_rooted d \<Longrightarrow> path_rooted (d @ t)"
  unfolding path_rooted_def by (rule has_prefix_appendI)

lemma path_of_append: "xs \<noteq> [] \<Longrightarrow> ys \<noteq> [] \<Longrightarrow> path_of (xs @ ys) = path_of xs @ path_of ys"
  by (simp add: path_of_def join_append)

section \<open>Joining a directory and a name\<close>

lemma clean_dirD:
  assumes "clean_dir d"
  shows "d = path_of (path_elems d)" and "list_all plain_elem (path_elems d)" and "path_elems d \<noteq> []"
    and "d \<noteq> []" and "path_clean d = d"
  using assms path_clean_rooted [of d] path_elems_plain [of d]
  by (auto simp: clean_dir_def path_rooted_def has_prefix_def)

lemma path_elems_join:
  assumes "clean_dir d"
  shows "path_elems (d @ slash # n) = clean_elems True (rev (path_elems d)) (split_on slash n)"
proof -
  have "path_rooted (d @ slash # n)" "path_rooted d"
    using assms path_rooted_append by (auto simp: clean_dir_def)
  then show ?thesis by (simp add: path_elems_def split_on_append_sep clean_elems_append)
qed

lemma path_join_dir:
  assumes "clean_dir d" and "n \<noteq> []"
  shows "path_join [d, n] = path_of (clean_elems True (rev (path_elems d)) (split_on slash n))"
proof -
  have "path_rooted (d @ slash # n)"
    using assms(1) path_rooted_append by (auto simp: clean_dir_def)
  then show ?thesis using assms clean_dirD(4) [OF assms(1)] path_elems_join [OF assms(1)]
    by (simp add: path_join_def path_clean_rooted)
qed

text \<open>A name without \<open>..\<close> stays in the directory.\<close>

lemma path_join_inside:
  assumes "clean_dir d" and "n \<noteq> []" and "''..'' \<notin> set (split_on slash n)"
  shows "path_join [d, n] = d \<or> (\<exists>s. path_join [d, n] = d @ slash # s)"
proof -
  let ?fs = "filter (\<lambda>e. e \<noteq> [] \<and> e \<noteq> ''.'') (split_on slash n)"
  have eq: "path_join [d, n] = path_of (path_elems d @ ?fs)"
    using assms by (simp add: path_join_dir clean_elems_no_dotdot)
  show ?thesis
  proof (cases "?fs = []")
    case True
    then show ?thesis using eq clean_dirD(1) [OF assms(1)] by (metis append.right_neutral)
  next
    case False
    then have "path_join [d, n] = d @ path_of ?fs"
      using eq clean_dirD(1,3) [OF assms(1)] by (metis path_of_append)
    then show ?thesis by (simp add: path_of_def)
  qed
qed

text \<open>A name that goes up once reaches the siblings of the directory.\<close>

lemma path_join_sibling:
  assumes "clean_dir d" and "plain_elem (last (path_elems d) @ s)" and "list_all plain_elem fs"
  shows "path_join [d, join ''/'' (''..'' # (last (path_elems d) @ s) # fs)] =
    (if fs = [] then d @ s else d @ s @ path_of fs)"
proof -
  obtain es e where es: "path_elems d = es @ [e]"
    using clean_dirD(3) [OF assms(1)] by (metis rev_exhaust)
  let ?n = "join ''/'' (''..'' # (e @ s) # fs)"
  have plain: "list_all plain_elem ((e @ s) # fs)" and e: "e \<noteq> ''..''"
    using assms clean_dirD(2) [OF assms(1)] by (simp_all add: es plain_elem_def)
  have "\<forall>w \<in> set (''..'' # (e @ s) # fs). slash \<notin> set w"
    using plain by (auto simp: list_all_iff plain_elem_def)
  then have split: "split_on slash ?n = ''..'' # (e @ s) # fs"
    by (intro split_on_join) simp_all
  have "path_join [d, ?n] = path_of (es @ (e @ s) # fs)"
    using path_join_dir [OF assms(1), of ?n] split e filter_plain [OF plain]
      clean_elems_no_dotdot [of "(e @ s) # fs" True "rev es"]
    by (simp add: es join_Cons)
  moreover have "d @ s = path_of (es @ [e @ s])"
  proof -
    have "d = path_of (es @ [e])" using clean_dirD(1) [OF assms(1)] by (simp add: es)
    moreover have "path_of (es @ [e]) @ s = path_of (es @ [e @ s])"
      by (cases "es = []") (simp_all add: path_of_def join_append)
    ultimately show ?thesis by metis
  qed
  moreover have "fs \<noteq> [] \<Longrightarrow> path_of (es @ (e @ s) # fs) = path_of (es @ [e @ s]) @ path_of fs"
    using path_of_append [of "es @ [e @ s]" fs] by simp
  ultimately show ?thesis using es by (cases "fs = []") simp_all
qed

section \<open>The directory of a path\<close>

lemma path_dir_snoc:
  assumes "list_all plain_elem (es @ [e])"
  shows "path_dir (path_of (es @ [e])) = path_of es"
proof -
  have e: "slash \<notin> set e" and es: "list_all plain_elem es" using assms by (simp_all add: plain_elem_def)
  have pre: "path_of (es @ [e]) = (if es = [] then [] else path_of es) @ slash # e"
    by (simp add: path_of_def join_append)
  have "rev (dropWhile (\<lambda>c. c \<noteq> slash) (rev (p @ slash # e))) = p @ [slash]" for p
  proof -
    have "dropWhile (\<lambda>c. c \<noteq> slash) (rev e @ slash # rev p) = slash # rev p"
      using e by (subst dropWhile_append2) auto
    then show ?thesis by simp
  qed
  then have "path_dir (path_of (es @ [e])) = path_clean ((if es = [] then [] else path_of es) @ [slash])"
    unfolding path_dir_def pre by simp
  also have "\<dots> = path_of es"
  proof (cases "es = []")
    case True
    then show ?thesis
      by (simp add: path_clean_def path_elems_def split_on_def path_of_def)
  next
    case False
    have cd: "clean_dir (path_of es)" using es False by (simp add: clean_dir_def path_elems_path_of)
    have "path_rooted (path_of es @ [slash])" using path_rooted_append by simp
    then show ?thesis
      using False es path_elems_join [OF cd, of "[]"] 
      by (simp add: path_clean_rooted path_elems_path_of split_on_none)
  qed
  finally show ?thesis .
qed

lemma path_dir_root: "path_dir (path_of []) = path_of []"
  by (simp add: path_of_def path_dir_def path_clean_def path_elems_def split_on_def)

lemma path_join_plain:
  assumes "clean_dir d" and "n \<noteq> []"
  obtains es where "path_join [d, n] = path_of es" and "list_all plain_elem es"
  using path_join_dir [OF assms] clean_dirD(2) [OF assms(1)]
    clean_elems_plain [of "rev (path_elems d)" "split_on slash n"] split_on_word
  by (metis list_all_rev)

end
