(* ===== verification/Executor.thy ===== *)
theory Executor
  imports FileSystem Paths
begin

text \<open>
  \<open>skeys-core/executor/executor.go\<close>: running commands.  \<open>LocalExecutor\<close> runs the commands of its
  allowlist; \<open>PrivilegeExecutor\<close> runs its own allowlist through \<open>pkexec\<close> or \<open>sudo -n\<close> and reads and
  writes files under its allowed path prefixes with \<open>cat\<close> and \<open>tee\<close>.

  What a process does is an argument: a \<open>spawner\<close> takes the argument vector, the standard input
  and the state of the world and gives the new world and the result of the process.  A Go result
  \<open>([]byte, error)\<close> is a pair of the bytes and the error message, because a caller may look at both.
\<close>

record proc =
  proc_out :: string
  proc_err :: string
  proc_fail :: "string option"

type_synonym 'w spawner = "string list \<Rightarrow> string \<Rightarrow> 'w \<Rightarrow> 'w \<times> proc"
type_synonym 'w runner = "string \<Rightarrow> string list \<Rightarrow> 'w \<Rightarrow> 'w \<times> string \<times> string option"

text \<open>\<open>cmd.Run()\<close> and the common end of the two \<open>Run\<close> methods.\<close>

definition run_cmd :: "'w spawner \<Rightarrow> string list \<Rightarrow> 'w \<Rightarrow> 'w \<times> string \<times> string option" where
  "run_cmd spawn argv w =
     (case spawn argv [] w of (w', p) \<Rightarrow>
        (case proc_fail p of
           Some e \<Rightarrow> (w', [], Some (e @ '': '' @ proc_err p))
         | None \<Rightarrow> (w', proc_out p, None)))"

section \<open>Local commands\<close>

record LocalExecutor =
  le_allowedCommands :: "string list"

definition NewLocalExecutor :: LocalExecutor where
  "NewLocalExecutor = \<lparr>le_allowedCommands =
     [''ssh-keygen'', ''ssh-add'', ''ssh-agent'', ''ssh'', ''sshd'', ''ssh-keyscan'']\<rparr>"

definition Run_local :: "'w spawner \<Rightarrow> LocalExecutor \<Rightarrow> 'w runner" where
  "Run_local spawn e name args w =
     (if name \<notin> set (le_allowedCommands e) then (w, [], Some (''command not allowed: '' @ name))
      else run_cmd spawn (name # args) w)"

section \<open>Privileged commands and files\<close>

datatype PrivilegeMethod = PrivilegeMethodPkexec | PrivilegeMethodSudo

record PrivilegeExecutor =
  pe_method :: PrivilegeMethod
  pe_allowedCommands :: "string list"
  pe_allowedPaths :: "string list"

definition NewPrivilegeExecutor :: "PrivilegeMethod \<Rightarrow> PrivilegeExecutor" where
  "NewPrivilegeExecutor m = \<lparr>pe_method = m,
     pe_allowedCommands = [''sshd'', ''systemctl'', ''cat'', ''tee''], pe_allowedPaths = [''/etc/ssh/'']\<rparr>"

definition elevate :: "PrivilegeMethod \<Rightarrow> string list \<Rightarrow> string list" where
  "elevate m argv =
     (case m of
        PrivilegeMethodPkexec \<Rightarrow> ''pkexec'' # argv
      | PrivilegeMethodSudo \<Rightarrow> ''sudo'' # ''-n'' # argv)"

definition Run_priv :: "'w spawner \<Rightarrow> PrivilegeExecutor \<Rightarrow> 'w runner" where
  "Run_priv spawn e name args w =
     (if name \<notin> set (pe_allowedCommands e) then (w, [], Some (''command not allowed: '' @ name))
      else run_cmd spawn (elevate (pe_method e) (name # args)) w)"

definition isAllowedPath :: "PrivilegeExecutor \<Rightarrow> string \<Rightarrow> bool" where
  "isAllowedPath e path = list_ex (has_prefix path) (pe_allowedPaths e)"

definition ReadFile_priv ::
    "'w spawner \<Rightarrow> PrivilegeExecutor \<Rightarrow> string \<Rightarrow> 'w \<Rightarrow> 'w \<times> string \<times> string option" where
  "ReadFile_priv spawn e path w =
     (if \<not> isAllowedPath e path then (w, [], Some (''path not allowed: '' @ path))
      else Run_priv spawn e ''cat'' [path] w)"

definition WriteFile_priv ::
    "'w spawner \<Rightarrow> PrivilegeExecutor \<Rightarrow> string \<Rightarrow> string \<Rightarrow> 'w \<Rightarrow> 'w \<times> string option" where
  "WriteFile_priv spawn e path data w =
     (if \<not> isAllowedPath e path then (w, Some (''path not allowed: '' @ path))
      else (case spawn (elevate (pe_method e) [''tee'', path]) data w of (w', p) \<Rightarrow>
        (case proc_fail p of
           Some _ \<Rightarrow> (w', Some (''failed to write file: '' @ proc_err p))
         | None \<Rightarrow> (w', None))))"

definition Execute_priv :: "'w spawner \<Rightarrow> PrivilegeExecutor \<Rightarrow> 'w runner" where
  "Execute_priv spawn e name args w = Run_priv spawn e name args w"

section \<open>What is run\<close>

text \<open>A spawner that writes down every argument vector it is given.\<close>

definition logged :: "'w spawner \<Rightarrow> ('w \<times> string list list) spawner" where
  "logged spawn argv inp wl =
     (case wl of (w, l) \<Rightarrow> case spawn argv inp w of (w', p) \<Rightarrow> ((w', l @ [argv]), p))"

lemma run_cmd_logged:
  "snd (fst (run_cmd (logged spawn) argv (w, l))) = l @ [argv]"
  by (simp add: run_cmd_def logged_def split: prod.split option.split)

lemma run_cmd_quiet: "run_cmd spawn argv w = (w', out, Some e) \<Longrightarrow> out = []"
  by (auto simp: run_cmd_def split: prod.splits option.splits)

text \<open>The calls a client can make on a privileged executor, and a run of them.\<close>

datatype priv_call = PRun string "string list" | PExecute string "string list" | PRead string
  | PWrite string string

definition priv_do :: "'w spawner \<Rightarrow> PrivilegeExecutor \<Rightarrow> priv_call \<Rightarrow> 'w \<Rightarrow> 'w" where
  "priv_do spawn e c w =
     (case c of
        PRun name args \<Rightarrow> fst (Run_priv spawn e name args w)
      | PExecute name args \<Rightarrow> fst (Execute_priv spawn e name args w)
      | PRead path \<Rightarrow> fst (ReadFile_priv spawn e path w)
      | PWrite path data \<Rightarrow> fst (WriteFile_priv spawn e path data w))"

definition priv_trace :: "'w spawner \<Rightarrow> PrivilegeExecutor \<Rightarrow> priv_call list \<Rightarrow> 'w \<Rightarrow> string list list" where
  "priv_trace spawn e cs w = snd (fold (priv_do (logged spawn) e) cs (w, []))"

text \<open>The argument vectors that one call may give to a process.\<close>

definition run_argvs :: "PrivilegeExecutor \<Rightarrow> string list \<Rightarrow> string list list" where
  "run_argvs e argv =
     (if hd argv \<in> set (pe_allowedCommands e) then [elevate (pe_method e) argv] else [])"

fun call_argvs :: "PrivilegeExecutor \<Rightarrow> priv_call \<Rightarrow> string list list" where
  "call_argvs e (PRun name args) = run_argvs e (name # args)"
| "call_argvs e (PExecute name args) = run_argvs e (name # args)"
| "call_argvs e (PRead path) = (if isAllowedPath e path then run_argvs e [''cat'', path] else [])"
| "call_argvs e (PWrite path data) =
     (if isAllowedPath e path then [elevate (pe_method e) [''tee'', path]] else [])"

lemma priv_do_logged:
  "snd (priv_do (logged spawn) e c (w, l)) = l @ call_argvs e c"
  by (cases c) (simp_all add: priv_do_def Run_priv_def Execute_priv_def ReadFile_priv_def run_cmd_logged
      run_argvs_def WriteFile_priv_def logged_def split: prod.split option.split)

lemma priv_trace_argvs: "priv_trace spawn e cs w = concat (map (call_argvs e) cs)"
proof -
  have "snd (fold (priv_do (logged spawn) e) cs (w, l)) = l @ concat (map (call_argvs e) cs)" for l
  proof (induction cs arbitrary: w l)
    case (Cons c cs)
    obtain w' where "priv_do (logged spawn) e c (w, l) = (w', l @ call_argvs e c)"
      using priv_do_logged [of spawn e c w l] by (metis prod.collapse)
    with Cons show ?case by simp
  qed simp
  then show ?thesis by (simp add: priv_trace_def)
qed

lemma path_elems_under_etc_ssh:
  assumes "has_prefix p ''/etc/ssh/''" and "''..'' \<notin> set (split_on (CHR ''/'') p)"
  shows "\<exists>rest. path_elems p = ''etc'' # ''ssh'' # rest \<and> ''..'' \<notin> set rest"
proof -
  from assms(1) obtain q where "p = ''/etc/ssh/'' @ q" by (auto simp: has_prefix_iff)
  then have q: "p = [] @ CHR ''/'' # ''etc'' @ CHR ''/'' # ''ssh'' @ CHR ''/'' # q" by simp
  then have "split_on (CHR ''/'') p = [[], ''etc'', ''ssh''] @ split_on (CHR ''/'') q"
    by (simp only: split_on_append_sep) (simp add: split_on_none)
  moreover have "path_rooted p" by (simp add: q path_rooted_def has_prefix_def)
  ultimately show ?thesis using assms(2) by (simp add: path_elems_def clean_elems_no_dotdot)
qed

section \<open>Properties\<close>



text \<open>
  The path check is a prefix test on the name as it is given: a \<open>..\<close> element passes it, so
  privileged reads and writes are not confined to \<open>/etc/ssh\<close>.  The path below names \<open>/etc/shadow\<close>, and
  both operations hand it to a process.
\<close>

theorem privileged_path_escape:
  "path_clean ''/etc/ssh/../shadow'' = ''/etc/shadow'' \<and>
   priv_trace spawn (NewPrivilegeExecutor m) [PRead ''/etc/ssh/../shadow''] w =
     [elevate m [''cat'', ''/etc/ssh/../shadow'']] \<and>
   priv_trace spawn (NewPrivilegeExecutor m) [PWrite ''/etc/ssh/../shadow'' data] w =
     [elevate m [''tee'', ''/etc/ssh/../shadow'']]"
  by (simp add: path_clean_def path_elems_def path_rooted_def has_prefix_def split_on_def
      priv_trace_argvs run_argvs_def isAllowedPath_def NewPrivilegeExecutor_def Let_def)

section \<open>Privileged files as a file store\<close>

text \<open>
  The commands \<open>cat\<close> and \<open>tee\<close> as their manuals describe them, on the file system: \<open>cat\<close> prints a
  file, \<open>tee\<close> truncates a file and writes its input to it.  With them the privileged executor keeps
  the contract that the clients of configuration files rely on.
\<close>

definition strip_elevation :: "string list \<Rightarrow> string list" where
  "strip_elevation argv =
     (case argv of
        [] \<Rightarrow> []
      | a # as \<Rightarrow> if a = ''pkexec'' then as else if a = ''sudo'' then drop 1 as else argv)"

definition core_utils :: "fsys spawner" where
  "core_utils argv inp fs =
     (case strip_elevation argv of
        [c, path] \<Rightarrow>
          if c = ''cat'' then
            (case os_read_file fs path of
               Inl _ \<Rightarrow> (fs, \<lparr>proc_out = [], proc_err = ''cat: '' @ path, proc_fail = Some ''exit status 1''\<rparr>)
             | Inr d \<Rightarrow> (fs, \<lparr>proc_out = d, proc_err = [], proc_fail = None\<rparr>))
          else if c = ''tee'' then
            (case os_write_file path inp fs of
               (fs', None) \<Rightarrow> (fs', \<lparr>proc_out = inp, proc_err = [], proc_fail = None\<rparr>)
             | (fs', Some _) \<Rightarrow>
                 (fs', \<lparr>proc_out = [], proc_err = ''tee: '' @ path, proc_fail = Some ''exit status 1''\<rparr>))
          else (fs, \<lparr>proc_out = [], proc_err = [], proc_fail = Some ''not found''\<rparr>)
      | _ \<Rightarrow> (fs, \<lparr>proc_out = [], proc_err = [], proc_fail = Some ''not found''\<rparr>))"

definition priv_load :: "PrivilegeMethod \<Rightarrow> fsys \<Rightarrow> string \<Rightarrow> string + string" where
  "priv_load m fs path =
     (case ReadFile_priv core_utils (NewPrivilegeExecutor m) path fs of
        (_, out, None) \<Rightarrow> Inr out | (_, _, Some e) \<Rightarrow> Inl e)"

definition priv_store :: "PrivilegeMethod \<Rightarrow> string \<Rightarrow> string \<Rightarrow> fsys \<Rightarrow> fsys \<times> string option" where
  "priv_store m path data fs = WriteFile_priv core_utils (NewPrivilegeExecutor m) path data fs"

lemma strip_elevate [simp]: "strip_elevation (elevate m argv) = argv"
  by (cases m) (simp_all add: elevate_def strip_elevation_def)

lemma priv_load_eq:
  "priv_load m fs path =
     (if has_prefix path ''/etc/ssh/'' then
        (case os_read_file fs path of
           Inl _ \<Rightarrow> Inl (''exit status 1: cat: '' @ path) | Inr d \<Rightarrow> Inr d)
      else Inl (''path not allowed: '' @ path))"
  by (simp add: priv_load_def ReadFile_priv_def isAllowedPath_def NewPrivilegeExecutor_def Run_priv_def
      run_cmd_def core_utils_def split: sum.split)

lemma priv_store_ok:
  "priv_store m path data fs = (fs', None) \<longleftrightarrow>
     has_prefix path ''/etc/ssh/'' \<and> os_write_file path data fs = (fs', None)"
  by (auto simp: priv_store_def WriteFile_priv_def isAllowedPath_def NewPrivilegeExecutor_def
      core_utils_def split: prod.splits option.splits)

lemma priv_store_cases:
  "priv_store m path data fs = (fs', e) \<Longrightarrow> fs' = fs \<or> fs' = fst (os_write_file path data fs)"
  by (auto simp: priv_store_def WriteFile_priv_def core_utils_def split: prod.splits option.splits if_splits)

interpretation privfs: file_store "priv_load m" "priv_store m" "\<lambda>fs p. \<not> read_denied fs p"
proof
  fix p d fs fs' e q
  show "priv_load m fs' p = Inr d" if "priv_store m p d fs = (fs', None)" "\<not> read_denied fs p"
    using that os_write_file_read [of p d fs fs'] by (simp add: priv_store_ok priv_load_eq)
  show "(\<not> read_denied fs' q) \<longleftrightarrow> (\<not> read_denied fs q)" if "priv_store m p d fs = (fs', e)"
    using priv_store_cases [OF that] os_write_file_policy by auto
  show "priv_load m fs' q = priv_load m fs q" if "priv_store m p d fs = (fs', e)" "q \<noteq> p"
    using priv_store_cases [OF that(1)] that(2) osfs.load_other [of p d fs _ _ q]
    by (auto simp: priv_load_eq prod_eq_iff)
qed

end
