(* ===== verification/ServerConfig.thy ===== *)
theory ServerConfig
  imports Executor
begin

text \<open>
  \<open>skeys-core/config/server.go\<close>: reading and changing \<open>sshd_config\<close>.  The parser collects directives,
  active and commented out, with their line numbers and the \<open>Match\<close> block they stand in; \<open>Update\<close>
  rewrites the first line that mentions a key or appends one.

  The three regular expressions are written out as functions (\<open>re_directive\<close>, \<open>re_commented\<close>,
  \<open>re_key_line\<close>) with RE2's classes: \<open>\w\<close> is \<open>is_word_char\<close> and \<open>\s\<close> is \<open>is_re_space\<close>, which unlike
  \<open>strings.TrimSpace\<close> leaves out the vertical tab.

  Files are read and written through the privilege executor when there is one, else directly; both
  ways are the contract \<open>file_store\<close>, on which the properties rest.
\<close>

section \<open>The regular expressions\<close>

definition is_word_char :: "char \<Rightarrow> bool" where
  "is_word_char c \<longleftrightarrow> (let n = (of_char c :: nat) in
     48 \<le> n \<and> n \<le> 57 \<or> 65 \<le> n \<and> n \<le> 90 \<or> 97 \<le> n \<and> n \<le> 122 \<or> n = 95)"

lemma is_word_char_code [code]:
  "is_word_char (Char b0 b1 b2 b3 b4 b5 b6 b7) \<longleftrightarrow>
     \<not> b7 \<and> (if b6 then (b0 \<or> b1 \<or> b2 \<or> b3 \<or> b4) \<and> \<not> (b4 \<and> b3 \<and> (b2 \<or> b1 \<and> b0)) \<or>
                        \<not> b5 \<and> b4 \<and> b3 \<and> b2 \<and> b1 \<and> b0
              else b5 \<and> b4 \<and> \<not> (b3 \<and> (b2 \<or> b1)))"
  by (cases b0; cases b1; cases b2; cases b3; cases b4; cases b5; cases b6; cases b7)
     (simp_all add: is_word_char_def)

definition is_re_space :: "char \<Rightarrow> bool" where
  "is_re_space c \<longleftrightarrow> is_space c \<and> c \<noteq> CHR 0x0B"

text \<open>
  \<open>^(\w+)\s+(.+)$\<close>: the greedy blanks give one character back when nothing else is left for the value.
\<close>

definition re_directive :: "string \<Rightarrow> (string \<times> string) option" where
  "re_directive s =
     (let w = takeWhile is_word_char s; r = dropWhile is_word_char s; v = dropWhile is_re_space r in
      if w = [] \<or> r = [] \<or> \<not> is_re_space (hd r) then None
      else if v \<noteq> [] then Some (w, v)
      else if 2 \<le> length r then Some (w, [last r]) else None)"

text \<open>\<open>^#\s*(\w+)\s+(.+)$\<close>\<close>

definition re_commented :: "string \<Rightarrow> (string \<times> string) option" where
  "re_commented s =
     (case s of [] \<Rightarrow> None
      | c # cs \<Rightarrow> if c = CHR ''#'' then re_directive (dropWhile is_re_space cs) else None)"

text \<open>\<open>(?i)^#?\s*KEY\s+\<close> with the quoted key.\<close>

definition re_key_here :: "string \<Rightarrow> string \<Rightarrow> bool" where
  "re_key_here key s \<longleftrightarrow>
     has_prefix (to_lower s) (to_lower key) \<and>
     (case drop (length key) s of [] \<Rightarrow> False | c # _ \<Rightarrow> is_re_space c)"

fun re_spaces_key :: "string \<Rightarrow> string \<Rightarrow> bool" where
  "re_spaces_key key [] \<longleftrightarrow> re_key_here key []"
| "re_spaces_key key (c # cs) \<longleftrightarrow> re_key_here key (c # cs) \<or> is_re_space c \<and> re_spaces_key key cs"

definition re_key_line :: "string \<Rightarrow> string \<Rightarrow> bool" where
  "re_key_line key line \<longleftrightarrow>
     re_spaces_key key line \<or>
     (case line of [] \<Rightarrow> False | c # cs \<Rightarrow> c = CHR ''#'' \<and> re_spaces_key key cs)"

section \<open>Parsing\<close>

record ServerDirective =
  sd_Key :: string
  sd_Value :: string
  sd_LineNumber :: nat
  sd_IsCommented :: bool
  sd_MatchBlock :: string

record ServerConfig =
  sc_Directives :: "ServerDirective list"
  sc_RawContent :: string
  sc_Path :: string

definition match_line :: "string \<Rightarrow> bool" where
  "match_line line \<longleftrightarrow> has_prefix (to_lower line) ''match ''"

definition match_block :: "string \<Rightarrow> string" where
  "match_block line = trim_prefix (trim_prefix line ''Match '') ''match ''"

text \<open>The body of the scan loop, on a trimmed line: a directive or nothing.\<close>

definition parse_directive :: "nat \<Rightarrow> string \<Rightarrow> string \<Rightarrow> ServerDirective option" where
  "parse_directive lineNum currentMatch line =
     (case re_commented line of
        Some (k, v) \<Rightarrow> Some \<lparr>sd_Key = k, sd_Value = v, sd_LineNumber = lineNum, sd_IsCommented = True,
                           sd_MatchBlock = currentMatch\<rparr>
      | None \<Rightarrow>
          if has_prefix line ''#'' then None
          else (case re_directive line of
            Some (k, v) \<Rightarrow> Some \<lparr>sd_Key = k, sd_Value = v, sd_LineNumber = lineNum,
                               sd_IsCommented = False, sd_MatchBlock = currentMatch\<rparr>
          | None \<Rightarrow> None))"

fun parse_server_lines :: "nat \<Rightarrow> string \<Rightarrow> string list \<Rightarrow> ServerDirective list" where
  "parse_server_lines n cur [] = []"
| "parse_server_lines n cur (l # ls) =
     (let lineNum = Suc n; line = trim_space l in
      if line = [] then parse_server_lines lineNum cur ls
      else if match_line line then parse_server_lines lineNum (match_block line) ls
      else (case parse_directive lineNum cur line of
              None \<Rightarrow> parse_server_lines lineNum cur ls
            | Some d \<Rightarrow> d # parse_server_lines lineNum cur ls))"

text \<open>The configuration and the error of the scanner.\<close>

definition parse_server :: "string \<Rightarrow> string \<Rightarrow> ServerConfig \<times> string option" where
  "parse_server path content =
     (\<lparr>sc_Directives = parse_server_lines 0 [] (scan_lines content), sc_RawContent = content,
       sc_Path = path\<rparr>,
      if scan_too_long content then Some ''bufio.Scanner: token too long'' else None)"

section \<open>Queries\<close>

definition GetDirective :: "ServerConfig \<Rightarrow> string \<Rightarrow> string option" where
  "GetDirective c key =
     map_option sd_Value
       (find (\<lambda>d. equal_fold (sd_Key d) key \<and> \<not> sd_IsCommented d \<and> sd_MatchBlock d = []) (sc_Directives c))"

definition GetPort :: "ServerConfig \<Rightarrow> int list" where
  "GetPort c =
     (let ports = concat (map (\<lambda>d.
            if equal_fold (sd_Key d) ''Port'' \<and> \<not> sd_IsCommented d
            then (case atoi (sd_Value d) of (port, None) \<Rightarrow> [port] | (_, Some _) \<Rightarrow> []) else [])
          (sc_Directives c))
      in if ports = [] then [22] else ports)"

definition GetBool :: "ServerConfig \<Rightarrow> string \<Rightarrow> bool option" where
  "GetBool c key = map_option (\<lambda>val. to_lower val = ''yes'') (GetDirective c key)"

section \<open>Changes\<close>

definition directive_line :: "string \<Rightarrow> string \<Rightarrow> string" where
  "directive_line key value = key @ '' '' @ value"

fun replace_first :: "('a \<Rightarrow> bool) \<Rightarrow> 'a \<Rightarrow> 'a list \<Rightarrow> 'a list option" where
  "replace_first p y [] = None"
| "replace_first p y (x # xs) = (if p x then Some (y # xs) else map_option ((#) x) (replace_first p y xs))"

definition updateDirective :: "string \<Rightarrow> string \<Rightarrow> string \<Rightarrow> string" where
  "updateDirective content key value =
     (let lines = split_on newline content; new = directive_line key value in
      join [newline]
        (case replace_first (re_key_line key) new lines of
           Some lines' \<Rightarrow> lines'
         | None \<Rightarrow> lines @ [new]))"

text \<open>The interface \<open>PrivilegeExecutor\<close> of the manager, and the executor of the program as one.\<close>

record 'w priv_iface =
  ip_ReadFile :: "string \<Rightarrow> 'w \<Rightarrow> 'w \<times> string \<times> string option"
  ip_WriteFile :: "string \<Rightarrow> string \<Rightarrow> 'w \<Rightarrow> 'w \<times> string option"
  ip_Execute :: "'w runner"

definition priv_iface_of :: "'w spawner \<Rightarrow> PrivilegeExecutor \<Rightarrow> 'w priv_iface" where
  "priv_iface_of spawn e = \<lparr>ip_ReadFile = ReadFile_priv spawn e, ip_WriteFile = WriteFile_priv spawn e,
     ip_Execute = Execute_priv spawn e\<rparr>"

record ServerConfigManager =
  sm_path :: string
  sm_privExec :: "fsys priv_iface option"

definition NewServerConfigManager :: "fsys priv_iface option \<Rightarrow> ServerConfigManager" where
  "NewServerConfigManager priv = \<lparr>sm_path = ''/etc/ssh/sshd_config'', sm_privExec = priv\<rparr>"

definition sm_read :: "ServerConfigManager \<Rightarrow> fsys \<Rightarrow> fsys \<times> string \<times> string option" where
  "sm_read m fs =
     (case sm_privExec m of
        Some p \<Rightarrow> ip_ReadFile p (sm_path m) fs
      | None \<Rightarrow> (case os_read_file fs (sm_path m) of
          Inl e \<Rightarrow> (fs, [], Some (ioerr_msg e)) | Inr d \<Rightarrow> (fs, d, None)))"

definition sm_write :: "ServerConfigManager \<Rightarrow> string \<Rightarrow> fsys \<Rightarrow> fsys \<times> string option" where
  "sm_write m data fs =
     (case sm_privExec m of
        Some p \<Rightarrow> ip_WriteFile p (sm_path m) data fs
      | None \<Rightarrow> map_prod id (map_option ioerr_msg) (os_write_file (sm_path m) data fs))"

text \<open>\<open>Read\<close> returns the configuration together with the error of the scanner.\<close>

definition Read_server ::
    "ServerConfigManager \<Rightarrow> fsys \<Rightarrow> fsys \<times> ServerConfig option \<times> string option" where
  "Read_server m fs =
     (case sm_read m fs of
        (fs', _, Some e) \<Rightarrow> (fs', None, Some (''failed to read sshd_config: '' @ e))
      | (fs', content, None) \<Rightarrow>
          (case parse_server (sm_path m) content of (c, e) \<Rightarrow> (fs', Some c, e)))"

definition Update_server ::
    "ServerConfigManager \<Rightarrow> string \<Rightarrow> string \<Rightarrow> fsys \<Rightarrow> fsys \<times> string option" where
  "Update_server m key value fs =
     (case Read_server m fs of
        (fs', Some c, None) \<Rightarrow> sm_write m (updateDirective (sc_RawContent c) key value) fs'
      | (fs', _, e) \<Rightarrow> (fs', e))"

definition Validate_server :: "ServerConfigManager \<Rightarrow> fsys \<Rightarrow> fsys \<times> string option" where
  "Validate_server m fs =
     (case sm_privExec m of
        None \<Rightarrow> (fs, Some ''privilege executor required for validation'')
      | Some p \<Rightarrow>
          (case ip_Execute p ''sshd'' [''-t'', ''-f'', sm_path m] fs of
             (fs', output, Some e) \<Rightarrow> (fs', Some (''validation failed: '' @ output))
           | (fs', output, None) \<Rightarrow> (fs', None)))"

definition RestartService :: "ServerConfigManager \<Rightarrow> bool \<Rightarrow> fsys \<Rightarrow> fsys \<times> string option" where
  "RestartService m reloadOnly fs =
     (case sm_privExec m of
        None \<Rightarrow> (fs, Some ''privilege executor required'')
      | Some p \<Rightarrow>
          (let action = (if reloadOnly then ''reload'' else ''restart'') in
           case ip_Execute p ''systemctl'' [action, ''sshd''] fs of (fs', output, e) \<Rightarrow> (fs', e)))"

section \<open>One line at a time\<close>

text \<open>
  What a line says about a key outside \<open>Match\<close> blocks, and the first line that says something: in a
  file without \<open>Match\<close> lines this is \<open>GetDirective\<close>.
\<close>

definition line_value :: "string \<Rightarrow> string \<Rightarrow> string option" where
  "line_value key l =
     (let line = trim_space l in
      if re_commented line \<noteq> None \<or> has_prefix line ''#'' then None
      else (case re_directive line of
        Some (k, v) \<Rightarrow> if equal_fold k key then Some v else None | None \<Rightarrow> None))"

fun first_some :: "('a \<Rightarrow> 'b option) \<Rightarrow> 'a list \<Rightarrow> 'b option" where
  "first_some f [] = None"
| "first_some f (x # xs) = (case f x of None \<Rightarrow> first_some f xs | Some y \<Rightarrow> Some y)"

lemma first_some_append:
  "first_some f (xs @ ys) = (case first_some f xs of None \<Rightarrow> first_some f ys | Some y \<Rightarrow> Some y)"
  by (induction xs) (simp_all split: option.split)

lemma first_some_none: "\<forall>x \<in> set xs. f x = None \<Longrightarrow> first_some f xs = None"
  by (induction xs) simp_all

lemma first_some_cong: "(\<And>x. x \<in> set xs \<Longrightarrow> f x = g (h x)) \<Longrightarrow> first_some f xs = first_some g (map h xs)"
  by (induction xs) (simp_all split: option.split)

lemma line_value_Nil: "trim_space l = [] \<Longrightarrow> line_value key l = None"
  by (simp add: line_value_def re_commented_def re_directive_def Let_def)

lemma GetDirective_lines:
  assumes "\<forall>l \<in> set ls. \<not> match_line (trim_space l)"
  shows "map_option sd_Value
      (find (\<lambda>d. equal_fold (sd_Key d) key \<and> \<not> sd_IsCommented d \<and> sd_MatchBlock d = [])
        (parse_server_lines n [] ls)) = first_some (line_value key) ls"
  using assms
proof (induction ls arbitrary: n)
  case (Cons l ls)
  then have IH: "map_option sd_Value
      (find (\<lambda>d. equal_fold (sd_Key d) key \<and> \<not> sd_IsCommented d \<and> sd_MatchBlock d = [])
        (parse_server_lines (Suc n) [] ls)) = first_some (line_value key) ls" by simp
  show ?case
  proof (cases "trim_space l = []")
    case True
    with IH show ?thesis by (simp add: line_value_Nil)
  next
    case False
    with IH Cons.prems show ?thesis
      by (auto simp: Let_def parse_directive_def line_value_def [of key l] split: option.splits)
  qed
qed simp

lemma line_value_drop_cr [simp]: "line_value key (drop_cr l) = line_value key l"
  by (simp add: line_value_def)

text \<open>The lines the parser sees are those that \<open>updateDirective\<close> works on.\<close>

definition plain_content :: "string \<Rightarrow> bool" where
  "plain_content content \<longleftrightarrow> CHR 0x0B \<notin> set content \<and>
     (\<forall>l \<in> set (split_on newline content). short_line l \<and> \<not> match_line (trim_space l))"

lemma raw_lines_split: "raw_lines s @ (if last (split_on newline s) = [] then [[]] else []) = split_on newline s"
  by (simp add: raw_lines_def Let_def) (metis append_butlast_last_id split_on_not_Nil)

lemma GetDirective_parse:
  assumes "plain_content content"
  shows "GetDirective (fst (parse_server path content)) key =
    first_some (line_value key) (split_on newline content)"
    and "snd (parse_server path content) = None"
proof -
  have sub: "set (raw_lines content) \<subseteq> set (split_on newline content)"
    by (metis raw_lines_split set_append Un_upper1)
  with assms show "snd (parse_server path content) = None"
    by (auto simp: parse_server_def scan_too_long_def plain_content_def list_all_iff)
  then have scan: "scan_lines content = map drop_cr (raw_lines content)"
    by (simp add: parse_server_def scan_lines_short split: if_splits)
  have "\<forall>l \<in> set (scan_lines content). \<not> match_line (trim_space l)"
    using assms sub by (auto simp: scan plain_content_def)
  then have "GetDirective (fst (parse_server path content)) key = first_some (line_value key) (scan_lines content)"
    by (simp add: GetDirective_def parse_server_def GetDirective_lines)
  also have "\<dots> = first_some (line_value key) (raw_lines content)"
    unfolding scan by (rule first_some_cong [symmetric]) simp
  also have "\<dots> = first_some (line_value key)
      (raw_lines content @ (if last (split_on newline content) = [] then [[]] else []))"
    by (simp add: first_some_append line_value_Nil split: option.split)
  finally show "GetDirective (fst (parse_server path content)) key =
      first_some (line_value key) (split_on newline content)" by (simp only: raw_lines_split)
qed

section \<open>The key expression against the parser\<close>

definition config_key :: "string \<Rightarrow> bool" where
  "config_key key \<longleftrightarrow> key \<noteq> [] \<and> list_all is_word_char key \<and> \<not> equal_fold key ''match''"

definition config_value :: "string \<Rightarrow> bool" where
  "config_value v \<longleftrightarrow> v \<noteq> [] \<and> \<not> is_space (hd v) \<and> \<not> is_space (last v) \<and> newline \<notin> set v \<and>
     CHR 0x0B \<notin> set v"

lemma word_not_space: "is_word_char c \<Longrightarrow> \<not> is_space c"
  by (auto simp: is_word_char_def is_space_def)

lemma word_lower [simp]: "is_word_char (lower_char c) \<longleftrightarrow> is_word_char c"
  by (auto simp: is_word_char_def lower_char_def Let_def)

lemma list_all_word_lower: "list_all is_word_char (to_lower s) \<longleftrightarrow> list_all is_word_char s"
  by (simp add: to_lower_def list_all_iff)

lemma equal_fold_word: "equal_fold a b \<Longrightarrow> list_all is_word_char a \<longleftrightarrow> list_all is_word_char b"
  by (metis equal_fold_def list_all_word_lower)

lemma equal_fold_length: "equal_fold a b \<Longrightarrow> length a = length b"
  by (metis equal_fold_def length_map to_lower_def)

lemma re_space_space: "is_re_space c \<Longrightarrow> is_space c"
  by (simp add: is_re_space_def)

lemma takeWhile_word_prefix:
  "list_all is_word_char k \<Longrightarrow> \<not> is_word_char c \<Longrightarrow> takeWhile is_word_char (k @ c # t) = k"
  by (simp add: list_all_iff takeWhile_append2)

lemma dropWhile_word_prefix:
  "list_all is_word_char k \<Longrightarrow> \<not> is_word_char c \<Longrightarrow> dropWhile is_word_char (k @ c # t) = c # t"
  by (simp add: list_all_iff dropWhile_append2)

lemma re_directive_SomeD:
  assumes "re_directive s = Some (k, v)"
  obtains c t where "s = k @ c # t" "k \<noteq> []" "list_all is_word_char k" "is_re_space c"
proof -
  let ?r = "dropWhile is_word_char s"
  from assms have k: "k = takeWhile is_word_char s" "k \<noteq> []" "?r \<noteq> []" "is_re_space (hd ?r)"
    by (auto simp: re_directive_def Let_def split: if_splits)
  then have "s = k @ hd ?r # tl ?r" by simp
  moreover have "list_all is_word_char k" using k(1) by (auto simp: list_all_iff dest: set_takeWhileD)
  ultimately show ?thesis using that k by blast
qed

lemma re_key_here_iff:
  "re_key_here key s \<longleftrightarrow> (\<exists>k c t. s = k @ c # t \<and> equal_fold k key \<and> is_re_space c)"
proof
  assume h: "re_key_here key s"
  let ?k = "take (length key) s"
  from h obtain c t where t: "drop (length key) s = c # t" "is_re_space c"
    by (auto simp: re_key_here_def split: list.splits)
  then have "s = ?k @ c # t" by (metis append_take_drop_id)
  moreover have "equal_fold ?k key"
    using h by (simp add: re_key_here_def equal_fold_def has_prefix_def to_lower_def take_map)
  ultimately show "\<exists>k c t. s = k @ c # t \<and> equal_fold k key \<and> is_re_space c" using t by blast
next
  assume "\<exists>k c t. s = k @ c # t \<and> equal_fold k key \<and> is_re_space c"
  then obtain k c t where s: "s = k @ c # t" "equal_fold k key" "is_re_space c" by blast
  then have "length key = length k" and "map lower_char key = map lower_char k"
    by (simp_all add: equal_fold_length) (simp add: equal_fold_def to_lower_def)
  with s show "re_key_here key s"
    by (simp add: re_key_here_def has_prefix_def to_lower_def)
qed

lemma re_spaces_key_iff:
  "re_spaces_key key s \<longleftrightarrow> (\<exists>sp k c t. s = sp @ k @ c # t \<and> list_all is_re_space sp \<and>
     equal_fold k key \<and> is_re_space c)"
proof (induction s)
  case Nil
  then show ?case by (simp add: re_key_here_iff)
next
  case (Cons a s)
  show ?case
  proof
    assume "re_spaces_key key (a # s)"
    then consider "re_key_here key (a # s)" | "is_re_space a" "re_spaces_key key s" by auto
    then show "\<exists>sp k c t. a # s = sp @ k @ c # t \<and> list_all is_re_space sp \<and> equal_fold k key \<and> is_re_space c"
    proof cases
      case 1
      then obtain k c t where "a # s = k @ c # t" "equal_fold k key" "is_re_space c"
        unfolding re_key_here_iff by blast
      then show ?thesis by (metis append_Nil list.pred_inject(1))
    next
      case 2
      with Cons obtain sp k c t where "s = sp @ k @ c # t" "list_all is_re_space sp" "equal_fold k key"
        "is_re_space c" by auto
      moreover from this 2 have "a # s = (a # sp) @ k @ c # t" "list_all is_re_space (a # sp)"
        by simp_all
      ultimately show ?thesis by blast
    qed
  next
    assume "\<exists>sp k c t. a # s = sp @ k @ c # t \<and> list_all is_re_space sp \<and> equal_fold k key \<and> is_re_space c"
    then obtain sp k c t where s: "a # s = sp @ k @ c # t" "list_all is_re_space sp" "equal_fold k key"
      "is_re_space c" by blast
    show "re_spaces_key key (a # s)"
    proof (cases sp)
      case Nil
      with s have "re_key_here key (a # s)" unfolding re_key_here_iff by (metis append_Nil)
      then show ?thesis by simp
    next
      case (Cons b sp')
      with s have "re_spaces_key key s" unfolding Cons.IH by auto
      with s Cons show ?thesis by simp
    qed
  qed
qed

lemma no_vt_spaces: "CHR 0x0B \<notin> set sp \<Longrightarrow> list_all is_space sp \<Longrightarrow> list_all is_re_space sp"
  by (auto simp: list_all_iff is_re_space_def)

text \<open>A line with a value for the key is found by the key's expression.\<close>

lemma line_value_found:
  assumes "line_value key l = Some v" and vt: "CHR 0x0B \<notin> set l"
  shows "re_key_line key l"
proof -
  from assms(1) obtain k where "re_directive (trim_space l) = Some (k, v)" and k: "equal_fold k key"
    by (auto simp: line_value_def Let_def split: if_splits option.splits prod.splits)
  then obtain c t where ct: "trim_space l = k @ c # t" "is_re_space c" by (auto elim: re_directive_SomeD)
  obtain sp r where "l = sp @ trim_space l @ r" and "list_all is_space sp" by (rule trim_space_decomp)
  with ct vt have "l = sp @ k @ c # (t @ r)" and "list_all is_re_space sp"
    by (auto intro: no_vt_spaces)
  with k ct(2) show ?thesis unfolding re_key_line_def re_spaces_key_iff by blast
qed

lemma trim_space_word_line:
  assumes "list_all is_space sp" and k: "k \<noteq> []" "list_all is_word_char k"
  shows "\<exists>t'. trim_space (sp @ k @ c # t) = k @ t' \<and> (t' = [] \<or> hd t' = c)"
proof -
  have hd: "\<not> is_space (hd k)" using k by (cases k) (auto dest: word_not_space)
  have "dropWhile is_space (sp @ k @ c # t) = k @ c # t"
    using assms(1) k hd by (cases k) (simp_all add: list_all_iff dropWhile_append2)
  then have left: "trim_left (sp @ k @ c # t) = k @ c # t" by (simp add: trim_left_def)
  obtain u where u: "k @ c # t = trim_right (k @ c # t) @ u" "\<forall>x \<in> set u. is_space x"
    using trim_right_decomp [of "k @ c # t"] by auto
  have "\<exists>t'. trim_right (k @ c # t) = k @ t'"
  proof (rule ccontr)
    assume none: "\<nexists>t'. trim_right (k @ c # t) = k @ t'"
    with u(1) obtain w where "k = trim_right (k @ c # t) @ w" "w \<noteq> []" "\<exists>w'. u = w @ w'"
      by (metis append_eq_append_conv2 append.right_neutral)
    moreover from this have "last k = last w" by (metis last_appendR)
    ultimately have "is_space (last k)" using u(2) by (metis Un_iff last_in_set set_append)
    with k show False by (metis last_in_set list_all_iff word_not_space)
  qed
  then obtain t' where t': "trim_right (k @ c # t) = k @ t'" by blast
  with u(1) have "c # t = t' @ u" by simp
  then have "t' = [] \<or> hd t' = c" by (cases t') auto
  with left t' show ?thesis by (auto simp: trim_space_def)
qed

text \<open>A line that the key's expression finds has no value for another key.\<close>

lemma key_line_value:
  assumes found: "re_key_line key l" and key: "config_key key" and v: "line_value k2 l = Some v"
  shows "equal_fold k2 key"
proof -
  have spaces: "list_all is_space sp" if "list_all is_re_space sp" for sp
    using that by (auto simp: list_all_iff re_space_space)
  from found consider "re_spaces_key key l" | cs where "l = CHR ''#'' # cs"
    by (auto simp: re_key_line_def split: list.splits)
  then show ?thesis
  proof cases
    case 1
    then obtain sp k c t where l: "l = sp @ k @ c # t" "list_all is_re_space sp" "equal_fold k key"
      "is_re_space c" by (auto simp: re_spaces_key_iff)
    then have k: "k \<noteq> []" "list_all is_word_char k"
      using key equal_fold_length [of k key] equal_fold_word [of k key] by (auto simp: config_key_def)
    obtain t' where t': "trim_space l = k @ t'" "t' = [] \<or> hd t' = c"
      using trim_space_word_line [OF spaces [OF l(2)] k] l(1) by blast
    from v obtain k' where k': "re_directive (trim_space l) = Some (k', v)" "equal_fold k' k2"
      by (auto simp: line_value_def Let_def split: if_splits option.splits prod.splits)
    have "t' \<noteq> []"
    proof
      assume "t' = []"
      with t' k k' show False
        by (auto simp: re_directive_def Let_def list_all_iff dropWhile_eq_Nil_conv split: if_splits)
    qed
    with t' obtain t2 where "trim_space l = k @ c # t2" by (cases t') auto
    moreover have "\<not> is_word_char c" using l(4) word_not_space re_space_space by blast
    ultimately have "k' = k" using k' k
      by (auto simp: re_directive_def Let_def takeWhile_word_prefix split: if_splits)
    with k'(2) l(3) show ?thesis by (metis equal_fold_def)
  next
    case 2
    have "trim_left l = l" using 2 by (simp add: trim_left_def is_space_def)
    moreover have ne: "trim_space l \<noteq> []"
      unfolding trim_space_Nil_iff using 2 by (simp add: is_space_def)
    ultimately have "hd (trim_space l) = CHR ''#''"
      using 2 hd_trim_right [of l] by (simp add: trim_space_def)
    with ne have "has_prefix (trim_space l) ''#''" by (cases "trim_space l") auto
    with v show ?thesis by (simp add: line_value_def Let_def)
  qed
qed

section \<open>Updating\<close>

lemma replace_first_None: "replace_first p y xs = None \<longleftrightarrow> (\<forall>x \<in> set xs. \<not> p x)"
  by (induction xs) auto

lemma replace_first_set: "replace_first p y xs = Some ys \<Longrightarrow> set ys \<subseteq> insert y (set xs)"
  by (induction xs arbitrary: ys) (auto split: if_splits)

lemma replace_first_hit:
  "replace_first p y xs = Some ys \<Longrightarrow> (\<And>x. x \<in> set xs \<Longrightarrow> f x \<noteq> None \<Longrightarrow> p x) \<Longrightarrow> f y = Some v \<Longrightarrow>
   first_some f ys = Some v"
proof (induction xs arbitrary: ys)
  case (Cons x xs)
  then show ?case by (cases "p x"; cases "f x") auto
qed simp

lemma replace_first_miss:
  "replace_first p y xs = Some ys \<Longrightarrow> (\<And>x. x \<in> set xs \<Longrightarrow> p x \<Longrightarrow> f x = None) \<Longrightarrow> f y = None \<Longrightarrow>
   first_some f ys = first_some f xs"
  by (induction xs arbitrary: ys) (auto split: if_splits option.split)

definition update_lines :: "string \<Rightarrow> string \<Rightarrow> string list \<Rightarrow> string list" where
  "update_lines key value lines =
     (case replace_first (re_key_line key) (directive_line key value) lines of
        Some lines' \<Rightarrow> lines' | None \<Rightarrow> lines @ [directive_line key value])"

lemma updateDirective_lines:
  "updateDirective content key value = join [newline] (update_lines key value (split_on newline content))"
  by (simp add: updateDirective_def update_lines_def Let_def)

lemma update_lines_set:
  "set (update_lines key value lines) \<subseteq> insert (directive_line key value) (set lines)"
  by (auto simp: update_lines_def dest: replace_first_set split: option.split)

lemma update_lines_not_Nil: "lines \<noteq> [] \<Longrightarrow> update_lines key value lines \<noteq> []"
  by (cases lines) (auto simp: update_lines_def split: option.splits if_splits)

lemma split_updateDirective:
  assumes "newline \<notin> set key" and "newline \<notin> set value"
  shows "split_on newline (updateDirective content key value) = update_lines key value (split_on newline content)"
proof -
  have "newline \<notin> set w" if "w \<in> set (update_lines key value (split_on newline content))" for w
    using that update_lines_set [of key "value" "split_on newline content"] assms
    by (auto simp: directive_line_def dest: split_on_word)
  then show ?thesis
    unfolding updateDirective_lines by (intro split_on_join) (auto simp: update_lines_not_Nil)
qed

lemma config_key_no_space: "config_key key \<Longrightarrow> c \<in> set key \<Longrightarrow> \<not> is_space c"
  by (auto simp: config_key_def list_all_iff word_not_space)

lemma trim_directive_line:
  assumes "config_key key" and "config_value value"
  shows "trim_space (directive_line key value) = directive_line key value"
proof (rule trim_space_id)
  show "\<not> is_space (hd (directive_line key value))"
    using assms by (cases key) (auto simp: directive_line_def config_key_def word_not_space)
qed (use assms in \<open>auto simp: directive_line_def config_value_def\<close>)

lemma re_directive_line:
  assumes "config_key key" and "config_value value"
  shows "re_directive (directive_line key value) = Some (key, value)"
proof -
  have k: "list_all is_word_char key" "key \<noteq> []" using assms by (simp_all add: config_key_def)
  have sp: "\<not> is_word_char CHR '' ''" by (simp add: is_word_char_def)
  have v: "dropWhile is_re_space value = value"
    using assms(2) re_space_space by (cases "value") (auto simp: config_value_def)
  show ?thesis
    using k assms(2) v
    by (simp add: re_directive_def Let_def directive_line_def takeWhile_word_prefix [OF k(1) sp]
        dropWhile_word_prefix [OF k(1) sp] is_re_space_def is_space_def config_value_def)
qed

lemma hd_key_not_hash: "config_key key \<Longrightarrow> hd key \<noteq> CHR ''#''"
  by (cases key) (auto simp: config_key_def is_word_char_def)

lemma line_value_directive_line:
  assumes "config_key key" and "config_value value"
  shows "line_value k (directive_line key value) = (if equal_fold key k then Some value else None)"
proof -
  have "re_commented (directive_line key value) = None \<and> \<not> has_prefix (directive_line key value) ''#''"
    using hd_key_not_hash [OF assms(1)] assms(1)
    by (cases key) (auto simp: re_commented_def directive_line_def config_key_def)
  then show ?thesis
    by (simp add: line_value_def Let_def trim_directive_line [OF assms] re_directive_line [OF assms])
qed

lemma directive_line_no_match:
  assumes "config_key key"
  shows "\<not> match_line (directive_line key value)"
proof
  assume "match_line (directive_line key value)"
  then obtain t where "to_lower key @ CHR '' '' # to_lower value = ''match'' @ CHR '' '' # t"
    by (auto simp: match_line_def has_prefix_iff directive_line_def to_lower_def lower_char_def)
  moreover have "takeWhile is_word_char (to_lower key @ CHR '' '' # to_lower value) = to_lower key"
    using assms by (intro takeWhile_word_prefix)
      (simp_all add: config_key_def list_all_word_lower is_word_char_def)
  moreover have "takeWhile is_word_char (''match'' @ CHR '' '' # t) = ''match''"
    by (simp add: is_word_char_def)
  ultimately have "to_lower key = ''match''" by simp
  then have "equal_fold key ''match''" by (simp add: equal_fold_def) (simp add: to_lower_def lower_char_def)
  with assms show False by (simp add: config_key_def)
qed

lemma updateDirective_values:
  assumes key: "config_key key" and val: "config_value value"
    and content: "plain_content content" and short: "short_line (directive_line key value)"
  shows "plain_content (updateDirective content key value)"
    and "first_some (line_value k) (split_on newline (updateDirective content key value)) =
      (if equal_fold k key then Some value else first_some (line_value k) (split_on newline content))"
proof -
  let ?lines = "split_on newline content" and ?new = "directive_line key value"
  have nl: "newline \<notin> set key" "newline \<notin> set value"
    using config_key_no_space [OF key] val by (force simp: config_value_def)+
  note split = split_updateDirective [OF nl]
  have vt: "CHR 0x0B \<notin> set l" if "l \<in> set ?lines" for l
    using that content join_split_on [of newline content] split_by_letters
    by (metis plain_content_def split_on_def subsetD)
  have vt_new: "CHR 0x0B \<notin> set ?new"
    using config_key_no_space [OF key, of "CHR 0x0B"] val
    by (auto simp: directive_line_def config_value_def is_space_def)
  have lines': "set (update_lines key value ?lines) \<subseteq> insert ?new (set ?lines)"
    by (rule update_lines_set)
  have "CHR 0x0B \<notin> set (updateDirective content key value)"
    using lines' vt vt_new set_join [of "[newline]" "update_lines key value ?lines"]
    unfolding updateDirective_lines by fastforce
  moreover have "short_line l \<and> \<not> match_line (trim_space l)" if "l \<in> set (update_lines key value ?lines)" for l
    using that lines' content short directive_line_no_match [OF key] trim_directive_line [OF key val]
    by (auto simp: plain_content_def)
  ultimately show "plain_content (updateDirective content key value)"
    by (simp add: plain_content_def split)
  have new: "line_value k ?new = (if equal_fold k key then Some value else None)"
    using line_value_directive_line [OF key val, of k] by (auto simp: equal_fold_def)
  have hit: "re_key_line key l" if "l \<in> set ?lines" "line_value k l \<noteq> None" "equal_fold k key" for l
  proof -
    from that have "line_value key l \<noteq> None"
      by (auto simp: line_value_def Let_def equal_fold_def split: if_splits option.splits prod.splits)
    then show ?thesis using line_value_found vt [OF that(1)] by blast
  qed
  have miss: "line_value k l = None" if "re_key_line key l" "\<not> equal_fold k key" for l
    using key_line_value [OF that(1) key] that(2) by (cases "line_value k l") auto
  show "first_some (line_value k) (split_on newline (updateDirective content key value)) =
      (if equal_fold k key then Some value else first_some (line_value k) ?lines)"
  proof (cases "replace_first (re_key_line key) ?new ?lines")
    case None
    then have none: "\<forall>l \<in> set ?lines. \<not> re_key_line key l" by (simp add: replace_first_None)
    then have "equal_fold k key \<Longrightarrow> first_some (line_value k) ?lines = None"
      using hit by (intro first_some_none) blast
    with None new show ?thesis
      unfolding split update_lines_def by (simp add: first_some_append split: option.split)
  next
    case (Some ys)
    show ?thesis
    proof (cases "equal_fold k key")
      case True
      have "first_some (line_value k) ys = Some value"
        by (rule replace_first_hit [OF Some]) (use hit True new in auto)
      with Some True show ?thesis unfolding split update_lines_def by simp
    next
      case False
      have "first_some (line_value k) ys = first_some (line_value k) ?lines"
        by (rule replace_first_miss [OF Some]) (use miss False new in auto)
      with Some False show ?thesis unfolding split update_lines_def by simp
    qed
  qed
qed

section \<open>The manager on files\<close>

text \<open>
  A manager that goes through \<open>pkexec\<close> or \<open>sudo\<close>, or (\<open>None\<close>) reads and writes directly.  Either way
  its reads and writes keep the contract of a file store.
\<close>

definition sm_of :: "string \<Rightarrow> PrivilegeMethod option \<Rightarrow> ServerConfigManager" where
  "sm_of path pm = \<lparr>sm_path = path,
     sm_privExec = map_option (\<lambda>m. priv_iface_of core_utils (NewPrivilegeExecutor m)) pm\<rparr>"

definition sm_load :: "PrivilegeMethod option \<Rightarrow> fsys \<Rightarrow> string \<Rightarrow> string + string" where
  "sm_load pm fs path =
     (case sm_read (sm_of path pm) fs of (_, out, None) \<Rightarrow> Inr out | (_, _, Some e) \<Rightarrow> Inl e)"

definition sm_store :: "PrivilegeMethod option \<Rightarrow> string \<Rightarrow> string \<Rightarrow> fsys \<Rightarrow> fsys \<times> string option" where
  "sm_store pm path data fs = sm_write (sm_of path pm) data fs"

lemma sm_load_cases:
  "sm_load None fs path = (case os_read_file fs path of Inl e \<Rightarrow> Inl (ioerr_msg e) | Inr d \<Rightarrow> Inr d)"
  "sm_load (Some m) fs path = priv_load m fs path"
  by (simp_all add: sm_load_def sm_read_def sm_of_def priv_iface_of_def priv_load_def split: sum.split)

lemma sm_store_cases:
  "sm_store None path data fs = map_prod id (map_option ioerr_msg) (os_write_file path data fs)"
  "sm_store (Some m) path data fs = priv_store m path data fs"
  by (simp_all add: sm_store_def sm_write_def sm_of_def priv_iface_of_def priv_store_def)

lemma sm_path_of [simp]: "sm_path (sm_of path pm) = path"
  by (simp add: sm_of_def)

interpretation scfs: file_store "sm_load pm" "sm_store pm" "\<lambda>fs p. \<not> read_denied fs p"
proof
  fix p d fs fs' e q
  show "sm_load pm fs' p = Inr d" if "sm_store pm p d fs = (fs', None)" "\<not> read_denied fs p"
    using that os_write_file_read [of p d fs fs'] privfs.load_store [of _ p d fs fs']
    by (cases pm) (auto simp: sm_load_cases sm_store_cases)
  show "(\<not> read_denied fs' q) \<longleftrightarrow> (\<not> read_denied fs q)" if "sm_store pm p d fs = (fs', e)"
    using that privfs.readable_store [of _ p d fs fs' e q] osfs.readable_store [of p d fs fs' _ q]
    by (cases pm) (auto simp: sm_store_cases map_prod_def split: prod.splits)
  show "sm_load pm fs' q = sm_load pm fs q" if "sm_store pm p d fs = (fs', e)" "q \<noteq> p"
    using that privfs.load_other [of _ p d fs fs' e q] osfs.load_other [of p d fs fs' _ q]
    by (cases pm) (auto simp: sm_load_cases sm_store_cases map_prod_def split: prod.splits)
qed

lemma sm_read_load:
  "sm_read (sm_of path pm) fs = (case sm_load pm fs path of Inl e \<Rightarrow> (fs, [], Some e) | Inr d \<Rightarrow> (fs, d, None))"
  by (cases pm) (simp_all add: sm_load_def sm_read_def sm_of_def priv_iface_of_def ReadFile_priv_def
      isAllowedPath_def NewPrivilegeExecutor_def Run_priv_def run_cmd_def core_utils_def split: sum.split)

lemma Read_server_load:
  "Read_server (sm_of path pm) fs =
     (case sm_load pm fs path of
        Inl e \<Rightarrow> (fs, None, Some (''failed to read sshd_config: '' @ e))
      | Inr d \<Rightarrow> (case parse_server path d of (c, e) \<Rightarrow> (fs, Some c, e)))"
  by (simp add: Read_server_def sm_read_load split: sum.split)

lemma Update_server_rewrite:
  assumes "Read_server (sm_of path pm) fs = (fs, Some c, None)"
  shows "Update_server (sm_of path pm) key val fs = scfs.rewrite pm path (\<lambda>d. updateDirective d key val) fs"
    and "sm_load pm fs path = Inr (sc_RawContent c)" and "c = fst (parse_server path (sc_RawContent c))"
proof -
  from assms obtain d where d: "sm_load pm fs path = Inr d" "parse_server path d = (c, None)"
    by (auto simp: Read_server_load split: sum.splits prod.splits)
  then have raw: "sc_RawContent c = d" by (auto simp: parse_server_def)
  with d show "sm_load pm fs path = Inr (sc_RawContent c)"
    and "c = fst (parse_server path (sc_RawContent c))" by simp_all
  show "Update_server (sm_of path pm) key val fs = scfs.rewrite pm path (\<lambda>d. updateDirective d key val) fs"
    using assms raw d(1) by (simp add: Update_server_def scfs.rewrite_def sm_store_def)
qed

section \<open>Properties\<close>

text \<open>A successful \<open>Update\<close>, in the form in which it can be repeated.\<close>

lemma Update_server_step:
  assumes key: "config_key key" and val: "config_value val" and short: "short_line (directive_line key val)"
    and before: "Read_server (sm_of path pm) fs = (fs, Some c, None)"
    and plain: "plain_content (sc_RawContent c)" and readable: "\<not> read_denied fs path"
    and update: "Update_server (sm_of path pm) key val fs = (fs', None)"
  shows "\<exists>c'. Read_server (sm_of path pm) fs' = (fs', Some c', None) \<and> plain_content (sc_RawContent c') \<and>
      (\<forall>k. GetDirective c' k = (if equal_fold k key then Some val else GetDirective c k))"
    and "\<forall>q. q \<noteq> path \<longrightarrow> sm_load pm fs' q = sm_load pm fs q" and "\<not> read_denied fs' path"
proof -
  let ?d = "sc_RawContent c" and ?new = "updateDirective (sc_RawContent c) key val"
  note rw = Update_server_rewrite [OF before]
  have re: "scfs.rewrite pm path (\<lambda>d. updateDirective d key val) fs = (fs', None)"
    using update rw(1) by simp
  have after: "sm_load pm fs' path = Inr ?new"
    using scfs.load_rewrite [OF rw(2) re] readable by simp
  have plain': "plain_content ?new" using key val plain short by (rule updateDirective_values)
  have "Read_server (sm_of path pm) fs' = (fs', Some (fst (parse_server path ?new)), None)"
    using GetDirective_parse(2) [OF plain', of path]
    by (cases "parse_server path ?new") (simp add: Read_server_load after)
  moreover have "GetDirective (fst (parse_server path ?new)) k =
      (if equal_fold k key then Some val else GetDirective c k)" for k
    using GetDirective_parse(1) [OF plain', of path k] GetDirective_parse(1) [OF plain, of path k]
      updateDirective_values(2) [OF key val plain short, of k] rw(3) by simp
  moreover have "sm_load pm fs' q = sm_load pm fs q" if "q \<noteq> path" for q
    using re rw(2) that by (auto simp: scfs.rewrite_def intro: scfs.load_other)
  moreover have "sc_RawContent (fst (parse_server path ?new)) = ?new" by (simp add: parse_server_def)
  ultimately show "\<exists>c'. Read_server (sm_of path pm) fs' = (fs', Some c', None) \<and> plain_content (sc_RawContent c') \<and>
      (\<forall>k. GetDirective c' k = (if equal_fold k key then Some val else GetDirective c k))"
    and "\<forall>q. q \<noteq> path \<longrightarrow> sm_load pm fs' q = sm_load pm fs q" using plain' by auto
  show "\<not> read_denied fs' path"
    using re rw(2) readable scfs.readable_store [of pm path ?new fs fs' None path] by (simp add: scfs.rewrite_def)
qed

text \<open>
  \<open>Update\<close> does what it says, on files, directly or through the privilege executor: if
  \<open>sshd_config\<close> has no \<open>Match\<close> blocks, no overlong lines and no vertical tabs, the key is a word other
  than \<open>Match\<close> and the value a trimmed one-line text, then after a successful \<open>Update\<close> the file parses,
  the key (in any letter case) has the new value, every other key has the value it had before, and no
  other file is touched.
\<close>

theorem update_server_directive:
  assumes key: "config_key key" and val: "config_value val" and short: "short_line (directive_line key val)"
    and before: "Read_server (sm_of path pm) fs = (fs, Some c, None)"
    and plain: "plain_content (sc_RawContent c)" and readable: "\<not> read_denied fs path"
    and update: "Update_server (sm_of path pm) key val fs = (fs', None)"
  shows "(\<exists>c'. Read_server (sm_of path pm) fs' = (fs', Some c', None) \<and>
      (\<forall>k. GetDirective c' k = (if equal_fold k key then Some val else GetDirective c k))) \<and>
    (\<forall>q. q \<noteq> path \<longrightarrow> sm_load pm fs' q = sm_load pm fs q)"
  using Update_server_step [OF assms] by blast

definition sshd_example :: string where
  "sshd_example = ''#Port 22'' @ newline # ''PermitRootLogin yes'' @ [newline]"

definition sshd_example_fs :: fsys where
  "sshd_example_fs = fs_with [(''/etc/ssh/sshd_config'', sshd_example)]"

lemma sshd_example_plain: "plain_content sshd_example"
  by code_simp

lemma sshd_example_read:
  "\<exists>c. Read_server (sm_of ''/etc/ssh/sshd_config'' (Some PrivilegeMethodSudo)) sshd_example_fs =
     (sshd_example_fs, Some c, None) \<and> sc_RawContent c = sshd_example"
  using GetDirective_parse(2) [OF sshd_example_plain, of "''/etc/ssh/sshd_config''"]
  by (simp add: Read_server_load sm_load_cases priv_load_eq sshd_example_fs_def os_read_file_def
      parse_server_def split: prod.split)

theorem update_server_directive_witness:
  "\<exists>fs' c'. Update_server (sm_of ''/etc/ssh/sshd_config'' (Some PrivilegeMethodSudo)) ''Port'' ''2222''
      sshd_example_fs = (fs', None) \<and>
    Read_server (sm_of ''/etc/ssh/sshd_config'' (Some PrivilegeMethodSudo)) fs' = (fs', Some c', None) \<and>
    GetDirective c' ''port'' = Some ''2222''"
proof -
  let ?m = "sm_of ''/etc/ssh/sshd_config'' (Some PrivilegeMethodSudo)"
  obtain c where c: "Read_server ?m sshd_example_fs = (sshd_example_fs, Some c, None)"
    "sc_RawContent c = sshd_example" using sshd_example_read by blast
  have "\<exists>fs'. Update_server ?m ''Port'' ''2222'' sshd_example_fs = (fs', None)"
    unfolding Update_server_rewrite(1) [OF c(1)] scfs.rewrite_def Update_server_rewrite(2) [OF c(1)]
    by (simp add: sm_store_cases priv_store_ok os_write_file_def) (simp add: sshd_example_fs_def)
  then obtain fs' where fs': "Update_server ?m ''Port'' ''2222'' sshd_example_fs = (fs', None)" by blast
  have hyps: "config_key ''Port''" "config_value ''2222''" "short_line (directive_line ''Port'' ''2222'')"
    "\<not> read_denied sshd_example_fs ''/etc/ssh/sshd_config''" "equal_fold ''port'' ''Port''"
    by code_simp+
  from update_server_directive [OF hyps(1-3) c(1) _ hyps(4) fs'] c(2) hyps(5) sshd_example_plain fs'
  show ?thesis by auto
qed

text \<open>
  \<open>Match\<close> blocks defeat \<open>Update\<close> and the queries disagree about them.  In a file that ends in a
  \<open>Match\<close> block, \<open>Update\<close> of an absent key appends the line, and so puts it inside the block:
  \<open>GetDirective\<close>, which looks outside blocks only, still does not find the key, while \<open>GetPort\<close>, which
  does not look at the block, reports the new port as the port of the server.
\<close>

theorem update_appends_inside_match:
  "(let content = ''Match User bob'' @ [newline];
        c = fst (parse_server path (updateDirective content ''Port'' ''2222''))
    in GetDirective c ''Port'' = None \<and> GetPort c = [2222] \<and>
       map sd_MatchBlock (sc_Directives c) = [''User bob''])"
proof -
  have "updateDirective (''Match User bob'' @ [newline]) ''Port'' ''2222'' =
      ''Match User bob'' @ newline # newline # ''Port 2222''" by code_simp
  moreover have "parse_server_lines 0 [] (scan_lines (''Match User bob'' @ newline # newline # ''Port 2222'')) =
      [\<lparr>sd_Key = ''Port'', sd_Value = ''2222'', sd_LineNumber = 3, sd_IsCommented = False,
        sd_MatchBlock = ''User bob''\<rparr>]" by code_simp
  moreover have "atoi ''2222'' = (2222, None)"
    by (simp add: atoi_def atoi_signed_def is_digit_def digit_val_def)
  ultimately show ?thesis by (simp add: Let_def parse_server_def GetDirective_def GetPort_def)
qed

text \<open>
  \<open>Validate\<close> never says what is wrong: with the privilege executor of the program the message of a
  failed validation is always the bare prefix, whatever \<open>sshd -t\<close> printed, because a failed \<open>Run\<close>
  returns no output and the error that holds the text of standard error is dropped.
\<close>

theorem validate_message_empty:
  assumes "sm_privExec m = Some (priv_iface_of spawn e)" and "Validate_server m fs = (fs', Some msg)"
  shows "msg = ''validation failed: ''"
proof -
  from assms obtain out err where "Execute_priv spawn e ''sshd'' [''-t'', ''-f'', sm_path m] fs = (fs', out, Some err)"
    and msg: "msg = ''validation failed: '' @ out"
    by (auto simp: Validate_server_def priv_iface_of_def split: prod.splits option.splits)
  then have "out = []"
    by (auto simp: Execute_priv_def Run_priv_def dest: run_cmd_quiet split: if_splits)
  with msg show ?thesis by simp
qed

theorem validate_message_empty_witness:
  "snd (Validate_server (NewServerConfigManager (Some (priv_iface_of
      (\<lambda>_ _ w. (w, \<lparr>proc_out = [], proc_err = ''line 3: Bad configuration option'',
         proc_fail = Some ''exit status 255''\<rparr>))
      (NewPrivilegeExecutor PrivilegeMethodSudo)))) (fs_with [])) = Some ''validation failed: ''"
proof -
  let ?spawn = "\<lambda>_ _ w. (w :: fsys, \<lparr>proc_out = [], proc_err = ''line 3: Bad configuration option'',
      proc_fail = Some ''exit status 255''\<rparr>)"
  let ?m = "NewServerConfigManager (Some (priv_iface_of ?spawn (NewPrivilegeExecutor PrivilegeMethodSudo)))"
  have "sm_privExec ?m = Some (priv_iface_of ?spawn (NewPrivilegeExecutor PrivilegeMethodSudo))"
    by (simp add: NewServerConfigManager_def)
  moreover have "\<exists>msg. Validate_server ?m (fs_with []) = (fs_with [], Some msg)"
    by (simp add: Validate_server_def NewServerConfigManager_def priv_iface_of_def Execute_priv_def
        Run_priv_def run_cmd_def NewPrivilegeExecutor_def)
  ultimately show ?thesis using validate_message_empty by fastforce
qed

end
