(* ===== verification/Broadcast.thy ===== *)
theory Broadcast
  imports Prelude
begin

text \<open>
  \<open>skeys-core/broadcast/broadcaster.go\<close>: a hub that hands every value to all its subscribers over
  channels of capacity one, dropping it for a subscriber whose channel is full, and the polling
  watchers built on it (\<open>start\<close>, \<open>subscribe\<close>, \<open>pollLoop\<close> of the \<open>watcher.go\<close> files).

  A channel is a number; the state \<open>hub\<close> holds the buffer and the closed flag of every channel that
  was made.  Sending on, or closing, a closed channel panics in Go; \<open>panicked\<close> records it.  The
  methods are atomic because they hold the hub's mutex, except \<open>Subscribe\<close>, which sends the replayed
  value after it has released the lock: it is two steps here, and \<open>hub_step\<close> interleaves them with
  the other methods.
\<close>

named_theorems hub_simps \<open>projections of the hub operations\<close>

section \<open>The hub\<close>

record 'a chan =
  chan_buf :: "'a option"
  chan_closed :: bool

record 'a hub =
  hub_subscribers :: "nat list"
  hub_lastValue :: "'a option"
  hub_chans :: "nat \<rightharpoonup> 'a chan"
  hub_next :: nat
  hub_panicked :: bool

definition New_hub :: "'a hub" where
  "New_hub = \<lparr>hub_subscribers = [], hub_lastValue = None, hub_chans = Map.empty, hub_next = 0,
     hub_panicked = False\<rparr>"

text \<open>The non-blocking send \<open>select { case ch <- v: default: }\<close>, and \<open>close(ch)\<close>.\<close>

definition try_send :: "'a \<Rightarrow> nat \<Rightarrow> 'a hub \<Rightarrow> 'a hub" where
  "try_send v ch b =
     (case hub_chans b ch of
        None \<Rightarrow> b
      | Some c \<Rightarrow>
          if chan_closed c then b\<lparr>hub_panicked := True\<rparr>
          else if chan_buf c = None
            then b\<lparr>hub_chans := (hub_chans b)(ch \<mapsto> c\<lparr>chan_buf := Some v\<rparr>)\<rparr>
          else b)"

definition close_chan :: "nat \<Rightarrow> 'a hub \<Rightarrow> 'a hub" where
  "close_chan ch b =
     (case hub_chans b ch of
        None \<Rightarrow> b
      | Some c \<Rightarrow>
          if chan_closed c then b\<lparr>hub_panicked := True\<rparr>
          else b\<lparr>hub_chans := (hub_chans b)(ch \<mapsto> c\<lparr>chan_closed := True\<rparr>)\<rparr>)"

text \<open>\<open>Subscribe\<close> up to the unlock: the new channel, the cached value and the new state.\<close>

definition subscribe_register :: "'a hub \<Rightarrow> nat \<times> 'a option \<times> 'a hub" where
  "subscribe_register b =
     (let ch = hub_next b in
      (ch, hub_lastValue b,
       b\<lparr>hub_chans := (hub_chans b)(ch \<mapsto> \<lparr>chan_buf = None, chan_closed = False\<rparr>),
         hub_subscribers := ch # hub_subscribers b, hub_next := Suc ch\<rparr>))"

text \<open>\<open>Subscribe\<close> after the unlock.\<close>

definition subscribe_replay :: "bool \<Rightarrow> nat \<Rightarrow> 'a option \<Rightarrow> 'a hub \<Rightarrow> 'a hub" where
  "subscribe_replay replay ch lastVal b =
     (case lastVal of Some v \<Rightarrow> if replay then try_send v ch b else b | None \<Rightarrow> b)"

definition Subscribe :: "bool \<Rightarrow> 'a hub \<Rightarrow> nat \<times> 'a hub" where
  "Subscribe replay b =
     (case subscribe_register b of (ch, lastVal, b') \<Rightarrow> (ch, subscribe_replay replay ch lastVal b'))"

definition Unsubscribe :: "nat \<Rightarrow> 'a hub \<Rightarrow> 'a hub" where
  "Unsubscribe ch b =
     (if ch \<in> set (hub_subscribers b)
      then close_chan ch (b\<lparr>hub_subscribers := remove1 ch (hub_subscribers b)\<rparr>)
      else b)"

definition Broadcast :: "'a \<Rightarrow> 'a hub \<Rightarrow> 'a hub" where
  "Broadcast value b =
     fold (try_send value) (hub_subscribers b) (b\<lparr>hub_lastValue := Some value\<rparr>)"

definition SubscriberCount :: "'a hub \<Rightarrow> nat" where
  "SubscriberCount b = length (hub_subscribers b)"

definition Close_hub :: "'a hub \<Rightarrow> 'a hub" where
  "Close_hub b = (fold close_chan (hub_subscribers b) b)\<lparr>hub_subscribers := []\<rparr>"

text \<open>The subscriber's side: a receive takes the buffered value; on an empty channel it waits.\<close>

definition recv_chan :: "nat \<Rightarrow> 'a hub \<Rightarrow> 'a option \<times> 'a hub" where
  "recv_chan ch b =
     (case hub_chans b ch of
        None \<Rightarrow> (None, b)
      | Some c \<Rightarrow> (chan_buf c, b\<lparr>hub_chans := (hub_chans b)(ch \<mapsto> c\<lparr>chan_buf := None\<rparr>)\<rparr>))"

section \<open>What a single operation does to a channel\<close>

definition chan_of :: "'a hub \<Rightarrow> nat \<Rightarrow> 'a option" where
  "chan_of b ch = Option.bind (hub_chans b ch) chan_buf"

definition open_chan :: "'a hub \<Rightarrow> nat \<Rightarrow> bool" where
  "open_chan b ch \<longleftrightarrow> (\<exists>c. hub_chans b ch = Some c \<and> \<not> chan_closed c)"

lemma try_send_fields [hub_simps]:
  "hub_subscribers (try_send v ch b) = hub_subscribers b"
  "hub_lastValue (try_send v ch b) = hub_lastValue b"
  "hub_next (try_send v ch b) = hub_next b"
  by (simp_all add: try_send_def split: option.splits)

lemma try_send_other [hub_simps]: "d \<noteq> ch \<Longrightarrow> hub_chans (try_send v ch b) d = hub_chans b d"
  by (simp add: try_send_def split: option.splits)

lemma dom_try_send [hub_simps]: "dom (hub_chans (try_send v ch b)) = dom (hub_chans b)"
  by (auto simp: try_send_def split: option.splits if_splits)

lemma open_try_send [hub_simps]: "open_chan (try_send v ch b) d \<longleftrightarrow> open_chan b d"
  by (cases "d = ch") (auto simp: try_send_def open_chan_def split: option.splits)

lemma try_send_open:
  assumes "open_chan b ch"
  shows "chan_of (try_send v ch b) ch = (case chan_of b ch of None \<Rightarrow> Some v | Some w \<Rightarrow> Some w)"
    and "hub_panicked (try_send v ch b) = hub_panicked b"
  using assms by (auto simp: try_send_def chan_of_def open_chan_def split: option.splits)

lemma close_chan_fields [hub_simps]:
  "hub_subscribers (close_chan ch b) = hub_subscribers b"
  "hub_lastValue (close_chan ch b) = hub_lastValue b"
  "hub_next (close_chan ch b) = hub_next b"
  by (simp_all add: close_chan_def split: option.splits)

lemma dom_close_chan [hub_simps]: "dom (hub_chans (close_chan ch b)) = dom (hub_chans b)"
  by (auto simp: close_chan_def split: option.splits if_splits)

lemma open_close_chan [hub_simps]: "open_chan (close_chan ch b) d \<longleftrightarrow> open_chan b d \<and> d \<noteq> ch"
  by (cases "d = ch") (auto simp: close_chan_def open_chan_def split: option.splits)

lemma close_chan_panic [hub_simps]:
  "open_chan b ch \<Longrightarrow> hub_panicked (close_chan ch b) = hub_panicked b"
  by (auto simp: close_chan_def open_chan_def)

lemma recv_chan_fields [hub_simps]:
  "hub_subscribers (snd (recv_chan ch b)) = hub_subscribers b"
  "hub_next (snd (recv_chan ch b)) = hub_next b"
  "hub_panicked (snd (recv_chan ch b)) = hub_panicked b"
  "open_chan (snd (recv_chan ch b)) d \<longleftrightarrow> open_chan b d"
  "dom (hub_chans (snd (recv_chan ch b))) = dom (hub_chans b)"
  by (auto simp: recv_chan_def open_chan_def split: option.splits)

text \<open>A round of sends over distinct open channels.\<close>

lemma fold_try_send_fields [hub_simps]:
  "hub_subscribers (fold (try_send v) chs b) = hub_subscribers b"
  "hub_lastValue (fold (try_send v) chs b) = hub_lastValue b"
  "hub_next (fold (try_send v) chs b) = hub_next b"
  "dom (hub_chans (fold (try_send v) chs b)) = dom (hub_chans b)"
  "open_chan (fold (try_send v) chs b) d \<longleftrightarrow> open_chan b d"
  by (induction chs arbitrary: b) (simp_all add: hub_simps)

lemma fold_try_send_other: "d \<notin> set chs \<Longrightarrow> hub_chans (fold (try_send v) chs b) d = hub_chans b d"
  by (induction chs arbitrary: b) (simp_all add: hub_simps)

lemma fold_try_send_panic:
  "\<forall>ch \<in> set chs. open_chan b ch \<Longrightarrow> hub_panicked (fold (try_send v) chs b) = hub_panicked b"
  by (induction chs arbitrary: b) (simp_all add: hub_simps try_send_open)

lemma fold_try_send_chan:
  "distinct chs \<Longrightarrow> \<forall>ch \<in> set chs. open_chan b ch \<Longrightarrow> d \<in> set chs \<Longrightarrow>
   chan_of (fold (try_send v) chs b) d = (case chan_of b d of None \<Rightarrow> Some v | Some w \<Rightarrow> Some w)"
proof (induction chs arbitrary: b)
  case Nil
  then show ?case by simp
next
  case (Cons ch chs)
  show ?case
  proof (cases "d = ch")
    case True
    with Cons.prems have "chan_of (fold (try_send v) chs (try_send v ch b)) d = chan_of (try_send v ch b) d"
      by (simp add: chan_of_def fold_try_send_other)
    with True Cons.prems show ?thesis by (simp add: try_send_open)
  next
    case False
    then have "chan_of (try_send v ch b) d = chan_of b d" by (simp add: chan_of_def hub_simps)
    with False Cons show ?thesis by (simp add: hub_simps)
  qed
qed

lemma fold_close_chan:
  assumes "distinct chs" and "\<forall>ch \<in> set chs. open_chan b ch"
  shows "hub_panicked (fold close_chan chs b) = hub_panicked b"
    and "hub_next (fold close_chan chs b) = hub_next b"
    and "dom (hub_chans (fold close_chan chs b)) = dom (hub_chans b)"
    and "open_chan (fold close_chan chs b) d \<longleftrightarrow> open_chan b d \<and> d \<notin> set chs"
proof -
  from assms have "hub_panicked (fold close_chan chs b) = hub_panicked b
      \<and> hub_next (fold close_chan chs b) = hub_next b
      \<and> dom (hub_chans (fold close_chan chs b)) = dom (hub_chans b)
      \<and> (open_chan (fold close_chan chs b) d \<longleftrightarrow> open_chan b d \<and> d \<notin> set chs)"
  proof (induction chs arbitrary: b)
    case Nil
    then show ?case by simp
  next
    case (Cons ch chs)
    then have "\<forall>x \<in> set chs. open_chan (close_chan ch b) x" by (auto simp: hub_simps)
    with Cons have "hub_panicked (fold close_chan chs (close_chan ch b)) = hub_panicked b
        \<and> hub_next (fold close_chan chs (close_chan ch b)) = hub_next b
        \<and> dom (hub_chans (fold close_chan chs (close_chan ch b))) = dom (hub_chans b)
        \<and> (open_chan (fold close_chan chs (close_chan ch b)) d \<longleftrightarrow>
             open_chan (close_chan ch b) d \<and> d \<notin> set chs)"
      by (simp add: hub_simps)
    then show ?case by (auto simp: hub_simps)
  qed
  then show "hub_panicked (fold close_chan chs b) = hub_panicked b"
    and "hub_next (fold close_chan chs b) = hub_next b"
    and "dom (hub_chans (fold close_chan chs b)) = dom (hub_chans b)"
    and "open_chan (fold close_chan chs b) d \<longleftrightarrow> open_chan b d \<and> d \<notin> set chs"
    by auto
qed

section \<open>Interleaving: Subscribe against the other methods\<close>

text \<open>
  A state of the system is the hub and the replays still to be sent: the calls of \<open>Subscribe(true)\<close>
  that are past the unlock of line 54 and have a cached value to send.  The channel of such a call
  is not yet known to any caller, so nobody can unsubscribe it.  The flag says whether \<open>Close\<close> may
  be called.
\<close>

type_synonym 'a hub_sys = "'a hub \<times> (nat \<times> 'a) list"

definition replay_due :: "bool \<Rightarrow> nat \<Rightarrow> 'a option \<Rightarrow> (nat \<times> 'a) list" where
  "replay_due replay ch lastVal =
     (case lastVal of Some v \<Rightarrow> if replay then [(ch, v)] else [] | None \<Rightarrow> [])"

inductive hub_step :: "bool \<Rightarrow> 'a hub_sys \<Rightarrow> 'a hub_sys \<Rightarrow> bool" for closing :: bool where
  register: "subscribe_register b = (ch, lastVal, b') \<Longrightarrow>
    hub_step closing (b, ps) (b', replay_due replay ch lastVal @ ps)"
| replay: "(ch, v) \<in> set ps \<Longrightarrow>
    hub_step closing (b, ps) (subscribe_replay True ch (Some v) b, remove1 (ch, v) ps)"
| unsubscribe: "ch \<notin> fst ` set ps \<Longrightarrow> hub_step closing (b, ps) (Unsubscribe ch b, ps)"
| broadcast: "hub_step closing (b, ps) (Broadcast v b, ps)"
| receive: "hub_step closing (b, ps) (snd (recv_chan ch b), ps)"
| close: "closing \<Longrightarrow> hub_step closing (b, ps) (Close_hub b, ps)"

inductive hub_reachable :: "bool \<Rightarrow> 'a hub_sys \<Rightarrow> bool" for closing :: bool where
  start: "hub_reachable closing (New_hub, [])"
| step: "hub_reachable closing s \<Longrightarrow> hub_step closing s t \<Longrightarrow> hub_reachable closing t"

inductive_cases hub_stepE: "hub_step closing s t"
inductive_simps hub_step_no_close: "hub_step False (b, ps) t"

definition hub_inv :: "'a hub_sys \<Rightarrow> bool" where
  "hub_inv s \<longleftrightarrow> (case s of (b, ps) \<Rightarrow>
     distinct (hub_subscribers b) \<and>
     (\<forall>ch. open_chan b ch \<longleftrightarrow> ch \<in> set (hub_subscribers b)) \<and>
     (\<forall>ch \<in> dom (hub_chans b). ch < hub_next b) \<and>
     fst ` set ps \<subseteq> set (hub_subscribers b) \<and> \<not> hub_panicked b)"

lemma hub_inv_start: "hub_inv (New_hub, [])"
  by (simp add: hub_inv_def New_hub_def open_chan_def)

lemma hub_inv_register:
  assumes inv: "hub_inv (b, ps)" and reg: "subscribe_register b = (ch, lastVal, b')"
  shows "hub_inv (b', replay_due replay ch lastVal @ ps)"
proof -
  from inv have "ch \<notin> set (hub_subscribers b)"
    using reg by (auto simp: hub_inv_def subscribe_register_def Let_def open_chan_def dom_def)
  with inv reg show ?thesis
    by (auto simp: hub_inv_def subscribe_register_def Let_def open_chan_def replay_due_def
        less_Suc_eq split: option.splits if_splits)
qed

lemma hub_inv_try_send:
  "hub_inv (b, ps) \<Longrightarrow> ch \<in> set (hub_subscribers b) \<Longrightarrow> hub_inv (try_send v ch b, ps)"
  by (simp add: hub_inv_def hub_simps try_send_open)

lemma hub_inv_fewer: "hub_inv (b, ps) \<Longrightarrow> set qs \<subseteq> set ps \<Longrightarrow> hub_inv (b, qs)"
  by (simp add: hub_inv_def) (meson image_mono subset_trans)

lemma hub_inv_unsubscribe:
  assumes inv: "hub_inv (b, ps)" and ch: "ch \<notin> fst ` set ps"
  shows "hub_inv (Unsubscribe ch b, ps)"
proof (cases "ch \<in> set (hub_subscribers b)")
  case True
  let ?b = "b\<lparr>hub_subscribers := remove1 ch (hub_subscribers b)\<rparr>"
  have same: "open_chan ?b d \<longleftrightarrow> open_chan b d" for d by (simp add: open_chan_def)
  with True inv have "hub_panicked (close_chan ch ?b) = hub_panicked b"
    by (simp add: hub_simps hub_inv_def)
  with True inv ch same show ?thesis
    by (auto simp: Unsubscribe_def hub_inv_def hub_simps)
next
  case False
  with inv show ?thesis by (simp add: Unsubscribe_def)
qed

lemma hub_inv_broadcast: "hub_inv (b, ps) \<Longrightarrow> hub_inv (Broadcast v b, ps)"
proof -
  let ?b = "b\<lparr>hub_lastValue := Some v\<rparr>"
  assume inv: "hub_inv (b, ps)"
  have same: "open_chan ?b ch \<longleftrightarrow> open_chan b ch" for ch by (simp add: open_chan_def)
  with inv have "hub_panicked (fold (try_send v) (hub_subscribers b) ?b) = hub_panicked b"
    by (simp add: fold_try_send_panic hub_inv_def)
  with inv same show "hub_inv (Broadcast v b, ps)"
    by (simp add: hub_inv_def Broadcast_def hub_simps)
qed

lemma hub_inv_receive: "hub_inv (b, ps) \<Longrightarrow> hub_inv (snd (recv_chan ch b), ps)"
  by (simp add: hub_inv_def hub_simps)

lemma hub_inv_step: "hub_step False s t \<Longrightarrow> hub_inv s \<Longrightarrow> hub_inv t"
proof (induction rule: hub_step.induct)
  case (replay ch v ps b)
  then have "ch \<in> set (hub_subscribers b)" by (force simp: hub_inv_def)
  with replay have "hub_inv (try_send v ch b, ps)" by (simp add: hub_inv_try_send)
  then have "hub_inv (try_send v ch b, remove1 (ch, v) ps)"
    by (rule hub_inv_fewer) (rule set_remove1_subset)
  then show ?case by (simp add: subscribe_replay_def)
qed (simp_all add: hub_inv_register hub_inv_unsubscribe hub_inv_broadcast hub_inv_receive)

lemma hub_inv_reachable: "hub_reachable False s \<Longrightarrow> hub_inv s"
  by (induction rule: hub_reachable.induct) (auto intro: hub_inv_start hub_inv_step)

section \<open>Properties of the hub\<close>

text \<open>
  C18. Whatever calls of \<open>Subscribe\<close>, \<open>Unsubscribe\<close>, \<open>Broadcast\<close> and receives are interleaved, also
  in the middle of a \<open>Subscribe\<close>, as long as nobody calls \<open>Close\<close>: the hub never sends on or closes
  a closed channel (Go would panic), and the open channels are exactly those of its subscribers, so
  none is leaked and none is closed under a subscriber.
\<close>

theorem hub_never_panics:
  assumes "hub_reachable False (b, ps)"
  shows "\<not> hub_panicked b \<and> (\<forall>ch. open_chan b ch \<longleftrightarrow> ch \<in> set (hub_subscribers b))
    \<and> distinct (hub_subscribers b)"
  using hub_inv_reachable [OF assms] by (simp add: hub_inv_def)

definition hub_example :: "string hub" where
  "hub_example = Broadcast ''v'' (snd (snd (subscribe_register New_hub)))"

lemma hub_example_reachable: "hub_reachable False (hub_example, [])"
proof -
  have "hub_step False (New_hub, []) (snd (snd (subscribe_register New_hub)), [])"
    using hub_step.register [of New_hub 0 None _ False "[]" False]
    by (simp add: subscribe_register_def New_hub_def replay_due_def Let_def)
  then show ?thesis unfolding hub_example_def
    by (blast intro: hub_reachable.intros hub_step.broadcast)
qed

theorem hub_never_panics_witness:
  "\<not> hub_panicked hub_example \<and> hub_subscribers hub_example = [0]"
  using hub_never_panics [OF hub_example_reachable]
  by (simp add: hub_example_def Broadcast_def subscribe_register_def New_hub_def hub_simps Let_def)

text \<open>
  Delivery: when \<open>Broadcast v\<close> returns, every subscriber's channel holds \<open>v\<close>, unless the
  subscriber has not yet read an older value, which it keeps (the new one is dropped for it); and a
  \<open>Subscribe(true)\<close> that comes next starts with exactly \<open>v\<close> in its fresh channel.
\<close>

theorem broadcast_delivers:
  assumes "hub_reachable False (b, ps)" and "ch \<in> set (hub_subscribers b)"
    and "Subscribe True (Broadcast v b) = (new, b')"
  shows "chan_of (Broadcast v b) ch = (case chan_of b ch of None \<Rightarrow> Some v | Some w \<Rightarrow> Some w) \<and>
    new \<notin> set (hub_subscribers b) \<and> new \<in> set (hub_subscribers b') \<and> chan_of b' new = Some v"
proof -
  let ?b = "b\<lparr>hub_lastValue := Some v\<rparr>"
  have inv: "hub_inv (b, ps)" by (rule hub_inv_reachable [OF assms(1)])
  have same: "open_chan ?b d \<longleftrightarrow> open_chan b d" for d by (simp add: open_chan_def)
  have "chan_of (Broadcast v b) ch = (case chan_of ?b ch of None \<Rightarrow> Some v | Some w \<Rightarrow> Some w)"
    unfolding Broadcast_def using inv same assms(2)
    by (intro fold_try_send_chan) (simp_all add: hub_inv_def)
  moreover have "chan_of ?b ch = chan_of b ch" by (simp add: chan_of_def)
  moreover have new: "new = hub_next b" using assms(3)
    by (auto simp: Subscribe_def subscribe_register_def Let_def Broadcast_def hub_simps)
  moreover have "\<not> open_chan b (hub_next b)"
    using inv by (auto simp: hub_inv_def open_chan_def dom_def)
  then have "new \<notin> set (hub_subscribers b)" using inv new by (simp add: hub_inv_def)
  moreover have "chan_of b' new = Some v \<and> new \<in> set (hub_subscribers b')"
    using assms(3) by (auto simp: Subscribe_def subscribe_register_def subscribe_replay_def Let_def
        Broadcast_def hub_simps try_send_def chan_of_def)
  ultimately show ?thesis by simp
qed

theorem broadcast_delivers_witness:
  "chan_of (Broadcast ''w'' hub_example) 0 = Some ''v'' \<and>
   chan_of (snd (Subscribe True (Broadcast ''w'' hub_example))) 1 = Some ''w''"
proof -
  have sub: "0 \<in> set (hub_subscribers hub_example)"
    by (simp add: hub_example_def Broadcast_def subscribe_register_def New_hub_def hub_simps Let_def)
  have old: "chan_of hub_example 0 = Some ''v''"
    by (simp add: hub_example_def Broadcast_def subscribe_register_def New_hub_def try_send_def
        chan_of_def Let_def)
  have "fst (Subscribe True (Broadcast ''w'' hub_example)) = 1"
    by (simp add: Subscribe_def hub_example_def Broadcast_def subscribe_register_def New_hub_def
        hub_simps Let_def)
  then have "Subscribe True (Broadcast ''w'' hub_example)
      = (1, snd (Subscribe True (Broadcast ''w'' hub_example)))" by (simp add: prod_eq_iff)
  from broadcast_delivers [OF hub_example_reachable sub this] old show ?thesis by simp
qed

text \<open>
  \<open>Close\<close> is not safe against a concurrent \<open>Subscribe(true)\<close>: the replayed value is sent after
  the lock is released, so a \<open>Close\<close> in between closes the channel first and the send panics.  This
  run is reachable: broadcast once, let \<open>Subscribe\<close> register, close, replay.
\<close>

theorem close_subscribe_race:
  "\<exists>(b :: string hub) ps. hub_reachable True (b, ps) \<and> hub_panicked b"
proof -
  let ?b1 = "Broadcast ''v'' New_hub :: string hub"
  let ?b2 = "snd (snd (subscribe_register ?b1))"
  let ?b3 = "Close_hub ?b2"
  let ?b4 = "subscribe_replay True 0 (Some ''v'') ?b3"
  have "hub_step True (?b1, []) (?b2, [(0, ''v'')])"
    using hub_step.register [of ?b1 0 "Some ''v''" ?b2 True "[]" True]
    by (simp add: subscribe_register_def New_hub_def replay_due_def Let_def Broadcast_def)
  moreover have "hub_step True (?b2, [(0, ''v'')]) (?b3, [(0, ''v'')])"
    by (rule hub_step.close) simp
  moreover have "hub_step True (?b3, [(0, ''v'')]) (?b4, [])"
    using hub_step.replay [of 0 "''v''" "[(0, ''v'')]" True ?b3] by simp
  ultimately have "hub_reachable True (?b4, [])"
    by (meson hub_reachable.intros hub_step.broadcast)
  moreover have "hub_panicked ?b4"
    by (simp add: subscribe_replay_def Close_hub_def subscribe_register_def Broadcast_def New_hub_def
        close_chan_def try_send_def Let_def)
  ultimately show ?thesis by blast
qed

section \<open>Polling watchers\<close>

text \<open>
  The watchers of \<open>config/watcher.go\<close>, \<open>hosts/watcher.go\<close>, \<open>remote/watcher.go\<close> and
  \<open>system/watcher.go\<close> have one shape: a started flag, a hub, and one goroutine that lists the current
  value, broadcasts it, and on every tick lists again and broadcasts when the value changed.  An
  update carries the value or the error.  A loop is \<open>Starting\<close> before its first listing, \<open>Polling\<close>
  with the value it last broadcast, or \<open>Ended\<close>; \<open>loop_cancelled\<close> is its context.
\<close>

datatype ('e, 'v) update = UErr 'e | UVal 'v

datatype 'v phase = Starting | Polling 'v | Ended

record 'v poll_loop =
  loop_phase :: "'v phase"
  loop_cancelled :: bool

record ('e, 'v) watcher =
  w_hub :: "('e, 'v) update hub"
  w_started :: bool
  w_cancel :: bool
  w_loops :: "'v poll_loop list"

definition new_watcher :: "('e, 'v) watcher" where
  "new_watcher = \<lparr>w_hub = New_hub, w_started = False, w_cancel = False, w_loops = []\<rparr>"

definition start_watcher :: "('e, 'v) watcher \<Rightarrow> ('e, 'v) watcher" where
  "start_watcher w =
     (if w_started w then w
      else w\<lparr>w_started := True, w_cancel := True,
             w_loops := w_loops w @ [\<lparr>loop_phase = Starting, loop_cancelled = False\<rparr>]\<rparr>)"

text \<open>\<open>w.cancel\<close> cancels the context of the loop started last.\<close>

definition Stop_watcher :: "('e, 'v) watcher \<Rightarrow> ('e, 'v) watcher" where
  "Stop_watcher w =
     w\<lparr>w_loops := (if w_cancel w
          then butlast (w_loops w) @ [(last (w_loops w))\<lparr>loop_cancelled := True\<rparr>] else w_loops w),
       w_cancel := False, w_started := False, w_hub := Close_hub (w_hub w)\<rparr>"

definition subscribe_watcher :: "('e, 'v) watcher \<Rightarrow> nat \<times> ('e, 'v) watcher" where
  "subscribe_watcher w =
     (let w' = start_watcher w in
      case Subscribe True (w_hub w') of (ch, b) \<Rightarrow> (ch, w'\<lparr>w_hub := b\<rparr>))"

definition unsubscribe_watcher :: "nat \<Rightarrow> ('e, 'v) watcher \<Rightarrow> ('e, 'v) watcher" where
  "unsubscribe_watcher ch w = w\<lparr>w_hub := Unsubscribe ch (w_hub w)\<rparr>"

text \<open>The first listing of a loop; a failed one ends the goroutine.\<close>

definition poll_init :: "'e + 'v \<Rightarrow> ('e, 'v) update hub \<Rightarrow> 'v phase \<times> ('e, 'v) update hub" where
  "poll_init res b =
     (case res of
        Inl e \<Rightarrow> (Ended, Broadcast (UErr e) b)
      | Inr v \<Rightarrow> (Polling v, Broadcast (UVal v) b))"

text \<open>One tick: a failed listing is skipped, an unchanged value is not broadcast.\<close>

definition poll_tick ::
    "('v \<Rightarrow> 'v \<Rightarrow> bool) \<Rightarrow> 'e + 'v \<Rightarrow> 'v \<times> ('e, 'v) update hub \<Rightarrow> 'v \<times> ('e, 'v) update hub" where
  "poll_tick same res st =
     (case st of (prev, b) \<Rightarrow>
      case res of
        Inl e \<Rightarrow> (prev, b)
      | Inr cur \<Rightarrow> if \<not> same prev cur then (cur, Broadcast (UVal cur) b) else (prev, b))"

text \<open>One turn of the loop with the result of its listing.\<close>

definition loop_turn ::
    "('v \<Rightarrow> 'v \<Rightarrow> bool) \<Rightarrow> 'e + 'v \<Rightarrow> 'v phase \<times> ('e, 'v) update hub \<Rightarrow> 'v phase \<times> ('e, 'v) update hub"
where
  "loop_turn same res st =
     (case st of (ph, b) \<Rightarrow>
      case ph of
        Starting \<Rightarrow> poll_init res b
      | Polling prev \<Rightarrow> (case poll_tick same res (prev, b) of (p, b') \<Rightarrow> (Polling p, b'))
      | Ended \<Rightarrow> (Ended, b))"

definition loop_run ::
    "('v \<Rightarrow> 'v \<Rightarrow> bool) \<Rightarrow> ('e + 'v) list \<Rightarrow> 'v phase \<times> ('e, 'v) update hub
       \<Rightarrow> 'v phase \<times> ('e, 'v) update hub" where
  "loop_run same rs st = fold (loop_turn same) rs st"

text \<open>The \<open>select\<close> of the loop: a cancelled context ends it at the next turn, not the first listing.\<close>

definition loop_exit :: "'v poll_loop \<Rightarrow> 'v poll_loop" where
  "loop_exit l =
     (case loop_phase l of
        Polling v \<Rightarrow> if loop_cancelled l then l\<lparr>loop_phase := Ended\<rparr> else l
      | _ \<Rightarrow> l)"

text \<open>The last value that a listing gave, if any did.\<close>

definition last_value :: "('e + 'v) list \<Rightarrow> 'v option" where
  "last_value rs = fold (\<lambda>r acc. case r of Inl _ \<Rightarrow> acc | Inr v \<Rightarrow> Some v) rs None"

lemma last_value_snoc [simp]:
  "last_value (rs @ [r]) = (case r of Inl _ \<Rightarrow> last_value rs | Inr v \<Rightarrow> Some v)"
  by (simp add: last_value_def split: sum.split)

lemma Broadcast_lastValue [simp]: "hub_lastValue (Broadcast v b) = Some v"
  by (simp add: Broadcast_def hub_simps)

lemma loop_run_snoc: "loop_run same (rs @ [r]) st = loop_turn same r (loop_run same rs st)"
  by (simp add: loop_run_def)

lemma loop_run_Ended [simp]: "loop_run same rs (Ended, b) = (Ended, b)"
  by (induction rs rule: rev_induct) (simp_all add: loop_run_def loop_turn_def)

text \<open>
  The contract of a source for such a watcher: the comparison answers whether two values look the
  same to the client, \<open>view\<close> being what the client sees of a value.
\<close>

locale poll_source =
  fixes same :: "'v \<Rightarrow> 'v \<Rightarrow> bool" and view :: "'v \<Rightarrow> 'w"
  assumes same_view: "same a b \<longleftrightarrow> view a = view b"
begin

text \<open>No change is missed: after any turns the cached value looks like the last one listed.\<close>

lemma loop_latest:
  assumes "loop_run same (Inr v0 # rs) (Starting, b) = (ph, b')"
  shows "\<exists>p u. ph = Polling p \<and> hub_lastValue b' = Some (UVal p) \<and>
    last_value (Inr v0 # rs) = Some u \<and> view p = view u"
  using assms
proof (induction rs arbitrary: ph b' rule: rev_induct)
  case Nil
  then show ?case by (auto simp: loop_run_def loop_turn_def poll_init_def last_value_def)
next
  case (snoc r rs)
  obtain ph1 b1 where run: "loop_run same (Inr v0 # rs) (Starting, b) = (ph1, b1)"
    by (cases "loop_run same (Inr v0 # rs) (Starting, b)")
  with snoc.IH obtain p u where IH: "ph1 = Polling p" "hub_lastValue b1 = Some (UVal p)"
    "last_value (Inr v0 # rs) = Some u" "view p = view u" by blast
  have "last_value (Inr v0 # rs @ [r]) = (case r of Inl _ \<Rightarrow> Some u | Inr v \<Rightarrow> Some v)"
    using last_value_snoc [of "Inr v0 # rs" r] IH(3) by (simp split: sum.split)
  moreover have "loop_turn same r (Polling p, b1) = (ph, b')"
    using snoc.prems loop_run_snoc [of same "Inr v0 # rs" r] run IH(1) by simp
  ultimately show ?case using IH(2,4) same_view
    by (auto simp: loop_turn_def poll_tick_def split: sum.splits if_splits)
qed

lemma quiet_tick: "view p = view cur \<Longrightarrow> poll_tick same (Inr cur) (p, b) = (p, b)"
  by (simp add: poll_tick_def same_view)

end

text \<open>Comparing two lists of entries with \<open>reflect.DeepEqual\<close> position by position.\<close>

fun entries_equal :: "'a list \<Rightarrow> 'a list \<Rightarrow> bool" where
  "entries_equal [] [] = True"
| "entries_equal (x # xs) (y # ys) = (x = y \<and> entries_equal xs ys)"
| "entries_equal _ _ = False"

lemma entries_equal_iff: "entries_equal xs ys \<longleftrightarrow> xs = ys"
  by (induction xs ys rule: entries_equal.induct) auto

interpretation entry_watch: poll_source entries_equal "\<lambda>xs. xs"
  by unfold_locales (rule entries_equal_iff)

lemma loop_error_final:
  "loop_run same (Inl e # rs) (Starting, b) = (Ended, Broadcast (UErr e) b)"
proof -
  have "loop_run same (Inl e # rs) (Starting, b) = loop_run same rs (Ended, Broadcast (UErr e) b)"
    by (simp add: loop_run_def loop_turn_def poll_init_def)
  then show ?thesis by simp
qed

text \<open>
  A watcher whose first listing fails is dead for good: the goroutine returns, the started flag
  stays set, so \<open>start\<close> spawns no other loop, and every later listing, also a successful one, is
  never broadcast; each new subscriber is handed the first error again.
\<close>

theorem watcher_error_is_final:
  assumes "w_started w"
    and "loop_run same (Inl e # rs) (Starting, w_hub w) = (ph, b)"
  shows "ph = Ended \<and> b = Broadcast (UErr e) (w_hub w) \<and>
    start_watcher (w\<lparr>w_hub := b\<rparr>) = w\<lparr>w_hub := b\<rparr> \<and> hub_lastValue b = Some (UErr e)"
  using assms by (auto simp: loop_error_final start_watcher_def)

theorem watcher_error_is_final_witness:
  "loop_run entries_equal [Inl ''denied'', Inr [''a'']] (Starting, w_hub (start_watcher new_watcher))
     = (Ended, Broadcast (UErr ''denied'') (w_hub (start_watcher new_watcher)))"
proof -
  have "w_started (start_watcher new_watcher)"
    by (simp add: start_watcher_def new_watcher_def)
  from watcher_error_is_final [OF this] show ?thesis by (metis surj_pair)
qed

end
