(* ===== verification/ManagedAgent.thy ===== *)
theory ManagedAgent
  imports Prelude "HOL-Library.Word" "HOL-Library.AList"
begin

text \<open>
  \<open>skeys-core/agent/server.go\<close>: the SSH agent that the daemon runs.  The state \<open>managedAgent\<close> has
  the fields of the Go struct; its key map is an association list from fingerprint to key (Go's map
  has no order, so nothing below depends on the order of the list).  Every method takes the mutex for
  its whole body and is one function of the state here; a method that starts \<open>go m.notifyChange()\<close>
  adds one to \<open>ag_notify\<close>.

  What the code takes from \<open>golang.org/x/crypto/ssh\<close> is an argument of type \<open>crypto\<close>: making a
  signer from a private key, the public key of a signer, fingerprints, types and wire forms of
  public keys, and signing.  The clock is an argument too, in nanoseconds.

  \<open>serve\<close> runs one request; \<open>agent_run\<close> runs a list of them.
\<close>

record managed_key_info =
  info_format :: string
  info_blob :: string
  info_comment :: string

record ('priv, 'sg, 'pk, 'sig) crypto =
  NewSignerFromKey :: "'priv \<Rightarrow> 'sg option"
  PublicKey_of :: "'sg \<Rightarrow> 'pk"
  FingerprintSHA256 :: "'pk \<Rightarrow> string"
  PublicKey_Type :: "'pk \<Rightarrow> string"
  PublicKey_Marshal :: "'pk \<Rightarrow> string"
  is_AlgorithmSigner :: "'sg \<Rightarrow> bool"
  SignWithAlgorithm :: "'sg \<Rightarrow> string \<Rightarrow> string \<Rightarrow> 'sig option"
  Sign_default :: "'sg \<Rightarrow> string \<Rightarrow> 'sig option"

record 'sg managedKey =
  mk_signer :: 'sg
  mk_comment :: string
  mk_addedAt :: int
  mk_lifetime :: "64 word"
  mk_confirm :: bool

record 'sg managedAgent =
  ag_keys :: "(string \<times> 'sg managedKey) list"
  ag_locked :: bool
  ag_lockPass :: string
  ag_socketPath :: string
  ag_listening :: bool
  ag_stopped :: bool
  ag_notify :: nat

datatype agent_err = AgentLocked | AlreadyLocked | NotLocked | IncorrectPassphrase | KeyNotFound
  | SignerError | SignError | ListenError | ExtensionUnsupported

datatype sig_flags = SignatureFlagRsaSha256 | SignatureFlagRsaSha512 | OtherSignatureFlags

record AgentKey =
  ak_Fingerprint :: string
  ak_Comment :: string
  ak_Type :: string
  ak_Bits :: int
  ak_HasLifetime :: bool
  ak_LifetimeSeconds :: int
  ak_IsConfirm :: bool

record AgentStatus =
  as_Running :: bool
  as_SocketPath :: string
  as_IsLocked :: bool
  as_KeyCount :: nat

section \<open>Times\<close>

text \<open>\<open>time.Duration(key.LifetimeSecs) * time.Second\<close>: a product of 64-bit integers.\<close>

definition lifetime_duration :: "32 word \<Rightarrow> 64 word" where
  "lifetime_duration secs = ucast secs * 1000000000"

text \<open>\<open>now.Sub(t)\<close> saturates at the ends of the 64-bit range.\<close>

definition time_sub :: "int \<Rightarrow> int \<Rightarrow> int" where
  "time_sub a b = max (- (2 ^ 63)) (min (2 ^ 63 - 1) (a - b))"

definition key_expired :: "int \<Rightarrow> 'sg managedKey \<Rightarrow> bool" where
  "key_expired now k \<longleftrightarrow>
     0 < sint (mk_lifetime k) \<and> time_sub now (mk_addedAt k) > sint (mk_lifetime k)"

text \<open>
  \<open>int(d.Seconds())\<close> of a duration: whole seconds, towards zero.  (Go goes through a 64-bit float,
  which is exact for the durations below 97 days that keys are shown with; beyond that it may be off
  by one second.)
\<close>

definition whole_seconds :: "int \<Rightarrow> int" where
  "whole_seconds d = sgn d * (\<bar>d\<bar> div 1000000000)"

section \<open>The methods\<close>

definition NewManagedAgent :: "string \<Rightarrow> 'sg managedAgent" where
  "NewManagedAgent path = \<lparr>ag_keys = [], ag_locked = False, ag_lockPass = [], ag_socketPath = path,
     ag_listening = False, ag_stopped = False, ag_notify = 0\<rparr>"

text \<open>
  \<open>Start\<close>: the three calls that can fail are removing an old socket, listening, and the \<open>chmod\<close> of
  the socket, after which the listener is closed again and not stored.
\<close>

definition Start_agent :: "bool \<Rightarrow> bool \<Rightarrow> bool \<Rightarrow> 'sg managedAgent \<Rightarrow> 'sg managedAgent \<times> agent_err option"
where
  "Start_agent remove_ok listen_ok chmod_ok m =
     (if \<not> remove_ok then (m, Some ListenError)
      else if \<not> listen_ok then (m, Some ListenError)
      else if \<not> chmod_ok then (m, Some ListenError)
      else (m\<lparr>ag_listening := True\<rparr>, None))"

text \<open>\<open>Stop\<close> closes \<open>stopChan\<close>, which panics (\<open>None\<close>) the second time; the listener stays set.\<close>

definition Stop_agent :: "'sg managedAgent \<Rightarrow> 'sg managedAgent option" where
  "Stop_agent m = (if ag_stopped m then None else Some (m\<lparr>ag_stopped := True\<rparr>))"

definition notify :: "'sg managedAgent \<Rightarrow> 'sg managedAgent" where
  "notify m = m\<lparr>ag_notify := Suc (ag_notify m)\<rparr>"

definition expireKeys :: "int \<Rightarrow> 'sg managedAgent \<Rightarrow> 'sg managedAgent" where
  "expireKeys now m =
     (let expired = map fst (filter (\<lambda>(fp, k). key_expired now k) (ag_keys m));
          m' = m\<lparr>ag_keys := fold AList.delete expired (ag_keys m)\<rparr>
      in if expired \<noteq> [] then notify m' else m')"

definition List_agent ::
    "('priv, 'sg, 'pk, 'sig) crypto \<Rightarrow> 'sg managedAgent \<Rightarrow> agent_err + managed_key_info list" where
  "List_agent cr m =
     (if ag_locked m then Inl AgentLocked
      else Inr (map (\<lambda>(fp, k). let pubKey = PublicKey_of cr (mk_signer k) in
                 \<lparr>info_format = PublicKey_Type cr pubKey, info_blob = PublicKey_Marshal cr pubKey,
                  info_comment = mk_comment k\<rparr>) (ag_keys m)))"

definition key_algo :: "sig_flags \<Rightarrow> string" where
  "key_algo flags =
     (case flags of
        SignatureFlagRsaSha256 \<Rightarrow> ''rsa-sha2-256''
      | SignatureFlagRsaSha512 \<Rightarrow> ''rsa-sha2-512''
      | OtherSignatureFlags \<Rightarrow> [])"

definition SignWithFlags ::
    "('priv, 'sg, 'pk, 'sig) crypto \<Rightarrow> 'sg managedAgent \<Rightarrow> 'pk \<Rightarrow> string \<Rightarrow> sig_flags \<Rightarrow> agent_err + 'sig"
where
  "SignWithFlags cr m key data flags =
     (if ag_locked m then Inl AgentLocked
      else (case map_of (ag_keys m) (FingerprintSHA256 cr key) of
        None \<Rightarrow> Inl KeyNotFound
      | Some k \<Rightarrow>
          (let algo = key_algo flags;
               res = (if algo \<noteq> [] \<and> is_AlgorithmSigner cr (mk_signer k)
                      then SignWithAlgorithm cr (mk_signer k) data algo
                      else Sign_default cr (mk_signer k) data)
           in case res of None \<Rightarrow> Inl SignError | Some s \<Rightarrow> Inr s)))"

definition Sign ::
    "('priv, 'sg, 'pk, 'sig) crypto \<Rightarrow> 'sg managedAgent \<Rightarrow> 'pk \<Rightarrow> string \<Rightarrow> agent_err + 'sig" where
  "Sign cr m key data = SignWithFlags cr m key data OtherSignatureFlags"

definition Add_agent ::
    "('priv, 'sg, 'pk, 'sig) crypto \<Rightarrow> int \<Rightarrow> 'priv \<Rightarrow> string \<Rightarrow> 32 word \<Rightarrow> bool \<Rightarrow> 'sg managedAgent
      \<Rightarrow> 'sg managedAgent \<times> agent_err option" where
  "Add_agent cr now privateKey comment lifetimeSecs confirm m =
     (if ag_locked m then (m, Some AgentLocked)
      else (case NewSignerFromKey cr privateKey of
        None \<Rightarrow> (m, Some SignerError)
      | Some signer \<Rightarrow>
          (let fp = FingerprintSHA256 cr (PublicKey_of cr signer);
               k = \<lparr>mk_signer = signer, mk_comment = comment, mk_addedAt = now,
                    mk_lifetime = lifetime_duration lifetimeSecs, mk_confirm = confirm\<rparr>
           in (notify (m\<lparr>ag_keys := AList.update fp k (ag_keys m)\<rparr>), None))))"

text \<open>\<open>AddKeyDirect\<close> only packs its arguments and calls \<open>Add\<close>.\<close>

definition AddKeyDirect ::
    "('priv, 'sg, 'pk, 'sig) crypto \<Rightarrow> int \<Rightarrow> 'priv \<Rightarrow> string \<Rightarrow> 32 word \<Rightarrow> bool \<Rightarrow> 'sg managedAgent
      \<Rightarrow> 'sg managedAgent \<times> agent_err option" where
  "AddKeyDirect cr now privateKey comment lifetimeSecs confirm m =
     Add_agent cr now privateKey comment lifetimeSecs confirm m"

definition Remove_agent ::
    "('priv, 'sg, 'pk, 'sig) crypto \<Rightarrow> 'pk \<Rightarrow> 'sg managedAgent \<Rightarrow> 'sg managedAgent \<times> agent_err option"
where
  "Remove_agent cr key m =
     (if ag_locked m then (m, Some AgentLocked)
      else (let fp = FingerprintSHA256 cr key in
        if map_of (ag_keys m) fp = None then (m, Some KeyNotFound)
        else (notify (m\<lparr>ag_keys := AList.delete fp (ag_keys m)\<rparr>), None)))"

definition RemoveAll_agent :: "'sg managedAgent \<Rightarrow> 'sg managedAgent \<times> agent_err option" where
  "RemoveAll_agent m =
     (if ag_locked m then (m, Some AgentLocked) else (notify (m\<lparr>ag_keys := []\<rparr>), None))"

definition Lock_agent :: "string \<Rightarrow> 'sg managedAgent \<Rightarrow> 'sg managedAgent \<times> agent_err option" where
  "Lock_agent passphrase m =
     (if ag_locked m then (m, Some AlreadyLocked)
      else (notify (m\<lparr>ag_locked := True, ag_lockPass := passphrase\<rparr>), None))"

definition Unlock_agent :: "string \<Rightarrow> 'sg managedAgent \<Rightarrow> 'sg managedAgent \<times> agent_err option" where
  "Unlock_agent passphrase m =
     (if \<not> ag_locked m then (m, Some NotLocked)
      else if passphrase \<noteq> ag_lockPass m then (m, Some IncorrectPassphrase)
      else (notify (m\<lparr>ag_locked := False, ag_lockPass := []\<rparr>), None))"

definition Signers :: "'sg managedAgent \<Rightarrow> agent_err + 'sg list" where
  "Signers m =
     (if ag_locked m then Inl AgentLocked else Inr (map (\<lambda>(fp, k). mk_signer k) (ag_keys m)))"

definition Extension :: "string \<Rightarrow> string \<Rightarrow> agent_err + string" where
  "Extension extensionType contents = Inl ExtensionUnsupported"

definition RemoveKeyByFingerprint_agent ::
    "string \<Rightarrow> 'sg managedAgent \<Rightarrow> 'sg managedAgent \<times> agent_err option" where
  "RemoveKeyByFingerprint_agent fingerprint m =
     (if ag_locked m then (m, Some AgentLocked)
      else if map_of (ag_keys m) fingerprint = None then (m, None)
      else (notify (m\<lparr>ag_keys := AList.delete fingerprint (ag_keys m)\<rparr>), None))"

definition remaining_seconds :: "int \<Rightarrow> 'sg managedKey \<Rightarrow> int" where
  "remaining_seconds now k =
     (if 0 < sint (mk_lifetime k)
      then max 0 (whole_seconds (sint (mk_lifetime k)) - whole_seconds (time_sub now (mk_addedAt k)))
      else 0)"

definition ListKeys_agent ::
    "('priv, 'sg, 'pk, 'sig) crypto \<Rightarrow> int \<Rightarrow> 'sg managedAgent \<Rightarrow> agent_err + AgentKey list" where
  "ListKeys_agent cr now m =
     (if ag_locked m then Inl AgentLocked
      else Inr (map (\<lambda>(fp, k).
             \<lparr>ak_Fingerprint = fp, ak_Comment = mk_comment k,
              ak_Type = PublicKey_Type cr (PublicKey_of cr (mk_signer k)), ak_Bits = 0,
              ak_HasLifetime = 0 < sint (mk_lifetime k),
              ak_LifetimeSeconds = remaining_seconds now k, ak_IsConfirm = mk_confirm k\<rparr>)
             (ag_keys m)))"

definition Status_agent :: "'sg managedAgent \<Rightarrow> AgentStatus" where
  "Status_agent m = \<lparr>as_Running = ag_listening m, as_SocketPath = ag_socketPath m,
     as_IsLocked = ag_locked m, as_KeyCount = length (ag_keys m)\<rparr>"

definition IsLocked :: "'sg managedAgent \<Rightarrow> bool" where
  "IsLocked m = ag_locked m"

definition KeyCount :: "'sg managedAgent \<Rightarrow> nat" where
  "KeyCount m = length (ag_keys m)"

section \<open>Requests and runs\<close>

datatype ('priv, 'pk) request =
    RList | RSign 'pk string sig_flags | RAdd 'priv string "32 word" bool | RRemove 'pk | RRemoveAll
  | RLock string | RUnlock string | RSigners | RRemoveByFingerprint string | RListKeys
  | RExpireTick

datatype ('sg, 'sig) response =
    Done "agent_err option" | Refused agent_err | Identities "managed_key_info list"
  | KeyList "AgentKey list" | SignerList "'sg list" | Signature 'sig

definition answer :: "('a \<Rightarrow> ('sg, 'sig) response) \<Rightarrow> agent_err + 'a \<Rightarrow> ('sg, 'sig) response" where
  "answer f r = (case r of Inl e \<Rightarrow> Refused e | Inr x \<Rightarrow> f x)"

definition serve ::
    "('priv, 'sg, 'pk, 'sig) crypto \<Rightarrow> int \<Rightarrow> ('priv, 'pk) request \<Rightarrow> 'sg managedAgent
      \<Rightarrow> 'sg managedAgent \<times> ('sg, 'sig) response" where
  "serve cr now r m =
     (case r of
        RList \<Rightarrow> (m, answer Identities (List_agent cr m))
      | RSign key data flags \<Rightarrow> (m, answer Signature (SignWithFlags cr m key data flags))
      | RAdd priv comment secs confirm \<Rightarrow> map_prod id Done (Add_agent cr now priv comment secs confirm m)
      | RRemove key \<Rightarrow> map_prod id Done (Remove_agent cr key m)
      | RRemoveAll \<Rightarrow> map_prod id Done (RemoveAll_agent m)
      | RLock pass \<Rightarrow> map_prod id Done (Lock_agent pass m)
      | RUnlock pass \<Rightarrow> map_prod id Done (Unlock_agent pass m)
      | RSigners \<Rightarrow> (m, answer SignerList (Signers m))
      | RRemoveByFingerprint fp \<Rightarrow> map_prod id Done (RemoveKeyByFingerprint_agent fp m)
      | RListKeys \<Rightarrow> (m, answer KeyList (ListKeys_agent cr now m))
      | RExpireTick \<Rightarrow> (expireKeys now m, Done None))"

fun agent_run ::
    "('priv, 'sg, 'pk, 'sig) crypto \<Rightarrow> (int \<times> ('priv, 'pk) request) list \<Rightarrow> 'sg managedAgent
      \<Rightarrow> 'sg managedAgent \<times> ('sg, 'sig) response list" where
  "agent_run cr [] m = (m, [])"
| "agent_run cr ((now, r) # rs) m =
     (case serve cr now r m of (m1, a) \<Rightarrow>
      case agent_run cr rs m1 of (m2, as) \<Rightarrow> (m2, a # as))"

section \<open>The invariant\<close>

text \<open>
  No fingerprint is stored twice, every key is stored under the fingerprint of its own signer, and an
  unlocked agent remembers no passphrase.
\<close>

definition agent_inv :: "('priv, 'sg, 'pk, 'sig) crypto \<Rightarrow> 'sg managedAgent \<Rightarrow> bool" where
  "agent_inv cr m \<longleftrightarrow>
     distinct (map fst (ag_keys m)) \<and>
     (\<forall>(fp, k) \<in> set (ag_keys m). fp = FingerprintSHA256 cr (PublicKey_of cr (mk_signer k))) \<and>
     (\<not> ag_locked m \<longrightarrow> ag_lockPass m = [])"

lemma agent_inv_new: "agent_inv cr (NewManagedAgent path)"
  by (simp add: agent_inv_def NewManagedAgent_def)

lemma agent_inv_notify [simp]: "agent_inv cr (notify m) \<longleftrightarrow> agent_inv cr m"
  by (simp add: agent_inv_def notify_def)

lemma notify_sel [simp]:
  "ag_keys (notify m) = ag_keys m" "ag_locked (notify m) = ag_locked m"
  "ag_lockPass (notify m) = ag_lockPass m" "ag_socketPath (notify m) = ag_socketPath m"
  "ag_notify (notify m) = Suc (ag_notify m)"
  by (simp_all add: notify_def)

lemma set_update_subset: "set (AList.update k v al) \<subseteq> insert (k, v) (set al)"
  by (induction al) auto

lemma length_AList_update:
  "length (AList.update k v al) = (if map_of al k = None then Suc (length al) else length al)"
  by (induction al) auto

lemma agent_inv_update:
  "agent_inv cr m \<Longrightarrow> fp = FingerprintSHA256 cr (PublicKey_of cr (mk_signer k)) \<Longrightarrow>
   agent_inv cr (m\<lparr>ag_keys := AList.update fp k (ag_keys m)\<rparr>)"
  using set_update_subset [of fp k "ag_keys m"] by (auto simp: agent_inv_def distinct_update)

text \<open>Removing keys, one or several: every deletion keeps the invariant.\<close>

lemma set_delete_subset: "set (AList.delete k al) \<subseteq> set al"
  by (auto simp: AList.delete_eq)

lemma agent_inv_delete:
  "agent_inv cr m \<Longrightarrow> agent_inv cr (m\<lparr>ag_keys := AList.delete fp (ag_keys m)\<rparr>)"
  using set_delete_subset [of fp "ag_keys m"] by (auto simp: agent_inv_def distinct_delete)

lemma fold_delete_eq: "fold AList.delete ks al = filter (\<lambda>(k, _). k \<notin> set ks) al"
  by (induction ks arbitrary: al) (auto simp: AList.delete_eq intro: filter_cong)

lemma map_of_filter_distinct:
  "distinct (map fst al) \<Longrightarrow>
   map_of (filter (\<lambda>(k, v). P k v) al) k =
     (case map_of al k of None \<Rightarrow> None | Some v \<Rightarrow> if P k v then Some v else None)"
  by (induction al) (auto simp: map_of_eq_None_iff rev_image_eqI split: option.splits)

lemma expired_keys_filter:
  assumes "distinct (map fst al)"
  shows "fold AList.delete (map fst (filter (\<lambda>(fp, k). P k) al)) al = filter (\<lambda>(fp, k). \<not> P k) al"
proof -
  have "fp \<in> fst ` set (filter (\<lambda>(fp, k). P k) al) \<longleftrightarrow> P k" if "(fp, k) \<in> set al" for fp k
    using that assms by (force dest: eq_key_imp_eq_value)
  then show ?thesis unfolding fold_delete_eq by (auto intro!: filter_cong)
qed

lemma ag_keys_expireKeys:
  "distinct (map fst (ag_keys m)) \<Longrightarrow>
   ag_keys (expireKeys now m) = filter (\<lambda>(fp, k). \<not> key_expired now k) (ag_keys m)"
proof -
  have "ag_keys (expireKeys now m) =
      fold AList.delete (map fst (filter (\<lambda>(fp, k). key_expired now k) (ag_keys m))) (ag_keys m)"
    unfolding expireKeys_def Let_def by simp
  then show "distinct (map fst (ag_keys m)) \<Longrightarrow> ?thesis" by (simp add: expired_keys_filter)
qed

lemma expireKeys_sel [simp]:
  "ag_locked (expireKeys now m) = ag_locked m" "ag_lockPass (expireKeys now m) = ag_lockPass m"
  by (simp_all add: expireKeys_def Let_def)

lemma agent_inv_expire: "agent_inv cr m \<Longrightarrow> agent_inv cr (expireKeys now m)"
  by (auto simp: agent_inv_def ag_keys_expireKeys distinct_map_filter)

text \<open>A bundle for the proofs that go through every request.\<close>

lemmas agent_ops = Add_agent_def Remove_agent_def RemoveAll_agent_def Lock_agent_def Unlock_agent_def
  RemoveKeyByFingerprint_agent_def

lemma agent_run_Cons:
  "fst (agent_run cr ((now, r) # rs) m) = fst (agent_run cr rs (fst (serve cr now r m)))"
  "snd (agent_run cr ((now, r) # rs) m) =
     snd (serve cr now r m) # snd (agent_run cr rs (fst (serve cr now r m)))"
  by (simp_all split: prod.split)

declare agent_run.simps(2) [simp del] agent_run_Cons [simp]

lemma agent_inv_serve: "agent_inv cr m \<Longrightarrow> agent_inv cr (fst (serve cr now r m))"
  by (cases r) (auto simp: serve_def agent_ops Let_def agent_inv_update agent_inv_delete
      agent_inv_expire split: option.split, auto simp: agent_inv_def)

lemma agent_inv_run: "agent_inv cr m \<Longrightarrow> agent_inv cr (fst (agent_run cr rs m))"
  by (induction rs arbitrary: m) (auto simp: agent_inv_serve)

section \<open>The abstract agent\<close>

text \<open>
  What the agent promises: a vault that is open or sealed with a passphrase and holds a partial map
  from fingerprints to keys.  A sealed vault only reacts to its passphrase and to the clock.
\<close>

datatype 'sg vault = Open_vault "string \<rightharpoonup> 'sg managedKey" | Sealed string "string \<rightharpoonup> 'sg managedKey"

definition live_keys :: "int \<Rightarrow> (string \<rightharpoonup> 'sg managedKey) \<Rightarrow> (string \<rightharpoonup> 'sg managedKey)" where
  "live_keys now K =
     (\<lambda>fp. case K fp of None \<Rightarrow> None | Some k \<Rightarrow> if key_expired now k then None else Some k)"

definition vault_next ::
    "('priv, 'sg, 'pk, 'sig) crypto \<Rightarrow> int \<times> ('priv, 'pk) request \<Rightarrow> 'sg vault \<Rightarrow> 'sg vault" where
  "vault_next cr nr v = (case nr of (now, r) \<Rightarrow>
     (case v of
        Sealed pw K \<Rightarrow>
          (case r of
             RUnlock p \<Rightarrow> if p = pw then Open_vault K else v
           | RExpireTick \<Rightarrow> Sealed pw (live_keys now K)
           | _ \<Rightarrow> v)
      | Open_vault K \<Rightarrow>
          (case r of
             RAdd priv comment secs confirm \<Rightarrow>
               (case NewSignerFromKey cr priv of
                  None \<Rightarrow> v
                | Some s \<Rightarrow> Open_vault (K(FingerprintSHA256 cr (PublicKey_of cr s) \<mapsto>
                    \<lparr>mk_signer = s, mk_comment = comment, mk_addedAt = now,
                     mk_lifetime = lifetime_duration secs, mk_confirm = confirm\<rparr>)))
           | RRemove key \<Rightarrow> Open_vault (K(FingerprintSHA256 cr key := None))
           | RRemoveByFingerprint fp \<Rightarrow> Open_vault (K(fp := None))
           | RRemoveAll \<Rightarrow> Open_vault Map.empty
           | RLock pw \<Rightarrow> Sealed pw K
           | RExpireTick \<Rightarrow> Open_vault (live_keys now K)
           | _ \<Rightarrow> v)))"

definition vault_of :: "'sg managedAgent \<Rightarrow> 'sg vault" where
  "vault_of m =
     (if ag_locked m then Sealed (ag_lockPass m) (map_of (ag_keys m))
      else Open_vault (map_of (ag_keys m)))"

lemma map_of_expireKeys:
  "agent_inv cr m \<Longrightarrow> map_of (ag_keys (expireKeys now m)) = live_keys now (map_of (ag_keys m))"
  by (rule ext) (simp add: agent_inv_def ag_keys_expireKeys live_keys_def
      map_of_filter_distinct [where P = "\<lambda>_ k. \<not> key_expired now k"] split: option.split)

lemma vault_of_serve:
  assumes "agent_inv cr m"
  shows "vault_of (fst (serve cr now r m)) = vault_next cr (now, r) (vault_of m)"
  using assms
  by (cases r) (auto simp: serve_def agent_ops Let_def vault_of_def vault_next_def update_conv'
      delete_conv' map_of_expireKeys fun_upd_idem split: option.split)

lemma vault_of_run:
  "agent_inv cr m \<Longrightarrow> vault_of (fst (agent_run cr rs m)) = fold (vault_next cr) rs (vault_of m)"
  by (induction rs arbitrary: m) (auto simp: agent_inv_serve vault_of_serve)

text \<open>The answers a vault may give; a listing names every held key once, in any order.\<close>

definition lists_all :: "(string \<rightharpoonup> 'k) \<Rightarrow> (string \<Rightarrow> 'k \<Rightarrow> 'b) \<Rightarrow> 'b list \<Rightarrow> bool" where
  "lists_all K f l \<longleftrightarrow> (\<exists>fps. distinct fps \<and> set fps = dom K \<and> l = map (\<lambda>fp. f fp (the (K fp))) fps)"

definition identity_of :: "('priv, 'sg, 'pk, 'sig) crypto \<Rightarrow> 'sg managedKey \<Rightarrow> managed_key_info" where
  "identity_of cr k = \<lparr>info_format = PublicKey_Type cr (PublicKey_of cr (mk_signer k)),
     info_blob = PublicKey_Marshal cr (PublicKey_of cr (mk_signer k)), info_comment = mk_comment k\<rparr>"

definition agent_key_of ::
    "('priv, 'sg, 'pk, 'sig) crypto \<Rightarrow> int \<Rightarrow> string \<Rightarrow> 'sg managedKey \<Rightarrow> AgentKey" where
  "agent_key_of cr now fp k = \<lparr>ak_Fingerprint = fp, ak_Comment = mk_comment k,
     ak_Type = PublicKey_Type cr (PublicKey_of cr (mk_signer k)), ak_Bits = 0,
     ak_HasLifetime = 0 < sint (mk_lifetime k), ak_LifetimeSeconds = remaining_seconds now k,
     ak_IsConfirm = mk_confirm k\<rparr>"

definition signature_by ::
    "('priv, 'sg, 'pk, 'sig) crypto \<Rightarrow> 'sg managedKey \<Rightarrow> string \<Rightarrow> sig_flags \<Rightarrow> 'sig option" where
  "signature_by cr k data flags =
     (if flags \<noteq> OtherSignatureFlags \<and> is_AlgorithmSigner cr (mk_signer k)
      then SignWithAlgorithm cr (mk_signer k) data (key_algo flags)
      else Sign_default cr (mk_signer k) data)"

definition vault_accepts ::
    "('priv, 'sg, 'pk, 'sig) crypto \<Rightarrow> int \<times> ('priv, 'pk) request \<Rightarrow> 'sg vault
      \<Rightarrow> ('sg, 'sig) response \<Rightarrow> bool" where
  "vault_accepts cr nr v a = (case nr of (now, r) \<Rightarrow>
     (case v of
        Sealed pw K \<Rightarrow>
          (case r of
             RUnlock p \<Rightarrow> a = Done (if p = pw then None else Some IncorrectPassphrase)
           | RLock p \<Rightarrow> a = Done (Some AlreadyLocked)
           | RExpireTick \<Rightarrow> a = Done None
           | RList \<Rightarrow> a = Refused AgentLocked
           | RListKeys \<Rightarrow> a = Refused AgentLocked
           | RSigners \<Rightarrow> a = Refused AgentLocked
           | RSign key data flags \<Rightarrow> a = Refused AgentLocked
           | _ \<Rightarrow> a = Done (Some AgentLocked))
      | Open_vault K \<Rightarrow>
          (case r of
             RList \<Rightarrow> \<exists>l. lists_all K (\<lambda>fp. identity_of cr) l \<and> a = Identities l
           | RListKeys \<Rightarrow> \<exists>l. lists_all K (agent_key_of cr now) l \<and> a = KeyList l
           | RSigners \<Rightarrow> \<exists>l. lists_all K (\<lambda>fp. mk_signer) l \<and> a = SignerList l
           | RSign key data flags \<Rightarrow>
               a = (case K (FingerprintSHA256 cr key) of
                      None \<Rightarrow> Refused KeyNotFound
                    | Some k \<Rightarrow> (case signature_by cr k data flags of
                        None \<Rightarrow> Refused SignError | Some s \<Rightarrow> Signature s))
           | RAdd priv comment secs confirm \<Rightarrow>
               a = Done (if NewSignerFromKey cr priv = None then Some SignerError else None)
           | RRemove key \<Rightarrow>
               a = Done (if K (FingerprintSHA256 cr key) = None then Some KeyNotFound else None)
           | RUnlock p \<Rightarrow> a = Done (Some NotLocked)
           | _ \<Rightarrow> a = Done None)))"

fun vault_trace ::
    "('priv, 'sg, 'pk, 'sig) crypto \<Rightarrow> (int \<times> ('priv, 'pk) request) list \<Rightarrow> 'sg vault
      \<Rightarrow> ('sg, 'sig) response list \<Rightarrow> bool" where
  "vault_trace cr [] v as \<longleftrightarrow> as = []"
| "vault_trace cr (nr # rs) v [] \<longleftrightarrow> False"
| "vault_trace cr (nr # rs) v (a # as) \<longleftrightarrow>
     vault_accepts cr nr v a \<and> vault_trace cr rs (vault_next cr nr v) as"

lemma lists_all_map_of:
  assumes "distinct (map fst al)"
  shows "lists_all (map_of al) f (map (\<lambda>(fp, k). f fp k) al)"
  unfolding lists_all_def
proof (intro exI conjI)
  show "map (\<lambda>(fp, k). f fp k) al = map (\<lambda>fp. f fp (the (map_of al fp))) (map fst al)"
    using assms by auto
qed (use assms in \<open>auto simp: dom_map_of_conv_image_fst\<close>)

lemma key_algo_Nil [simp]: "key_algo flags = [] \<longleftrightarrow> flags = OtherSignatureFlags"
  by (cases flags) (simp_all add: key_algo_def)

lemma SignWithFlags_unlocked:
  "\<not> ag_locked m \<Longrightarrow> SignWithFlags cr m key data flags =
     (case map_of (ag_keys m) (FingerprintSHA256 cr key) of
        None \<Rightarrow> Inl KeyNotFound
      | Some k \<Rightarrow> (case signature_by cr k data flags of None \<Rightarrow> Inl SignError | Some s \<Rightarrow> Inr s))"
  by (simp add: SignWithFlags_def signature_by_def Let_def cong: option.case_cong)

lemma SignWithFlags_added:
  "\<not> ag_locked m \<Longrightarrow>
   SignWithFlags cr (notify (m\<lparr>ag_keys := AList.update fp k (ag_keys m)\<rparr>)) key data flags =
     (if FingerprintSHA256 cr key = fp
      then (case signature_by cr k data flags of None \<Rightarrow> Inl SignError | Some s \<Rightarrow> Inr s)
      else SignWithFlags cr m key data flags)"
  by (simp add: SignWithFlags_unlocked update_conv')

lemma serve_accepted:
  assumes inv: "agent_inv cr m"
  shows "vault_accepts cr (now, r) (vault_of m) (snd (serve cr now r m))"
proof (cases "ag_locked m")
  case True
  then show ?thesis
    by (cases r) (simp_all add: serve_def vault_accepts_def vault_of_def agent_ops List_agent_def
        SignWithFlags_def Signers_def ListKeys_agent_def answer_def)
next
  case False
  have lists: "lists_all (map_of (ag_keys m)) f (map (\<lambda>(fp, k). f fp k) (ag_keys m))" for f
    using inv by (simp add: agent_inv_def lists_all_map_of)
  from False show ?thesis
    by (cases r) (auto simp: serve_def vault_accepts_def vault_of_def agent_ops List_agent_def
        SignWithFlags_unlocked Signers_def ListKeys_agent_def answer_def Let_def
        identity_of_def [symmetric] agent_key_of_def [symmetric] lists
        split: option.split)
qed

lemma run_accepted:
  "agent_inv cr m \<Longrightarrow> vault_trace cr rs (vault_of m) (snd (agent_run cr rs m))"
  by (induction rs arbitrary: m) (auto simp: serve_accepted agent_inv_serve simp flip: vault_of_serve)

section \<open>Sealed vaults\<close>

definition expiry_ticks :: "(int \<times> ('priv, 'pk) request) list \<Rightarrow> int list" where
  "expiry_ticks rs = map fst (filter (\<lambda>(t, r). r = RExpireTick) rs)"

fun reveals :: "('sg, 'sig) response \<Rightarrow> bool" where
  "reveals (Done e) \<longleftrightarrow> False"
| "reveals (Refused e) \<longleftrightarrow> False"
| "reveals (Identities l) \<longleftrightarrow> True"
| "reveals (KeyList l) \<longleftrightarrow> True"
| "reveals (SignerList l) \<longleftrightarrow> True"
| "reveals (Signature s) \<longleftrightarrow> True"

lemma sealed_next:
  "r \<noteq> RUnlock pw \<Longrightarrow> vault_next cr (now, r) (Sealed pw K) =
     Sealed pw (if r = RExpireTick then live_keys now K else K)"
  by (cases r) (simp_all add: vault_next_def)

lemma sealed_run:
  "\<forall>(t, r) \<in> set rs. r \<noteq> RUnlock pw \<Longrightarrow>
   fold (vault_next cr) rs (Sealed pw K) = Sealed pw (fold live_keys (expiry_ticks rs) K)"
  by (induction rs arbitrary: K) (auto simp: sealed_next expiry_ticks_def)

lemma sealed_answer: "vault_accepts cr nr (Sealed pw K) a \<Longrightarrow> \<not> reveals a"
  by (cases nr; cases "snd nr") (auto simp: vault_accepts_def)

lemma sealed_trace:
  "\<forall>(t, r) \<in> set rs. r \<noteq> RUnlock pw \<Longrightarrow> vault_trace cr rs (Sealed pw K) as \<Longrightarrow>
   \<forall>a \<in> set as. \<not> reveals a"
proof (induction rs arbitrary: K as)
  case (Cons nr rs)
  then show ?case by (cases as; cases nr) (auto simp: sealed_next dest: sealed_answer)
qed simp

lemma live_keys_le: "live_keys now K \<subseteq>\<^sub>m K"
  by (auto simp: live_keys_def map_le_def split: option.splits if_splits)

lemma fold_live_keys_le: "fold live_keys ts K \<subseteq>\<^sub>m K"
  by (induction ts arbitrary: K) (auto intro: map_le_trans live_keys_le)

lemma vault_of_new: "vault_of (NewManagedAgent path) = Open_vault Map.empty"
  by (simp add: vault_of_def NewManagedAgent_def)

lemma vault_of_Sealed: "vault_of m = Sealed pw K \<longleftrightarrow> ag_locked m \<and> ag_lockPass m = pw \<and> map_of (ag_keys m) = K"
  by (auto simp: vault_of_def)

section \<open>Lifetimes\<close>

lemma lifetime_duration_exact: "sint (lifetime_duration secs) = 10 ^ 9 * uint secs"
proof -
  have "uint secs < 4294967296" using uint_lt2p [of secs] by simp
  then have lt: "uint secs * 1000000000 < 2 ^ 63" by simp
  then have "uint (lifetime_duration secs) = uint secs * 1000000000"
    by (simp add: lifetime_duration_def uint_word_ariths uint_up_ucast is_up)
  moreover have "signed_take_bit 63 (uint secs * 1000000000) = uint secs * 1000000000"
    by (rule signed_take_bit_int_eq_self) (use lt uint_ge_0 [of secs] in linarith)+
  ultimately show ?thesis by (simp add: sint_uint)
qed

lemma key_expired_added:
  "key_expired now \<lparr>mk_signer = s, mk_comment = c, mk_addedAt = t,
       mk_lifetime = lifetime_duration secs, mk_confirm = b\<rparr> \<longleftrightarrow>
     0 < uint secs \<and> now - t > 10 ^ 9 * uint secs"
proof -
  have "uint secs < 4294967296" using uint_lt2p [of secs] by simp
  then show ?thesis
    by (auto simp: key_expired_def lifetime_duration_exact time_sub_def max_def min_def)
qed

lemma sint_lifetime_pos: "0 < sint (lifetime_duration secs) \<longleftrightarrow> 0 < uint secs"
  by (simp add: lifetime_duration_exact)

lemma remaining_added:
  assumes "0 \<le> now - t" and "now - t < 2 ^ 63"
  shows "remaining_seconds now \<lparr>mk_signer = s, mk_comment = c, mk_addedAt = t,
           mk_lifetime = lifetime_duration secs, mk_confirm = b\<rparr> =
         max 0 (uint secs - (now - t) div 10 ^ 9)" (is "?l = ?r")
proof -
  have "whole_seconds (sint (lifetime_duration secs)) = uint secs"
    by (simp add: whole_seconds_def lifetime_duration_exact sgn_if abs_mult not_less)
  moreover have "whole_seconds (time_sub now t) = (now - t) div 10 ^ 9"
    using assms by (auto simp: whole_seconds_def time_sub_def sgn_if)
  ultimately have "?l = (if 0 < uint secs then ?r else 0)"
    by (simp add: remaining_seconds_def sint_lifetime_pos)
  moreover have "?r = 0" if "uint secs = 0"
    using that assms by (simp add: pos_imp_zdiv_nonneg_iff)
  ultimately show ?thesis by (auto simp: not_less dest: order_antisym [OF _ uint_ge_0])
qed

section \<open>Properties of the agent\<close>

text \<open>
  A small instance of the cryptographic interface for the examples: a private key is its own signer
  and public key, the empty key is malformed, and a signature shows what was signed with what.
\<close>

definition demo_crypto :: "(string, string, string, string list) crypto" where
  "demo_crypto = \<lparr>NewSignerFromKey = (\<lambda>p. if p = [] then None else Some p), PublicKey_of = id,
     FingerprintSHA256 = (@) ''SHA256:'', PublicKey_Type = (\<lambda>_. ''ssh-ed25519''), PublicKey_Marshal = id,
     is_AlgorithmSigner = (\<lambda>_. True),
     SignWithAlgorithm = (\<lambda>s d alg. Some [s, d, alg]), Sign_default = (\<lambda>s d. Some [s, d])\<rparr>"

text \<open>
  C1. The managed agent implements its specification.  Whatever requests it serves, in whatever order
  and at whatever times, its state is the one of the abstract vault after the same requests, every
  answer is one the vault admits (signatures by the right key with the right algorithm, listings that
  name each key exactly once, the right error in every failing case), and no fingerprint is ever held
  twice or under a foreign name.
\<close>

theorem agent_refines_vault:
  "vault_of (fst (agent_run cr rs (NewManagedAgent path))) =
     fold (vault_next cr) rs (Open_vault Map.empty) \<and>
   vault_trace cr rs (Open_vault Map.empty) (snd (agent_run cr rs (NewManagedAgent path))) \<and>
   agent_inv cr (fst (agent_run cr rs (NewManagedAgent path)))"
  unfolding vault_of_new [of path, symmetric]
  by (intro conjI vault_of_run run_accepted agent_inv_run agent_inv_new)

text \<open>
  C2. A locked agent is sealed.  After \<open>Lock\<close> with a passphrase, as long as no request is an
  \<open>Unlock\<close> with exactly that passphrase: no answer reveals a signature, a key or a signer, the agent
  stays locked with that passphrase, and its keys change only by expiring.  \<open>Unlock\<close> with the
  passphrase then gives back the agent with exactly the keys that did not expire in between.
\<close>

theorem locked_agent_is_sealed:
  assumes inv: "agent_inv cr m" and unlocked: "\<not> ag_locked m"
    and rs: "\<forall>(t, r) \<in> set rs. r \<noteq> RUnlock pw"
  shows "(let run = agent_run cr ((t0, RLock pw) # rs) m;
              K = fold live_keys (expiry_ticks rs) (map_of (ag_keys m))
          in (\<forall>a \<in> set (snd run). \<not> reveals a) \<and> vault_of (fst run) = Sealed pw K \<and>
             K \<subseteq>\<^sub>m map_of (ag_keys m) \<and>
             vault_of (fst (serve cr t1 (RUnlock pw) (fst run))) = Open_vault K \<and>
             snd (serve cr t1 (RUnlock pw) (fst run)) = Done None)"
proof -
  let ?m = "fst (serve cr t0 (RLock pw) m)" and ?K = "map_of (ag_keys m)"
  let ?L = "fold live_keys (expiry_ticks rs) ?K"
  have inv1: "agent_inv cr ?m" using inv by (rule agent_inv_serve)
  have sealed: "vault_of ?m = Sealed pw ?K"
    using unlocked by (simp add: vault_of_serve [OF inv]) (simp add: vault_of_def vault_next_def)
  have end_state: "vault_of (fst (agent_run cr rs ?m)) = Sealed pw ?L"
    using vault_of_run [OF inv1, of rs] sealed_run [OF rs] by (simp add: sealed)
  have "\<forall>a \<in> set (snd (agent_run cr rs ?m)). \<not> reveals a"
    using run_accepted [OF inv1, of rs] rs unfolding sealed by (rule sealed_trace [rotated])
  moreover have "\<not> reveals (snd (serve cr t0 (RLock pw) m))"
    by (simp add: serve_def Lock_agent_def)
  moreover have "vault_of (fst (serve cr t1 (RUnlock pw) (fst (agent_run cr rs ?m)))) = Open_vault ?L"
    using vault_of_serve [OF agent_inv_run [OF inv1]] by (simp add: end_state vault_next_def)
  moreover have "snd (serve cr t1 (RUnlock pw) (fst (agent_run cr rs ?m))) = Done None"
    using end_state by (simp add: vault_of_Sealed serve_def Unlock_agent_def)
  ultimately show ?thesis by (simp add: end_state fold_live_keys_le Let_def)
qed

theorem locked_agent_is_sealed_witness:
  "(let m = fst (agent_run demo_crypto [(0, RAdd ''k1'' ''laptop'' 60 False)] (NewManagedAgent ''/s''));
        rs = [(1, RSign ''k1'' ''data'' OtherSignatureFlags), (2, RUnlock ''guess''), (3, RRemoveAll)];
        run = agent_run demo_crypto ((0, RLock ''pw'') # rs) m
    in vault_of (fst (serve demo_crypto 9 (RUnlock ''pw'') (fst run))) =
         Open_vault (fold live_keys (expiry_ticks rs) (map_of (ag_keys m))) \<and>
       (\<forall>a \<in> set (snd run). \<not> reveals a))"
proof -
  let ?m = "fst (agent_run demo_crypto [(0, RAdd ''k1'' ''laptop'' 60 False)] (NewManagedAgent ''/s''))"
  have "agent_inv demo_crypto ?m" by (intro agent_inv_run agent_inv_new)
  moreover have "\<not> ag_locked ?m"
    by (simp add: serve_def Add_agent_def demo_crypto_def NewManagedAgent_def Let_def)
  ultimately show ?thesis
    using locked_agent_is_sealed [of demo_crypto ?m
      "[(1, RSign ''k1'' ''data'' OtherSignatureFlags), (2, RUnlock ''guess''), (3, RRemoveAll)]"
      "''pw''" 0 9]
    unfolding Let_def by fastforce
qed

text \<open>
  Adding a key to an unlocked agent takes effect: a signing request for any public key with that
  fingerprint is answered by the new signer, with the algorithm the flags ask for when the signer
  can choose one; requests for other fingerprints are answered as before; adding the same key again
  replaces the entry, so the count grows only for a new fingerprint; removing it makes the agent not
  find it any more; and no answer to a signing request depends on the confirmation flag of the key
  (the flag is stored and listed, but never consulted).
\<close>

theorem add_then_sign:
  assumes unlocked: "\<not> ag_locked m" and signer: "NewSignerFromKey cr priv = Some s"
    and m': "Add_agent cr now priv comment secs confirm m = (m', err)"
  shows "err = None \<and>
    (let fp = FingerprintSHA256 cr (PublicKey_of cr s);
         new = \<lparr>mk_signer = s, mk_comment = comment, mk_addedAt = now,
                mk_lifetime = lifetime_duration secs, mk_confirm = confirm\<rparr>
     in (\<forall>key data flags. SignWithFlags cr m' key data flags =
          (if FingerprintSHA256 cr key = fp
           then (case signature_by cr new data flags of None \<Rightarrow> Inl SignError | Some sig \<Rightarrow> Inr sig)
           else SignWithFlags cr m key data flags)) \<and>
        KeyCount m' = (if map_of (ag_keys m) fp = None then Suc (KeyCount m) else KeyCount m) \<and>
        (\<forall>key data flags. SignWithFlags cr
           (fst (Add_agent cr now priv comment secs (\<not> confirm) m)) key data flags =
           SignWithFlags cr m' key data flags) \<and>
        (\<forall>key data flags. FingerprintSHA256 cr key = fp \<longrightarrow>
          snd (Remove_agent cr key m') = None \<and>
          SignWithFlags cr (fst (Remove_agent cr key m')) key data flags = Inl KeyNotFound))"
proof -
  let ?fp = "FingerprintSHA256 cr (PublicKey_of cr s)"
  let ?new = "\<lambda>b. \<lparr>mk_signer = s, mk_comment = comment, mk_addedAt = now,
                mk_lifetime = lifetime_duration secs, mk_confirm = b\<rparr>"
  have add: "Add_agent cr now priv comment secs b m =
      (notify (m\<lparr>ag_keys := AList.update ?fp (?new b) (ag_keys m)\<rparr>), None)" for b
    using unlocked signer by (simp add: Add_agent_def Let_def)
  have sig: "signature_by cr (?new b) = signature_by cr (?new confirm)" for b
    by (intro ext) (simp add: signature_by_def)
  have found: "map_of (ag_keys m') ?fp \<noteq> None" and m'_open: "\<not> ag_locked m'"
    using m' add unlocked by (auto simp: update_conv')
  have removed: "snd (Remove_agent cr key m') = None \<and>
      SignWithFlags cr (fst (Remove_agent cr key m')) key data flags = Inl KeyNotFound"
    if "FingerprintSHA256 cr key = ?fp" for key data flags
    using that found m'_open
    by (simp add: Remove_agent_def Let_def SignWithFlags_unlocked delete_conv')
  have count: "KeyCount m' = (if map_of (ag_keys m) ?fp = None then Suc (KeyCount m) else KeyCount m)"
    using m' add by (auto simp: KeyCount_def length_AList_update)
  show ?thesis
    using m' add removed count by (auto simp: Let_def SignWithFlags_added [OF unlocked] sig [of "\<not> confirm"])
qed

theorem add_then_sign_witness:
  "(let m' = fst (Add_agent demo_crypto 5 ''k1'' ''laptop'' 60 True (NewManagedAgent ''/s''))
    in SignWithFlags demo_crypto m' ''k1'' ''data'' SignatureFlagRsaSha512 =
         Inr [''k1'', ''data'', ''rsa-sha2-512''] \<and>
       SignWithFlags demo_crypto m' ''k2'' ''data'' OtherSignatureFlags = Inl KeyNotFound)"
  using add_then_sign [of "NewManagedAgent ''/s''" demo_crypto "''k1''" "''k1''" 5 "''laptop''" 60 True]
  by (cases "Add_agent demo_crypto 5 ''k1'' ''laptop'' 60 True (NewManagedAgent ''/s'')")
     (simp add: Let_def demo_crypto_def NewManagedAgent_def SignWithFlags_def signature_by_def key_algo_def)



end
