(* ===== verification/AgentWatch.thy ===== *)
theory AgentWatch
  imports Broadcast ManagedAgent
begin

text \<open>
  \<open>skeys-core/agent/watcher.go\<close> (\<open>Subscriptions\<close>) and the \<open>notifyChange\<close> and \<open>Watch\<close> of
  \<open>agent/server.go\<close>: change notifications of the managed agent.

  A subscription is a channel of capacity one with a context.  When the context is cancelled, a
  goroutine of the subscription deletes it from the set under the write lock and closes the channel
  after unlocking: two steps here.  \<open>Notify\<close> holds the read lock for its whole loop.  Channels,
  sends and closes are those of the theory of the broadcaster: \<open>ss_hub\<close> holds the set of
  subscribers and the channels (its cached value is not used), \<open>ss_cancelled\<close> the subscriptions
  whose context is done, \<open>ss_closing\<close> the deleted ones whose channel is still to be closed.
\<close>

record 'a subscriptions =
  ss_hub :: "'a hub"
  ss_cancelled :: "nat list"
  ss_closing :: "nat list"

definition NewSubscriptions :: "'a subscriptions" where
  "NewSubscriptions = \<lparr>ss_hub = New_hub, ss_cancelled = [], ss_closing = []\<rparr>"

definition Subscribe_agent :: "'a subscriptions \<Rightarrow> nat \<times> 'a subscriptions" where
  "Subscribe_agent s =
     (case subscribe_register (ss_hub s) of (ch, _, b) \<Rightarrow> (ch, s\<lparr>ss_hub := b\<rparr>))"

text \<open>The caller cancels the context of a subscription; then its goroutine deletes it and closes it.\<close>

definition cancel_subscription :: "nat \<Rightarrow> 'a subscriptions \<Rightarrow> 'a subscriptions" where
  "cancel_subscription ch s = s\<lparr>ss_cancelled := ch # ss_cancelled s\<rparr>"

definition cleanup_delete :: "nat \<Rightarrow> 'a subscriptions \<Rightarrow> 'a subscriptions" where
  "cleanup_delete ch s =
     (if ch \<in> set (ss_cancelled s) \<and> ch \<in> set (hub_subscribers (ss_hub s))
      then s\<lparr>ss_hub := (ss_hub s)\<lparr>hub_subscribers := remove1 ch (hub_subscribers (ss_hub s))\<rparr>,
             ss_closing := ch # ss_closing s\<rparr>
      else s)"

definition cleanup_close :: "nat \<Rightarrow> 'a subscriptions \<Rightarrow> 'a subscriptions" where
  "cleanup_close ch s =
     (if ch \<in> set (ss_closing s)
      then s\<lparr>ss_hub := close_chan ch (ss_hub s), ss_closing := remove1 ch (ss_closing s)\<rparr>
      else s)"

text \<open>
  The \<open>select\<close> of \<open>Notify\<close>: for a cancelled subscription both the send and the \<open>Done\<close> case may be
  ready and Go picks one; \<open>skip\<close> is that choice.
\<close>

definition notify_one :: "(nat \<Rightarrow> bool) \<Rightarrow> 'a \<Rightarrow> nat list \<Rightarrow> nat \<Rightarrow> 'a hub \<Rightarrow> 'a hub" where
  "notify_one skip update cancelled ch b =
     (if ch \<in> set cancelled \<and> skip ch then b else try_send update ch b)"

definition Notify :: "(nat \<Rightarrow> bool) \<Rightarrow> 'a \<Rightarrow> 'a subscriptions \<Rightarrow> 'a subscriptions" where
  "Notify skip update s =
     s\<lparr>ss_hub := fold (notify_one skip update (ss_cancelled s)) (hub_subscribers (ss_hub s)) (ss_hub s)\<rparr>"

definition Count :: "'a subscriptions \<Rightarrow> nat" where
  "Count s = length (hub_subscribers (ss_hub s))"

definition receive_agent :: "nat \<Rightarrow> 'a subscriptions \<Rightarrow> 'a option \<times> 'a subscriptions" where
  "receive_agent ch s = (case recv_chan ch (ss_hub s) of (v, b) \<Rightarrow> (v, s\<lparr>ss_hub := b\<rparr>))"

section \<open>Notifications of the managed agent\<close>

record AgentUpdate =
  au_Status :: AgentStatus
  au_Keys :: "AgentKey list"

text \<open>
  \<open>keys, _ := m.ListKeys()\<close> drops the error of a locked agent.  \<open>Status\<close> and \<open>ListKeys\<close> take the
  agent's lock one after the other, so they may see two states.
\<close>

definition agent_update ::
    "('priv, 'sg, 'pk, 'sig) crypto \<Rightarrow> int \<Rightarrow> 'sg managedAgent \<Rightarrow> 'sg managedAgent \<Rightarrow> AgentUpdate" where
  "agent_update cr now m1 m2 = \<lparr>au_Status = Status_agent m1,
     au_Keys = (case ListKeys_agent cr now m2 of Inl e \<Rightarrow> [] | Inr ks \<Rightarrow> ks)\<rparr>"

definition notifyChange ::
    "('priv, 'sg, 'pk, 'sig) crypto \<Rightarrow> int \<Rightarrow> (nat \<Rightarrow> bool) \<Rightarrow> 'sg managedAgent \<Rightarrow> 'sg managedAgent
      \<Rightarrow> AgentUpdate subscriptions \<Rightarrow> AgentUpdate subscriptions" where
  "notifyChange cr now skip m1 m2 s =
     (if Count s = 0 then s else Notify skip (agent_update cr now m1 m2) s)"

text \<open>
  \<open>Watch\<close> subscribes; its goroutine then sends the state to all subscribers unless the caller's
  context is already done.
\<close>

definition Watch_initial ::
    "('priv, 'sg, 'pk, 'sig) crypto \<Rightarrow> int \<Rightarrow> (nat \<Rightarrow> bool) \<Rightarrow> nat \<Rightarrow> 'sg managedAgent \<Rightarrow> 'sg managedAgent
      \<Rightarrow> AgentUpdate subscriptions \<Rightarrow> AgentUpdate subscriptions" where
  "Watch_initial cr now skip ch m1 m2 s =
     (if ch \<in> set (ss_cancelled s) then s else Notify skip (agent_update cr now m1 m2) s)"

definition Watch_agent ::
    "('priv, 'sg, 'pk, 'sig) crypto \<Rightarrow> int \<Rightarrow> 'sg managedAgent \<Rightarrow> AgentUpdate subscriptions
      \<Rightarrow> nat \<times> AgentUpdate subscriptions" where
  "Watch_agent cr now m s =
     (case Subscribe_agent s of (ch, s') \<Rightarrow> (ch, Watch_initial cr now (\<lambda>_. False) ch m m s'))"

section \<open>Interleavings\<close>

inductive sub_step :: "'a subscriptions \<Rightarrow> 'a subscriptions \<Rightarrow> bool" where
  subscribe: "sub_step s (snd (Subscribe_agent s))"
| cancel: "sub_step s (cancel_subscription ch s)"
| delete: "sub_step s (cleanup_delete ch s)"
| closing: "sub_step s (cleanup_close ch s)"
| notify: "sub_step s (Notify skip update s)"
| receive: "sub_step s (snd (receive_agent ch s))"

inductive sub_reachable :: "'a subscriptions \<Rightarrow> bool" where
  new: "sub_reachable NewSubscriptions"
| step: "sub_reachable s \<Longrightarrow> sub_step s t \<Longrightarrow> sub_reachable t"

definition sub_inv :: "'a subscriptions \<Rightarrow> bool" where
  "sub_inv s \<longleftrightarrow>
     distinct (hub_subscribers (ss_hub s) @ ss_closing s) \<and>
     (\<forall>ch. open_chan (ss_hub s) ch \<longleftrightarrow> ch \<in> set (hub_subscribers (ss_hub s) @ ss_closing s)) \<and>
     (\<forall>ch \<in> dom (hub_chans (ss_hub s)). ch < hub_next (ss_hub s)) \<and> \<not> hub_panicked (ss_hub s)"

lemma notify_one_props:
  "hub_subscribers (notify_one skip u cs ch b) = hub_subscribers b"
  "hub_next (notify_one skip u cs ch b) = hub_next b"
  "dom (hub_chans (notify_one skip u cs ch b)) = dom (hub_chans b)"
  "open_chan (notify_one skip u cs ch b) d \<longleftrightarrow> open_chan b d"
  "open_chan b ch \<Longrightarrow> hub_panicked (notify_one skip u cs ch b) = hub_panicked b"
  by (simp_all add: notify_one_def hub_simps try_send_open)

lemma fold_notify_one:
  "hub_subscribers (fold (notify_one skip u cs) chs b) = hub_subscribers b"
  "hub_next (fold (notify_one skip u cs) chs b) = hub_next b"
  "dom (hub_chans (fold (notify_one skip u cs) chs b)) = dom (hub_chans b)"
  "open_chan (fold (notify_one skip u cs) chs b) d \<longleftrightarrow> open_chan b d"
  by (induction chs arbitrary: b) (simp_all add: notify_one_props)

lemma fold_notify_panic:
  "\<forall>ch \<in> set chs. open_chan b ch \<Longrightarrow>
   hub_panicked (fold (notify_one skip u cs) chs b) = hub_panicked b"
  by (induction chs arbitrary: b) (simp_all add: notify_one_props)

lemma sub_inv_step: "sub_step s t \<Longrightarrow> sub_inv s \<Longrightarrow> sub_inv t"
proof (induction rule: sub_step.induct)
  case (subscribe s)
  then have "hub_next (ss_hub s) \<notin> set (hub_subscribers (ss_hub s) @ ss_closing s)"
    by (auto simp: sub_inv_def open_chan_def dom_def)
  with subscribe show ?case
    by (auto simp: sub_inv_def Subscribe_agent_def subscribe_register_def Let_def open_chan_def less_Suc_eq)
next
  case (delete s ch)
  then show ?case
    by (auto simp: sub_inv_def cleanup_delete_def open_chan_def dest: in_set_remove1 [THEN iffD1, rotated]
        set_remove1_subset [THEN subsetD])
next
  case (closing s ch)
  then show ?case
    by (auto simp: sub_inv_def cleanup_close_def hub_simps set_remove1_eq)
next
  case (notify s skip update)
  then have "hub_panicked (fold (notify_one skip update (ss_cancelled s)) (hub_subscribers (ss_hub s)) (ss_hub s))
      = hub_panicked (ss_hub s)"
    by (intro fold_notify_panic) (simp add: sub_inv_def)
  with notify show ?case by (simp add: sub_inv_def Notify_def fold_notify_one)
next
  case (receive s ch)
  then show ?case
    by (simp add: sub_inv_def receive_agent_def hub_simps split: prod.split) (metis hub_simps snd_conv)
qed (simp_all add: sub_inv_def cancel_subscription_def)

lemma sub_inv_new: "sub_inv NewSubscriptions"
  by (simp add: sub_inv_def NewSubscriptions_def New_hub_def open_chan_def)

lemma sub_inv_reachable: "sub_reachable s \<Longrightarrow> sub_inv s"
  by (induction rule: sub_reachable.induct) (auto intro: sub_inv_step sub_inv_new)

lemma notify_one_chan:
  "open_chan b ch \<Longrightarrow> ch \<notin> set cs \<Longrightarrow>
   chan_of (notify_one skip u cs ch b) ch = (case chan_of b ch of None \<Rightarrow> Some u | Some w \<Rightarrow> Some w)"
  "d \<noteq> ch \<Longrightarrow> chan_of (notify_one skip u cs ch b) d = chan_of b d"
  by (simp_all add: notify_one_def try_send_open) (simp add: chan_of_def hub_simps)

lemma fold_notify_chan:
  assumes "distinct chs" and "d \<in> set chs" and "open_chan b d" and "d \<notin> set cs"
  shows "chan_of (fold (notify_one skip u cs) chs b) d =
    (case chan_of b d of None \<Rightarrow> Some u | Some w \<Rightarrow> Some w)"
  using assms
proof (induction chs arbitrary: b)
  case (Cons ch chs)
  have other: "d \<notin> set xs \<Longrightarrow> chan_of (fold (notify_one skip u cs) xs b') d = chan_of b' d" for xs b'
    by (induction xs arbitrary: b') (simp_all add: notify_one_chan)
  show ?case
  proof (cases "d = ch")
    case True
    with Cons.prems other [of chs] show ?thesis by (simp add: notify_one_chan)
  next
    case False
    with Cons show ?thesis by (simp add: notify_one_props notify_one_chan)
  qed
qed simp

section \<open>Properties\<close>

text \<open>
  Subscriptions to the agent are safe under every interleaving of subscribing, cancelling, the
  two steps of the cleanup goroutines, notifications and receives: nothing is sent on or closed twice
  on a closed channel (Go would panic), a channel is open exactly as long as its subscription is in
  the set or its cleanup is still to close it, the cleanup of a cancelled subscription closes its
  channel and takes it out of the set, and a notification reaches every subscription that is not
  cancelled and has an empty channel, while a full one keeps the older update.
\<close>

theorem subscriptions_safe:
  assumes s: "sub_reachable s" and ch: "ch \<in> set (hub_subscribers (ss_hub s))"
  shows "\<not> hub_panicked (ss_hub s) \<and>
    (\<forall>d. open_chan (ss_hub s) d \<longleftrightarrow> d \<in> set (hub_subscribers (ss_hub s)) \<or> d \<in> set (ss_closing s)) \<and>
    (ch \<in> set (ss_cancelled s) \<longrightarrow>
       (let t = cleanup_close ch (cleanup_delete ch s)
        in Suc (Count t) = Count s \<and> \<not> open_chan (ss_hub t) ch \<and> \<not> hub_panicked (ss_hub t))) \<and>
    (ch \<notin> set (ss_cancelled s) \<longrightarrow>
       chan_of (ss_hub (Notify skip u s)) ch =
         (case chan_of (ss_hub s) ch of None \<Rightarrow> Some u | Some old \<Rightarrow> Some old))"
proof -
  have inv: "sub_inv s" using s by (rule sub_inv_reachable)
  then have opn: "open_chan (ss_hub s) ch" using ch by (simp add: sub_inv_def)
  let ?t = "cleanup_close ch (cleanup_delete ch s)"
  have "sub_inv ?t" using inv by (blast intro: sub_inv_step sub_step.delete sub_step.closing)
  moreover have "Suc (Count ?t) = Count s \<and> \<not> open_chan (ss_hub ?t) ch" if "ch \<in> set (ss_cancelled s)"
    using that ch length_pos_if_in_set [OF ch]
    by (auto simp: cleanup_close_def cleanup_delete_def Count_def hub_simps length_remove1)
  moreover have "chan_of (ss_hub (Notify skip u s)) ch =
      (case chan_of (ss_hub s) ch of None \<Rightarrow> Some u | Some old \<Rightarrow> Some old)" if "ch \<notin> set (ss_cancelled s)"
    unfolding Notify_def using inv ch opn that by (simp add: fold_notify_chan sub_inv_def)
  ultimately show ?thesis using inv by (simp add: sub_inv_def Let_def)
qed

lemma one_subscriber_reachable: "sub_reachable (snd (Subscribe_agent NewSubscriptions))"
  by (rule sub_reachable.step [OF sub_reachable.new sub_step.subscribe])

theorem subscriptions_safe_witness:
  "chan_of (ss_hub (Notify (\<lambda>_. True) ''u'' (snd (Subscribe_agent NewSubscriptions)))) 0 = Some ''u''"
  using subscriptions_safe [OF one_subscriber_reachable, of 0 "\<lambda>_. True" "''u''"]
  by (simp add: Subscribe_agent_def subscribe_register_def NewSubscriptions_def New_hub_def Let_def
      chan_of_def)

text \<open>
  What a watcher of the agent is told: after a change, a subscription that is not cancelled and
  has read its last update gets the status and the key list of the agent.  For an unlocked agent they
  agree (the count is the length of the list, one entry per fingerprint); for a locked one the list
  is empty while the status still tells the number of keys held.
\<close>

theorem watcher_sees_agent:
  assumes s: "sub_reachable s" and ch: "ch \<in> set (hub_subscribers (ss_hub s))"
    and live: "ch \<notin> set (ss_cancelled s)" and empty: "chan_of (ss_hub s) ch = None"
    and m: "agent_inv cr m"
  shows "\<exists>u. chan_of (ss_hub (notifyChange cr now skip m m s)) ch = Some u \<and>
    as_IsLocked (au_Status u) = ag_locked m \<and> as_KeyCount (au_Status u) = KeyCount m \<and>
    map ak_Fingerprint (au_Keys u) = (if ag_locked m then [] else map fst (ag_keys m)) \<and>
    distinct (map ak_Fingerprint (au_Keys u))"
proof -
  let ?u = "agent_update cr now m m"
  have inv: "sub_inv s" using s by (rule sub_inv_reachable)
  then have "chan_of (ss_hub (Notify skip ?u s)) ch = Some ?u"
    unfolding Notify_def using ch live empty by (simp add: fold_notify_chan sub_inv_def)
  moreover have "Count s \<noteq> 0" using ch by (auto simp: Count_def)
  ultimately have "chan_of (ss_hub (notifyChange cr now skip m m s)) ch = Some ?u"
    by (simp add: notifyChange_def)
  moreover have "map ak_Fingerprint (au_Keys ?u) = (if ag_locked m then [] else map fst (ag_keys m))"
    by (simp add: agent_update_def ListKeys_agent_def comp_def split_def)
  ultimately show ?thesis using m
    by (simp add: agent_update_def Status_agent_def KeyCount_def agent_inv_def)
qed

theorem watcher_sees_agent_witness:
  "(let m = fst (agent_run demo_crypto [(0, RAdd ''k1'' ''laptop'' 60 False), (1, RLock ''pw'')]
                   (NewManagedAgent ''/s''))
    in \<exists>u. chan_of (ss_hub (notifyChange demo_crypto 2 (\<lambda>_. True) m m
                 (snd (Subscribe_agent NewSubscriptions)))) 0 = Some u \<and>
           as_IsLocked (au_Status u) \<and> as_KeyCount (au_Status u) = 1 \<and> au_Keys u = [])"
proof -
  let ?m = "fst (agent_run demo_crypto [(0, RAdd ''k1'' ''laptop'' 60 False), (1, RLock ''pw'')]
      (NewManagedAgent ''/s''))"
  have m: "agent_inv demo_crypto ?m" by (intro agent_inv_run agent_inv_new)
  have state: "ag_locked ?m" "KeyCount ?m = 1"
    by (simp_all add: serve_def agent_ops demo_crypto_def NewManagedAgent_def Let_def KeyCount_def)
  show ?thesis
    using watcher_sees_agent [OF one_subscriber_reachable _ _ _ m, of 0 2 "\<lambda>_. True"] state
    by (auto simp: Let_def Subscribe_agent_def subscribe_register_def NewSubscriptions_def
        New_hub_def chan_of_def)
qed

end
