(* ===== verification/AgentService.thy ===== *)
theory AgentService
  imports AgentWatch Executor
begin

text \<open>
  \<open>skeys-core/agent/agent.go\<close>: the client of an SSH agent behind a socket, and the wrapper of \<open>ssh-add\<close>.

  The protocol client of \<open>golang.org/x/crypto/ssh/agent\<close> is the argument \<open>cl\<close>, a record of its
  operations on the state of whatever agent listens on the socket; \<open>dial\<close> and \<open>stat\<close> are the socket.
  A key as the protocol lists it is a format, a blob and a comment; \<open>h\<close> is the SHA-256 fingerprint of
  a blob.

  The locale \<open>agent_checker\<close> is the interface \<open>keys.AgentChecker\<close>; it is interpreted on this client
  talking to the managed agent.  The locale \<open>quiet_executor\<close> is what the executors of the program
  promise about failed commands.
\<close>

record ('st, 'priv) agent_client =
  cl_List :: "'st \<Rightarrow> string + managed_key_info list"
  cl_Add :: "'priv \<Rightarrow> string \<Rightarrow> 32 word \<Rightarrow> bool \<Rightarrow> 'st \<Rightarrow> 'st \<times> string option"
  cl_Remove :: "managed_key_info \<Rightarrow> 'st \<Rightarrow> 'st \<times> string option"
  cl_RemoveAll :: "'st \<Rightarrow> 'st \<times> string option"
  cl_Lock :: "string \<Rightarrow> 'st \<Rightarrow> 'st \<times> string option"
  cl_Unlock :: "string \<Rightarrow> 'st \<Rightarrow> 'st \<times> string option"

text \<open>The socket: what \<open>os.Stat\<close> says (\<open>Some True\<close> for a socket), and the error of \<open>net.Dial\<close>.\<close>

record sockets =
  so_stat :: "string \<Rightarrow> bool option"
  so_dial :: "string \<Rightarrow> string option"

record agentService =
  svc_socketPath :: string
  svc_subscriptions :: "AgentUpdate subscriptions option"

definition NewService :: "string \<Rightarrow> AgentUpdate subscriptions option \<Rightarrow> agentService" where
  "NewService sock subs = \<lparr>svc_socketPath = sock, svc_subscriptions = subs\<rparr>"

definition connect :: "sockets \<Rightarrow> agentService \<Rightarrow> string option" where
  "connect so s =
     (if svc_socketPath s = [] then Some ''SSH_AUTH_SOCK not set''
      else (case so_dial so (svc_socketPath s) of
        Some e \<Rightarrow> Some (''failed to connect to agent: '' @ e) | None \<Rightarrow> None))"

definition Status_svc :: "('st, 'priv) agent_client \<Rightarrow> sockets \<Rightarrow> agentService \<Rightarrow> 'st \<Rightarrow> AgentStatus" where
  "Status_svc cl so s st =
     (let status = \<lparr>as_Running = False, as_SocketPath = svc_socketPath s, as_IsLocked = False,
                    as_KeyCount = 0\<rparr> in
      if svc_socketPath s = [] then status
      else (case so_stat so (svc_socketPath s) of
        None \<Rightarrow> status
      | Some is_socket \<Rightarrow>
          if \<not> is_socket then status
          else if so_dial so (svc_socketPath s) \<noteq> None then status
          else (case cl_List cl st of
            Inl msg \<Rightarrow> status\<lparr>as_Running := True, as_IsLocked := contains msg ''locked''\<rparr>
          | Inr keys \<Rightarrow> status\<lparr>as_Running := True, as_KeyCount := length keys\<rparr>)))"

definition getBits :: "managed_key_info \<Rightarrow> nat" where
  "getBits key =
     (if info_format key = ''ssh-rsa'' then length (info_blob key) * 8 div 3
      else if info_format key = ''ssh-ed25519'' then 256
      else if info_format key = ''ecdsa-sha2-nistp256'' then 256
      else if info_format key = ''ecdsa-sha2-nistp384'' then 384
      else if info_format key = ''ecdsa-sha2-nistp521'' then 521
      else 0)"

definition list_keys_err :: "string \<Rightarrow> string" where
  "list_keys_err e = ''failed to list keys: '' @ e"

definition ListKeys_svc ::
    "(string \<Rightarrow> string) \<Rightarrow> ('st, 'priv) agent_client \<Rightarrow> sockets \<Rightarrow> agentService \<Rightarrow> 'st \<Rightarrow> string + AgentKey list"
where
  "ListKeys_svc h cl so s st =
     (case connect so s of
        Some e \<Rightarrow> Inl e
      | None \<Rightarrow> (case cl_List cl st of
          Inl e \<Rightarrow> Inl (list_keys_err e)
        | Inr keys \<Rightarrow> Inr (map (\<lambda>key. \<lparr>ak_Fingerprint = h (info_blob key), ak_Comment = info_comment key,
             ak_Type = info_format key, ak_Bits = int (getBits key), ak_HasLifetime = False,
             ak_LifetimeSeconds = 0, ak_IsConfirm = False\<rparr>) keys)))"

definition AddKey_svc ::
    "('st, 'priv) agent_client \<Rightarrow> sockets \<Rightarrow> agentService \<Rightarrow> 'priv \<Rightarrow> string \<Rightarrow> 32 word \<Rightarrow> bool \<Rightarrow> 'st
      \<Rightarrow> 'st \<times> string option" where
  "AddKey_svc cl so s priv comment lifetimeSecs confirm st =
     (case connect so s of
        Some e \<Rightarrow> (st, Some e) | None \<Rightarrow> cl_Add cl priv comment lifetimeSecs confirm st)"

definition RemoveKey_svc ::
    "('st, 'priv) agent_client \<Rightarrow> sockets \<Rightarrow> agentService \<Rightarrow> managed_key_info \<Rightarrow> 'st \<Rightarrow> 'st \<times> string option"
where
  "RemoveKey_svc cl so s key st =
     (case connect so s of Some e \<Rightarrow> (st, Some e) | None \<Rightarrow> cl_Remove cl key st)"

definition RemoveAll_svc ::
    "('st, 'priv) agent_client \<Rightarrow> sockets \<Rightarrow> agentService \<Rightarrow> 'st \<Rightarrow> 'st \<times> string option" where
  "RemoveAll_svc cl so s st =
     (case connect so s of Some e \<Rightarrow> (st, Some e) | None \<Rightarrow> cl_RemoveAll cl st)"

definition Lock_svc ::
    "('st, 'priv) agent_client \<Rightarrow> sockets \<Rightarrow> agentService \<Rightarrow> string \<Rightarrow> 'st \<Rightarrow> 'st \<times> string option" where
  "Lock_svc cl so s passphrase st =
     (case connect so s of Some e \<Rightarrow> (st, Some e) | None \<Rightarrow> cl_Lock cl passphrase st)"

definition Unlock_svc ::
    "('st, 'priv) agent_client \<Rightarrow> sockets \<Rightarrow> agentService \<Rightarrow> string \<Rightarrow> 'st \<Rightarrow> 'st \<times> string option" where
  "Unlock_svc cl so s passphrase st =
     (case connect so s of Some e \<Rightarrow> (st, Some e) | None \<Rightarrow> cl_Unlock cl passphrase st)"

definition ListLoadedFingerprints ::
    "(string \<Rightarrow> string) \<Rightarrow> ('st, 'priv) agent_client \<Rightarrow> sockets \<Rightarrow> agentService \<Rightarrow> 'st \<Rightarrow> string + string list"
where
  "ListLoadedFingerprints h cl so s st =
     (case connect so s of
        Some e \<Rightarrow> Inl e
      | None \<Rightarrow> (case cl_List cl st of
          Inl e \<Rightarrow> Inl (list_keys_err e) | Inr keys \<Rightarrow> Inr (map (\<lambda>key. h (info_blob key)) keys)))"

definition RemoveKeyByFingerprint_svc ::
    "(string \<Rightarrow> string) \<Rightarrow> ('st, 'priv) agent_client \<Rightarrow> sockets \<Rightarrow> agentService \<Rightarrow> string \<Rightarrow> 'st
      \<Rightarrow> 'st \<times> string option" where
  "RemoveKeyByFingerprint_svc h cl so s fingerprint st =
     (case connect so s of
        Some e \<Rightarrow> (st, Some e)
      | None \<Rightarrow> (case cl_List cl st of
          Inl e \<Rightarrow> (st, Some (list_keys_err e))
        | Inr keys \<Rightarrow> (case find (\<lambda>key. h (info_blob key) = fingerprint) keys of
            None \<Rightarrow> (st, None)
          | Some key \<Rightarrow>
              map_prod id (map_option (\<lambda>e. ''failed to remove key: '' @ e)) (cl_Remove cl key st))))"

text \<open>\<open>SubscribeChanges\<close>: without a subscriptions manager the channel it returns is closed (\<open>None\<close>).\<close>

definition SubscribeChanges :: "agentService \<Rightarrow> (nat \<times> AgentUpdate subscriptions) option" where
  "SubscribeChanges s = map_option Subscribe_agent (svc_subscriptions s)"

section \<open>The wrapper of ssh-add\<close>

definition AddKeyFromFile :: "'w runner \<Rightarrow> string \<Rightarrow> int \<Rightarrow> 'w \<Rightarrow> 'w \<times> string option" where
  "AddKeyFromFile run keyPath lifetimeSecs w =
     (let args = (if 0 < lifetimeSecs then [''-t'', itoa lifetimeSecs] else []) @ [keyPath] in
      case run ''ssh-add'' args w of (w', _, err) \<Rightarrow> (w', err))"

definition RemoveKeyFromFile :: "'w runner \<Rightarrow> string \<Rightarrow> 'w \<Rightarrow> 'w \<times> string option" where
  "RemoveKeyFromFile run keyPath w =
     (case run ''ssh-add'' [''-d'', keyPath] w of (w', _, err) \<Rightarrow> (w', err))"

definition RemoveAllKeys :: "'w runner \<Rightarrow> 'w \<Rightarrow> 'w \<times> string option" where
  "RemoveAllKeys run w = (case run ''ssh-add'' [''-D''] w of (w', _, err) \<Rightarrow> (w', err))"

definition ListKeys_cli :: "'w runner \<Rightarrow> 'w \<Rightarrow> 'w \<times> (string + string list)" where
  "ListKeys_cli run w =
     (case run ''ssh-add'' [''-l''] w of
        (w', output, Some err) \<Rightarrow>
          (w', if contains output ''no identities'' then Inr [] else Inl err)
      | (w', output, None) \<Rightarrow>
          (w', Inr (filter (\<lambda>l. l \<noteq> []) (map trim_space (split_on newline output)))))"

section \<open>What a failed command returns\<close>

locale quiet_executor =
  fixes run :: "'w runner"
  assumes quiet: "run name args w = (w', out, Some err) \<Longrightarrow> out = []"
begin

lemma cli_list_failure:
  assumes "run ''ssh-add'' [''-l''] w = (w', out, Some err)"
  shows "ListKeys_cli run w = (w', Inl err)"
  using assms quiet [OF assms] by (simp add: ListKeys_cli_def)

end

lemma Run_local_quiet: "Run_local spawn e name args w = (w', out, Some err) \<Longrightarrow> out = []"
  by (auto simp: Run_local_def dest: run_cmd_quiet split: if_splits)

interpretation localq: quiet_executor "Run_local spawn e"
  by unfold_locales (rule Run_local_quiet)

section \<open>The interface of the key service\<close>

text \<open>
  \<open>ready\<close> is the invariant of the agent's state.  Removing by fingerprint, when it reports success,
  takes exactly that fingerprint off the list.
\<close>

locale agent_checker =
  fixes list_fps :: "'st \<Rightarrow> string + string list"
    and remove_fp :: "string \<Rightarrow> 'st \<Rightarrow> 'st \<times> string option"
    and ready :: "'st \<Rightarrow> bool"
  assumes list_remove:
      "ready st \<Longrightarrow> list_fps st = Inr fps \<Longrightarrow> remove_fp fp st = (st', None) \<Longrightarrow>
       \<exists>fps'. list_fps st' = Inr fps' \<and> set fps' = set fps - {fp}"
    and ready_remove: "ready st \<Longrightarrow> ready (fst (remove_fp fp st))"
    and remove_total: "ready st \<Longrightarrow> list_fps st = Inr fps \<Longrightarrow> snd (remove_fp fp st) = None"
begin

text \<open>Removing several fingerprints one after the other, as a client does that deletes several keys.\<close>

lemma remove_many:
  assumes "ready st" and "list_fps st = Inr fps"
  shows "\<exists>fps'. list_fps (fold (\<lambda>fp s. fst (remove_fp fp s)) rs st) = Inr fps' \<and>
    set fps' = set fps - set rs"
  using assms
proof (induction rs arbitrary: st fps)
  case (Cons r rs)
  have "remove_fp r st = (fst (remove_fp r st), None)"
    using remove_total [OF Cons.prems] by (simp add: prod_eq_iff)
  then obtain fps1 where "list_fps (fst (remove_fp r st)) = Inr fps1" "set fps1 = set fps - {r}"
    using list_remove [OF Cons.prems] by blast
  moreover obtain fps' where
    "list_fps (fold (\<lambda>fp s. fst (remove_fp fp s)) rs (fst (remove_fp r st))) = Inr fps'"
    "set fps' = set fps1 - set rs"
    using Cons.IH [OF ready_remove [OF Cons.prems(1)] calculation(1)] by blast
  ultimately show ?case by auto
qed simp

end

text \<open>
  The managed agent behind its socket: \<open>ServeAgent\<close> calls the methods, and the client turns every
  failure into a message of its own.  Public keys travel as blobs, so the fingerprint that the agent
  computes is that of the blob.
\<close>

definition wire_crypto ::
    "(string \<Rightarrow> string) \<Rightarrow> ('priv, 'sg, managed_key_info, 'sig) crypto
      \<Rightarrow> ('priv, 'sg, managed_key_info, 'sig) crypto" where
  "wire_crypto h cr = cr\<lparr>FingerprintSHA256 := (\<lambda>k. h (info_blob k)), PublicKey_Type := info_format,
     PublicKey_Marshal := info_blob\<rparr>"

definition wire_result :: "'st \<times> agent_err option \<Rightarrow> 'st \<times> string option" where
  "wire_result r = map_prod id (map_option (\<lambda>_. ''agent: failure'')) r"

definition managed_client ::
    "(string \<Rightarrow> string) \<Rightarrow> ('priv, 'sg, managed_key_info, 'sig) crypto \<Rightarrow> int
      \<Rightarrow> ('sg managedAgent, 'priv) agent_client" where
  "managed_client h cr now =
     (let wc = wire_crypto h cr in
      \<lparr>cl_List = (\<lambda>m. case List_agent wc m of
           Inl _ \<Rightarrow> Inl ''agent: failed to list keys'' | Inr keys \<Rightarrow> Inr keys),
       cl_Add = (\<lambda>priv c secs conf m. wire_result (Add_agent wc now priv c secs conf m)),
       cl_Remove = (\<lambda>key m. wire_result (Remove_agent wc key m)),
       cl_RemoveAll = (\<lambda>m. wire_result (RemoveAll_agent m)),
       cl_Lock = (\<lambda>pw m. wire_result (Lock_agent pw m)),
       cl_Unlock = (\<lambda>pw m. wire_result (Unlock_agent pw m))\<rparr>)"

lemma wire_crypto_sel [simp]:
  "FingerprintSHA256 (wire_crypto h cr) k = h (info_blob k)"
  "PublicKey_Type (wire_crypto h cr) = info_format" "PublicKey_Marshal (wire_crypto h cr) = info_blob"
  "PublicKey_of (wire_crypto h cr) = PublicKey_of cr"
  by (simp_all add: wire_crypto_def)

lemma managed_fingerprints:
  assumes inv: "agent_inv (wire_crypto h cr) m" and keys: "cl_List (managed_client h cr now) m = Inr keys"
  shows "map (\<lambda>k. h (info_blob k)) keys = map fst (ag_keys m)" and "\<not> ag_locked m"
proof -
  have each: "fp = h (info_blob (PublicKey_of cr (mk_signer k)))" if "(fp, k) \<in> set (ag_keys m)" for fp k
    using inv that by (auto simp: agent_inv_def)
  from keys have unlocked: "\<not> ag_locked m" and keys_eq: "keys = map (\<lambda>(fp, k). identity_of (wire_crypto h cr) k) (ag_keys m)"
    by (auto simp: managed_client_def List_agent_def Let_def identity_of_def split: if_splits)
  have "map (\<lambda>k. h (info_blob k)) keys = map (\<lambda>(fp, k). h (info_blob (PublicKey_of cr (mk_signer k)))) (ag_keys m)"
    unfolding keys_eq by (simp add: identity_of_def comp_def split_def)
  also have "\<dots> = map fst (ag_keys m)"
  proof (rule map_cong [OF refl])
    fix x assume "x \<in> set (ag_keys m)"
    then show "(case x of (fp, k) \<Rightarrow> h (info_blob (PublicKey_of cr (mk_signer k)))) = fst x"
      using each [of "fst x" "snd x"] by (simp add: split_def)
  qed
  finally show "map (\<lambda>k. h (info_blob k)) keys = map fst (ag_keys m)" .
  show "\<not> ag_locked m" by (rule unlocked)
qed

definition connected :: "sockets \<Rightarrow> agentService \<Rightarrow> bool" where
  "connected so s \<longleftrightarrow> connect so s = None"

definition socket_here :: sockets where
  "socket_here = \<lparr>so_stat = (\<lambda>_. Some True), so_dial = (\<lambda>_. None)\<rparr>"

definition service_at :: "string \<Rightarrow> agentService" where
  "service_at p = NewService (CHR ''/'' # p) None"

lemma connect_here [simp]: "connect socket_here (service_at p) = None"
  by (simp add: connect_def socket_here_def service_at_def NewService_def)

lemma remove_fp_cases:
  assumes inv: "agent_inv (wire_crypto h cr) m" and keys: "cl_List (managed_client h cr now) m = Inr keys"
  shows "\<exists>m'. RemoveKeyByFingerprint_svc h (managed_client h cr now) socket_here (service_at p) fp m = (m', None) \<and>
    ag_keys m' = AList.delete fp (ag_keys m) \<and> ag_locked m' = ag_locked m"
proof (cases "find (\<lambda>key. h (info_blob key) = fp) keys")
  case None
  then have "fp \<notin> set (map fst (ag_keys m))"
    unfolding managed_fingerprints(1) [OF assms, symmetric] by (auto simp: find_None_iff)
  then have "AList.delete fp (ag_keys m) = ag_keys m" by (simp add: delete_idem)
  with None keys show ?thesis by (simp add: RemoveKeyByFingerprint_svc_def)
next
  case (Some key)
  then have key: "h (info_blob key) = fp" "key \<in> set keys" by (auto simp: find_Some_iff)
  then have "fp \<in> set (map fst (ag_keys m))"
    unfolding managed_fingerprints(1) [OF assms, symmetric] by auto
  then have "map_of (ag_keys m) fp \<noteq> None" by (simp add: map_of_eq_None_iff)
  with Some keys key managed_fingerprints(2) [OF assms] show ?thesis
    by (simp add: RemoveKeyByFingerprint_svc_def managed_client_def Let_def Remove_agent_def wire_result_def)
qed

lemma list_fps_unlocked:
  "ListLoadedFingerprints h (managed_client h cr now) socket_here (service_at p) m = Inr fps \<Longrightarrow>
   agent_inv (wire_crypto h cr) m \<Longrightarrow> \<not> ag_locked m \<and> fps = map fst (ag_keys m)"
  using managed_fingerprints [of h cr m now]
  by (auto simp: ListLoadedFingerprints_def split: sum.splits)

lemma list_fps_eq:
  assumes "agent_inv (wire_crypto h cr) m" and "\<not> ag_locked m"
  shows "ListLoadedFingerprints h (managed_client h cr now) socket_here (service_at p) m = Inr (map fst (ag_keys m))"
proof -
  obtain keys where "cl_List (managed_client h cr now) m = Inr keys"
    using assms(2) by (simp add: managed_client_def List_agent_def Let_def)
  with managed_fingerprints(1) [OF assms(1) this] show ?thesis by (simp add: ListLoadedFingerprints_def)
qed

interpretation svc: agent_checker
  "ListLoadedFingerprints h (managed_client h cr now) socket_here (service_at p)"
  "RemoveKeyByFingerprint_svc h (managed_client h cr now) socket_here (service_at p)"
  "agent_inv (wire_crypto h cr)"
proof
  fix st :: "'a managedAgent" and fps fp st'
  let ?list = "ListLoadedFingerprints h (managed_client h cr now) socket_here (service_at p)"
  let ?remove = "RemoveKeyByFingerprint_svc h (managed_client h cr now) socket_here (service_at p)"
  show inv': "agent_inv (wire_crypto h cr) (fst (?remove fp st))" if "agent_inv (wire_crypto h cr) st"
    using that agent_inv_serve [OF that, of now "RRemove _"]
    by (auto simp: RemoveKeyByFingerprint_svc_def managed_client_def wire_result_def serve_def Let_def
        split: sum.split option.split)
  {
    assume st: "agent_inv (wire_crypto h cr) st" "?list st = Inr fps"
    then obtain keys where keys: "cl_List (managed_client h cr now) st = Inr keys"
      by (auto simp: ListLoadedFingerprints_def split: sum.splits)
    note rm = remove_fp_cases [OF st(1) keys, of p fp]
    then show "snd (?remove fp st) = None" by auto
    assume st': "?remove fp st = (st', None)"
    with rm have "ag_keys st' = AList.delete fp (ag_keys st)" "ag_locked st' = ag_locked st" by auto
    with list_fps_unlocked [OF st(2,1)] inv' [OF st(1)] st'
    show "\<exists>fps'. ?list st' = Inr fps' \<and> set fps' = set fps - {fp}"
      by (auto simp: list_fps_eq delete_keys simp del: set_map)
  }
qed

section \<open>Properties\<close>

text \<open>
  Through the socket, the key service can take keys out of the managed agent by fingerprint: after
  any run of the agent that left it unlocked, removing any list of fingerprints one by one leaves
  loaded exactly the fingerprints that were loaded and are not in the list; each removal succeeds, also
  of a fingerprint that is not loaded.
\<close>

theorem service_removes_fingerprints:
  assumes run: "m = fst (agent_run (wire_crypto h cr) reqs (NewManagedAgent path))"
    and unlocked: "\<not> ag_locked m"
  shows "\<exists>fps'. ListLoadedFingerprints h (managed_client h cr now) socket_here (service_at p)
      (fold (\<lambda>fp s. fst (RemoveKeyByFingerprint_svc h (managed_client h cr now) socket_here (service_at p) fp s))
        rs m) = Inr fps' \<and> set fps' = set (map fst (ag_keys m)) - set rs"
proof -
  have inv: "agent_inv (wire_crypto h cr) m" unfolding run by (intro agent_inv_run agent_inv_new)
  show ?thesis by (rule svc.remove_many [OF inv list_fps_eq [OF inv unlocked]])
qed

definition demo_wire :: "(string, string, managed_key_info, string) crypto" where
  "demo_wire = \<lparr>NewSignerFromKey = (\<lambda>p. if p = [] then None else Some p),
     PublicKey_of = (\<lambda>s. \<lparr>info_format = ''ssh-ed25519'', info_blob = s, info_comment = []\<rparr>),
     FingerprintSHA256 = info_blob, PublicKey_Type = info_format, PublicKey_Marshal = info_blob,
     is_AlgorithmSigner = (\<lambda>_. False), SignWithAlgorithm = (\<lambda>_ _ _. None), Sign_default = (\<lambda>s d. Some d)\<rparr>"

theorem service_removes_fingerprints_witness:
  "(let m = fst (agent_run (wire_crypto id demo_wire) [(0, RAdd ''a'' [] 0 False), (0, RAdd ''b'' [] 0 False)]
              (NewManagedAgent ''/s''))
    in \<exists>fps'. ListLoadedFingerprints id (managed_client id demo_wire 1) socket_here (service_at ''s'')
         (fold (\<lambda>fp s. fst (RemoveKeyByFingerprint_svc id (managed_client id demo_wire 1) socket_here
            (service_at ''s'') fp s)) [''a''] m) = Inr fps' \<and> set fps' = {''b''})"
proof -
  let ?m = "fst (agent_run (wire_crypto id demo_wire) [(0, RAdd ''a'' [] 0 False), (0, RAdd ''b'' [] 0 False)]
      (NewManagedAgent ''/s''))"
  have "\<not> ag_locked ?m" and "map fst (ag_keys ?m) = [''a'', ''b'']"
    by (simp_all add: serve_def Add_agent_def wire_crypto_def demo_wire_def NewManagedAgent_def Let_def)
  moreover have "set [''a'', ''b''] - set [''a''] = {''b''}" by auto
  ultimately show ?thesis
    using service_removes_fingerprints [OF refl, of id demo_wire
        "[(0, RAdd ''a'' [] 0 False), (0, RAdd ''b'' [] 0 False)]" "''/s''" 1 "''s''" "[''a'']"]
    unfolding Let_def by (metis (no_types, lifting))
qed

text \<open>
  The branch of \<open>ListKeys\<close> that turns the exit of \<open>ssh-add -l\<close> without keys into an empty list is
  never taken with the executor of the program: a failed command returns no output, so the output
  cannot contain \<open>no identities\<close>, and an agent without keys is reported as an error.
\<close>

theorem cli_list_never_empty:
  assumes "Run_local spawn e ''ssh-add'' [''-l''] w = (w', out, Some err)"
  shows "ListKeys_cli (Run_local spawn e) w = (w', Inl err)"
  using assms by (rule localq.cli_list_failure)

theorem cli_list_never_empty_witness:
  "ListKeys_cli (Run_local (\<lambda>_ _ w. (w, \<lparr>proc_out = ''The agent has no identities.'', proc_err = [],
       proc_fail = Some ''exit status 1''\<rparr>)) NewLocalExecutor) () = ((), Inl ''exit status 1: '')"
proof -
  let ?spawn = "\<lambda>_ _ w. (w :: unit, \<lparr>proc_out = ''The agent has no identities.'', proc_err = [],
       proc_fail = Some ''exit status 1''\<rparr>)"
  have "Run_local ?spawn NewLocalExecutor ''ssh-add'' [''-l''] () = ((), [], Some ''exit status 1: '')"
    by (simp add: Run_local_def NewLocalExecutor_def run_cmd_def)
  then show ?thesis by (rule cli_list_never_empty)
qed

end
