(* ===== verification/TreeFS.thy ===== *)
theory TreeFS
  imports FileSystem Paths "HOL-Library.List_Lexorder" "HOL-Library.Char_ord"
begin

text \<open>
  A file system with directories, for the updater, which renames and removes whole trees.  A state
  lists the clean absolute path of every file and directory (the root excepted) with its node (the
  first entry of a path counts); the other fields say which calls the operating system refuses, how much of a refused write arrives,
  and what a refused \<open>RemoveAll\<close> leaves behind.  Every operation returns the new state and the
  error of the Go call, \<open>None\<close> for \<open>nil\<close>.

  \<open>within d p\<close> says that \<open>p\<close> is the directory \<open>d\<close> or lies in it, and \<open>subtree d t\<close> is all that \<open>t\<close>
  holds there, relative to \<open>d\<close>: the lemmas state what each operation does to the subtrees.
\<close>

datatype node = Dir | File string int

datatype fscall =
    CStat string | CRead string | CMkdir string | CCreate string | CWrite string | CChmod string
  | CRemove string | CRemoveAll string | CRename string string

record treefs =
  nodes :: "(string \<times> node) list"
  refuse :: "fscall \<Rightarrow> bool"
  spare :: "string \<Rightarrow> bool"
  short :: "string \<Rightarrow> nat"

definition look :: "treefs \<Rightarrow> string \<Rightarrow> node option" where
  "look t p = map_of (nodes t) p"

definition inside :: "string \<Rightarrow> string \<Rightarrow> bool" where
  "inside d p \<longleftrightarrow> has_prefix p (d @ ''/'')"

definition within :: "string \<Rightarrow> string \<Rightarrow> bool" where
  "within d p \<longleftrightarrow> p = d \<or> inside d p"

text \<open>The directories on the way to a path, from the top, and the path itself.\<close>

definition dir_chain :: "string \<Rightarrow> string list" where
  "dir_chain p =
     filter (\<lambda>q. q \<noteq> []) (map (\<lambda>i. take i p) (filter (\<lambda>i. p ! i = CHR ''/'') [0..<length p])) @ [p]"

definition is_dir :: "treefs \<Rightarrow> string \<Rightarrow> bool" where
  "is_dir t p \<longleftrightarrow> look t p = Some Dir"

definition parents_ok :: "treefs \<Rightarrow> string \<Rightarrow> bool" where
  "parents_ok t p \<longleftrightarrow> list_all (is_dir t) (butlast (dir_chain p))"

definition nothing_inside :: "treefs \<Rightarrow> string \<Rightarrow> bool" where
  "nothing_inside t p \<longleftrightarrow> list_all (\<lambda>(q, n). \<not> inside p q) (nodes t)"

definition set_node :: "string \<Rightarrow> node \<Rightarrow> treefs \<Rightarrow> treefs" where
  "set_node p n t = t\<lparr>nodes := (p, n) # nodes t\<rparr>"

definition drop_nodes :: "(string \<Rightarrow> bool) \<Rightarrow> treefs \<Rightarrow> treefs" where
  "drop_nodes P t = t\<lparr>nodes := filter (\<lambda>(q, n). \<not> P q) (nodes t)\<rparr>"

section \<open>The operations\<close>

definition t_stat :: "string \<Rightarrow> treefs \<Rightarrow> ioerr option" where
  "t_stat p t =
     (if refuse t (CStat p) then Some IOFail
      else case look t p of None \<Rightarrow> Some NotExist | Some _ \<Rightarrow> None)"

definition t_read_file :: "string \<Rightarrow> treefs \<Rightarrow> ioerr + string" where
  "t_read_file p t =
     (case look t p of
        None \<Rightarrow> Inl NotExist
      | Some Dir \<Rightarrow> Inl IOFail
      | Some (File c m) \<Rightarrow> if refuse t (CRead p) then Inl IOFail else Inr c)"

definition t_mkdir_all :: "string \<Rightarrow> treefs \<Rightarrow> treefs \<times> ioerr option" where
  "t_mkdir_all p t =
     (if refuse t (CMkdir p) \<or> list_ex (\<lambda>q. look t q \<noteq> None \<and> \<not> is_dir t q) (dir_chain p)
      then (t, Some IOFail)
      else (t\<lparr>nodes := map (\<lambda>q. (q, Dir)) (dir_chain p) @ nodes t\<rparr>, None))"

text \<open>\<open>os.Create\<close>: a new file gets the mode 0666 less the usual umask 022.\<close>

definition t_create :: "string \<Rightarrow> treefs \<Rightarrow> treefs \<times> ioerr option" where
  "t_create p t =
     (if \<not> parents_ok t p then (t, Some NotExist)
      else if refuse t (CCreate p) then (t, Some IOFail)
      else (case look t p of
          Some Dir \<Rightarrow> (t, Some IOFail)
        | Some (File c m) \<Rightarrow> (set_node p (File [] m) t, None)
        | None \<Rightarrow> (set_node p (File [] 420) t, None)))"

text \<open>A write to the file that was opened at \<open>p\<close>.\<close>

definition t_write :: "string \<Rightarrow> string \<Rightarrow> treefs \<Rightarrow> treefs \<times> ioerr option" where
  "t_write p s t =
     (case look t p of
        Some (File c m) \<Rightarrow>
          if refuse t (CWrite p) then (set_node p (File (c @ take (short t p) s) m) t, Some IOFail)
          else (set_node p (File (c @ s) m) t, None)
      | _ \<Rightarrow> (t, Some IOFail))"

text \<open>\<open>os.WriteFile\<close> with the mode of a new file.\<close>

definition t_write_file :: "string \<Rightarrow> string \<Rightarrow> int \<Rightarrow> treefs \<Rightarrow> treefs \<times> ioerr option" where
  "t_write_file p s mode t =
     (case t_create p t of
        (t1, Some e) \<Rightarrow> (t1, Some e)
      | (t1, None) \<Rightarrow> t_write p s (if look t p = None then set_node p (File [] mode) t1 else t1))"

text \<open>\<open>os.ReadDir\<close>: the names in a directory, sorted.\<close>

definition dir_names :: "string \<Rightarrow> treefs \<Rightarrow> string list" where
  "dir_names d t =
     sort (remdups (filter (\<lambda>n. n \<noteq> [] \<and> slash \<notin> set n)
       (map (\<lambda>(q, n). drop (Suc (length d)) q) (filter (\<lambda>(q, n). inside d q) (nodes t)))))"

definition t_read_dir :: "string \<Rightarrow> treefs \<Rightarrow> ioerr + (string \<times> bool) list" where
  "t_read_dir d t =
     (case look t d of
        None \<Rightarrow> Inl NotExist
      | Some n \<Rightarrow>
          if n \<noteq> Dir \<or> refuse t (CRead d) then Inl IOFail
          else Inr (map (\<lambda>n. (n, is_dir t (d @ slash # n))) (dir_names d t)))"

definition t_chmod :: "string \<Rightarrow> int \<Rightarrow> treefs \<Rightarrow> treefs \<times> ioerr option" where
  "t_chmod p mode t =
     (case look t p of
        None \<Rightarrow> (t, Some NotExist)
      | Some n \<Rightarrow>
          if refuse t (CChmod p) then (t, Some IOFail)
          else (case n of Dir \<Rightarrow> (t, None) | File c m \<Rightarrow> (set_node p (File c mode) t, None)))"

definition t_remove :: "string \<Rightarrow> treefs \<Rightarrow> treefs \<times> ioerr option" where
  "t_remove p t =
     (case look t p of
        None \<Rightarrow> (t, Some NotExist)
      | Some n \<Rightarrow>
          if n = Dir \<and> \<not> nothing_inside t p \<or> refuse t (CRemove p) then (t, Some IOFail)
          else (drop_nodes (\<lambda>q. q = p) t, None))"

definition t_remove_all :: "string \<Rightarrow> treefs \<Rightarrow> treefs \<times> ioerr option" where
  "t_remove_all p t =
     (if refuse t (CRemoveAll p) then (drop_nodes (\<lambda>q. within p q \<and> \<not> spare t q) t, Some IOFail)
      else (drop_nodes (within p) t, None))"

text \<open>
  \<open>rename(2)\<close>: everything under \<open>a\<close> moves to \<open>b\<close>.  An empty directory at \<open>b\<close> is replaced by a
  directory, a file by a file; any other target, a target inside the source and a target without
  its parent directory are refused.
\<close>

definition moved :: "string \<Rightarrow> string \<Rightarrow> string \<Rightarrow> string" where
  "moved a b q = (if within a q then b @ drop (length a) q else q)"

definition t_rename :: "string \<Rightarrow> string \<Rightarrow> treefs \<Rightarrow> treefs \<times> ioerr option" where
  "t_rename a b t =
     (case look t a of
        None \<Rightarrow> (t, Some NotExist)
      | Some n \<Rightarrow>
          if within a b \<or> within b a \<or> \<not> parents_ok t b \<or> \<not> nothing_inside t b \<or> refuse t (CRename a b) \<or>
             (case look t b of None \<Rightarrow> False | Some m \<Rightarrow> (n = Dir) \<noteq> (m = Dir))
          then (t, Some IOFail)
          else (let t' = drop_nodes (\<lambda>q. q = b) t in
                (t'\<lparr>nodes := map (\<lambda>(q, m). (moved a b q, m)) (nodes t')\<rparr>, None)))"

section \<open>Paths\<close>

lemma within_iff: "within d p \<longleftrightarrow> p = d \<or> (\<exists>s. p = d @ CHR ''/'' # s)"
  by (auto simp: within_def inside_def has_prefix_iff)

lemma within_refl [simp]: "within d d"
  by (simp add: within_def)

lemma within_trans: "within a b \<Longrightarrow> within b c \<Longrightarrow> within a c"
  by (auto simp: within_iff)

lemma within_comparable: "within a p \<Longrightarrow> within b p \<Longrightarrow> within a b \<or> within b a"
  by (auto simp: within_iff append_eq_append_conv2 Cons_eq_append_conv append_eq_Cons_conv)

text \<open>A directory and its sibling with a longer name.\<close>

lemma sibling_apart:
  assumes "s \<noteq> []" and "CHR ''/'' \<notin> set s"
  shows "\<not> within d (d @ s)" and "\<not> within (d @ s) d"
  using assms by (auto simp: within_iff)

lemma chain_above: "q \<in> set (dir_chain p) \<Longrightarrow> within q p"
proof (auto simp: dir_chain_def)
  fix i assume i: "i < length p" "p ! i = CHR ''/''"
  then have "p = take i p @ CHR ''/'' # drop (Suc i) p" by (metis id_take_nth_drop)
  then show "within (take i p) p" unfolding within_iff by blast
qed

section \<open>What the operations do\<close>

lemma look_set_node [simp]: "look (set_node p n t) q = (if q = p then Some n else look t q)"
  by (simp add: look_def set_node_def)

lemma look_drop_nodes [simp]: "look (drop_nodes P t) q = (if P q then None else look t q)"
proof -
  have "map_of (filter (\<lambda>(q, n). \<not> P q) xs) q = (if P q then None else map_of xs q)" for xs :: "(string \<times> node) list"
    by (induction xs) auto
  then show ?thesis by (simp add: look_def drop_nodes_def)
qed

lemma policy_nodes [simp]:
  "refuse (set_node p n t) = refuse t" "spare (set_node p n t) = spare t" "short (set_node p n t) = short t"
  "refuse (drop_nodes P t) = refuse t" "spare (drop_nodes P t) = spare t" "short (drop_nodes P t) = short t"
  by (simp_all add: set_node_def drop_nodes_def)

lemma map_of_moved:
  assumes "\<forall>(k, n) \<in> set xs. \<not> within b k" and "\<not> within a b" and "\<not> within b a"
  shows "map_of (map (\<lambda>(k, n). (moved a b k, n)) xs) q =
    (if within b q then map_of xs (a @ drop (length b) q) else if within a q then None else map_of xs q)"
  using assms(1)
proof (induction xs)
  case (Cons x xs)
  obtain k n where x: "x = (k, n)" by (cases x)
  with Cons.prems have k: "\<not> within b k" by simp
  have key: "moved a b k = q \<longleftrightarrow> (if within b q then k = a @ drop (length b) q else \<not> within a q \<and> k = q)"
    using k assms(2,3) within_comparable [of a q b]
    by (auto simp: moved_def within_iff)
  have "map_of (map (\<lambda>(k, n). (moved a b k, n)) (x # xs)) q =
      (if moved a b k = q then Some n else map_of (map (\<lambda>(k, n). (moved a b k, n)) xs) q)"
    by (simp add: x)
  also have "\<dots> = (if within b q then map_of (x # xs) (a @ drop (length b) q)
      else if within a q then None else map_of (x # xs) q)"
    unfolding key using Cons by (simp add: x)
  finally show ?case .
qed simp

lemma look_rename:
  assumes "t_rename a b t = (t', None)"
  shows "look t' q = (if within b q then look t (a @ drop (length b) q) else if within a q then None else look t q)"
    and "look t a \<noteq> None" and "\<not> within a b" and "\<not> within b a"
proof -
  have ok: "\<not> within a b" "\<not> within b a" "nothing_inside t b" "look t a \<noteq> None"
    and t': "t' = (drop_nodes (\<lambda>q. q = b) t)\<lparr>nodes := map (\<lambda>(q, m). (moved a b q, m)) (nodes (drop_nodes (\<lambda>q. q = b) t))\<rparr>"
    using assms by (auto simp: t_rename_def Let_def split: option.splits if_splits)
  have free: "\<forall>(k, n) \<in> set (nodes (drop_nodes (\<lambda>q. q = b) t)). \<not> within b k"
    using ok(3) by (auto simp: nothing_inside_def list_all_iff drop_nodes_def within_def)
  have "a @ drop (length b) q \<noteq> b" if "within b q"
  proof
    assume "a @ drop (length b) q = b"
    with that ok show False by (auto simp: within_iff)
  qed
  then show "look t' q = (if within b q then look t (a @ drop (length b) q) else if within a q then None else look t q)"
    using map_of_moved [OF free ok(1,2), of q] look_drop_nodes [of "\<lambda>q. q = b" t]
    by (auto simp: t' look_def)
  show "look t a \<noteq> None" "\<not> within a b" "\<not> within b a" using ok by auto
qed

section \<open>Subtrees\<close>

text \<open>\<open>keeps d t t'\<close>: nothing changes in \<open>d\<close>.  \<open>same_tree a t b t'\<close>: what was at \<open>a\<close> is at \<open>b\<close>.\<close>

definition keeps :: "string \<Rightarrow> treefs \<Rightarrow> treefs \<Rightarrow> bool" where
  "keeps d t t' \<longleftrightarrow> (\<forall>q. within d q \<longrightarrow> look t' q = look t q)"

definition same_tree :: "string \<Rightarrow> treefs \<Rightarrow> string \<Rightarrow> treefs \<Rightarrow> bool" where
  "same_tree a t b t' \<longleftrightarrow> (\<forall>s. s = [] \<or> hd s = slash \<longrightarrow> look t' (b @ s) = look t (a @ s))"

lemma within_suffix: "within d q \<longleftrightarrow> (\<exists>s. (s = [] \<or> hd s = slash) \<and> q = d @ s)"
  unfolding within_iff by (metis append_Nil2 list.collapse list.sel(1))

lemma keeps_same_tree: "keeps d t t' \<longleftrightarrow> same_tree d t d t'"
  by (auto simp: keeps_def same_tree_def within_suffix)

lemma keeps_refl [simp, intro]: "keeps d t t"
  by (simp add: keeps_def)

lemma keeps_trans: "keeps d t t' \<Longrightarrow> keeps d t' t'' \<Longrightarrow> keeps d t t''"
  by (simp add: keeps_def)

lemma same_tree_trans: "same_tree a t b t' \<Longrightarrow> same_tree b t' c t'' \<Longrightarrow> same_tree a t c t''"
  by (simp add: same_tree_def)

lemma same_tree_keeps: "same_tree a t b t' \<Longrightarrow> keeps b t' t'' \<Longrightarrow> same_tree a t b t''"
  using same_tree_trans keeps_same_tree by metis

lemma keeps_same_tree_trans: "keeps a t t' \<Longrightarrow> same_tree a t' b t'' \<Longrightarrow> same_tree a t b t''"
  using same_tree_trans keeps_same_tree by metis

named_theorems tree_keeps \<open>operations that leave a subtree alone\<close>

lemma keeps_set_node [tree_keeps]: "\<not> within d p \<Longrightarrow> keeps d t (set_node p n t)"
  by (auto simp: keeps_def)

lemma keeps_drop_nodes: "(\<And>q. within d q \<Longrightarrow> \<not> P q) \<Longrightarrow> keeps d t (drop_nodes P t)"
  by (auto simp: keeps_def)

lemma look_mkdir:
  "look (t\<lparr>nodes := map (\<lambda>q. (q, Dir)) ps @ nodes t\<rparr>) q = (if q \<in> set ps then Some Dir else look t q)"
proof -
  have "map_of (map (\<lambda>q. (q, Dir)) ps) q = (if q \<in> set ps then Some Dir else None)" by (induction ps) auto
  then show ?thesis by (simp add: look_def map_add_def)
qed

lemma keeps_mkdir [tree_keeps]: "\<not> within d p \<Longrightarrow> keeps d t (fst (t_mkdir_all p t))"
  unfolding t_mkdir_all_def keeps_def using chain_above within_trans
  by (auto simp: look_mkdir)

lemma keeps_create [tree_keeps]: "\<not> within d p \<Longrightarrow> keeps d t (fst (t_create p t))"
  by (auto simp: t_create_def keeps_set_node split: option.splits node.splits)

lemma keeps_write [tree_keeps]: "\<not> within d p \<Longrightarrow> keeps d t (fst (t_write p s t))"
  by (auto simp: t_write_def keeps_set_node split: option.splits node.splits)

lemma keeps_chmod [tree_keeps]: "\<not> within d p \<Longrightarrow> keeps d t (fst (t_chmod p m t))"
  by (auto simp: t_chmod_def keeps_set_node split: option.splits node.splits)

lemma keeps_remove [tree_keeps]: "\<not> within d p \<Longrightarrow> keeps d t (fst (t_remove p t))"
  by (auto simp: t_remove_def split: option.splits intro: keeps_drop_nodes)

lemma keeps_remove_all [tree_keeps]:
  assumes "\<not> within d p" and "\<not> within p d"
  shows "keeps d t (fst (t_remove_all p t))"
proof -
  have "\<not> within p q" if "within d q" for q using that assms within_comparable by blast
  then show ?thesis by (auto simp: t_remove_all_def intro!: keeps_drop_nodes)
qed

lemma rename_failed: "t_rename a b t = (t', Some e) \<Longrightarrow> t' = t"
  by (auto simp: t_rename_def Let_def split: option.splits if_splits)

lemma rename_moves:
  assumes "t_rename a b t = (t', None)"
  shows "same_tree a t b t'"
proof -
  have "look t' (b @ s) = look t (a @ s)" if "s = [] \<or> hd s = slash" for s
    using look_rename(1) [OF assms, of "b @ s"] that within_suffix [of b "b @ s"] by auto
  then show ?thesis by (simp add: same_tree_def)
qed

lemma keepsD: "keeps d t (fst (op t)) \<Longrightarrow> op t = (t', e) \<Longrightarrow> keeps d t t'"
  by simp

lemma keeps_look: "keeps d t t' \<Longrightarrow> look t' d = look t d"
  by (simp add: keeps_def)

lemma same_tree_look: "same_tree a t b t' \<Longrightarrow> look t' b = look t a"
  unfolding same_tree_def by (metis append_Nil2)

text \<open>The entries of a directory.\<close>

lemma dir_names_iff:
  "n \<in> set (dir_names d t) \<longleftrightarrow> n \<noteq> [] \<and> slash \<notin> set n \<and> look t (d @ slash # n) \<noteq> None"
proof -
  have "n \<in> set (map (\<lambda>(q, n). drop (Suc (length d)) q) (filter (\<lambda>(q, n). inside d q) (nodes t)))
      \<longleftrightarrow> d @ slash # n \<in> fst ` set (nodes t)"
    by (force simp: inside_def has_prefix_iff image_iff)
  then show ?thesis
    unfolding dir_names_def look_def map_of_eq_None_iff set_sort set_remdups set_filter by auto
qed

lemma dir_names_sorted: "sorted (dir_names d t)" "distinct (dir_names d t)"
  by (simp_all add: dir_names_def)

text \<open>Writing a whole file.\<close>

lemma t_write_file_ok:
  assumes "t_write_file p s m t = (t', None)"
  shows "look t' q = (if q = p then Some (File s (case look t p of Some (File c m') \<Rightarrow> m' | _ \<Rightarrow> m)) else look t q)"
    and "refuse t' = refuse t"
  using assms
  by (auto simp: t_write_file_def t_create_def t_write_def split: prod.splits option.splits if_splits node.splits)

lemma t_write_file_err:
  assumes "t_write_file p s m t = (t', Some e)"
  shows "q \<noteq> p \<Longrightarrow> look t' q = look t q" and "refuse t' = refuse t"
    and "t' = t \<or> refuse t (CWrite p) \<and> look t' p = Some (File (take (short t p) s) (case look t p of Some (File c m') \<Rightarrow> m' | _ \<Rightarrow> m))"
  using assms
  by (auto simp: t_write_file_def t_create_def t_write_def split: prod.splits option.splits if_splits node.splits)

text \<open>What the operating system refuses does not change.\<close>

lemma refuse_keeps [simp]:
  "refuse (fst (t_mkdir_all p t)) = refuse t" "refuse (fst (t_create p t)) = refuse t"
  "refuse (fst (t_write p s t)) = refuse t" "refuse (fst (t_chmod p m t)) = refuse t"
  "refuse (fst (t_remove p t)) = refuse t" "refuse (fst (t_remove_all p t)) = refuse t"
  "refuse (fst (t_rename a b t)) = refuse t"
  by (auto simp: t_mkdir_all_def t_create_def t_write_def t_chmod_def t_remove_def t_remove_all_def
      t_rename_def Let_def split: option.splits node.splits)

end
