(* ===== verification/Keys.thy ===== *)
theory Keys
  imports AgentService TreeFS Passphrase
begin

text \<open>
  The key files: \<open>keys/service.go\<close> (listing, generation, deletion, fingerprints, passphrases) and
  \<open>keys/keygen.go\<close>, over the file system with directories.

  The record \<open>key_lib\<close> is what the code takes from \<open>crypto\<close> and \<open>x/crypto/ssh\<close>: key generation, the
  private key formats, the authorized_keys line of a public key and its parser, fingerprints, and the
  Go key behind a public key.  A service has an agent checker or none (\<open>keys.AgentChecker\<close>); the lemmas
  on deletion rest on the locale of that interface.  A result \<open>None\<close> is a panic.
\<close>

datatype crypto_key = RSAKey int | ECDSAKey int | ED25519Key | OtherKey string

record ('priv, 'pk) key_lib =
  kl_ed25519 :: "string + 'priv"
  kl_ecdsa_p256 :: "string + 'priv"
  kl_rsa :: "int \<Rightarrow> string + 'priv"
  kl_marshal :: "'priv \<Rightarrow> string \<Rightarrow> string + string"
  kl_marshal_encrypted :: "'priv \<Rightarrow> string \<Rightarrow> string \<Rightarrow> string + string"
  kl_parse :: "string \<Rightarrow> string + 'priv"
  kl_parse_encrypted :: "string \<Rightarrow> string \<Rightarrow> string + 'priv"
  kl_public :: "'priv \<Rightarrow> string + 'pk"
  kl_authorized_line :: "'pk \<Rightarrow> string"
  kl_parse_authorized :: "string \<Rightarrow> string + 'pk"
  kl_fp_sha256 :: "'pk \<Rightarrow> string"
  kl_fp_md5 :: "'pk \<Rightarrow> string"
  kl_type :: "'pk \<Rightarrow> string"
  kl_crypto :: "'pk \<Rightarrow> crypto_key option"

section \<open>Key types and records\<close>

text \<open>\<open>KeyType\<close> is a string; these are its constants.\<close>

type_synonym KeyType = string

definition KeyTypeRSA :: KeyType where "KeyTypeRSA = ''rsa''"
definition KeyTypeED25519 :: KeyType where "KeyTypeED25519 = ''ed25519''"
definition KeyTypeECDSA :: KeyType where "KeyTypeECDSA = ''ecdsa''"
definition KeyTypeED25519SK :: KeyType where "KeyTypeED25519SK = ''ed25519-sk''"
definition KeyTypeECDSASK :: KeyType where "KeyTypeECDSASK = ''ecdsa-sk''"
definition KeyTypeUnknown :: KeyType where "KeyTypeUnknown = ''unknown''"

record Key =
  key_ID :: string
  key_Name :: string
  key_PrivateKeyPath :: string
  key_PublicKeyPath :: string
  key_Type :: KeyType
  key_Bits :: int
  key_Comment :: string
  key_FingerprintSHA256 :: string
  key_PublicKey :: string
  key_HasPassphrase :: bool
  key_InAgent :: bool
  key_CreatedAt :: "int option"
  key_ModifiedAt :: "int option"

record GenerateOptions =
  go_Name :: string
  go_Type :: KeyType
  go_Bits :: int
  go_Comment :: string
  go_Passphrase :: string

record 'st agentChecker =
  chk_list :: "'st \<Rightarrow> string + string list"
  chk_remove :: "string \<Rightarrow> 'st \<Rightarrow> 'st \<times> string option"

record 'st keyService =
  ks_sshDir :: string
  ks_agentChecker :: "'st agentChecker option"

definition parseKeyType :: "string \<Rightarrow> KeyType" where
  "parseKeyType s =
     (if s = ''ssh-rsa'' then KeyTypeRSA
      else if s = ''ssh-ed25519'' then KeyTypeED25519
      else if s = ''ecdsa-sha2-nistp256'' \<or> s = ''ecdsa-sha2-nistp384'' \<or> s = ''ecdsa-sha2-nistp521'' then KeyTypeECDSA
      else if s = ''sk-ssh-ed25519@openssh.com'' then KeyTypeED25519SK
      else if s = ''sk-ecdsa-sha2-nistp256@openssh.com'' then KeyTypeECDSASK
      else KeyTypeUnknown)"

definition shouldSkipFile :: "string \<Rightarrow> bool" where
  "shouldSkipFile name \<longleftrightarrow>
     name \<in> set [''config'', ''known_hosts'', ''authorized_keys'', ''environment''] \<or>
     has_suffix name ''.pub'' \<or> has_prefix name ''.''"

definition validateKeyName :: "string \<Rightarrow> string option" where
  "validateKeyName name =
     (if name = [] then Some ''key name cannot be empty''
      else if contains name ''/'' \<or> contains name [CHR 0x5C] then Some ''key name cannot contain path separators''
      else if has_prefix name ''.'' then Some ''key name cannot start with a dot''
      else None)"

section \<open>File names\<close>

text \<open>\<open>filepath.Base\<close>.\<close>

definition path_base :: "string \<Rightarrow> string" where
  "path_base p =
     (if p = [] then ''.''
      else (let q = rev (dropWhile (\<lambda>c. c = slash) (rev p)) in
        if q = [] then ''/'' else rev (takeWhile (\<lambda>c. c \<noteq> slash) (rev q))))"

section \<open>The generator\<close>

definition new_private_key :: "('priv, 'pk) key_lib \<Rightarrow> KeyType \<Rightarrow> int \<Rightarrow> string + 'priv" where
  "new_private_key kl typ bits0 =
     (let wrap = (\<lambda>r. case r of Inl e \<Rightarrow> Inl (''failed to generate key: '' @ e) | Inr k \<Rightarrow> Inr k) in
      if typ = KeyTypeED25519 \<or> typ = [] then wrap (kl_ed25519 kl)
      else if typ = KeyTypeECDSA then wrap (kl_ecdsa_p256 kl)
      else if typ = KeyTypeRSA then
        (let bits = (if bits0 = 0 then 4096 else bits0) in wrap (kl_rsa kl bits))
      else Inl (''unsupported key type: '' @ typ))"

definition marshal_private :: "('priv, 'pk) key_lib \<Rightarrow> 'priv \<Rightarrow> string \<Rightarrow> string \<Rightarrow> string + string" where
  "marshal_private kl k comment passphrase =
     (case (if passphrase \<noteq> [] then kl_marshal_encrypted kl k comment passphrase else kl_marshal kl k comment) of
        Inl e \<Rightarrow> Inl (''failed to marshal private key: '' @ e) | Inr d \<Rightarrow> Inr d)"

definition public_key_line :: "('priv, 'pk) key_lib \<Rightarrow> 'pk \<Rightarrow> string \<Rightarrow> string" where
  "public_key_line kl pk comment =
     (let line = kl_authorized_line kl pk in
      if comment \<noteq> [] then take (length line - 1) line @ '' '' @ comment @ [newline] else line)"

definition GenerateKeyPair ::
    "('priv, 'pk) key_lib \<Rightarrow> GenerateOptions \<Rightarrow> string \<Rightarrow> treefs \<Rightarrow> treefs \<times> string option" where
  "GenerateKeyPair kl opts path t =
     (case new_private_key kl (go_Type opts) (go_Bits opts) of
        Inl e \<Rightarrow> (t, Some e)
      | Inr priv \<Rightarrow>
          (case marshal_private kl priv (go_Comment opts) (go_Passphrase opts) of
             Inl e \<Rightarrow> (t, Some e)
           | Inr pem \<Rightarrow>
               (case t_write_file path pem 384 t of
                  (t1, Some e) \<Rightarrow> (t1, Some (''failed to write private key: '' @ ioerr_msg e))
                | (t1, None) \<Rightarrow>
                    (case kl_public kl priv of
                       Inl e \<Rightarrow> (fst (t_remove path t1), Some (''failed to create signer: '' @ e))
                     | Inr pk \<Rightarrow>
                         (case t_write_file (path @ ''.pub'') (public_key_line kl pk (go_Comment opts)) 420 t1 of
                            (t2, Some e) \<Rightarrow>
                              (fst (t_remove path t2), Some (''failed to write public key: '' @ ioerr_msg e))
                          | (t2, None) \<Rightarrow> (t2, None))))))"

definition CalculateFingerprint ::
    "('priv, 'pk) key_lib \<Rightarrow> string \<Rightarrow> string \<Rightarrow> treefs \<Rightarrow> string + string" where
  "CalculateFingerprint kl path algorithm t =
     (case t_read_file path t of
        Inl e \<Rightarrow> Inl (''failed to read public key: '' @ ioerr_msg e)
      | Inr content \<Rightarrow>
          (case kl_parse_authorized kl content of
             Inl e \<Rightarrow> Inl (''failed to parse public key: '' @ e)
           | Inr pk \<Rightarrow>
               (let algo = (if algorithm = [] then ''sha256'' else algorithm) in
                if algo = ''sha256'' then Inr (kl_fp_sha256 kl pk)
                else if algo = ''md5'' then Inr (kl_fp_md5 kl pk)
                else Inl (''unsupported fingerprint algorithm: '' @ algo))))"

text \<open>The comment of the old private key is dropped: \<open>extractCommentFromPrivateKey\<close> gives the empty string.\<close>

definition ChangePassphrase_gen ::
    "('priv, 'pk) key_lib \<Rightarrow> string \<Rightarrow> string \<Rightarrow> string \<Rightarrow> treefs \<Rightarrow> treefs \<times> string option" where
  "ChangePassphrase_gen kl path oldPass newPass t =
     (case t_read_file path t of
        Inl e \<Rightarrow> (t, Some (''failed to read private key: '' @ ioerr_msg e))
      | Inr content \<Rightarrow>
          (case (if oldPass \<noteq> [] then kl_parse_encrypted kl content oldPass else kl_parse kl content) of
             Inl e \<Rightarrow> (t, Some (''failed to parse private key: '' @ e))
           | Inr priv \<Rightarrow>
               (case marshal_private kl priv [] newPass of
                  Inl e \<Rightarrow> (t, Some e)
                | Inr pem \<Rightarrow>
                    (case t_write_file path pem 384 t of
                       (t1, Some e) \<Rightarrow> (t1, Some (''failed to write private key: '' @ ioerr_msg e))
                     | (t1, None) \<Rightarrow> (t1, None)))))"

text \<open>The type assertion to \<open>ssh.CryptoPublicKey\<close> panics for a key without one.\<close>

definition GetKeyBits :: "('priv, 'pk) key_lib \<Rightarrow> string \<Rightarrow> treefs \<Rightarrow> (string + int) option" where
  "GetKeyBits kl path t =
     (case t_read_file path t of
        Inl e \<Rightarrow> Some (Inl (''failed to read public key: '' @ ioerr_msg e))
      | Inr content \<Rightarrow>
          (case kl_parse_authorized kl content of
             Inl e \<Rightarrow> Some (Inl (''failed to parse public key: '' @ e))
           | Inr pk \<Rightarrow>
               (case kl_crypto kl pk of
                  None \<Rightarrow> None
                | Some (RSAKey n) \<Rightarrow> Some (Inr n)
                | Some (ECDSAKey n) \<Rightarrow> Some (Inr n)
                | Some ED25519Key \<Rightarrow> Some (Inr 256)
                | Some (OtherKey T) \<Rightarrow> Some (Inl (''unsupported key type: '' @ T)))))"

definition GetKeyType :: "('priv, 'pk) key_lib \<Rightarrow> string \<Rightarrow> treefs \<Rightarrow> string + string" where
  "GetKeyType kl path t =
     (case t_read_file path t of
        Inl e \<Rightarrow> Inl (''failed to read public key: '' @ ioerr_msg e)
      | Inr content \<Rightarrow>
          (case kl_parse_authorized kl content of
             Inl e \<Rightarrow> Inl (''failed to parse public key: '' @ e)
           | Inr pk \<Rightarrow>
               (let ty = kl_type kl pk in
                Inr (if ty = ''ssh-rsa'' then KeyTypeRSA
                  else if ty = ''ecdsa-sha2-nistp256'' \<or> ty = ''ecdsa-sha2-nistp384'' \<or> ty = ''ecdsa-sha2-nistp521''
                  then KeyTypeECDSA
                  else if ty = ''ssh-ed25519'' then KeyTypeED25519 else ty))))"

section \<open>The service\<close>

definition Fingerprint_ks ::
    "('priv, 'pk) key_lib \<Rightarrow> 'st keyService \<Rightarrow> string \<Rightarrow> string \<Rightarrow> treefs \<Rightarrow> string + string" where
  "Fingerprint_ks kl s name algorithm0 t =
     (let keyPath = (if path_rooted name then name else path_join [ks_sshDir s, name]);
          algorithm = (if algorithm0 = [] then ''sha256'' else algorithm0);
          publicKeyPath = (if t_stat (keyPath @ ''.pub'') t = Some NotExist then keyPath else keyPath @ ''.pub'') in
      case CalculateFingerprint kl publicKeyPath algorithm t of
        Inl e \<Rightarrow> Inl (''failed to calculate fingerprint: '' @ e)
      | Inr fp \<Rightarrow> Inr fp)"

definition isKeyInAgent_ks :: "'st keyService \<Rightarrow> string \<Rightarrow> 'st \<Rightarrow> bool" where
  "isKeyInAgent_ks s fp st \<longleftrightarrow>
     (if fp = [] \<or> fp = ''unknown'' then False
      else (case ks_agentChecker s of
          None \<Rightarrow> False
        | Some chk \<Rightarrow> (case chk_list chk st of Inl e \<Rightarrow> False | Inr fps \<Rightarrow> fp \<in> set fps)))"

definition file_has_passphrase :: "string \<Rightarrow> treefs \<Rightarrow> bool option" where
  "file_has_passphrase path t =
     (case t_read_file path t of Inl e \<Rightarrow> Some False | Inr content \<Rightarrow> checkHasPassphrase content)"

definition getKeyBits_ks :: "('priv, 'pk) key_lib \<Rightarrow> string \<Rightarrow> treefs \<Rightarrow> int option" where
  "getKeyBits_ks kl path t =
     (case GetKeyBits kl path t of None \<Rightarrow> None | Some (Inl e) \<Rightarrow> Some 0 | Some (Inr n) \<Rightarrow> Some n)"

text \<open>\<open>load\<close>; for an absolute name the fingerprint is asked for under the base name.\<close>

definition load_key ::
    "('priv, 'pk) key_lib \<Rightarrow> (string \<Rightarrow> int) \<Rightarrow> 'st keyService \<Rightarrow> string \<Rightarrow> treefs \<Rightarrow> 'st \<Rightarrow> (string + Key) option"
where
  "load_key kl mtime s name0 t st =
     (let privatePath = (if path_rooted name0 then name0 else path_join [ks_sshDir s, name0]);
          name = (if path_rooted name0 then path_base name0 else name0);
          publicPath = privatePath @ ''.pub'' in
      case t_read_file publicPath t of
        Inl e \<Rightarrow> Some (Inl (''failed to read public key: '' @ ioerr_msg e))
      | Inr pub \<Rightarrow>
          (let parts = str_fields pub in
           if length parts < 2 then Some (Inl ''invalid public key format'')
           else (let fp = (case Fingerprint_ks kl s name ''sha256'' t of Inl e \<Rightarrow> ''unknown'' | Inr fp \<Rightarrow> fp) in
             case file_has_passphrase privatePath t of
               None \<Rightarrow> None
             | Some hasPassphrase \<Rightarrow>
                 (case getKeyBits_ks kl publicPath t of
                    None \<Rightarrow> None
                  | Some bits \<Rightarrow>
                      (let modTime = (if t_stat privatePath t = None then Some (mtime privatePath) else None) in
                       Some (Inr \<lparr>key_ID = fp, key_Name = name, key_PrivateKeyPath = privatePath,
                         key_PublicKeyPath = publicPath, key_Type = parseKeyType (hd parts), key_Bits = bits,
                         key_Comment = (if length parts \<ge> 3 then join '' '' (drop 2 parts) else []),
                         key_FingerprintSHA256 = fp, key_PublicKey = trim_space pub,
                         key_HasPassphrase = hasPassphrase, key_InAgent = isKeyInAgent_ks s fp st,
                         key_CreatedAt = modTime, key_ModifiedAt = modTime\<rparr>))))))"

text \<open>The loop of \<open>List\<close> over the directory entries.\<close>

fun list_keys ::
    "('priv, 'pk) key_lib \<Rightarrow> (string \<Rightarrow> int) \<Rightarrow> 'st keyService \<Rightarrow> treefs \<Rightarrow> 'st \<Rightarrow> string list \<Rightarrow> (string \<times> bool) list
     \<Rightarrow> Key list option" where
  "list_keys kl mtime s t st seen [] = Some []"
| "list_keys kl mtime s t st seen ((name, isdir) # es) =
     (if isdir \<or> shouldSkipFile name then list_keys kl mtime s t st seen es
      else if t_stat (path_join [ks_sshDir s, name @ ''.pub'']) t = Some NotExist then list_keys kl mtime s t st seen es
      else if name \<in> set seen then list_keys kl mtime s t st seen es
      else (case load_key kl mtime s name t st of
          None \<Rightarrow> None
        | Some (Inl e) \<Rightarrow> list_keys kl mtime s t st (name # seen) es
        | Some (Inr key) \<Rightarrow> map_option (\<lambda>ks. key # ks) (list_keys kl mtime s t st (name # seen) es)))"

definition List_keys ::
    "('priv, 'pk) key_lib \<Rightarrow> (string \<Rightarrow> int) \<Rightarrow> 'st keyService \<Rightarrow> treefs \<Rightarrow> 'st \<Rightarrow> (string + Key list) option" where
  "List_keys kl mtime s t st =
     (case t_read_dir (ks_sshDir s) t of
        Inl e \<Rightarrow> Some (Inl (''failed to read .ssh directory: '' @ ioerr_msg e))
      | Inr entries \<Rightarrow> map_option Inr (list_keys kl mtime s t st [] entries))"

definition Generate ::
    "('priv, 'pk) key_lib \<Rightarrow> (string \<Rightarrow> int) \<Rightarrow> 'st keyService \<Rightarrow> GenerateOptions \<Rightarrow> treefs \<Rightarrow> 'st
     \<Rightarrow> treefs \<times> (string + Key) option" where
  "Generate kl mtime s opts t st =
     (case validateKeyName (go_Name opts) of
        Some e \<Rightarrow> (t, Some (Inl e))
      | None \<Rightarrow>
          (let keyPath = path_join [ks_sshDir s, go_Name opts] in
           if t_stat keyPath t = None then (t, Some (Inl (''key already exists: '' @ go_Name opts)))
           else (let typ = (if go_Type opts = [] then KeyTypeED25519 else go_Type opts) in
             case GenerateKeyPair kl (opts\<lparr>go_Type := typ\<rparr>) keyPath t of
               (t1, Some e) \<Rightarrow> (t1, Some (Inl (''key generation failed: '' @ e)))
             | (t1, None) \<Rightarrow> (t1, load_key kl mtime s (go_Name opts) t1 st))))"

definition key_path_of :: "'st keyService \<Rightarrow> string \<Rightarrow> string + string" where
  "key_path_of s name =
     (if path_rooted name then Inr name
      else (case validateKeyName name of Some e \<Rightarrow> Inl e | None \<Rightarrow> Inr (path_join [ks_sshDir s, name])))"

text \<open>\<open>os.Remove\<close>, an absent file being no error.\<close>

definition remove_if_there :: "string \<Rightarrow> treefs \<Rightarrow> treefs \<times> ioerr option" where
  "remove_if_there p t = (case t_remove p t of (t1, Some NotExist) \<Rightarrow> (t1, None) | r \<Rightarrow> r)"

definition remove_from_agent :: "'st keyService \<Rightarrow> string + string \<Rightarrow> 'st \<Rightarrow> 'st" where
  "remove_from_agent s fp st =
     (case (fp, ks_agentChecker s) of
        (Inr f, Some chk) \<Rightarrow> if f \<noteq> [] then fst (chk_remove chk f st) else st
      | _ \<Rightarrow> st)"

definition Delete_key ::
    "('priv, 'pk) key_lib \<Rightarrow> 'st keyService \<Rightarrow> string \<Rightarrow> treefs \<Rightarrow> 'st \<Rightarrow> treefs \<times> 'st \<times> string option" where
  "Delete_key kl s name t st =
     (case key_path_of s name of
        Inl e \<Rightarrow> (t, st, Some e)
      | Inr privatePath \<Rightarrow>
          (let st1 = remove_from_agent s (Fingerprint_ks kl s name ''sha256'' t) st in
           case remove_if_there privatePath t of
             (t1, Some e) \<Rightarrow> (t1, st1, Some (''failed to delete private key: '' @ ioerr_msg e))
           | (t1, None) \<Rightarrow>
               (case remove_if_there (privatePath @ ''.pub'') t1 of
                  (t2, Some e) \<Rightarrow> (t2, st1, Some (''failed to delete public key: '' @ ioerr_msg e))
                | (t2, None) \<Rightarrow> (t2, st1, None))))"

definition ChangePassphrase ::
    "('priv, 'pk) key_lib \<Rightarrow> 'st keyService \<Rightarrow> string \<Rightarrow> string \<Rightarrow> string \<Rightarrow> treefs \<Rightarrow> treefs \<times> string option" where
  "ChangePassphrase kl s name oldPass newPass t =
     (case key_path_of s name of
        Inl e \<Rightarrow> (t, Some e)
      | Inr keyPath \<Rightarrow>
          (case ChangePassphrase_gen kl keyPath oldPass newPass t of
             (t1, Some e) \<Rightarrow> (t1, Some (''failed to change passphrase: '' @ e))
           | (t1, None) \<Rightarrow> (t1, None)))"

definition NewService_keys :: "string + string \<Rightarrow> string option \<Rightarrow> 'st agentChecker option \<Rightarrow> treefs \<Rightarrow> treefs \<times> (string + 'st keyService)"
where
  "NewService_keys home dir chk t =
     (case home of
        Inl e \<Rightarrow> (t, Inl (''failed to get home directory: '' @ e))
      | Inr homeDir \<Rightarrow>
          (let s = \<lparr>ks_sshDir = (case dir of None \<Rightarrow> path_join [homeDir, ''.ssh''] | Some d \<Rightarrow> d), ks_agentChecker = chk\<rparr> in
           case t_mkdir_all (ks_sshDir s) t of
             (t1, Some e) \<Rightarrow> (t1, Inl (''failed to create .ssh directory: '' @ ioerr_msg e))
           | (t1, None) \<Rightarrow> (t1, Inr s)))"

section \<open>The watcher\<close>

text \<open>
  The first listing of \<open>watchLoop\<close> is that of the polling watchers (\<open>poll_init\<close>); the debounced
  \<open>sendUpdate\<close> broadcasts also the errors of later listings.
\<close>

definition sendUpdate ::
    "string + Key list \<Rightarrow> Key list \<times> (string, Key list) update hub \<Rightarrow> Key list \<times> (string, Key list) update hub" where
  "sendUpdate res pb =
     (case pb of (prevKeys, b) \<Rightarrow>
      case res of
        Inl e \<Rightarrow> (prevKeys, Broadcast (UErr e) b)
      | Inr currentKeys \<Rightarrow>
          if \<not> entries_equal prevKeys currentKeys then (currentKeys, Broadcast (UVal currentKeys) b) else (prevKeys, b))"

text \<open>A file system event starts the debounce timer unless its name, a path, is skipped.\<close>

definition event_wakes :: "string \<Rightarrow> bool" where
  "event_wakes event_name \<longleftrightarrow> \<not> shouldSkipFile event_name"

section \<open>Facts about the file operations\<close>

lemma t_remove_file:
  assumes "look t p = Some (File c m)" and "\<not> refuse t (CRemove p)"
  shows "look (fst (t_remove p t)) q = (if q = p then None else look t q)"
  using assms by (simp add: t_remove_def)

lemma t_remove_other: "q \<noteq> p \<Longrightarrow> look (fst (t_remove p t)) q = look t q"
  by (auto simp: t_remove_def split: option.splits)

lemma remove_if_there_ok:
  assumes "remove_if_there p t = (t', None)"
  shows "look t' q = (if q = p then None else look t q)"
  using assms by (auto simp: remove_if_there_def t_remove_def split: prod.splits option.splits ioerr.splits if_splits)

lemma pub_differs [simp]: "path @ ''.pub'' \<noteq> path" "path \<noteq> path @ ''.pub''"
  by (simp_all add: append_eq_conv_conj)

section \<open>Generating\<close>

definition pair_written :: "('priv, 'pk) key_lib \<Rightarrow> GenerateOptions \<Rightarrow> string \<Rightarrow> treefs \<Rightarrow> treefs \<Rightarrow> 'pk \<Rightarrow> bool" where
  "pair_written kl opts path t t' pk \<longleftrightarrow>
     (\<exists>priv pem. new_private_key kl (go_Type opts) (go_Bits opts) = Inr priv
       \<and> marshal_private kl priv (go_Comment opts) (go_Passphrase opts) = Inr pem \<and> kl_public kl priv = Inr pk
       \<and> look t' path = Some (File pem (case look t path of Some (File c m) \<Rightarrow> m | _ \<Rightarrow> 384))
       \<and> look t' (path @ ''.pub'') = Some (File (public_key_line kl pk (go_Comment opts))
           (case look t (path @ ''.pub'') of Some (File c m) \<Rightarrow> m | _ \<Rightarrow> 420)))"

lemma GenerateKeyPair_frame:
  assumes "GenerateKeyPair kl opts path t = (t', err)" and "q \<noteq> path" and "q \<noteq> path @ ''.pub''"
  shows "look t' q = look t q"
  using assms t_write_file_ok t_write_file_err t_remove_other
  by (auto simp: GenerateKeyPair_def split: sum.splits prod.splits option.splits; metis fst_conv)

lemma GenerateKeyPair_ok:
  assumes "GenerateKeyPair kl opts path t = (t', None)"
  shows "\<exists>pk. pair_written kl opts path t t' pk"
proof -
  from assms obtain priv where priv: "new_private_key kl (go_Type opts) (go_Bits opts) = Inr priv"
    by (auto simp: GenerateKeyPair_def split: sum.splits)
  with assms obtain pem where pem: "marshal_private kl priv (go_Comment opts) (go_Passphrase opts) = Inr pem"
    by (auto simp: GenerateKeyPair_def split: sum.splits)
  with assms priv obtain t1 where t1: "t_write_file path pem 384 t = (t1, None)"
    by (auto simp: GenerateKeyPair_def split: prod.splits option.splits)
  with assms priv pem obtain pk where pk: "kl_public kl priv = Inr pk"
    by (auto simp: GenerateKeyPair_def split: sum.splits)
  with assms priv pem t1
  have t2: "t_write_file (path @ ''.pub'') (public_key_line kl pk (go_Comment opts)) 420 t1 = (t', None)"
    by (auto simp: GenerateKeyPair_def split: prod.splits option.splits)
  show ?thesis
    unfolding pair_written_def using priv pem pk t_write_file_ok(1) [OF t1] t_write_file_ok(1) [OF t2] by auto
qed

lemma GenerateKeyPair_err:
  assumes run: "GenerateKeyPair kl opts path t = (t', Some e)" and new: "look t path = None"
    and rm: "\<not> refuse t (CRemove path)"
  shows "look t' path = None \<or> refuse t (CWrite path)"
proof -
  consider "t' = t" | pem t1 e1 where "t_write_file path pem 384 t = (t1, Some e1)" "t' = t1"
    | pem t1 where "t_write_file path pem 384 t = (t1, None)" "t' = fst (t_remove path t1)"
    | pem t1 line t2 e2 where "t_write_file path pem 384 t = (t1, None)" "t_write_file (path @ ''.pub'') line 420 t1 = (t2, Some e2)"
        "t' = fst (t_remove path t2)"
    using run by (auto simp: GenerateKeyPair_def split: sum.splits prod.splits option.splits)
  then show ?thesis
  proof cases
    case 1
    then show ?thesis using new by simp
  next
    case 2
    then show ?thesis using new t_write_file_err(3) [OF 2(1)] by auto
  next
    case 3
    have "look t1 path = Some (File pem 384)" "\<not> refuse t1 (CRemove path)"
      using t_write_file_ok [OF 3(1)] new rm by simp_all
    from t_remove_file [OF this] show ?thesis using 3(2) by simp
  next
    case 4
    have "look t2 path = Some (File pem 384)" "\<not> refuse t2 (CRemove path)"
      using t_write_file_ok [OF 4(1)] t_write_file_err [OF 4(2)] new rm by simp_all
    from t_remove_file [OF this] show ?thesis using 4(3) by simp
  qed
qed

lemma GenerateKeyPair_refuse:
  assumes "GenerateKeyPair kl opts path t = (t', err)"
  shows "refuse t' = refuse t"
  using assms t_write_file_ok(2) t_write_file_err(2)
  by (auto simp: GenerateKeyPair_def split: sum.splits prod.splits option.splits)

text \<open>A valid key name has no slash, so it is relative.\<close>

lemma validateKeyName_relative:
  assumes "validateKeyName name = None"
  shows "\<not> path_rooted name" and "name \<noteq> []" and "slash \<notin> set name"
proof -
  have "name \<noteq> []" and no: "\<not> contains name ''/''" using assms by (auto simp: validateKeyName_def split: if_splits)
  show "slash \<notin> set name"
  proof
    assume "slash \<in> set name"
    then obtain a b where "name = a @ ''/'' @ b" by (auto dest: split_list)
    with no show False by (auto simp: contains_iff)
  qed
  then show "\<not> path_rooted name" by (auto simp: path_rooted_def has_prefix_iff)
  show "name \<noteq> []" by fact
qed

lemma read_written: "look t p = Some (File c m) \<Longrightarrow> \<not> refuse t (CRead p) \<Longrightarrow> t_read_file p t = Inr c"
  by (simp add: t_read_file_def)

text \<open>What \<open>load\<close> makes of a pair of files.\<close>

lemma load_key_pair:
  assumes name: "\<not> path_rooted name" and path: "path = path_join [ks_sshDir s, name]"
    and files: "look t path = Some (File pem m)" "look t (path @ ''.pub'') = Some (File line m')"
    and free: "\<not> refuse t (CRead path)" "\<not> refuse t (CRead (path @ ''.pub''))" "\<not> refuse t (CStat path)"
      "\<not> refuse t (CStat (path @ ''.pub''))"
    and pk: "kl_parse_authorized kl line = Inr pk" "kl_crypto kl pk \<noteq> None" and words: "2 \<le> length (str_fields line)"
    and enc: "checkHasPassphrase pem = Some enc"
  shows "\<exists>key. load_key kl mtime s name t st = Some (Inr key) \<and> key_Name key = name \<and> key_PrivateKeyPath key = path
    \<and> key_FingerprintSHA256 key = kl_fp_sha256 kl pk \<and> key_HasPassphrase key = enc
    \<and> key_PublicKey key = trim_space line \<and> key_InAgent key = isKeyInAgent_ks s (kl_fp_sha256 kl pk) st"
proof -
  note pub = read_written [OF files(2) free(2)] and priv = read_written [OF files(1) free(1)]
  have "t_stat (path @ ''.pub'') t = None" using files(2) free(4) by (simp add: t_stat_def)
  then have fp: "Fingerprint_ks kl s name ''sha256'' t = Inr (kl_fp_sha256 kl pk)"
    using name pub pk(1) by (simp add: Fingerprint_ks_def CalculateFingerprint_def path [symmetric])
  have pass: "file_has_passphrase path t = Some enc" using priv enc by (simp add: file_has_passphrase_def)
  obtain c where c: "kl_crypto kl pk = Some c" using pk(2) by auto
  obtain bits where bits: "getKeyBits_ks kl (path @ ''.pub'') t = Some bits"
    using pub pk(1) c by (cases c) (simp_all add: getKeyBits_ks_def GetKeyBits_def)
  show ?thesis
    using name words by (simp add: load_key_def path [symmetric] pub fp pass bits Let_def)
qed


section \<open>Deleting\<close>

lemma Delete_key_files:
  assumes run: "Delete_key kl s name t st = (t', st', None)"
  shows "\<exists>path. key_path_of s name = Inr path \<and>
    (\<forall>q. look t' q = (if q = path \<or> q = path @ ''.pub'' then None else look t q))"
proof -
  obtain path where path: "key_path_of s name = Inr path"
    using run by (auto simp: Delete_key_def split: sum.splits)
  obtain t1 where t1: "remove_if_there path t = (t1, None)" and t2: "remove_if_there (path @ ''.pub'') t1 = (t', None)"
    using run path by (auto simp: Delete_key_def Let_def split: prod.splits option.splits)
  show ?thesis
    using path remove_if_there_ok [OF t1] remove_if_there_ok [OF t2] by auto
qed

lemma Delete_key_state:
  assumes "Delete_key kl s name t st = (t', st', err)" and "key_path_of s name = Inr path"
  shows "st' = remove_from_agent s (Fingerprint_ks kl s name ''sha256'' t) st"
  using assms by (auto simp: Delete_key_def Let_def split: prod.splits option.splits)

context agent_checker begin

text \<open>
  With an agent that keeps the interface, deleting takes the key of the public key file out of the
  agent and leaves the other keys loaded, whatever becomes of the files.
\<close>

lemma delete_unloads:
  assumes ready: "ready st" and fps: "list_fps st = Inr fps"
    and chk: "ks_agentChecker s = Some \<lparr>chk_list = list_fps, chk_remove = remove_fp\<rparr>"
    and path: "key_path_of s name = Inr path"
    and fp: "Fingerprint_ks kl s name ''sha256'' t = Inr fp" "fp \<noteq> []"
    and run: "Delete_key kl s name t st = (t', st', err)"
  shows "ready st' \<and> (\<exists>fps'. list_fps st' = Inr fps' \<and> set fps' = set fps - {fp})"
proof -
  have st': "st' = fst (remove_fp fp st)"
    using Delete_key_state [OF run path] fp chk by (simp add: remove_from_agent_def)
  have "remove_fp fp st = (st', None)"
    using remove_total [OF ready fps, of fp] by (simp add: st' prod_eq_iff)
  then show ?thesis using list_remove [OF ready fps] ready_remove [OF ready, of fp] by (auto simp: st')
qed

lemma deleted_not_in_agent:
  assumes "ready st" "list_fps st = Inr fps" "ks_agentChecker s = Some \<lparr>chk_list = list_fps, chk_remove = remove_fp\<rparr>"
    "key_path_of s name = Inr path" "Fingerprint_ks kl s name ''sha256'' t = Inr fp" "fp \<noteq> []"
    "Delete_key kl s name t st = (t', st', err)"
  shows "\<not> isKeyInAgent_ks s fp st'"
    and "g \<noteq> fp \<Longrightarrow> isKeyInAgent_ks s g st' = isKeyInAgent_ks s g st"
proof -
  from delete_unloads [OF assms] obtain fps' where "list_fps st' = Inr fps'" "set fps' = set fps - {fp}" by blast
  then have after: "isKeyInAgent_ks s g st' \<longleftrightarrow> g \<noteq> [] \<and> g \<noteq> ''unknown'' \<and> g \<in> set fps - {fp}" for g
    using assms(3) by (simp add: isKeyInAgent_ks_def)
  have before: "isKeyInAgent_ks s g st \<longleftrightarrow> g \<noteq> [] \<and> g \<noteq> ''unknown'' \<and> g \<in> set fps" for g
    using assms(2,3) by (simp add: isKeyInAgent_ks_def)
  show "\<not> isKeyInAgent_ks s fp st'" unfolding after by simp
  show "g \<noteq> fp \<Longrightarrow> isKeyInAgent_ks s g st' = isKeyInAgent_ks s g st" unfolding after before by simp
qed

end

text \<open>The managed agent as the key service sees it, through the socket.\<close>

definition managed_checker ::
    "(string \<Rightarrow> string) \<Rightarrow> ('priv, 'sg, managed_key_info, 'sig) crypto \<Rightarrow> int \<Rightarrow> string \<Rightarrow> 'sg managedAgent agentChecker" where
  "managed_checker h cr now p =
     \<lparr>chk_list = ListLoadedFingerprints h (managed_client h cr now) socket_here (service_at p),
      chk_remove = RemoveKeyByFingerprint_svc h (managed_client h cr now) socket_here (service_at p)\<rparr>"

text \<open>
  C12. Deleting a key with the managed agent unlocked, after any run of it.  Success means that both
  files are gone, that every other file is as it was, and, when the public key could be read, that its
  fingerprint is no longer loaded while every other key of the agent still is.  The key leaves the agent also
  when removing a file fails.
\<close>

theorem delete_key:
  fixes cr :: "('priv, 'sg, managed_key_info, 'sig) crypto" and s :: "'sg managedAgent keyService"
  assumes m: "m = fst (agent_run (wire_crypto h cr) reqs (NewManagedAgent sock))" and unlocked: "\<not> ag_locked m"
    and chk: "ks_agentChecker s = Some (managed_checker h cr now p)"
    and run: "Delete_key kl s name t m = (t', m', err)" and path: "key_path_of s name = Inr path"
  shows "(err = None \<longrightarrow> (\<forall>q. look t' q = (if q = path \<or> q = path @ ''.pub'' then None else look t q)))
    \<and> (case Fingerprint_ks kl s name ''sha256'' t of
         Inl e \<Rightarrow> m' = m
       | Inr fp \<Rightarrow> fp \<noteq> [] \<longrightarrow> \<not> isKeyInAgent_ks s fp m'
           \<and> (\<forall>g. g \<noteq> fp \<longrightarrow> isKeyInAgent_ks s g m' = isKeyInAgent_ks s g m))"
proof (intro conjI impI)
  show "\<forall>q. look t' q = (if q = path \<or> q = path @ ''.pub'' then None else look t q)" if "err = None"
    using Delete_key_files [OF run [unfolded that]] path by auto
  have inv: "agent_inv (wire_crypto h cr) m" unfolding m by (intro agent_inv_run agent_inv_new)
  note loaded = list_fps_eq [OF inv unlocked, of now p]
  show "case Fingerprint_ks kl s name ''sha256'' t of
      Inl e \<Rightarrow> m' = m
    | Inr fp \<Rightarrow> fp \<noteq> [] \<longrightarrow> \<not> isKeyInAgent_ks s fp m'
        \<and> (\<forall>g. g \<noteq> fp \<longrightarrow> isKeyInAgent_ks s g m' = isKeyInAgent_ks s g m)"
  proof (cases "Fingerprint_ks kl s name ''sha256'' t")
    case (Inl e)
    then show ?thesis using Delete_key_state [OF run path] by (simp add: remove_from_agent_def)
  next
    case (Inr fp)
    then show ?thesis
      using svc.deleted_not_in_agent [OF inv loaded chk [unfolded managed_checker_def] path Inr _ run] by simp
  qed
qed

section \<open>Changing the passphrase\<close>

text \<open>\<open>pem\<close> is a private key file that opens with \<open>pass\<close>, the empty passphrase standing for none.\<close>

definition opens_with :: "('priv, 'pk) key_lib \<Rightarrow> string \<Rightarrow> string \<Rightarrow> 'priv \<Rightarrow> bool" where
  "opens_with kl pem pass k \<longleftrightarrow> (if pass \<noteq> [] then kl_parse_encrypted kl pem pass else kl_parse kl pem) = Inr k"

text \<open>
  C14. Changing the passphrase of a key, when the library reads back the private keys it writes.
  Success means that the old passphrase was the right one and that the file now holds the same key
  under the new one, with the mode it had.  No other file changes.  A failure leaves the file as it was,
  unless the write itself fails: then all that is left of the only copy of the key is the part that was
  written.
\<close>

theorem change_passphrase:
  fixes kl :: "('priv, 'pk) key_lib"
  assumes path: "key_path_of s name = Inr path" and run: "ChangePassphrase kl s name old new t = (t', err)"
    and lib: "\<And>k pem. marshal_private kl k [] new = Inr pem \<Longrightarrow> opens_with kl pem new k"
  shows "(\<forall>q. q \<noteq> path \<longrightarrow> look t' q = look t q)
    \<and> (case err of
         None \<Rightarrow> \<exists>k pem pem' mode. look t path = Some (File pem mode) \<and> opens_with kl pem old k
           \<and> look t' path = Some (File pem' mode) \<and> opens_with kl pem' new k
       | Some e \<Rightarrow> t' = t \<or> (refuse t (CWrite path) \<and> (\<exists>pem pem' mode. look t path = Some (File pem mode)
           \<and> look t' path = Some (File (take (short t path) pem') mode))))"
proof (cases "ChangePassphrase_gen kl path old new t")
  case (Pair t1 e1)
  with run path have t': "t' = t1" "err = map_option (\<lambda>e. ''failed to change passphrase: '' @ e) e1"
    by (auto simp: ChangePassphrase_def split: option.splits)
  show ?thesis
  proof (cases "t1 = t \<and> e1 \<noteq> None")
    case True
    with t' show ?thesis by auto
  next
    case False
    with Pair obtain pem k pem' where pem: "t_read_file path t = Inr pem"
        and k: "(if old \<noteq> [] then kl_parse_encrypted kl pem old else kl_parse kl pem) = Inr k"
        and pem': "marshal_private kl k [] new = Inr pem'"
      by (auto simp: ChangePassphrase_gen_def split: sum.splits)
    obtain e2 where wr: "t_write_file path pem' 384 t = (t1, e2)" and e1: "e1 = map_option (\<lambda>e. ''failed to write private key: '' @ ioerr_msg e) e2"
      using Pair pem k pem' by (auto simp: ChangePassphrase_gen_def split: prod.splits option.splits)
    obtain mode where there: "look t path = Some (File pem mode)"
      using pem by (auto simp: t_read_file_def split: option.splits node.splits if_splits)
    show ?thesis
    proof (cases e2)
      case None
      then have "look t1 q = (if q = path then Some (File pem' mode) else look t q)" for q
        using t_write_file_ok(1) [OF wr [unfolded None]] there by simp
      then show ?thesis using t' e1 None there k lib [OF pem'] by (auto simp: opens_with_def)
    next
      case (Some e)
      note fails = t_write_file_err [OF wr [unfolded Some]]
      show ?thesis using t' e1 Some fails(1,3) there by auto
    qed
  qed
qed

section \<open>Listing\<close>

lemma path_join_name:
  assumes "clean_dir d" and "plain_elem n"
  shows "path_join [d, n] = d @ slash # n"
proof -
  have n: "n \<noteq> []" "slash \<notin> set n" "n \<noteq> ''.''" "n \<noteq> ''..''" using assms(2) by (simp_all add: plain_elem_def)
  then have "path_join [d, n] = path_of (path_elems d @ [n])"
    using path_join_dir [OF assms(1) n(1)] by (simp add: split_on_none)
  also have "\<dots> = d @ slash # n"
    using path_of_append [OF clean_dirD(3) [OF assms(1)], of "[n]"] clean_dirD(1) [OF assms(1)]
    by (simp add: path_of_def)
  finally show ?thesis .
qed

lemma plain_name: "n \<noteq> [] \<Longrightarrow> slash \<notin> set n \<Longrightarrow> \<not> has_prefix n ''.'' \<Longrightarrow> plain_elem n"
  by (auto simp: plain_elem_def has_prefix_iff)

text \<open>What \<open>load\<close> needs to find.\<close>

definition loadable :: "string \<Rightarrow> treefs \<Rightarrow> bool" where
  "loadable path t \<longleftrightarrow> (\<exists>c. t_read_file (path @ ''.pub'') t = Inr c \<and> 2 \<le> length (str_fields c))"

lemma load_key_iff:
  assumes "load_key kl mtime s name t st = Some r" and "\<not> path_rooted name"
  shows "(\<exists>key. r = Inr key) \<longleftrightarrow> loadable (path_join [ks_sshDir s, name]) t"
    and "r = Inr key \<Longrightarrow> key_Name key = name"
  using assms
  by (auto simp: load_key_def loadable_def Let_def split: sum.splits option.splits if_splits)

lemma loadable_stat: "loadable path t \<Longrightarrow> t_stat (path @ ''.pub'') t \<noteq> Some NotExist"
  by (auto simp: loadable_def t_read_file_def t_stat_def split: option.splits)

lemma path_join_pub:
  assumes "clean_dir d" and "plain_elem n"
  shows "path_join [d, n @ ''.pub''] = path_join [d, n] @ ''.pub''"
proof -
  have "plain_elem (n @ ''.pub'')" using assms(2) by (auto simp: plain_elem_def append_eq_Cons_conv)
  then show ?thesis using assms by (simp add: path_join_name)
qed

definition eligible :: "'st keyService \<Rightarrow> treefs \<Rightarrow> string \<times> bool \<Rightarrow> bool" where
  "eligible s t e \<longleftrightarrow> \<not> snd e \<and> \<not> shouldSkipFile (fst e) \<and> loadable (path_join [ks_sshDir s, fst e]) t"

lemma list_keys_names:
  assumes "list_keys kl mtime s t st seen es = Some keys" and "distinct (map fst es)" and "set seen \<inter> fst ` set es = {}"
    and "clean_dir (ks_sshDir s)" and "\<forall>e \<in> set es. fst e \<noteq> [] \<and> slash \<notin> set (fst e)"
  shows "map key_Name keys = map fst (filter (eligible s t) es)"
  using assms
proof (induction es arbitrary: seen keys)
  case (Cons e es)
  obtain name isdir where e: "e = (name, isdir)" by (cases e)
  note IH = Cons.IH [OF _ _ _ Cons.prems(4)]
  have rest: "distinct (map fst es)" "set seen \<inter> fst ` set es = {}" "set (name # seen) \<inter> fst ` set es = {}"
      "name \<notin> set seen" "\<forall>e \<in> set es. fst e \<noteq> [] \<and> slash \<notin> set (fst e)" "name \<noteq> []" "slash \<notin> set name"
    using Cons.prems(2,3,5) by (auto simp: e)
  show ?case
  proof (cases "isdir \<or> shouldSkipFile name")
    case True
    then show ?thesis using Cons.prems(1) IH [OF _ rest(1,2,5)] by (auto simp: e eligible_def)
  next
    case False
    then have plain: "plain_elem name" using rest(6,7) by (intro plain_name) (auto simp: shouldSkipFile_def)
    note pub = path_join_pub [OF Cons.prems(4) plain]
    have rel: "\<not> path_rooted name" using rest(7) by (auto simp: path_rooted_def has_prefix_iff)
    show ?thesis
    proof (cases "t_stat (path_join [ks_sshDir s, name] @ ''.pub'') t = Some NotExist")
      case True
      with False loadable_stat have "\<not> eligible s t e" by (auto simp: e eligible_def)
      then show ?thesis using Cons.prems(1) IH [OF _ rest(1,2,5)] True False by (simp add: e pub)
    next
      case stat: False
      obtain r where r: "load_key kl mtime s name t st = Some r"
        using Cons.prems(1) False stat rest(4) by (auto simp: e pub split: option.splits)
      note iff = load_key_iff [OF r rel]
      show ?thesis
      proof (cases r)
        case (Inl err)
        with iff(1) have "\<not> eligible s t e" by (simp add: e eligible_def)
        moreover have "list_keys kl mtime s t st (name # seen) es = Some keys"
          using Cons.prems(1) False stat rest(4) r Inl by (simp add: e pub)
        ultimately show ?thesis using IH [OF _ rest(1,3,5)] by simp
      next
        case (Inr key)
        with iff False have "eligible s t e" "key_Name key = name" by (auto simp: e eligible_def)
        moreover obtain ks where "list_keys kl mtime s t st (name # seen) es = Some ks" "keys = key # ks"
          using Cons.prems(1) False stat rest(4) r Inr by (auto simp: e pub)
        ultimately show ?thesis using IH [OF _ rest(1,3,5)] by (simp add: e)
      qed
    qed
  qed
qed simp

text \<open>
  C15. The list of keys of a readable directory names, in order and once each, exactly the files that
  are not directories, not excluded by name, and have beside them a readable public key file with at least two
  words; one that cannot be loaded does not stop the others.
\<close>

theorem listed_keys:
  assumes run: "List_keys kl mtime s t st = Some (Inr keys)" and dir: "clean_dir (ks_sshDir s)"
  shows "sorted (map key_Name keys) \<and> distinct (map key_Name keys)
    \<and> (\<forall>name. name \<in> key_Name ` set keys \<longleftrightarrow> name \<noteq> [] \<and> slash \<notin> set name
        \<and> (\<exists>c m. look t (ks_sshDir s @ slash # name) = Some (File c m)) \<and> \<not> shouldSkipFile name
        \<and> loadable (ks_sshDir s @ slash # name) t)"
proof -
  let ?d = "ks_sshDir s"
  let ?es = "map (\<lambda>n. (n, is_dir t (?d @ slash # n))) (dir_names ?d t)"
  have run': "list_keys kl mtime s t st [] ?es = Some keys"
    using run by (auto simp: List_keys_def t_read_dir_def split: sum.splits option.splits if_splits)
  have fst: "map fst ?es = dir_names ?d t" by (simp add: comp_def)
  have "\<forall>e \<in> set ?es. fst e \<noteq> [] \<and> slash \<notin> set (fst e)" by (auto simp: dir_names_iff)
  note names = list_keys_names [OF run' _ _ dir this, unfolded fst, OF dir_names_sorted(2)]
  have eq: "map key_Name keys = map fst (filter (eligible s t) ?es)" by (rule names) simp
  also have "\<dots> = filter (\<lambda>n. eligible s t (n, is_dir t (?d @ slash # n))) (dir_names ?d t)"
    by (simp add: filter_map comp_def)
  finally have eq': "map key_Name keys = filter (\<lambda>n. eligible s t (n, is_dir t (?d @ slash # n))) (dir_names ?d t)" .
  have iff: "name \<in> key_Name ` set keys \<longleftrightarrow> name \<noteq> [] \<and> slash \<notin> set name
      \<and> (\<exists>c m. look t (?d @ slash # name) = Some (File c m)) \<and> \<not> shouldSkipFile name
      \<and> loadable (?d @ slash # name) t" for name
  proof -
    have "name \<in> key_Name ` set keys \<longleftrightarrow> name \<in> set (dir_names ?d t) \<and> eligible s t (name, is_dir t (?d @ slash # name))"
      unfolding set_map [symmetric] eq' by auto
    moreover have "plain_elem name" if "name \<noteq> []" "slash \<notin> set name" "\<not> shouldSkipFile name"
      using that by (intro plain_name) (auto simp: shouldSkipFile_def)
    moreover have "look t p \<noteq> None \<and> \<not> is_dir t p \<longleftrightarrow> (\<exists>c m. look t p = Some (File c m))" for p
      by (auto simp: is_dir_def) (metis node.exhaust)
    ultimately show ?thesis
      using path_join_name [OF dir] unfolding dir_names_iff eligible_def fst_conv snd_conv by metis
  qed
  have "sorted (map key_Name keys)" "distinct (map key_Name keys)"
    unfolding eq' using dir_names_sorted by (simp_all add: sorted_wrt_filter)
  with iff show ?thesis by blast
qed

section \<open>Witnesses\<close>

text \<open>A library with two keys, whose encrypted files start with the passphrase.\<close>

definition demo_lib :: "(bool, bool) key_lib" where
  "demo_lib = \<lparr>kl_ed25519 = Inr True, kl_ecdsa_p256 = Inr False, kl_rsa = (\<lambda>_. Inl ''no''),
     kl_marshal = (\<lambda>k c. Inr (if k then ''PLAIN 1'' else ''PLAIN 0'')),
     kl_marshal_encrypted = (\<lambda>k c p. Inr (''ENCRYPTED'' @ (if k then CHR ''1'' else CHR ''0'') # p)),
     kl_parse = (\<lambda>f. if f = ''PLAIN 1'' then Inr True else if f = ''PLAIN 0'' then Inr False else Inl ''encrypted''),
     kl_parse_encrypted = (\<lambda>f p. if f = ''ENCRYPTED1'' @ p then Inr True else if f = ''ENCRYPTED0'' @ p then Inr False
        else Inl ''wrong passphrase''),
     kl_public = Inr,
     kl_authorized_line = (\<lambda>k. if k then ''ssh-ed25519 AAAA'' @ [newline] else ''ssh-ed25519 BBBB'' @ [newline]),
     kl_parse_authorized = (\<lambda>l. Inr (contains l ''AAAA'')),
     kl_fp_sha256 = (\<lambda>k. if k then ''fpA'' else ''fpB''), kl_fp_md5 = (\<lambda>_. ''md5''), kl_type = (\<lambda>_. ''ssh-ed25519''),
     kl_crypto = (\<lambda>_. Some ED25519Key)\<rparr>"

definition demo_opts :: GenerateOptions where
  "demo_opts = \<lparr>go_Name = ''id'', go_Type = [], go_Bits = 0, go_Comment = ''me'', go_Passphrase = ''pw''\<rparr>"

definition demo_ks :: "unit keyService" where
  "demo_ks = \<lparr>ks_sshDir = ''/s'', ks_agentChecker = None\<rparr>"

definition demo_tree :: treefs where
  "demo_tree = \<lparr>nodes = [(''/s'', Dir)], refuse = (\<lambda>_. False), spare = (\<lambda>_. False), short = (\<lambda>_. 0)\<rparr>"

lemma demo_key_path: "path_join [ks_sshDir demo_ks, ''id''] = ''/s/id''"
  by (simp add: demo_ks_def) code_simp

definition demo_pair :: treefs where
  "demo_pair = demo_tree\<lparr>nodes := [(''/s/id'', File ''ENCRYPTED1pw'' 384),
     (''/s/id.pub'', File (''ssh-ed25519 AAAA me'' @ [newline]) 420), (''/s'', Dir), (''/s/x'', File ''other'' 420)]\<rparr>"

lemma demo_generate: "\<exists>key. snd (Generate demo_lib (\<lambda>_. 7) demo_ks demo_opts demo_tree ()) = Some (Inr key)
    \<and> key_HasPassphrase key"
proof -
  have "(case snd (Generate demo_lib (\<lambda>_. 7) demo_ks demo_opts demo_tree ()) of Some (Inr key) \<Rightarrow> key_HasPassphrase key | _ \<Rightarrow> False)"
    by code_simp
  then show ?thesis by (auto split: option.splits sum.splits)
qed


theorem change_passphrase_witness:
  "\<exists>t' pem. ChangePassphrase demo_lib demo_ks ''id'' ''pw'' ''new'' demo_pair = (t', None)
    \<and> look t' ''/s/id'' = Some (File pem 384) \<and> (\<exists>k. opens_with demo_lib pem ''new'' k) \<and> look t' ''/s/x'' = Some (File ''other'' 420)"
proof -
  obtain t' err where run: "ChangePassphrase demo_lib demo_ks ''id'' ''pw'' ''new'' demo_pair = (t', err)" by fastforce
  have "snd (ChangePassphrase demo_lib demo_ks ''id'' ''pw'' ''new'' demo_pair) = None" by code_simp
  then have err: "err = None" using run by simp
  have path: "key_path_of demo_ks ''id'' = Inr ''/s/id''" by (simp add: demo_ks_def) code_simp
  have lib: "opens_with demo_lib pem ''new'' k" if "marshal_private demo_lib k [] ''new'' = Inr pem" for k pem
    using that by (cases k) (auto simp: marshal_private_def opens_with_def demo_lib_def)
  have old: "look demo_pair ''/s/id'' = Some (File ''ENCRYPTED1pw'' 384)" "look demo_pair ''/s/x'' = Some (File ''other'' 420)"
    by (simp_all add: demo_pair_def look_def)
  from change_passphrase [OF path run lib] show ?thesis
    using run unfolding err by (auto simp: old)
qed

theorem listed_keys_witness:
  "\<exists>keys. List_keys demo_lib (\<lambda>_. 7) demo_ks demo_pair () = Some (Inr keys) \<and> key_Name ` set keys = {''id''}"
proof -
  have "(case List_keys demo_lib (\<lambda>_. 7) demo_ks demo_pair () of Some (Inr keys) \<Rightarrow> map key_Name keys = [''id''] | _ \<Rightarrow> False)"
    by code_simp
  then obtain keys where keys: "List_keys demo_lib (\<lambda>_. 7) demo_ks demo_pair () = Some (Inr keys)" "map key_Name keys = [''id'']"
    by (auto split: option.splits sum.splits)
  have "clean_dir ''/s''" by code_simp
  then have dir: "clean_dir (ks_sshDir demo_ks)" by (simp add: demo_ks_def)
  note iff = listed_keys [OF keys(1) dir]
  have "key_Name ` set keys = {''id''}" using keys(2) by (metis list.set_map list.set(1,2))
  with keys(1) show ?thesis using iff by blast
qed

theorem delete_key_witness:
  "\<exists>m' t'. Delete_key demo_lib \<lparr>ks_sshDir = ''/s'', ks_agentChecker = Some (managed_checker id demo_wire 1 ''s'')\<rparr> ''id''
      demo_pair (fst (agent_run (wire_crypto id demo_wire) [(0, RAdd ''fpA'' [] 0 False), (0, RAdd ''b'' [] 0 False)]
        (NewManagedAgent ''/m''))) = (t', m', None)
    \<and> look t' ''/s/id'' = None \<and> look t' ''/s/x'' = Some (File ''other'' 420)
    \<and> \<not> isKeyInAgent_ks \<lparr>ks_sshDir = ''/s'', ks_agentChecker = Some (managed_checker id demo_wire 1 ''s'')\<rparr> ''fpA'' m'"
proof -
  let ?m = "fst (agent_run (wire_crypto id demo_wire) [(0, RAdd ''fpA'' [] 0 False), (0, RAdd ''b'' [] 0 False)]
        (NewManagedAgent ''/m''))"
  let ?s = "\<lparr>ks_sshDir = ''/s'', ks_agentChecker = Some (managed_checker id demo_wire 1 ''s'')\<rparr>"
  obtain t' m' err where run: "Delete_key demo_lib ?s ''id'' demo_pair ?m = (t', m', err)" by (metis prod_cases3)
  have unlocked: "\<not> ag_locked ?m"
    by (simp add: serve_def Add_agent_def wire_crypto_def demo_wire_def NewManagedAgent_def Let_def)
  have path: "key_path_of ?s ''id'' = Inr ''/s/id''" by (simp add: key_path_of_def) code_simp
  have fp: "Fingerprint_ks demo_lib ?s ''id'' ''sha256'' demo_pair = Inr ''fpA''"
    by (simp add: Fingerprint_ks_def) code_simp
  have gone: "snd (remove_if_there ''/s/id'' demo_pair) = None"
     "snd (remove_if_there ''/s/id.pub'' (fst (remove_if_there ''/s/id'' demo_pair))) = None"
    by code_simp+
  have err: "err = None"
    using run path gone by (auto simp: Delete_key_def Let_def split: prod.splits option.splits)
  have x: "look demo_pair ''/s/x'' = Some (File ''other'' 420)" by (simp add: demo_pair_def look_def)
  from delete_key [OF refl unlocked _ run path] show ?thesis
    using run unfolding err fp by (simp add: x)
qed

end
