(* ===== verification/ClientConfig.thy ===== *)
theory ClientConfig
  imports TreeFS "HOL-Library.AList"
begin

text \<open>
  The user's \<open>~/.ssh/config\<close>: \<open>ClientConfig\<close> in \<open>config/client.go\<close>.

  The file is parsed, patched and written by the library \<open>sshconf\<close>, which is not part of the
  repository: the record \<open>sshconf_lib\<close> has the calls that the code makes, on a type \<open>'cfg\<close> of parsed
  files, and SHA-256 (in hexadecimal) is the argument \<open>sha\<close>.  The state is the path and the parsed file
  in memory, beside the file system; every operation returns both, whatever its outcome.  The
  iteration order of \<open>ExtraOptions\<close>, a Go map, is the order of its association list.
\<close>

record cfg_child =
  ch_Key :: string
  ch_Value :: string

record cfg_line =
  li_Key :: string
  li_Value :: string
  li_Comment :: string
  li_Children :: "cfg_child list"

record 'cfg sshconf_lib =
  sc_ParseConfig :: "string \<Rightarrow> 'cfg"
  sc_ParseConfigFile :: "string \<Rightarrow> treefs \<Rightarrow> string + 'cfg"
  sc_Lines :: "'cfg \<Rightarrow> cfg_line list"
  sc_Patch :: "string \<Rightarrow> string \<Rightarrow> 'cfg \<Rightarrow> 'cfg"
  sc_Delete :: "string \<Rightarrow> 'cfg \<Rightarrow> 'cfg"
  sc_WriteFile :: "string \<Rightarrow> 'cfg \<Rightarrow> treefs \<Rightarrow> treefs \<times> string option"

section \<open>Entries\<close>

text \<open>\<open>EntryType\<close> is an integer with two named values.\<close>

definition EntryTypeHost :: int where "EntryTypeHost = 1"
definition EntryTypeMatch :: int where "EntryTypeMatch = 2"

record SSHOptions =
  op_Hostname :: string
  op_User :: string
  op_Port :: int
  op_IdentityFiles :: "string list"
  op_ProxyJump :: string
  op_ProxyCommand :: string
  op_ForwardAgent :: bool
  op_IdentitiesOnly :: bool
  op_StrictHostKeyChecking :: string
  op_ServerAliveInterval :: int
  op_ServerAliveCountMax :: int
  op_Compression :: bool
  op_ExtraOptions :: "(string \<times> string) list"

record SSHConfigEntry =
  ce_ID :: string
  ce_Type :: int
  ce_Position :: int
  ce_Patterns :: "string list"
  ce_Options :: SSHOptions

record HostEntry =
  he_Alias :: string
  he_Hostname :: string
  he_User :: string
  he_Port :: int
  he_IdentityFiles :: "string list"
  he_ProxyJump :: string
  he_ProxyCommand :: string
  he_ForwardAgent :: bool
  he_IdentitiesOnly :: bool
  he_StrictHostKeyChecking :: string
  he_ServerAliveInterval :: int
  he_ServerAliveCountMax :: int
  he_ExtraOptions :: "(string \<times> string) list"
  he_IsPattern :: bool
  he_LineNumber :: int

record 'cfg clientConfig =
  cc_path :: string
  cc_config :: 'cfg

definition zero_options :: SSHOptions where
  "zero_options = \<lparr>op_Hostname = [], op_User = [], op_Port = 0, op_IdentityFiles = [], op_ProxyJump = [],
     op_ProxyCommand = [], op_ForwardAgent = False, op_IdentitiesOnly = False, op_StrictHostKeyChecking = [],
     op_ServerAliveInterval = 0, op_ServerAliveCountMax = 0, op_Compression = False, op_ExtraOptions = []\<rparr>"

definition EntryType_String :: "int \<Rightarrow> string" where
  "EntryType_String t = (if t = EntryTypeHost then ''Host'' else if t = EntryTypeMatch then ''Match'' else ''Unknown'')"

text \<open>The error of \<open>Atoi\<close> is dropped, but its value is kept: a number out of range gives the nearest one.\<close>

definition parseInt :: "string \<Rightarrow> int" where
  "parseInt s = fst (atoi s)"

definition parsePatternString :: "string \<Rightarrow> string list" where
  "parsePatternString s = str_fields s"

definition getEntryHeader :: "SSHConfigEntry \<Rightarrow> string" where
  "getEntryHeader e =
     (if ce_Type e = EntryTypeMatch then ''Match '' @ join '' '' (ce_Patterns e)
      else ''Host '' @ join '' '' (ce_Patterns e))"

definition generateEntryID :: "(string \<Rightarrow> string) \<Rightarrow> SSHConfigEntry \<Rightarrow> string" where
  "generateEntryID sha e = take 12 (sha (itoa (ce_Type e) @ '':'' @ concat (map (\<lambda>p. p @ '':'') (ce_Patterns e))))"

section \<open>Options\<close>

text \<open>One child line, as \<open>extractOptions\<close> reads it.\<close>

definition is_yes :: "string \<Rightarrow> bool" where
  "is_yes v \<longleftrightarrow> to_lower v = ''yes''"

definition set_option :: "cfg_child \<Rightarrow> SSHOptions \<Rightarrow> SSHOptions" where
  "set_option child opts =
     (let key = to_lower (ch_Key child); v = ch_Value child in
      if key = ''hostname'' then opts\<lparr>op_Hostname := v\<rparr>
      else if key = ''user'' then opts\<lparr>op_User := v\<rparr>
      else if key = ''port'' then opts\<lparr>op_Port := parseInt v\<rparr>
      else if key = ''identityfile'' then opts\<lparr>op_IdentityFiles := op_IdentityFiles opts @ [v]\<rparr>
      else if key = ''proxyjump'' then opts\<lparr>op_ProxyJump := v\<rparr>
      else if key = ''proxycommand'' then opts\<lparr>op_ProxyCommand := v\<rparr>
      else if key = ''forwardagent'' then opts\<lparr>op_ForwardAgent := is_yes v\<rparr>
      else if key = ''identitiesonly'' then opts\<lparr>op_IdentitiesOnly := is_yes v\<rparr>
      else if key = ''stricthostkeychecking'' then opts\<lparr>op_StrictHostKeyChecking := v\<rparr>
      else if key = ''serveraliveinterval'' then opts\<lparr>op_ServerAliveInterval := parseInt v\<rparr>
      else if key = ''serveralivecountmax'' then opts\<lparr>op_ServerAliveCountMax := parseInt v\<rparr>
      else if key = ''compression'' then opts\<lparr>op_Compression := is_yes v\<rparr>
      else opts\<lparr>op_ExtraOptions := AList.update (ch_Key child) v (op_ExtraOptions opts)\<rparr>)"

definition extractOptions :: "cfg_child list \<Rightarrow> SSHOptions" where
  "extractOptions children = fold set_option children zero_options"

text \<open>The keys and values that \<open>buildEntryBlock\<close> writes, in its order, and the block.\<close>

definition option_pairs :: "SSHOptions \<Rightarrow> (string \<times> string) list" where
  "option_pairs opts =
     (if op_Hostname opts \<noteq> [] then [(''HostName'', op_Hostname opts)] else []) @
     (if op_User opts \<noteq> [] then [(''User'', op_User opts)] else []) @
     (if op_Port opts \<noteq> 0 \<and> op_Port opts \<noteq> 22 then [(''Port'', itoa (op_Port opts))] else []) @
     map (\<lambda>identity. (''IdentityFile'', identity)) (op_IdentityFiles opts) @
     (if op_ProxyJump opts \<noteq> [] then [(''ProxyJump'', op_ProxyJump opts)] else []) @
     (if op_ProxyCommand opts \<noteq> [] then [(''ProxyCommand'', op_ProxyCommand opts)] else []) @
     (if op_ForwardAgent opts then [(''ForwardAgent'', ''yes'')] else []) @
     (if op_IdentitiesOnly opts then [(''IdentitiesOnly'', ''yes'')] else []) @
     (if op_StrictHostKeyChecking opts \<noteq> [] then [(''StrictHostKeyChecking'', op_StrictHostKeyChecking opts)] else []) @
     (if op_ServerAliveInterval opts > 0 then [(''ServerAliveInterval'', itoa (op_ServerAliveInterval opts))] else []) @
     (if op_ServerAliveCountMax opts > 0 then [(''ServerAliveCountMax'', itoa (op_ServerAliveCountMax opts))] else []) @
     (if op_Compression opts then [(''Compression'', ''yes'')] else []) @
     op_ExtraOptions opts"

definition buildEntryBlock :: "SSHConfigEntry \<Rightarrow> string" where
  "buildEntryBlock e =
     getEntryHeader e @ [newline] @
     concat (map (\<lambda>(k, v). ''    '' @ k @ '' '' @ v @ [newline]) (option_pairs (ce_Options e)))"

definition toHostEntry :: "SSHConfigEntry \<Rightarrow> HostEntry" where
  "toHostEntry e =
     (let alias = (case ce_Patterns e of [] \<Rightarrow> [] | p # ps \<Rightarrow> p); opts = ce_Options e in
      \<lparr>he_Alias = alias, he_Hostname = op_Hostname opts, he_User = op_User opts, he_Port = op_Port opts,
       he_IdentityFiles = op_IdentityFiles opts, he_ProxyJump = op_ProxyJump opts,
       he_ProxyCommand = op_ProxyCommand opts, he_ForwardAgent = op_ForwardAgent opts,
       he_IdentitiesOnly = op_IdentitiesOnly opts, he_StrictHostKeyChecking = op_StrictHostKeyChecking opts,
       he_ServerAliveInterval = op_ServerAliveInterval opts, he_ServerAliveCountMax = op_ServerAliveCountMax opts,
       he_ExtraOptions = op_ExtraOptions opts,
       he_IsPattern = (alias \<noteq> [] \<and> (contains alias ''*'' \<or> contains alias ''?'')), he_LineNumber = ce_Position e\<rparr>)"

definition hostEntryToSSHConfigEntry :: "HostEntry \<Rightarrow> SSHConfigEntry" where
  "hostEntryToSSHConfigEntry h =
     \<lparr>ce_ID = [], ce_Type = EntryTypeHost, ce_Position = 0, ce_Patterns = [he_Alias h],
      ce_Options = \<lparr>op_Hostname = he_Hostname h, op_User = he_User h, op_Port = he_Port h,
        op_IdentityFiles = he_IdentityFiles h, op_ProxyJump = he_ProxyJump h, op_ProxyCommand = he_ProxyCommand h,
        op_ForwardAgent = he_ForwardAgent h, op_IdentitiesOnly = he_IdentitiesOnly h,
        op_StrictHostKeyChecking = he_StrictHostKeyChecking h, op_ServerAliveInterval = he_ServerAliveInterval h,
        op_ServerAliveCountMax = he_ServerAliveCountMax h, op_Compression = False,
        op_ExtraOptions = he_ExtraOptions h\<rparr>\<rparr>"

section \<open>Loading, listing and saving\<close>

definition load_cc :: "'cfg sshconf_lib \<Rightarrow> string \<Rightarrow> treefs \<Rightarrow> string + 'cfg" where
  "load_cc sc path t =
     (if t_stat path t = Some NotExist then Inr (sc_ParseConfig sc [])
      else (case sc_ParseConfigFile sc path t of
          Inl e \<Rightarrow> Inl (''failed to parse config: '' @ e)
        | Inr cfg \<Rightarrow> Inr cfg))"

definition NewClientConfig :: "'cfg sshconf_lib \<Rightarrow> string + string \<Rightarrow> string option \<Rightarrow> treefs \<Rightarrow> string + 'cfg clientConfig" where
  "NewClientConfig sc home configPath t =
     (case home of
        Inl e \<Rightarrow> Inl (''failed to get home directory: '' @ e)
      | Inr homeDir \<Rightarrow>
          (let path = (case configPath of None \<Rightarrow> path_join [homeDir, ''.ssh'', ''config''] | Some p \<Rightarrow> p) in
           case load_cc sc path t of
             Inl e \<Rightarrow> Inl e
           | Inr cfg \<Rightarrow> Inr \<lparr>cc_path = path, cc_config = cfg\<rparr>))"

definition block_line :: "cfg_line \<Rightarrow> bool" where
  "block_line line \<longleftrightarrow> to_lower (li_Key line) = ''host'' \<or> to_lower (li_Key line) = ''match''"

text \<open>The loop of \<open>ListEntries\<close>; a \<open>Host *\<close> block is not listed.\<close>

definition default_block :: "cfg_line \<Rightarrow> bool" where
  "default_block line \<longleftrightarrow> to_lower (li_Key line) \<noteq> ''match'' \<and> parsePatternString (li_Value line) = [''*'']"

definition entry_of :: "(string \<Rightarrow> string) \<Rightarrow> int \<Rightarrow> cfg_line \<Rightarrow> SSHConfigEntry" where
  "entry_of sha position line =
     (let entry = \<lparr>ce_ID = [], ce_Type = (if to_lower (li_Key line) = ''match'' then EntryTypeMatch else EntryTypeHost),
        ce_Position = position, ce_Patterns = parsePatternString (li_Value line),
        ce_Options = extractOptions (li_Children line)\<rparr> in
      entry\<lparr>ce_ID := generateEntryID sha entry\<rparr>)"

fun list_entries :: "(string \<Rightarrow> string) \<Rightarrow> int \<Rightarrow> cfg_line list \<Rightarrow> SSHConfigEntry list" where
  "list_entries sha position [] = []"
| "list_entries sha position (line # lines) =
     (if \<not> block_line line \<or> default_block line then list_entries sha position lines
      else entry_of sha position line # list_entries sha (position + 1) lines)"

definition ListEntries :: "'cfg sshconf_lib \<Rightarrow> (string \<Rightarrow> string) \<Rightarrow> 'cfg clientConfig \<Rightarrow> SSHConfigEntry list" where
  "ListEntries sc sha c = list_entries sha 0 (sc_Lines sc (cc_config c))"

definition List_cc :: "'cfg sshconf_lib \<Rightarrow> (string \<Rightarrow> string) \<Rightarrow> 'cfg clientConfig \<Rightarrow> HostEntry list" where
  "List_cc sc sha c = map toHostEntry (filter (\<lambda>e. ce_Type e = EntryTypeHost) (ListEntries sc sha c))"

definition GetEntry :: "'cfg sshconf_lib \<Rightarrow> (string \<Rightarrow> string) \<Rightarrow> string \<Rightarrow> 'cfg clientConfig \<Rightarrow> string + SSHConfigEntry" where
  "GetEntry sc sha id' c =
     (case find (\<lambda>e. ce_ID e = id') (ListEntries sc sha c) of
        None \<Rightarrow> Inl (''entry not found: '' @ id')
      | Some e \<Rightarrow> Inr e)"

definition Get_cc :: "'cfg sshconf_lib \<Rightarrow> (string \<Rightarrow> string) \<Rightarrow> string \<Rightarrow> 'cfg clientConfig \<Rightarrow> string + HostEntry" where
  "Get_cc sc sha alias c =
     (case find (\<lambda>e. ce_Type e = EntryTypeHost \<and> ce_Patterns e \<noteq> [] \<and> hd (ce_Patterns e) = alias) (ListEntries sc sha c) of
        None \<Rightarrow> Inl (''host not found: '' @ alias)
      | Some e \<Rightarrow> Inr (toHostEntry e))"

definition backup_cc :: "string \<Rightarrow> treefs \<Rightarrow> treefs \<times> ioerr option" where
  "backup_cc path t =
     (if t_stat path t = Some NotExist then (t, None)
      else (case t_read_file path t of
          Inl e \<Rightarrow> (t, Some e)
        | Inr data \<Rightarrow> t_write_file (path @ ''.bak'') data 384 t))"

definition save_cc :: "'cfg sshconf_lib \<Rightarrow> 'cfg clientConfig \<Rightarrow> treefs \<Rightarrow> treefs \<times> string option" where
  "save_cc sc c t =
     (let path = cc_path c in
      case backup_cc path t of
        (t1, Some e) \<Rightarrow> (t1, Some (''failed to create backup: '' @ ioerr_msg e))
      | (t1, None) \<Rightarrow>
          (case t_mkdir_all (path_dir path) t1 of
             (t2, Some e) \<Rightarrow> (t2, Some (''failed to create directory: '' @ ioerr_msg e))
           | (t2, None) \<Rightarrow>
               (case sc_WriteFile sc path (cc_config c) t2 of
                  (t3, Some e) \<Rightarrow> (t3, Some e)
                | (t3, None) \<Rightarrow> (fst (t_chmod path 384 t3), None))))"

section \<open>Changing entries\<close>

text \<open>The first pattern of a listed host that the new entry has too.\<close>

definition duplicate_pattern :: "SSHConfigEntry list \<Rightarrow> SSHConfigEntry \<Rightarrow> string option" where
  "duplicate_pattern entries entry =
     (if ce_Type entry = EntryTypeHost
      then find (\<lambda>p. p \<in> set (ce_Patterns entry))
             (concat (map ce_Patterns (filter (\<lambda>e. ce_Type e = EntryTypeHost) entries)))
      else None)"

text \<open>The position is not used.\<close>

definition AddEntry ::
    "'cfg sshconf_lib \<Rightarrow> (string \<Rightarrow> string) \<Rightarrow> SSHConfigEntry \<Rightarrow> int \<Rightarrow> 'cfg clientConfig \<Rightarrow> treefs
      \<Rightarrow> 'cfg clientConfig \<times> treefs \<times> (string + SSHConfigEntry)" where
  "AddEntry sc sha entry position c t =
     (case duplicate_pattern (ListEntries sc sha c) entry of
        Some p \<Rightarrow> (c, t, Inl (''host pattern already exists: '' @ p))
      | None \<Rightarrow>
          (let c1 = c\<lparr>cc_config := sc_Patch sc (getEntryHeader entry) (buildEntryBlock entry) (cc_config c)\<rparr> in
           case save_cc sc c1 t of
             (t1, Some e) \<Rightarrow> (c1, t1, Inl e)
           | (t1, None) \<Rightarrow> (c1, t1, Inr (entry\<lparr>ce_ID := generateEntryID sha entry\<rparr>))))"

definition Add_cc ::
    "'cfg sshconf_lib \<Rightarrow> (string \<Rightarrow> string) \<Rightarrow> HostEntry \<Rightarrow> 'cfg clientConfig \<Rightarrow> treefs
      \<Rightarrow> 'cfg clientConfig \<times> treefs \<times> (string + SSHConfigEntry)" where
  "Add_cc sc sha entry c t = AddEntry sc sha (hostEntryToSSHConfigEntry entry) (- 1) c t"

definition UpdateEntry ::
    "'cfg sshconf_lib \<Rightarrow> (string \<Rightarrow> string) \<Rightarrow> string \<Rightarrow> SSHConfigEntry \<Rightarrow> 'cfg clientConfig \<Rightarrow> treefs
      \<Rightarrow> 'cfg clientConfig \<times> treefs \<times> string option" where
  "UpdateEntry sc sha id' entry c t =
     (case GetEntry sc sha id' c of
        Inl e \<Rightarrow> (c, t, Some e)
      | Inr existing \<Rightarrow>
          (let cfg1 = sc_Delete sc (getEntryHeader existing) (cc_config c);
               c1 = c\<lparr>cc_config := sc_Patch sc (getEntryHeader entry) (buildEntryBlock entry) cfg1\<rparr>;
               (t1, err) = save_cc sc c1 t in
           (c1, t1, err)))"

definition Update_cc ::
    "'cfg sshconf_lib \<Rightarrow> (string \<Rightarrow> string) \<Rightarrow> string \<Rightarrow> HostEntry \<Rightarrow> 'cfg clientConfig \<Rightarrow> treefs
      \<Rightarrow> 'cfg clientConfig \<times> treefs \<times> string option" where
  "Update_cc sc sha alias entry c t =
     (case Get_cc sc sha alias c of
        Inl e \<Rightarrow> (c, t, Some e)
      | Inr existing \<Rightarrow>
          (let sshEntry = (hostEntryToSSHConfigEntry entry)\<lparr>ce_Patterns := [alias]\<rparr>;
               tempEntry = \<lparr>ce_ID = [], ce_Type = EntryTypeHost, ce_Position = 0,
                 ce_Patterns = [he_Alias existing], ce_Options = zero_options\<rparr> in
           UpdateEntry sc sha (generateEntryID sha tempEntry) sshEntry c t))"

definition DeleteEntry ::
    "'cfg sshconf_lib \<Rightarrow> (string \<Rightarrow> string) \<Rightarrow> string \<Rightarrow> 'cfg clientConfig \<Rightarrow> treefs
      \<Rightarrow> 'cfg clientConfig \<times> treefs \<times> string option" where
  "DeleteEntry sc sha id' c t =
     (case GetEntry sc sha id' c of
        Inl e \<Rightarrow> (c, t, Some e)
      | Inr entry \<Rightarrow>
          (let c1 = c\<lparr>cc_config := sc_Delete sc (getEntryHeader entry) (cc_config c)\<rparr>; (t1, err) = save_cc sc c1 t in
           (c1, t1, err)))"

definition Delete_cc ::
    "'cfg sshconf_lib \<Rightarrow> string \<Rightarrow> 'cfg clientConfig \<Rightarrow> treefs \<Rightarrow> 'cfg clientConfig \<times> treefs \<times> string option" where
  "Delete_cc sc alias c t =
     (let c1 = c\<lparr>cc_config := sc_Delete sc (''Host '' @ alias) (cc_config c)\<rparr>; (t1, err) = save_cc sc c1 t in
      (c1, t1, err))"

text \<open>\<open>Reorder\<close> writes a new file: the comments before the first block and the blocks of the given entries.\<close>

definition preamble_text :: "cfg_line list \<Rightarrow> string" where
  "preamble_text lines =
     concat (map (\<lambda>l. if li_Comment l \<noteq> [] then li_Comment l @ [newline] else [])
       (takeWhile (\<lambda>l. \<not> block_line l) lines))"

definition id_map :: "SSHConfigEntry list \<Rightarrow> string \<Rightarrow> SSHConfigEntry option" where
  "id_map entries id' = map_of (rev (map (\<lambda>e. (ce_ID e, e)) entries)) id'"

definition reordered_text :: "SSHConfigEntry list \<Rightarrow> cfg_line list \<Rightarrow> string list \<Rightarrow> string" where
  "reordered_text entries lines ids =
     preamble_text lines @ concat (map (\<lambda>id'. buildEntryBlock (the (id_map entries id')) @ [newline]) ids)"

definition Reorder ::
    "'cfg sshconf_lib \<Rightarrow> (string \<Rightarrow> string) \<Rightarrow> string list \<Rightarrow> 'cfg clientConfig \<Rightarrow> treefs
      \<Rightarrow> 'cfg clientConfig \<times> treefs \<times> string option" where
  "Reorder sc sha ids c t =
     (let entries = ListEntries sc sha c in
      case find (\<lambda>id'. id_map entries id' = None) ids of
        Some id' \<Rightarrow> (c, t, Some (''unknown entry ID: '' @ id'))
      | None \<Rightarrow>
          (let c1 = c\<lparr>cc_config := sc_ParseConfig sc (reordered_text entries (sc_Lines sc (cc_config c)) ids)\<rparr>;
               (t1, err) = save_cc sc c1 t in
           (c1, t1, err)))"

section \<open>Global directives\<close>

definition global_directive :: "string \<Rightarrow> (string \<times> string) option" where
  "global_directive line =
     (if trim_space line = [] then None
      else if has_prefix (trim_space line) ''#'' then None
      else if has_prefix line '' '' \<or> has_prefix line [tab] then None
      else (let parts = split_n2 (CHR '' '') (trim_space line);
                key = hd parts;
                val = (if length parts > 1 then trim_space (parts ! 1) else []) in
            if to_lower key = ''host'' \<or> to_lower key = ''match'' then None else Some (key, val)))"

definition directives_of :: "string \<Rightarrow> (string \<times> string) list" where
  "directives_of content = List.map_filter global_directive (split_on newline content)"

definition GetGlobalDirectives :: "'cfg clientConfig \<Rightarrow> treefs \<Rightarrow> string + (string \<times> string) list" where
  "GetGlobalDirectives c t =
     (case t_read_file (cc_path c) t of
        Inl e \<Rightarrow> Inl (''failed to read config file: '' @ ioerr_msg e)
      | Inr content \<Rightarrow> Inr (directives_of content))"

text \<open>A line that \<open>SetGlobalDirective\<close> and \<open>DeleteGlobalDirective\<close> keep, as they write it.\<close>

definition directive_text :: "string \<Rightarrow> string \<Rightarrow> string" where
  "directive_text k v = k @ '' '' @ v @ [newline]"

definition kept_line :: "cfg_line \<Rightarrow> string" where
  "kept_line line =
     (if li_Comment line \<noteq> [] then li_Comment line @ [newline] else []) @
     (if li_Key line \<noteq> [] then
        directive_text (li_Key line) (li_Value line) @
        (if block_line line
         then concat (map (\<lambda>ch. ''    '' @ directive_text (ch_Key ch) (ch_Value ch)) (li_Children line))
         else [])
      else [])"

definition hits :: "string \<Rightarrow> cfg_line \<Rightarrow> bool" where
  "hits key line \<longleftrightarrow> equal_fold (li_Key line) key \<and> \<not> block_line line"

definition managed_begin :: "cfg_line \<Rightarrow> bool" where
  "managed_begin line \<longleftrightarrow> li_Comment line \<noteq> [] \<and> contains (li_Comment line) ''BEGIN skeys managed block''"

text \<open>The loop of \<open>SetGlobalDirective\<close> with its flag \<open>found\<close>; \<open>insertedAtStart\<close> is only ever set with it.\<close>

fun set_loop :: "string \<Rightarrow> string \<Rightarrow> bool \<Rightarrow> cfg_line list \<Rightarrow> string" where
  "set_loop key v found [] = (if found then [] else directive_text key v)"
| "set_loop key v found (line # lines) =
     (if hits key line then directive_text key v @ set_loop key v True lines
      else if \<not> found \<and> managed_begin line
      then directive_text key v @ [newline] @ kept_line line @ set_loop key v True lines
      else kept_line line @ set_loop key v found lines)"

definition SetGlobalDirective ::
    "'cfg sshconf_lib \<Rightarrow> string \<Rightarrow> string \<Rightarrow> 'cfg clientConfig \<Rightarrow> treefs \<Rightarrow> 'cfg clientConfig \<times> treefs \<times> string option" where
  "SetGlobalDirective sc key v c t =
     (let c1 = c\<lparr>cc_config := sc_ParseConfig sc (set_loop key v False (sc_Lines sc (cc_config c)))\<rparr>;
          (t1, err) = save_cc sc c1 t in
      (c1, t1, err))"

definition DeleteGlobalDirective ::
    "'cfg sshconf_lib \<Rightarrow> string \<Rightarrow> 'cfg clientConfig \<Rightarrow> treefs \<Rightarrow> 'cfg clientConfig \<times> treefs \<times> string option" where
  "DeleteGlobalDirective sc key c t =
     (let lines = sc_Lines sc (cc_config c) in
      if \<not> list_ex (hits key) lines then (c, t, Some (''global directive not found: '' @ key))
      else (let c1 = c\<lparr>cc_config := sc_ParseConfig sc (concat (map kept_line (filter (\<lambda>l. \<not> hits key l) lines)))\<rparr>;
                (t1, err) = save_cc sc c1 t in
            (c1, t1, err)))"

section \<open>Options are read back\<close>

definition known_keys :: "string list" where
  "known_keys = [''hostname'', ''user'', ''port'', ''identityfile'', ''proxyjump'', ''proxycommand'', ''forwardagent'',
     ''identitiesonly'', ''stricthostkeychecking'', ''serveraliveinterval'', ''serveralivecountmax'', ''compression'']"

text \<open>Options as a caller may give them: machine integers, and extra options with names of their own.\<close>

definition options_ok :: "SSHOptions \<Rightarrow> bool" where
  "options_ok opts \<longleftrightarrow> int64 (op_Port opts) \<and> int64 (op_ServerAliveInterval opts) \<and> int64 (op_ServerAliveCountMax opts)
     \<and> distinct (map fst (op_ExtraOptions opts)) \<and> (\<forall>k \<in> set (map fst (op_ExtraOptions opts)). to_lower k \<notin> set known_keys)"

text \<open>What a block says of the options: port 22 is left out, as are intervals that are not positive.\<close>

definition norm_options :: "SSHOptions \<Rightarrow> SSHOptions" where
  "norm_options opts = opts\<lparr>op_Port := if op_Port opts = 22 then 0 else op_Port opts,
     op_ServerAliveInterval := max 0 (op_ServerAliveInterval opts),
     op_ServerAliveCountMax := max 0 (op_ServerAliveCountMax opts)\<rparr>"

definition child_of :: "string \<times> string \<Rightarrow> cfg_child" where
  "child_of kv = \<lparr>ch_Key = fst kv, ch_Value = snd kv\<rparr>"

lemma lower_keys [simp]:
  "to_lower ''HostName'' = ''hostname''" "to_lower ''User'' = ''user''" "to_lower ''Port'' = ''port''"
  "to_lower ''IdentityFile'' = ''identityfile''" "to_lower ''ProxyJump'' = ''proxyjump''"
  "to_lower ''ProxyCommand'' = ''proxycommand''" "to_lower ''ForwardAgent'' = ''forwardagent''"
  "to_lower ''IdentitiesOnly'' = ''identitiesonly''" "to_lower ''StrictHostKeyChecking'' = ''stricthostkeychecking''"
  "to_lower ''ServerAliveInterval'' = ''serveraliveinterval''" "to_lower ''ServerAliveCountMax'' = ''serveralivecountmax''"
  "to_lower ''Compression'' = ''compression''" "is_yes ''yes''"
  by code_simp+

lemma set_option_simps [simp]:
  "set_option \<lparr>ch_Key = ''HostName'', ch_Value = v\<rparr> opts = opts\<lparr>op_Hostname := v\<rparr>"
  "set_option \<lparr>ch_Key = ''User'', ch_Value = v\<rparr> opts = opts\<lparr>op_User := v\<rparr>"
  "set_option \<lparr>ch_Key = ''Port'', ch_Value = v\<rparr> opts = opts\<lparr>op_Port := parseInt v\<rparr>"
  "set_option \<lparr>ch_Key = ''IdentityFile'', ch_Value = v\<rparr> opts = opts\<lparr>op_IdentityFiles := op_IdentityFiles opts @ [v]\<rparr>"
  "set_option \<lparr>ch_Key = ''ProxyJump'', ch_Value = v\<rparr> opts = opts\<lparr>op_ProxyJump := v\<rparr>"
  "set_option \<lparr>ch_Key = ''ProxyCommand'', ch_Value = v\<rparr> opts = opts\<lparr>op_ProxyCommand := v\<rparr>"
  "set_option \<lparr>ch_Key = ''ForwardAgent'', ch_Value = ''yes''\<rparr> opts = opts\<lparr>op_ForwardAgent := True\<rparr>"
  "set_option \<lparr>ch_Key = ''IdentitiesOnly'', ch_Value = ''yes''\<rparr> opts = opts\<lparr>op_IdentitiesOnly := True\<rparr>"
  "set_option \<lparr>ch_Key = ''StrictHostKeyChecking'', ch_Value = v\<rparr> opts = opts\<lparr>op_StrictHostKeyChecking := v\<rparr>"
  "set_option \<lparr>ch_Key = ''ServerAliveInterval'', ch_Value = v\<rparr> opts = opts\<lparr>op_ServerAliveInterval := parseInt v\<rparr>"
  "set_option \<lparr>ch_Key = ''ServerAliveCountMax'', ch_Value = v\<rparr> opts = opts\<lparr>op_ServerAliveCountMax := parseInt v\<rparr>"
  "set_option \<lparr>ch_Key = ''Compression'', ch_Value = ''yes''\<rparr> opts = opts\<lparr>op_Compression := True\<rparr>"
  by (simp_all add: set_option_def)

lemma parseInt_itoa: "int64 i \<Longrightarrow> parseInt (itoa i) = i"
  by (simp add: parseInt_def int64_def atoi_itoa)

lemma fold_identity_files:
  "fold set_option (map (\<lambda>f. \<lparr>ch_Key = ''IdentityFile'', ch_Value = f\<rparr>) fs) opts =
    opts\<lparr>op_IdentityFiles := op_IdentityFiles opts @ fs\<rparr>"
  by (induction fs arbitrary: opts) simp_all

lemma update_new: "k \<notin> fst ` set xs \<Longrightarrow> AList.update k v xs = xs @ [(k, v)]"
  by (induction xs) auto

lemma fold_extra_options:
  assumes "distinct (map fst xs)" and "\<forall>k \<in> set (map fst xs). to_lower k \<notin> set known_keys"
    and "fst ` set xs \<inter> fst ` set (op_ExtraOptions opts) = {}"
  shows "fold set_option (map child_of xs) opts = opts\<lparr>op_ExtraOptions := op_ExtraOptions opts @ xs\<rparr>"
  using assms
proof (induction xs arbitrary: opts)
  case (Cons x xs)
  obtain k v where x: "x = (k, v)" by (cases x)
  let ?o = "opts\<lparr>op_ExtraOptions := op_ExtraOptions opts @ [(k, v)]\<rparr>"
  have "to_lower k \<notin> set known_keys" using Cons.prems(2) by (simp add: x)
  moreover have "k \<notin> fst ` set (op_ExtraOptions opts)" using Cons.prems(3) by (auto simp: x)
  ultimately have "set_option (child_of x) opts = ?o"
    by (simp add: x set_option_def child_of_def known_keys_def update_new)
  moreover have "fold set_option (map child_of xs) ?o = ?o\<lparr>op_ExtraOptions := op_ExtraOptions ?o @ xs\<rparr>"
    using Cons.prems by (intro Cons.IH) (auto simp: x)
  ultimately show ?case by (simp add: x)
qed simp

text \<open>What each part of a block sets.\<close>

lemma read_segment:
  "op_Hostname o1 = [] \<Longrightarrow> fold set_option (map child_of (if v \<noteq> [] then [(''HostName'', v)] else [])) o1 = o1\<lparr>op_Hostname := v\<rparr>"
  "op_User o1 = [] \<Longrightarrow> fold set_option (map child_of (if v \<noteq> [] then [(''User'', v)] else [])) o1 = o1\<lparr>op_User := v\<rparr>"
  "op_ProxyJump o1 = [] \<Longrightarrow> fold set_option (map child_of (if v \<noteq> [] then [(''ProxyJump'', v)] else [])) o1 = o1\<lparr>op_ProxyJump := v\<rparr>"
  "op_ProxyCommand o1 = [] \<Longrightarrow> fold set_option (map child_of (if v \<noteq> [] then [(''ProxyCommand'', v)] else [])) o1 = o1\<lparr>op_ProxyCommand := v\<rparr>"
  "op_StrictHostKeyChecking o1 = [] \<Longrightarrow> fold set_option (map child_of (if v \<noteq> [] then [(''StrictHostKeyChecking'', v)] else [])) o1 = o1\<lparr>op_StrictHostKeyChecking := v\<rparr>"
  "\<not> op_ForwardAgent o1 \<Longrightarrow> fold set_option (map child_of (if b then [(''ForwardAgent'', ''yes'')] else [])) o1 = o1\<lparr>op_ForwardAgent := b\<rparr>"
  "\<not> op_IdentitiesOnly o1 \<Longrightarrow> fold set_option (map child_of (if b then [(''IdentitiesOnly'', ''yes'')] else [])) o1 = o1\<lparr>op_IdentitiesOnly := b\<rparr>"
  "\<not> op_Compression o1 \<Longrightarrow> fold set_option (map child_of (if b then [(''Compression'', ''yes'')] else [])) o1 = o1\<lparr>op_Compression := b\<rparr>"
  "op_ServerAliveInterval o1 = 0 \<Longrightarrow> int64 i \<Longrightarrow>
     fold set_option (map child_of (if i > 0 then [(''ServerAliveInterval'', itoa i)] else [])) o1 = o1\<lparr>op_ServerAliveInterval := max 0 i\<rparr>"
  "op_ServerAliveCountMax o1 = 0 \<Longrightarrow> int64 i \<Longrightarrow>
     fold set_option (map child_of (if i > 0 then [(''ServerAliveCountMax'', itoa i)] else [])) o1 = o1\<lparr>op_ServerAliveCountMax := max 0 i\<rparr>"
  "op_Port o1 = 0 \<Longrightarrow> int64 i \<Longrightarrow>
     fold set_option (map child_of (if i \<noteq> 0 \<and> i \<noteq> 22 then [(''Port'', itoa i)] else [])) o1 = o1\<lparr>op_Port := if i = 22 then 0 else i\<rparr>"
  by (cases o1; simp add: child_of_def parseInt_itoa max_def)+

text \<open>Reading the options of a block that was written gives them back in their normal form.\<close>

theorem options_roundtrip:
  assumes "options_ok opts"
  shows "extractOptions (map child_of (option_pairs opts)) = norm_options opts"
proof -
  have extra: "fold set_option (map child_of (op_ExtraOptions opts)) o1 = o1\<lparr>op_ExtraOptions := op_ExtraOptions opts\<rparr>"
    if "op_ExtraOptions o1 = []" for o1
    using fold_extra_options [of "op_ExtraOptions opts" o1] assms that by (simp add: options_ok_def)
  have files: "fold set_option (map child_of (map (\<lambda>f. (''IdentityFile'', f)) fs)) o1 =
      o1\<lparr>op_IdentityFiles := op_IdentityFiles o1 @ fs\<rparr>" for fs o1
    using fold_identity_files [of fs o1] by (simp add: comp_def child_of_def)
  have ints: "int64 (op_Port opts)" "int64 (op_ServerAliveInterval opts)" "int64 (op_ServerAliveCountMax opts)"
    using assms by (simp_all add: options_ok_def)
  have "extractOptions (map child_of (option_pairs opts)) = \<lparr>op_Hostname = op_Hostname opts, op_User = op_User opts,
      op_Port = (if op_Port opts = 22 then 0 else op_Port opts), op_IdentityFiles = op_IdentityFiles opts,
      op_ProxyJump = op_ProxyJump opts, op_ProxyCommand = op_ProxyCommand opts, op_ForwardAgent = op_ForwardAgent opts,
      op_IdentitiesOnly = op_IdentitiesOnly opts, op_StrictHostKeyChecking = op_StrictHostKeyChecking opts,
      op_ServerAliveInterval = max 0 (op_ServerAliveInterval opts),
      op_ServerAliveCountMax = max 0 (op_ServerAliveCountMax opts), op_Compression = op_Compression opts,
      op_ExtraOptions = op_ExtraOptions opts\<rparr>"
    unfolding extractOptions_def option_pairs_def zero_options_def map_append fold_append comp_apply
    by (simp only: read_segment files extra ints SSHOptions.select_convs SSHOptions.update_convs append_Nil not_False_eq_True simp_thms)
  then show ?thesis by (cases opts) (simp add: norm_options_def)
qed

section \<open>What the library is relied on for\<close>

text \<open>
  Names and values that need no quoting, the line that stands for a block, and the laws of \<open>sshconf\<close>:
  a file is read as its text and written as \<open>render\<close> of what is in memory, parsing loses nothing,
  what is written is read back to the same lines; \<open>Patch\<close> puts a block with a new header
  somewhere between the lines; a text of comments and plain blocks is read as those blocks.
\<close>

definition plain_word :: "string \<Rightarrow> bool" where
  "plain_word w \<longleftrightarrow> w \<noteq> [] \<and> list_all (\<lambda>c. \<not> is_space c \<and> c \<notin> set ''#\"='') w"

definition plain_value :: "string \<Rightarrow> bool" where
  "plain_value v \<longleftrightarrow> v \<noteq> [] \<and> trim_space v = v \<and> list_all (\<lambda>c. c \<noteq> newline \<and> c \<notin> set ''#\"'') v"

definition entry_ok :: "SSHConfigEntry \<Rightarrow> bool" where
  "entry_ok e \<longleftrightarrow> ce_Type e \<in> {EntryTypeHost, EntryTypeMatch} \<and> ce_Patterns e \<noteq> [] \<and> list_all plain_word (ce_Patterns e)
     \<and> \<not> (ce_Type e = EntryTypeHost \<and> ce_Patterns e = [''*'']) \<and> options_ok (ce_Options e)
     \<and> list_all (\<lambda>(k, v). plain_word k \<and> plain_value v \<and> to_lower k \<notin> {''host'', ''match''}) (option_pairs (ce_Options e))"

definition entry_line :: "SSHConfigEntry \<Rightarrow> cfg_line" where
  "entry_line e = \<lparr>li_Key = (if ce_Type e = EntryTypeMatch then ''Match'' else ''Host''),
     li_Value = join '' '' (ce_Patterns e), li_Comment = [], li_Children = map child_of (option_pairs (ce_Options e))\<rparr>"

definition same_header :: "SSHConfigEntry \<Rightarrow> cfg_line \<Rightarrow> bool" where
  "same_header e l \<longleftrightarrow> block_line l \<and> (to_lower (li_Key l) = ''match'' \<longleftrightarrow> ce_Type e = EntryTypeMatch)
     \<and> parsePatternString (li_Value l) = ce_Patterns e"

definition sshconf_files :: "'cfg sshconf_lib \<Rightarrow> ('cfg \<Rightarrow> string) \<Rightarrow> bool" where
  "sshconf_files sc render \<longleftrightarrow>
     (\<forall>p cfg t t'. sc_WriteFile sc p cfg t = (t', None) \<longrightarrow> refuse t' = refuse t \<and> (\<forall>q. q \<noteq> p \<longrightarrow> look t' q = look t q)
        \<and> (\<exists>m. look t' p = Some (File (render cfg) m))) \<and>
     (\<forall>p cfg t t' e. sc_WriteFile sc p cfg t = (t', Some e) \<longrightarrow> (\<forall>q. q \<noteq> p \<longrightarrow> look t' q = look t q)) \<and>
     (\<forall>p t s. t_read_file p t = Inr s \<longrightarrow> sc_ParseConfigFile sc p t = Inr (sc_ParseConfig sc s)) \<and>
     (\<forall>s. render (sc_ParseConfig sc s) = s) \<and>
     (\<forall>cfg. sc_Lines sc (sc_ParseConfig sc (render cfg)) = sc_Lines sc cfg)"

definition patch_adds :: "'cfg sshconf_lib \<Rightarrow> bool" where
  "patch_adds sc \<longleftrightarrow> (\<forall>cfg e. entry_ok e \<and> list_all (\<lambda>l. \<not> same_header e l) (sc_Lines sc cfg) \<longrightarrow>
     (\<exists>xs ys. sc_Lines sc cfg = xs @ ys \<and>
        sc_Lines sc (sc_Patch sc (getEntryHeader e) (buildEntryBlock e) cfg) = xs @ entry_line e # ys))"

definition reads_blocks :: "'cfg sshconf_lib \<Rightarrow> bool" where
  "reads_blocks sc \<longleftrightarrow> (\<forall>cs es. list_all (\<lambda>c. has_prefix c ''#'' \<and> newline \<notin> set c) cs \<and> list_all entry_ok es \<longrightarrow>
     filter block_line (sc_Lines sc (sc_ParseConfig sc (unlines cs @ concat (map (\<lambda>e. buildEntryBlock e @ [newline]) es)))) =
       map entry_line es)"

section \<open>Saving\<close>

lemma path_below:
  assumes "clean_dir d" and "plain_elem n"
  shows "path_dir (d @ slash # n) = d" and "\<not> within (d @ slash # n) d"
proof -
  have plain: "list_all plain_elem (path_elems d @ [n])" using clean_dirD(2) [OF assms(1)] assms(2) by simp
  have "path_of (path_elems d @ [n]) = d @ slash # n"
    using path_of_append [OF clean_dirD(3) [OF assms(1)], of "[n]"] clean_dirD(1) [OF assms(1)]
    by (simp add: path_of_def)
  then show "path_dir (d @ slash # n) = d" using path_dir_snoc [OF plain] clean_dirD(1) [OF assms(1)] by simp
  show "\<not> within (d @ slash # n) d" by (auto simp: within_iff)
qed

lemma mkdir_look:
  assumes "t_mkdir_all p t = (t', None)" and "\<not> within q p"
  shows "look t' q = look t q"
  using assms chain_above by (auto simp: t_mkdir_all_def look_mkdir split: if_splits)

lemma backup_cc_ok:
  assumes "backup_cc p t = (t', None)"
  shows "refuse t' = refuse t" and "q \<noteq> p @ ''.bak'' \<Longrightarrow> look t' q = look t q"
    and "look t p = Some (File s m) \<Longrightarrow> \<not> refuse t (CStat p) \<Longrightarrow> \<exists>m'. look t' (p @ ''.bak'') = Some (File s m')"
proof -
  consider "t' = t" "t_stat p t = Some NotExist" | s' where "t_read_file p t = Inr s'" "t_write_file (p @ ''.bak'') s' 384 t = (t', None)"
    using assms by (auto simp: backup_cc_def split: if_splits sum.splits)
  note cases = this
  then show "refuse t' = refuse t" using t_write_file_ok(2) by cases auto
  show "look t' q = look t q" if "q \<noteq> p @ ''.bak''"
    using cases t_write_file_ok(1) that by cases auto
  assume s: "look t p = Some (File s m)" "\<not> refuse t (CStat p)"
  show "\<exists>m'. look t' (p @ ''.bak'') = Some (File s m')"
    using cases
  proof cases
    case 1
    then show ?thesis using s by (simp add: t_stat_def)
  next
    case 2
    then have "s' = s" using s(1) by (simp add: t_read_file_def split: if_splits)
    then show ?thesis using t_write_file_ok(1) [OF 2(2)] by simp
  qed
qed

text \<open>A save that succeeds: the file has the text, the backup the old content, nothing else changed.\<close>

lemma save_cc_ok:
  assumes run: "save_cc sc c t = (t', None)" and lib: "sshconf_files sc render"
    and path: "cc_path c = d @ slash # n" and d: "clean_dir d" and n: "plain_elem n"
  shows "\<exists>m. look t' (cc_path c) = Some (File (render (cc_config c)) m)"
    and "refuse t' = refuse t"
    and "look t (cc_path c) = Some (File s m) \<Longrightarrow> \<not> refuse t (CStat (cc_path c)) \<Longrightarrow>
      \<exists>m'. look t' (cc_path c @ ''.bak'') = Some (File s m')"
    and "q \<noteq> cc_path c \<Longrightarrow> q \<noteq> cc_path c @ ''.bak'' \<Longrightarrow> \<not> within q d \<Longrightarrow> look t' q = look t q"
proof -
  note below = path_below [OF d n]
  obtain t1 where b: "backup_cc (cc_path c) t = (t1, None)"
    using run by (auto simp: save_cc_def Let_def split: prod.splits option.splits)
  obtain t2 where mk: "t_mkdir_all d t1 = (t2, None)"
    using run b below(1) by (auto simp: save_cc_def Let_def path split: prod.splits option.splits)
  obtain t3 where w: "sc_WriteFile sc (cc_path c) (cc_config c) t2 = (t3, None)" and t': "t' = fst (t_chmod (cc_path c) 384 t3)"
    using run b mk below(1) by (auto simp: save_cc_def Let_def path split: prod.splits option.splits)
  have chmod: "look t' q = look t3 q" if "q \<noteq> cc_path c" for q
    using that by (auto simp: t' t_chmod_def split: option.splits node.splits)
  from w lib have w': "refuse t3 = refuse t2" "\<And>q. q \<noteq> cc_path c \<Longrightarrow> look t3 q = look t2 q"
      "\<exists>m. look t3 (cc_path c) = Some (File (render (cc_config c)) m)"
    by (auto simp: sshconf_files_def)
  show "\<exists>m. look t' (cc_path c) = Some (File (render (cc_config c)) m)"
    using w'(3) by (auto simp: t' t_chmod_def)
  have "refuse t2 = refuse t1" using refuse_keeps(1) [of d t1] mk by simp
  then show "refuse t' = refuse t" using w'(1) backup_cc_ok(1) [OF b] by (simp add: t')
  have bak: "cc_path c @ ''.bak'' \<noteq> cc_path c" "\<not> within (cc_path c @ ''.bak'') d"
    by (auto simp: path within_iff)
  show "\<exists>m'. look t' (cc_path c @ ''.bak'') = Some (File s m')"
    if "look t (cc_path c) = Some (File s m)" "\<not> refuse t (CStat (cc_path c))"
    using backup_cc_ok(3) [OF b that] chmod [OF bak(1)] w'(2) [OF bak(1)] mkdir_look [OF mk bak(2)] by simp
  show "look t' q = look t q" if "q \<noteq> cc_path c" "q \<noteq> cc_path c @ ''.bak''" "\<not> within q d"
    using backup_cc_ok(2) [OF b that(2)] chmod [OF that(1)] w'(2) [OF that(1)] mkdir_look [OF mk that(3)] by simp
qed

section \<open>Adding and reordering entries\<close>

text \<open>What an entry says, its position apart.\<close>

definition said :: "SSHConfigEntry \<Rightarrow> string \<times> int \<times> string list \<times> SSHOptions" where
  "said e = (ce_ID e, ce_Type e, ce_Patterns e, ce_Options e)"

lemma said_list_entries:
  "map said (list_entries sha k ls) = map (\<lambda>l. said (entry_of sha 0 l)) (filter (\<lambda>l. block_line l \<and> \<not> default_block l) ls)"
proof (induction ls arbitrary: k)
  case (Cons l ls)
  have "said (entry_of sha k l) = said (entry_of sha 0 l)"
    by (simp add: said_def entry_of_def generateEntryID_def Let_def)
  then show ?case using Cons by simp
qed simp

lemma lower_headers [simp]: "to_lower ''Match'' = ''match''" "to_lower ''Host'' = ''host''"
  by code_simp+

lemma fields_patterns:
  assumes "entry_ok e"
  shows "str_fields (join '' '' (ce_Patterns e)) = ce_Patterns e"
  using assms by (intro fields_join_space) (auto simp: entry_ok_def plain_word_def list_all_iff)

lemma entry_line_shape:
  assumes "entry_ok e"
  shows "block_line (entry_line e)" and "\<not> default_block (entry_line e)"
    and "said (entry_of sha k (entry_line e)) = (generateEntryID sha e, ce_Type e, ce_Patterns e, norm_options (ce_Options e))"
proof -
  have ty: "ce_Type e = EntryTypeHost \<or> ce_Type e = EntryTypeMatch" and no: "\<not> (ce_Type e = EntryTypeHost \<and> ce_Patterns e = [''*''])"
    and opts: "options_ok (ce_Options e)"
    using assms by (auto simp: entry_ok_def)
  show "block_line (entry_line e)" by (simp add: block_line_def entry_line_def)
  show "\<not> default_block (entry_line e)"
    using ty no fields_patterns [OF assms] by (auto simp: default_block_def entry_line_def parsePatternString_def)
  show "said (entry_of sha k (entry_line e)) = (generateEntryID sha e, ce_Type e, ce_Patterns e, norm_options (ce_Options e))"
    using ty fields_patterns [OF assms] options_roundtrip [OF opts]
    by (auto simp: said_def entry_of_def entry_line_def parsePatternString_def generateEntryID_def Let_def)
qed

lemma generated_ids: "e \<in> set (list_entries sha k ls) \<Longrightarrow> generateEntryID sha e = ce_ID e"
  by (induction ls arbitrary: k) (auto simp: entry_of_def generateEntryID_def Let_def split: if_splits)

text \<open>A configuration that was saved is loaded again with the same lines.\<close>

lemma reload:
  assumes lib: "sshconf_files sc render" and t: "look t p = Some (File (render cfg) m)" "\<not> refuse t (CStat p)" "\<not> refuse t (CRead p)"
  shows "\<exists>cfg'. load_cc sc p t = Inr cfg' \<and> sc_Lines sc cfg' = sc_Lines sc cfg"
proof -
  have "t_stat p t = None" "t_read_file p t = Inr (render cfg)" using t by (simp_all add: t_stat_def t_read_file_def)
  then have "load_cc sc p t = Inr (sc_ParseConfig sc (render cfg))"
    using lib by (simp add: load_cc_def sshconf_files_def)
  then show ?thesis using lib by (simp add: sshconf_files_def)
qed

lemma restart_lists:
  assumes lib: "sshconf_files sc render" and t: "look t p = Some (File (render (cc_config c)) m)"
    and free: "\<not> refuse t (CStat p)" "\<not> refuse t (CRead p)"
  shows "\<exists>c'. NewClientConfig sc (Inr home) (Some p) t = Inr c' \<and> ListEntries sc sha c' = ListEntries sc sha c"
  using reload [OF lib t free] by (auto simp: NewClientConfig_def ListEntries_def)

text \<open>
  C17. Adding an entry that is new to the configuration, when it succeeds: the listing, at once and after
  a restart, has the entry under the ID that was returned, with its options in normal form and in some position, and every other entry as before; the backup holds the
  old file, and no other file changes.
\<close>

theorem client_add_entry:
  assumes run: "AddEntry sc sha e position c t = (c', t', Inr e')"
    and lib: "sshconf_files sc render" "patch_adds sc"
    and entry: "entry_ok e" "list_all (\<lambda>l. \<not> same_header e l) (sc_Lines sc (cc_config c))"
    and path: "cc_path c = d @ slash # n" "clean_dir d" "plain_elem n"
    and free: "\<not> refuse t (CStat (cc_path c))" "\<not> refuse t (CRead (cc_path c))"
  shows "(\<exists>xs ys. map said (ListEntries sc sha c) = xs @ ys
      \<and> map said (ListEntries sc sha c') = xs @ (ce_ID e', ce_Type e, ce_Patterns e, norm_options (ce_Options e)) # ys)
    \<and> (\<exists>c''. NewClientConfig sc (Inr home) (Some (cc_path c)) t' = Inr c'' \<and> ListEntries sc sha c'' = ListEntries sc sha c')
    \<and> (\<forall>s m. look t (cc_path c) = Some (File s m) \<longrightarrow> (\<exists>m'. look t' (cc_path c @ ''.bak'') = Some (File s m')))
    \<and> (\<forall>q. q \<noteq> cc_path c \<and> q \<noteq> cc_path c @ ''.bak'' \<and> \<not> within q d \<longrightarrow> look t' q = look t q)"
proof -
  let ?c1 = "c\<lparr>cc_config := sc_Patch sc (getEntryHeader e) (buildEntryBlock e) (cc_config c)\<rparr>"
  have save: "save_cc sc ?c1 t = (t', None)" and c': "c' = ?c1" and e': "e' = e\<lparr>ce_ID := generateEntryID sha e\<rparr>"
    using run by (auto simp: AddEntry_def Let_def split: option.splits prod.splits)
  have path1: "cc_path ?c1 = d @ slash # n" by (simp add: path(1))
  note saved = save_cc_ok [OF save lib(1) path1 path(2,3)]
  have cfg: "cc_config c' = sc_Patch sc (getEntryHeader e) (buildEntryBlock e) (cc_config c)" by (simp add: c')
  from lib(2) [unfolded patch_adds_def, THEN spec, THEN spec, THEN mp, OF conjI, OF entry]
  obtain xs ys where lines: "sc_Lines sc (cc_config c) = xs @ ys" "sc_Lines sc (cc_config c') = xs @ entry_line e # ys"
    unfolding cfg by blast
  let ?S = "\<lambda>ls. map (\<lambda>l. said (entry_of sha 0 l)) (filter (\<lambda>l. block_line l \<and> \<not> default_block l) ls)"
  have "map said (ListEntries sc sha c) = ?S xs @ ?S ys"
    "map said (ListEntries sc sha c') = ?S xs @ (ce_ID e', ce_Type e, ce_Patterns e, norm_options (ce_Options e)) # ?S ys"
    unfolding ListEntries_def said_list_entries lines using entry_line_shape [OF entry(1)] e' by simp_all
  moreover obtain m where "look t' (cc_path c) = Some (File (render (cc_config c')) m)" using saved(1) c' by auto
  from restart_lists [OF lib(1) this] free saved(2)
  have "\<exists>c''. NewClientConfig sc (Inr home) (Some (cc_path c)) t' = Inr c'' \<and> ListEntries sc sha c'' = ListEntries sc sha c'"
    by simp
  moreover have "\<forall>s m. look t (cc_path c) = Some (File s m) \<longrightarrow> (\<exists>m'. look t' (cc_path c @ ''.bak'') = Some (File s m'))"
    using saved(3) free(1) by simp
  moreover have "\<forall>q. q \<noteq> cc_path c \<and> q \<noteq> cc_path c @ ''.bak'' \<and> \<not> within q d \<longrightarrow> look t' q = look t q"
    using saved(4) by simp
  ultimately show ?thesis by blast
qed

lemma preamble_unlines:
  "preamble_text ls = unlines (map li_Comment (filter (\<lambda>l. li_Comment l \<noteq> []) (takeWhile (\<lambda>l. \<not> block_line l) ls)))"
  unfolding preamble_text_def by (induction ls) (auto simp: unlines_def)

text \<open>
  Reordering by entry IDs, when it succeeds: the listing, at once and after a restart, has exactly the
  entries that were named, in the order given, each with its ID, type and patterns and its options in
  normal form.  No other block survives: an entry that was not named is gone, and so is the \<open>Host *\<close> block.
\<close>

theorem client_reorder:
  assumes run: "Reorder sc sha ids c t = (c', t', None)"
    and lib: "sshconf_files sc render" "reads_blocks sc"
    and path: "cc_path c = d @ slash # n" "clean_dir d" "plain_elem n"
    and free: "\<not> refuse t (CStat (cc_path c))" "\<not> refuse t (CRead (cc_path c))"
    and entries: "list_all entry_ok (ListEntries sc sha c)"
    and comments: "list_all (\<lambda>l. li_Comment l \<noteq> [] \<longrightarrow> has_prefix (li_Comment l) ''#'' \<and> newline \<notin> set (li_Comment l))
      (sc_Lines sc (cc_config c))"
  shows "\<exists>es. set es \<subseteq> set (ListEntries sc sha c) \<and> map ce_ID es = ids
    \<and> map said (ListEntries sc sha c') = map (\<lambda>e. (ce_ID e, ce_Type e, ce_Patterns e, norm_options (ce_Options e))) es
    \<and> filter block_line (sc_Lines sc (cc_config c')) = map entry_line es
    \<and> (\<exists>c''. NewClientConfig sc (Inr home) (Some (cc_path c)) t' = Inr c'' \<and> ListEntries sc sha c'' = ListEntries sc sha c')"
proof -
  let ?entries = "ListEntries sc sha c" and ?lines = "sc_Lines sc (cc_config c)"
  have known: "id_map ?entries i \<noteq> None" if "i \<in> set ids" for i
    using run that by (auto simp: Reorder_def Let_def find_None_iff split: option.splits)
  define c1 where "c1 = c\<lparr>cc_config := sc_ParseConfig sc (reordered_text ?entries ?lines ids)\<rparr>"
  have none: "find (\<lambda>i. id_map ?entries i = None) ids = None" using known by (auto simp: find_None_iff)
  then have c': "c' = c1" and save: "save_cc sc c1 t = (t', None)"
    using run by (auto simp: Reorder_def Let_def c1_def [symmetric] split: prod.splits)
  have path1: "cc_path c1 = d @ slash # n" "cc_path c1 = cc_path c" by (simp_all add: path(1) c1_def)
  note saved = save_cc_ok(1,2) [OF save lib(1) path1(1) path(2,3)]
  obtain m where "look t' (cc_path c) = Some (File (render (cc_config c1)) m)" using saved(1) path1(2) by auto
  from restart_lists [OF lib(1) this] free saved(2)
  have restart: "\<exists>c''. NewClientConfig sc (Inr home) (Some (cc_path c)) t' = Inr c'' \<and> ListEntries sc sha c'' = ListEntries sc sha c'"
    unfolding c' by simp
  define es where "es = map (\<lambda>i. the (id_map ?entries i)) ids"
  have each: "the (id_map ?entries i) \<in> set ?entries \<and> ce_ID (the (id_map ?entries i)) = i" if i: "i \<in> set ids" for i
  proof -
    obtain e where e: "id_map ?entries i = Some e" using known [OF i] by blast
    then have "(i, e) \<in> set (rev (map (\<lambda>e. (ce_ID e, e)) ?entries))" unfolding id_map_def by (rule map_of_SomeD)
    then show ?thesis using e by auto
  qed
  have sub: "set es \<subseteq> set ?entries" and IDs: "map ce_ID es = ids"
    using each by (auto simp: es_def intro!: map_idI)
  let ?cs = "map li_Comment (filter (\<lambda>l. li_Comment l \<noteq> []) (takeWhile (\<lambda>l. \<not> block_line l) ?lines))"
  have "preamble_text ?lines = unlines ?cs"
    by (rule preamble_unlines)
  then have written: "reordered_text ?entries ?lines ids = unlines ?cs @ concat (map (\<lambda>e. buildEntryBlock e @ [newline]) es)"
    by (simp add: reordered_text_def es_def comp_def)
  have ok: "list_all entry_ok es" using sub entries by (auto simp: list_all_iff)
  have cs: "list_all (\<lambda>c. has_prefix c ''#'' \<and> newline \<notin> set c) ?cs"
    using comments by (auto simp: list_all_iff dest: set_takeWhileD)
  have blocks: "filter block_line (sc_Lines sc (cc_config c')) = map entry_line es"
    using lib(2) cs ok unfolding c' c1_def reads_blocks_def by (simp add: written)
  have "filter (\<lambda>l. block_line l \<and> \<not> default_block l) (sc_Lines sc (cc_config c')) = filter (\<lambda>l. \<not> default_block l) (map entry_line es)"
    unfolding blocks [symmetric] by (simp add: conj_commute)
  also have "\<dots> = map entry_line es"
    using ok entry_line_shape(2) by (auto simp: list_all_iff intro!: filter_True)
  finally have "map said (ListEntries sc sha c') = map (\<lambda>e. said (entry_of sha 0 (entry_line e))) es"
    unfolding ListEntries_def said_list_entries by (simp add: comp_def)
  also have "\<dots> = map (\<lambda>e. (ce_ID e, ce_Type e, ce_Patterns e, norm_options (ce_Options e))) es"
  proof (rule map_cong [OF refl])
    fix e assume e: "e \<in> set es"
    then have "generateEntryID sha e = ce_ID e"
      using sub unfolding ListEntries_def
      by (auto simp: generated_ids)
    then show "said (entry_of sha 0 (entry_line e)) = (ce_ID e, ce_Type e, ce_Patterns e, norm_options (ce_Options e))"
      using entry_line_shape(3) e ok by (auto simp: list_all_iff)
  qed
  finally show ?thesis using sub IDs blocks restart by blast
qed

section \<open>Global directives\<close>

text \<open>The library's view of the global directives, and lines that are printed as they are read.\<close>

definition top_of :: "cfg_line list \<Rightarrow> (string \<times> string) list" where
  "top_of ls = map (\<lambda>l. (li_Key l, li_Value l)) (filter (\<lambda>l. li_Key l \<noteq> [] \<and> \<not> block_line l) ls)"

definition clear_value :: "string \<Rightarrow> bool" where
  "clear_value v \<longleftrightarrow> trim_space v = v \<and> newline \<notin> set v"

definition line_ok :: "cfg_line \<Rightarrow> bool" where
  "line_ok l \<longleftrightarrow> (li_Comment l = [] \<or> has_prefix (li_Comment l) ''#'' \<and> newline \<notin> set (li_Comment l))
     \<and> (li_Key l = [] \<or> plain_word (li_Key l) \<and> clear_value (li_Value l))
     \<and> list_all (\<lambda>ch. newline \<notin> set (ch_Key ch) \<and> newline \<notin> set (ch_Value ch)) (li_Children l)"

lemma directives_line:
  "newline \<notin> set l \<Longrightarrow> directives_of (l @ newline # rest) = (case global_directive l of None \<Rightarrow> [] | Some d \<Rightarrow> [d]) @ directives_of rest"
  by (simp add: directives_of_def split_on_append_sep split_on_none map_filter_simps split: option.split)

lemma directives_lines_none:
  "list_all (\<lambda>l. newline \<notin> set l \<and> global_directive l = None) ls \<Longrightarrow> directives_of (unlines ls @ rest) = directives_of rest"
  by (induction ls) (simp_all add: directives_line)

lemma word_start:
  assumes "plain_word k"
  shows "k \<noteq> []" "\<not> is_space (hd k)" "hd k \<noteq> CHR ''#''" "CHR '' '' \<notin> set k" "newline \<notin> set k" "\<not> is_space (last k)"
proof -
  have k0: "k \<noteq> []" using assms by (simp add: plain_word_def)
  have c: "c \<in> set k \<Longrightarrow> \<not> is_space c \<and> c \<noteq> CHR ''#''" for c
    using assms by (auto simp: plain_word_def list_all_iff)
  show "k \<noteq> []" by (rule k0)
  show "\<not> is_space (hd k)" "hd k \<noteq> CHR ''#''" using c [of "hd k"] k0 by simp_all
  show "\<not> is_space (last k)" using c [of "last k"] k0 by simp
  show "CHR '' '' \<notin> set k" "newline \<notin> set k" using c [of "CHR '' ''"] c [of newline] by auto
qed

lemma trim_word_value:
  assumes "plain_word k" and "trim_space v = v"
  shows "trim_space (k @ '' '' @ v) = (if v = [] then k else k @ '' '' @ v)"
proof (cases "v = []")
  case True
  have "trim_space (k @ '' '') = trim_space k" by (rule trim_space_snoc_space) simp
  then show ?thesis using True trim_space_id [of k] word_start [OF assms(1)] by simp
next
  case False
  then have "\<not> is_space (last v)" using trim_space_ends(2) [of v] assms(2) by simp
  then show ?thesis using False word_start [OF assms(1)] by (simp add: trim_space_id)
qed

lemma global_directive_line:
  assumes k: "plain_word k" and v: "clear_value v"
  shows "global_directive (k @ '' '' @ v) = (if to_lower k \<in> {''host'', ''match''} then None else Some (k, v))"
proof -
  note w = word_start [OF k]
  have trim: "trim_space (k @ CHR '' '' # v) = (if v = [] then k else k @ CHR '' '' # v)"
    using trim_word_value [OF k, of v] v by (simp add: clear_value_def)
  have pre: "\<not> has_prefix (k @ x) ''#''" "\<not> has_prefix (k @ x) '' ''" "\<not> has_prefix (k @ x) [tab]" for x
    using w by (cases k; auto simp: has_prefix_def)+
  have cut: "cut_at (CHR '' '') (k @ '' '' @ v) = (k, Some v)" "cut_at (CHR '' '') k = (k, None)"
    using cut_at_append [of "CHR '' ''" k v] cut_at_none w(4) by simp_all
  show ?thesis
  proof (cases "v = []")
    case True
    then show ?thesis
      using w(1) pre(1) [of "[]"] pre [of "'' ''"] cut trim by (simp add: global_directive_def split_n2_def Let_def)
  next
    case False
    then show ?thesis
      using w(1) pre [of "'' '' @ v"] v cut trim by (simp add: global_directive_def split_n2_def clear_value_def Let_def)
  qed
qed

lemma directives_directive:
  assumes "plain_word k" and "clear_value v"
  shows "directives_of (directive_text k v @ rest) = (if to_lower k \<in> {''host'', ''match''} then [] else [(k, v)]) @ directives_of rest"
proof -
  have "newline \<notin> set (k @ '' '' @ v)" using word_start(5) [OF assms(1)] assms(2) by (simp add: clear_value_def)
  from directives_line [OF this, of rest] show ?thesis
    using global_directive_line [OF assms] by (simp add: directive_text_def)
qed

lemma directives_blank [simp]: "directives_of (newline # rest) = directives_of rest"
  using directives_line [of "[]" rest] by (simp add: global_directive_def)

lemma comment_trimmed:
  assumes "has_prefix c ''#''"
  shows "has_prefix (trim_space c) ''#''" and "trim_space c \<noteq> []"
proof -
  obtain s where c: "c = CHR ''#'' # s" using assms by (auto simp: has_prefix_iff)
  have hash: "\<not> is_space (CHR ''#'')" by code_simp
  have "trim_space c = trim_right c" using hash by (simp add: c trim_space_def trim_left_def)
  moreover show "trim_space c \<noteq> []" using hash by (auto simp: trim_space_Nil_iff c)
  ultimately have "hd (trim_space c) = CHR ''#''" using hd_trim_right [of c] by (simp add: c)
  with \<open>trim_space c \<noteq> []\<close> show "has_prefix (trim_space c) ''#''" by (cases "trim_space c") (auto simp: has_prefix_def)
qed

lemma directives_comment:
  assumes "has_prefix c ''#''" and "newline \<notin> set c"
  shows "directives_of (c @ newline # rest) = directives_of rest"
  using directives_line [OF assms(2)] comment_trimmed [OF assms(1)] by (simp add: global_directive_def)

lemma directives_children:
  assumes "list_all (\<lambda>ch. newline \<notin> set (ch_Key ch) \<and> newline \<notin> set (ch_Value ch)) chs"
  shows "directives_of (concat (map (\<lambda>ch. ''    '' @ directive_text (ch_Key ch) (ch_Value ch)) chs) @ rest) = directives_of rest"
  using assms
proof (induction chs)
  case (Cons ch chs)
  let ?l = "''    '' @ ch_Key ch @ '' '' @ ch_Value ch"
  have "global_directive ?l = None" by (simp add: global_directive_def)
  moreover have "newline \<notin> set ?l" using Cons.prems by simp
  ultimately have "directives_of (?l @ newline # r) = directives_of r" for r
    using directives_line [of ?l r] by simp
  then show ?case using Cons by (simp add: directive_text_def)
qed simp

lemma directives_kept:
  assumes "line_ok l"
  shows "directives_of (kept_line l @ rest) = top_of [l] @ directives_of rest"
proof -
  have comment: "directives_of ((if li_Comment l \<noteq> [] then li_Comment l @ [newline] else []) @ r) = directives_of r" for r
    using assms directives_comment by (auto simp: line_ok_def)
  have chs: "directives_of ((if block_line l then concat (map (\<lambda>ch. ''    '' @ directive_text (ch_Key ch) (ch_Value ch)) (li_Children l)) else []) @ r)
      = directives_of r" for r
    using assms directives_children by (auto simp: line_ok_def)
  show ?thesis
  proof (cases "li_Key l = []")
    case True
    then show ?thesis using comment [of rest] by (simp add: kept_line_def top_of_def)
  next
    case False
    then have kv: "plain_word (li_Key l)" "clear_value (li_Value l)" using assms by (auto simp: line_ok_def)
    have "directives_of (kept_line l @ rest) = (if to_lower (li_Key l) \<in> {''host'', ''match''} then [] else [(li_Key l, li_Value l)]) @ directives_of rest"
      unfolding kept_line_def append_assoc comment using False directives_directive [OF kv] chs [of rest] by simp
    then show ?thesis using False by (simp add: top_of_def block_line_def)
  qed
qed

definition named :: "string \<Rightarrow> string \<times> string \<Rightarrow> bool" where
  "named key d \<longleftrightarrow> equal_fold (fst d) key"

lemma top_of_Cons: "top_of (l # ls) = top_of [l] @ top_of ls"
  by (simp add: top_of_def)

lemma hits_named:
  assumes "plain_word key"
  shows "hits key l \<Longrightarrow> filter (named key) (top_of [l]) = top_of [l] \<and> top_of [l] \<noteq> []"
    and "\<not> hits key l \<Longrightarrow> filter (named key) (top_of [l]) = []"
  using word_start(1) [OF assms] by (auto simp: hits_def top_of_def named_def equal_fold_def to_lower_def)

lemma set_loop_directives:
  assumes "list_all line_ok ls" and key: "plain_word key" "to_lower key \<notin> {''host'', ''match''}" and v: "clear_value v"
  shows "filter (\<lambda>d. \<not> named key d) (directives_of (set_loop key v found ls)) = filter (\<lambda>d. \<not> named key d) (top_of ls) \<and>
    (\<exists>n. filter (named key) (directives_of (set_loop key v found ls)) = replicate n (key, v) \<and> (found \<or> 0 < n))"
  using assms(1)
proof (induction ls arbitrary: found)
  case Nil
  have "directives_of (directive_text key v) = [(key, v)]" "directives_of [] = []"
    using directives_directive [OF key(1) v, of "[]"] key(2)
    by (simp_all add: directives_of_def split_on_none map_filter_simps global_directive_def)
  moreover have "named key (key, v)" by (simp add: named_def)
  ultimately show ?case by (cases found) (auto simp: top_of_def intro: exI [of _ 0] exI [of _ 1])
next
  case (Cons l ls)
  note first = directives_directive [OF key(1) v] and kept = directives_kept
  have l: "line_ok l" "list_all line_ok ls" using Cons.prems by simp_all
  have me: "named key (key, v)" by (simp add: named_def)
  from Cons.IH [OF l(2)] obtain n0 n1 where IH:
    "filter (\<lambda>d. \<not> named key d) (directives_of (set_loop key v True ls)) = filter (\<lambda>d. \<not> named key d) (top_of ls)"
    "filter (\<lambda>d. \<not> named key d) (directives_of (set_loop key v found ls)) = filter (\<lambda>d. \<not> named key d) (top_of ls)"
    "filter (named key) (directives_of (set_loop key v True ls)) = replicate n1 (key, v)"
    "filter (named key) (directives_of (set_loop key v found ls)) = replicate n0 (key, v)" "found \<or> 0 < n0"
    by blast
  show ?case
  proof (cases "hits key l")
    case True
    note h = hits_named(1) [OF key(1) True]
    have "filter (\<lambda>d. \<not> named key d) (top_of [l]) = []" using h by (metis (mono_tags, lifting) filter_False filter_id_conv)
    then show ?thesis
      unfolding top_of_Cons [of l ls] using True key(2) me IH first by (auto simp: intro: exI [of _ "Suc n1"])
  next
    case False
    note h = hits_named(2) [OF key(1) False]
    show ?thesis
    proof (cases "\<not> found \<and> managed_begin l")
      case True
      then have "directives_of (set_loop key v found (l # ls)) = (key, v) # top_of [l] @ directives_of (set_loop key v True ls)"
        using False key(2) first kept [OF l(1)] by simp
      then show ?thesis
        unfolding top_of_Cons [of l ls] using me IH h by (auto intro: exI [of _ "Suc n1"])
    next
      case no: False
      have "directives_of (set_loop key v found (l # ls)) = top_of [l] @ directives_of (set_loop key v found ls)"
        using False no kept [OF l(1)] by auto
      then show ?thesis
        unfolding top_of_Cons [of l ls] using IH h by (auto intro: exI [of _ n0])
    qed
  qed
qed

lemma saved_read:
  assumes "save_cc sc c t = (t', None)" and "sshconf_files sc render"
    and "cc_path c = d @ slash # n" "clean_dir d" "plain_elem n" "\<not> refuse t (CRead (cc_path c))"
  shows "t_read_file (cc_path c) t' = Inr (render (cc_config c))"
  using save_cc_ok(1,2) [OF assms(1-5)] assms(6) by (auto simp: t_read_file_def)


text \<open>Deleting one removes every directive of that name and no other.\<close>

theorem delete_global_directive:
  assumes run: "DeleteGlobalDirective sc key c t = (c', t', None)"
    and lib: "sshconf_files sc render" and key: "plain_word key"
    and lines: "list_all line_ok (sc_Lines sc (cc_config c))"
    and path: "cc_path c = d @ slash # n" "clean_dir d" "plain_elem n" "\<not> refuse t (CRead (cc_path c))"
  shows "GetGlobalDirectives c' t' = Inr (filter (\<lambda>d. \<not> named key d) (top_of (sc_Lines sc (cc_config c))))"
proof -
  let ?lines = "sc_Lines sc (cc_config c)"
  let ?text = "concat (map kept_line (filter (\<lambda>l. \<not> hits key l) ?lines))"
  define c1 where "c1 = c\<lparr>cc_config := sc_ParseConfig sc ?text\<rparr>"
  have save: "save_cc sc c1 t = (t', None)" and c': "c' = c1"
    using run by (auto simp: DeleteGlobalDirective_def Let_def c1_def split: prod.splits if_splits)
  have "cc_path c1 = d @ slash # n" "\<not> refuse t (CRead (cc_path c1))" using path by (simp_all add: c1_def)
  from saved_read [OF save lib this(1) path(2,3) this(2)] lib
  have "GetGlobalDirectives c' t' = Inr (directives_of ?text)"
    by (simp add: GetGlobalDirectives_def c' c1_def sshconf_files_def)
  moreover have "directives_of (concat (map kept_line (filter (\<lambda>l. \<not> hits key l) ls))) = filter (\<lambda>d. \<not> named key d) (top_of ls)"
    if "list_all line_ok ls" for ls
    using that
  proof (induction ls)
    case Nil
    show ?case by (simp add: top_of_def directives_of_def split_on_none map_filter_simps global_directive_def)
  next
    case (Cons l ls)
    note h = hits_named [OF key, of l]
    have "filter (\<lambda>d. \<not> named key d) (top_of [l]) = (if hits key l then [] else top_of [l])"
      using h by (auto simp: filter_empty_conv filter_id_conv)
    then show ?case unfolding top_of_Cons [of l ls] using Cons directives_kept [of l] by simp
  qed
  ultimately show ?thesis using lines by simp
qed

section \<open>Two behaviours to know about\<close>

text \<open>
  As a comment of the code says, the library takes lines that follow a block to be part of it, indented
  or not.
\<close>

definition groups_after_block :: "'cfg sshconf_lib \<Rightarrow> bool" where
  "groups_after_block sc \<longleftrightarrow> (\<forall>a k v ls l. sc_Lines sc (sc_ParseConfig sc a) = ls @ [l] \<and> block_line l \<and> ends_line a
     \<and> plain_word k \<and> plain_value v \<and> to_lower k \<notin> {''host'', ''match''} \<longrightarrow>
     sc_Lines sc (sc_ParseConfig sc (a @ directive_text k v)) =
       ls @ [l\<lparr>li_Children := li_Children l @ [child_of (k, v)]\<rparr>])"

lemma set_loop_new:
  "list_all (\<lambda>l. \<not> hits key l \<and> \<not> managed_begin l) ls \<Longrightarrow>
   set_loop key v False ls = concat (map kept_line ls) @ directive_text key v"
  by (induction ls) auto

lemma plain_value_clear: "plain_value v \<Longrightarrow> clear_value v"
  by (auto simp: plain_value_def clear_value_def list_all_iff)

lemma kept_children:
  "block_line l \<Longrightarrow> kept_line (l\<lparr>li_Children := li_Children l @ [child_of (k, v)]\<rparr>) =
    kept_line l @ ''    '' @ directive_text k v"
  by (auto simp: kept_line_def block_line_def child_of_def to_lower_def)

lemma directives_kept_lines:
  "list_all line_ok xs \<Longrightarrow> directives_of (concat (map kept_line xs) @ rest) = top_of xs @ directives_of rest"
proof (induction xs)
  case (Cons x xs)
  then show ?case using directives_kept [of x] by (simp add: top_of_Cons [of x xs])
qed (simp add: top_of_def)

text \<open>
  In a file that ends with a block, a global directive that was set is lost as a global directive by
  setting the next one: the first one was written after the block, is read back as one of its options, and is written
  indented into the block, where it applies to these hosts only.
\<close>

theorem directive_captured_by_block:
  assumes first: "SetGlobalDirective sc k v c t = (c1, t1, None)" and second: "SetGlobalDirective sc k2 v2 c1 t1 = (c2, t2, None)"
    and lib: "sshconf_files sc render" "groups_after_block sc"
    and lines: "sc_Lines sc (cc_config c) = ls @ [l]" "block_line l" "list_all line_ok (ls @ [l])"
      "list_all (\<lambda>l. \<not> managed_begin l \<and> \<not> hits k l \<and> \<not> hits k2 l) (ls @ [l])"
    and printed: "sc_Lines sc (sc_ParseConfig sc (concat (map kept_line (ls @ [l])))) = ls @ [l]"
      "ends_line (concat (map kept_line (ls @ [l])))"
    and k: "plain_word k" "to_lower k \<notin> {''host'', ''match''}" "plain_value v"
    and k2: "plain_word k2" "to_lower k2 \<notin> {''host'', ''match''}" "plain_value v2"
    and path: "cc_path c = d @ slash # n" "clean_dir d" "plain_elem n" "\<not> refuse t (CRead (cc_path c))"
  shows "GetGlobalDirectives c1 t1 = Inr (top_of ls @ [(k, v)]) \<and> GetGlobalDirectives c2 t2 = Inr (top_of ls @ [(k2, v2)])"
proof -
  let ?old = "concat (map kept_line (ls @ [l]))"
  let ?l1 = "l\<lparr>li_Children := li_Children l @ [child_of (k, v)]\<rparr>"
  have top: "top_of (ls @ [x]) = top_of ls" if "block_line x" for x using that by (simp add: top_of_def)
  have end': "directives_of (directive_text key val) = [(key, val)]"
    if "plain_word key" "plain_value val" "to_lower key \<notin> {''host'', ''match''}" for key val
    using directives_directive [OF that(1) plain_value_clear [OF that(2)], of "[]"] that(3)
    by (simp add: directives_of_def split_on_none map_filter_simps global_directive_def)
  have read: "GetGlobalDirectives c' t' = Inr (directives_of s)"
    if "save_cc sc c' u = (t', None)" "cc_config c' = sc_ParseConfig sc s" "cc_path c' = cc_path c" "refuse u = refuse t" for c' u t' s
    using saved_read [OF that(1) lib(1) _ path(2,3)] that path lib(1) by (simp add: GetGlobalDirectives_def sshconf_files_def)
  define c1' where "c1' = c\<lparr>cc_config := sc_ParseConfig sc (?old @ directive_text k v)\<rparr>"
  have set1: "set_loop k v False (sc_Lines sc (cc_config c)) = ?old @ directive_text k v"
    unfolding lines(1) using lines(4) by (intro set_loop_new) (auto simp: list_all_iff)
  then have c1: "c1 = c1'" and save1: "save_cc sc c1 t = (t1, None)"
    using first by (auto simp: SetGlobalDirective_def Let_def c1'_def split: prod.splits)
  have path1: "cc_path c1 = cc_path c" by (simp add: c1 c1'_def)
  have refuse1: "refuse t1 = refuse t" using save_cc_ok(2) [OF save1 lib(1) _ path(2,3)] path1 path(1) by simp
  have lines1: "sc_Lines sc (cc_config c1) = ls @ [?l1]"
  proof -
    have "sc_Lines sc (sc_ParseConfig sc (?old @ directive_text k v)) = ls @ [?l1]"
      by (rule lib(2) [unfolded groups_after_block_def, rule_format]) (intro conjI printed lines(2) k)
    then show ?thesis by (simp add: c1 c1'_def)
  qed
  have unhit: "\<not> hits k2 ?l1" "\<not> managed_begin ?l1" "block_line ?l1" "line_ok ?l1"
    using lines(2,3,4) word_start(5) [OF k(1)] k(3)
    by (auto simp: hits_def managed_begin_def block_line_def line_ok_def child_of_def plain_value_def list_all_iff)
  let ?new = "concat (map kept_line (ls @ [?l1]))"
  have set2: "set_loop k2 v2 False (sc_Lines sc (cc_config c1)) = ?new @ directive_text k2 v2"
    unfolding lines1 using lines(4) unhit by (intro set_loop_new) (auto simp: list_all_iff)
  then have save2: "save_cc sc c2 t1 = (t2, None)" "cc_config c2 = sc_ParseConfig sc (?new @ directive_text k2 v2)" "cc_path c2 = cc_path c1"
    using second by (auto simp: SetGlobalDirective_def Let_def split: prod.splits)
  have "GetGlobalDirectives c1 t1 = Inr (directives_of (?old @ directive_text k v))"
    by (rule read [OF save1 _ path1 refl]) (simp add: c1 c1'_def)
  moreover have "GetGlobalDirectives c2 t2 = Inr (directives_of (?new @ directive_text k2 v2))"
    using read [OF save2(1,2)] save2(3) path1 refuse1 by simp
  moreover have "list_all line_ok (ls @ [?l1])" using lines(3) unhit(4) by simp
  ultimately show ?thesis
    using directives_kept_lines [OF lines(3)] directives_kept_lines [of "ls @ [?l1]"] end' [OF k(1,3,2)] end' [OF k2(1,3,2)] top [OF lines(2)] top [OF unhit(3)] by simp
qed

text \<open>
  \<open>Update\<close> looks for the ID of a block with the alias as its only pattern, so a host with several patterns
  is found by its alias and then not updated (unless SHA-256 collides).
\<close>

theorem update_several_patterns:
  assumes e: "find (\<lambda>e. ce_Type e = EntryTypeHost \<and> ce_Patterns e \<noteq> [] \<and> hd (ce_Patterns e) = alias) (ListEntries sc sha c) = Some e"
    and several: "list_all (\<lambda>f. take 12 (sha (''1:'' @ alias @ '':'')) \<noteq> ce_ID f) (ListEntries sc sha c)"
  shows "\<exists>msg. Update_cc sc sha alias h c t = (c, t, Some msg)"
proof -
  have "he_Alias (toHostEntry e) = alias"
    using e by (auto simp: find_Some_iff toHostEntry_def Let_def neq_Nil_conv)
  moreover have "itoa 1 = ''1''" by code_simp
  moreover have "find (\<lambda>f. ce_ID f = take 12 (sha (''1:'' @ alias @ '':''))) (ListEntries sc sha c) = None"
    using several by (auto simp: find_None_iff list_all_iff)
  ultimately show ?thesis
    using e by (simp add: Update_cc_def Get_cc_def UpdateEntry_def GetEntry_def generateEntryID_def EntryTypeHost_def Let_def)
qed

end
