(* ===== verification/ClientConfigExample.thy ===== *)
theory ClientConfigExample
  imports ClientConfig
begin

text \<open>
  The assumptions on \<open>sshconf\<close> that the properties of \<open>ClientConfig\<close> make can hold: a small parser of
  the format, which keeps the text and groups the lines after a block with it, has them all.  The
  properties are applied to it at concrete files.
\<close>

section \<open>A parser\<close>

definition demo_kv :: "string \<Rightarrow> string \<times> string" where
  "demo_kv l = (case cut_at (CHR '' '') (trim_space l) of (k, None) \<Rightarrow> (k, []) | (k, Some v) \<Rightarrow> (k, trim_space v))"

definition demo_comment :: "string \<Rightarrow> bool" where
  "demo_comment l \<longleftrightarrow> has_prefix (trim_space l) ''#''"

definition demo_header :: "string \<Rightarrow> bool" where
  "demo_header l \<longleftrightarrow> \<not> demo_comment l \<and> to_lower (fst (demo_kv l)) \<in> {''host'', ''match''}"

definition demo_line :: "string \<Rightarrow> string list \<Rightarrow> cfg_line" where
  "demo_line l children =
     (if demo_comment l then \<lparr>li_Key = [], li_Value = [], li_Comment = trim_space l, li_Children = []\<rparr>
      else \<lparr>li_Key = fst (demo_kv l), li_Value = snd (demo_kv l), li_Comment = [],
        li_Children = map (\<lambda>c. child_of (demo_kv c)) (filter (\<lambda>c. \<not> demo_comment c) children)\<rparr>)"

text \<open>From the last line to the first: the lines since the last header, and what is complete.\<close>

definition demo_step :: "string \<Rightarrow> string list \<times> cfg_line list \<Rightarrow> string list \<times> cfg_line list" where
  "demo_step l po = (if demo_header l then ([], demo_line l (fst po) # snd po) else (l # fst po, snd po))"

definition demo_group :: "string list \<Rightarrow> cfg_line list" where
  "demo_group ls = (let po = foldr demo_step ls ([], []) in map (\<lambda>l. demo_line l []) (fst po) @ snd po)"

definition full_lines :: "string \<Rightarrow> string list" where
  "full_lines s = filter (\<lambda>l. trim_space l \<noteq> []) (split_on newline s)"

definition demo_sshconf :: "string sshconf_lib" where
  "demo_sshconf = \<lparr>sc_ParseConfig = (\<lambda>s. s),
     sc_ParseConfigFile = (\<lambda>p t. case t_read_file p t of Inl e \<Rightarrow> Inl (ioerr_msg e) | Inr s \<Rightarrow> Inr s),
     sc_Lines = (\<lambda>s. demo_group (full_lines s)),
     sc_Patch = (\<lambda>h b s. s @ (if ends_line s then [] else [newline]) @ b),
     sc_Delete = (\<lambda>h s. s),
     sc_WriteFile = (\<lambda>p s t. case t_write_file p s 384 t of (t', e) \<Rightarrow> (t', map_option ioerr_msg e))\<rparr>"

lemma demo_sshconf_simps [simp]:
  "sc_ParseConfig demo_sshconf s = s" "sc_Lines demo_sshconf s = demo_group (full_lines s)"
  by (simp_all add: demo_sshconf_def)

section \<open>The files\<close>

lemma demo_files: "sshconf_files demo_sshconf (\<lambda>s. s)"
proof -
  have "refuse t' = refuse t \<and> (\<forall>q. q \<noteq> p \<longrightarrow> look t' q = look t q) \<and> (\<exists>m. look t' p = Some (File s m))"
    if "t_write_file p s 384 t = (t', None)" for p s t t'
    using t_write_file_ok [OF that] by auto
  moreover have "q \<noteq> p \<longrightarrow> look t' q = look t q" if "t_write_file p s 384 t = (t', Some e)" for p s t t' e q
    using t_write_file_err(1) [OF that] by auto
  ultimately show ?thesis
    unfolding sshconf_files_def demo_sshconf_def by (auto split: prod.splits)
qed

section \<open>The lines\<close>

lemma full_lines_newline: "full_lines (a @ newline # b) = full_lines a @ full_lines b"
  by (simp add: full_lines_def split_on_append_sep)

lemma full_lines_Nil [simp]: "full_lines [] = []"
  by (simp add: full_lines_def split_on_none)

lemma full_lines_append: "ends_line a \<Longrightarrow> full_lines (a @ b) = full_lines a @ full_lines b"
  using full_lines_newline [of "butlast a" b] full_lines_newline [of "butlast a" "[]"]
  by (cases a rule: rev_cases) (auto simp: ends_line_def)

lemma full_lines_line: "newline \<notin> set l \<Longrightarrow> trim_space l \<noteq> [] \<Longrightarrow> full_lines (l @ newline # rest) = l # full_lines rest"
  by (simp add: full_lines_newline) (simp add: full_lines_def split_on_none)

lemma foldr_demo_step:
  "foldr demo_step ls (p, out @ out2) = (fst (foldr demo_step ls (p, out)), snd (foldr demo_step ls (p, out)) @ out2)"
  by (induction ls) (auto simp: demo_step_def)

lemma foldr_no_header: "list_all (\<lambda>l. \<not> demo_header l) ls \<Longrightarrow> foldr demo_step ls (p, out) = (ls @ p, out)"
  by (induction ls) (auto simp: demo_step_def)

lemma demo_group_block:
  assumes "demo_header h" and "list_all (\<lambda>l. \<not> demo_header l) opts"
  shows "demo_group (xs @ h # opts) = demo_group xs @ [demo_line h opts]"
  using assms foldr_demo_step [of xs "[]" "[]" "[demo_line h opts]"]
  by (simp add: demo_group_def foldr_no_header) (simp add: demo_step_def Let_def)

text \<open>A line appended to a text that ends with a block belongs to the block.\<close>

lemma block_line_demo: "block_line (demo_line l cs) \<longleftrightarrow> demo_header l"
  by (auto simp: block_line_def demo_line_def demo_header_def to_lower_def)

lemma demo_group_tail:
  assumes g: "demo_group ls = out @ [b]" and b: "block_line b" and x: "\<not> demo_header x" "\<not> demo_comment x"
  shows "demo_group (ls @ [x]) = out @ [b\<lparr>li_Children := li_Children b @ [child_of (demo_kv x)]\<rparr>]"
proof (cases "list_all (\<lambda>l. \<not> demo_header l) ls")
  case True
  then have "demo_group ls = map (\<lambda>l. demo_line l []) ls" by (simp add: demo_group_def foldr_no_header)
  with g have "b \<in> set (map (\<lambda>l. demo_line l []) ls)" by simp
  then show ?thesis using True b by (auto simp: block_line_demo list_all_iff)
next
  case False
  then obtain ys h zs where ls: "ls = ys @ h # zs" "demo_header h" "\<forall>l \<in> set zs. \<not> demo_header l"
    using split_list_last_prop [of ls demo_header] by (auto simp: list_all_iff)
  then have z: "list_all (\<lambda>l. \<not> demo_header l) zs" "list_all (\<lambda>l. \<not> demo_header l) (zs @ [x])"
    using x by (auto simp: list_all_iff)
  have "demo_group ls = demo_group ys @ [demo_line h zs]" unfolding ls(1) by (rule demo_group_block [OF ls(2) z(1)])
  with g have "out = demo_group ys" "b = demo_line h zs" by simp_all
  moreover have "demo_group (ls @ [x]) = demo_group ys @ [demo_line h (zs @ [x])]"
    using demo_group_block [OF ls(2) z(2)] by (simp add: ls(1))
  moreover have "demo_line h (zs @ [x]) = (demo_line h zs)\<lparr>li_Children := li_Children (demo_line h zs) @ [child_of (demo_kv x)]\<rparr>"
    using ls(2) x(2) by (simp add: demo_line_def demo_header_def)
  ultimately show ?thesis by simp
qed

section \<open>Plain lines\<close>

lemma trim_left_spaces: "trim_space (CHR '' '' # l) = trim_space l"
  by simp

text \<open>An option or header line, whatever its indentation.\<close>

lemma demo_plain_line:
  assumes k: "plain_word k" and v: "plain_value v" and ind: "list_all is_space ind"
  shows "demo_kv (ind @ k @ '' '' @ v) = (k, v)" and "\<not> demo_comment (ind @ k @ '' '' @ v)"
    and "trim_space (ind @ k @ '' '' @ v) \<noteq> []"
proof -
  note w = word_start [OF k]
  have v': "trim_space v = v" "v \<noteq> []" using v by (simp_all add: plain_value_def)
  have "trim_space (ind @ k @ '' '' @ v) = trim_space (k @ '' '' @ v)"
    using ind by (induction ind) simp_all
  also have "\<dots> = k @ CHR '' '' # v" using trim_word_value [OF k v'(1)] v'(2) by simp
  finally have trim: "trim_space (ind @ k @ '' '' @ v) = k @ CHR '' '' # v" .
  show "demo_kv (ind @ k @ '' '' @ v) = (k, v)"
    unfolding demo_kv_def trim using cut_at_append [OF w(4)] v' by simp
  show "\<not> demo_comment (ind @ k @ '' '' @ v)" "trim_space (ind @ k @ '' '' @ v) \<noteq> []"
    unfolding demo_comment_def trim using w by (cases k; auto simp: has_prefix_def)+
qed

section \<open>Blocks\<close>

lemma join_plain_value:
  assumes "ws \<noteq> []" and "list_all plain_word ws"
  shows "plain_value (join '' '' ws)"
proof -
  have w: "w \<noteq> [] \<and> (\<forall>c \<in> set w. \<not> is_space c \<and> c \<notin> set ''#\"'')" if "w \<in> set ws" for w
    using assms(2) that by (auto simp: plain_word_def list_all_iff)
  have ne: "join '' '' ws \<noteq> [] \<and> hd (join '' '' ws) = hd (hd ws) \<and> last (join '' '' ws) = last (last ws)"
    using assms(1) w
  proof (induction ws)
    case (Cons x xs)
    show ?case
    proof (cases "xs = []")
      case True
      then show ?thesis using Cons.prems by simp
    next
      case False
      have "\<And>w. w \<in> set xs \<Longrightarrow> w \<noteq> [] \<and> (\<forall>c \<in> set w. \<not> is_space c \<and> c \<notin> set ''#\"'')" using Cons.prems(2) by (metis list.set_intros(2))
      from Cons.IH [OF False this] have "join '' '' xs \<noteq> []" "last (join '' '' xs) = last (last xs)" by simp_all
      then show ?thesis using Cons.prems(2) [of x] False by (simp add: join_Cons)
    qed
  qed simp
  have "\<not> is_space (hd (hd ws))" "\<not> is_space (last (last ws))"
    using w [of "hd ws"] w [of "last ws"] assms(1) by simp_all
  then have "trim_space (join '' '' ws) = join '' '' ws" using ne by (intro trim_space_id) simp_all
  moreover have "c \<noteq> newline \<and> c \<notin> set ''#\"''" if "c \<in> set (join '' '' ws)" for c
    using set_join [of "'' ''" ws] that w by (auto simp: is_space_def)
  ultimately show ?thesis using ne by (auto simp: plain_value_def list_all_iff)
qed

definition option_lines :: "SSHConfigEntry \<Rightarrow> string list" where
  "option_lines e = map (\<lambda>(k, v). ''    '' @ k @ '' '' @ v) (option_pairs (ce_Options e))"

lemma header_line:
  "getEntryHeader e = [] @ (if ce_Type e = EntryTypeMatch then ''Match'' else ''Host'') @ '' '' @ join '' '' (ce_Patterns e)"
  by (simp add: getEntryHeader_def)

lemma plain_headers: "plain_word ''Match''" "plain_word ''Host''"
  by code_simp+

lemma plain_no_newline: "plain_word k \<Longrightarrow> plain_value v \<Longrightarrow> newline \<notin> set (''    '' @ k @ '' '' @ v)"
  using word_start(5) [of k] by (auto simp: plain_value_def list_all_iff)

lemma four_spaces: "list_all is_space ''    ''"
  by code_simp

lemma entry_pairs:
  "entry_ok e \<Longrightarrow> (k, v) \<in> set (option_pairs (ce_Options e)) \<Longrightarrow> plain_word k \<and> plain_value v \<and> to_lower k \<notin> {''host'', ''match''}"
  unfolding entry_ok_def list_all_iff by blast

lemma entry_header:
  assumes "entry_ok e"
  shows "demo_header (getEntryHeader e)" and "newline \<notin> set (getEntryHeader e)" and "trim_space (getEntryHeader e) \<noteq> []"
    and "demo_kv (getEntryHeader e) = (if ce_Type e = EntryTypeMatch then ''Match'' else ''Host'', join '' '' (ce_Patterns e))"
    and "\<not> demo_comment (getEntryHeader e)"
proof -
  let ?k = "if ce_Type e = EntryTypeMatch then ''Match'' else ''Host''"
  have v: "plain_value (join '' '' (ce_Patterns e))" using assms by (intro join_plain_value) (simp_all add: entry_ok_def)
  have k: "plain_word ?k" using plain_headers by simp
  have line: "demo_kv (getEntryHeader e) = (?k, join '' '' (ce_Patterns e))" "\<not> demo_comment (getEntryHeader e)"
    "trim_space (getEntryHeader e) \<noteq> []"
    using demo_plain_line [OF k v, of "[]"] unfolding header_line by simp_all
  then show "demo_header (getEntryHeader e)" by (simp add: demo_header_def)
  show "newline \<notin> set (getEntryHeader e)" using plain_no_newline [OF k v] by (simp add: header_line)
  show "trim_space (getEntryHeader e) \<noteq> []" "demo_kv (getEntryHeader e) = (?k, join '' '' (ce_Patterns e))"
    "\<not> demo_comment (getEntryHeader e)" by (fact line)+
qed

lemma entry_options:
  assumes "entry_ok e" and "l \<in> set (option_lines e)"
  shows "\<not> demo_header l" and "newline \<notin> set l" and "trim_space l \<noteq> []" and "\<not> demo_comment l"
proof -
  obtain k v where kv: "(k, v) \<in> set (option_pairs (ce_Options e))" and l: "l = ''    '' @ k @ '' '' @ v"
    using assms(2) by (auto simp: option_lines_def)
  note ok = entry_pairs [OF assms(1) kv]
  note p = demo_plain_line [of k v "''    ''", OF _ _ four_spaces]
  show "\<not> demo_header l" "trim_space l \<noteq> []" "\<not> demo_comment l"
    unfolding l demo_header_def using p ok by auto
  show "newline \<notin> set l" unfolding l using plain_no_newline ok by blast
qed

lemma full_lines_each:
  "list_all (\<lambda>l. newline \<notin> set l \<and> trim_space l \<noteq> []) ls \<Longrightarrow> full_lines (unlines ls @ rest) = ls @ full_lines rest"
  by (induction ls) (simp_all add: full_lines_line)

lemma build_unlines: "buildEntryBlock e = unlines (getEntryHeader e # option_lines e)"
  by (simp add: buildEntryBlock_def option_lines_def unlines_def comp_def split_def)

lemma full_lines_block:
  "entry_ok e \<Longrightarrow> full_lines (buildEntryBlock e @ rest) = getEntryHeader e # option_lines e @ full_lines rest"
  unfolding build_unlines using entry_header entry_options
  by (subst full_lines_each) (auto simp: list_all_iff)

lemma demo_line_entry:
  assumes "entry_ok e"
  shows "demo_line (getEntryHeader e) (option_lines e) = entry_line e"
proof -
  have "map (\<lambda>c. child_of (demo_kv c)) (filter (\<lambda>c. \<not> demo_comment c) (option_lines e)) = map (\<lambda>c. child_of (demo_kv c)) (option_lines e)"
    using entry_options(4) [OF assms] by (simp add: filter_True)
  also have "\<dots> = map child_of (option_pairs (ce_Options e))"
    unfolding option_lines_def map_map
  proof (rule map_cong [OF refl])
    fix kv assume kv: "kv \<in> set (option_pairs (ce_Options e))"
    then have "plain_word (fst kv)" "plain_value (snd kv)" using entry_pairs [OF assms, of "fst kv" "snd kv"] by simp_all
    from demo_plain_line(1) [OF this four_spaces]
    show "((\<lambda>c. child_of (demo_kv c)) \<circ> (\<lambda>(k, v). ''    '' @ k @ '' '' @ v)) kv = child_of kv"
      by (simp add: split_def)
  qed
  finally show ?thesis using entry_header(4,5) [OF assms] by (simp add: demo_line_def entry_line_def)
qed

lemma demo_group_entry:
  assumes "entry_ok e"
  shows "demo_group (xs @ getEntryHeader e # option_lines e) = demo_group xs @ [entry_line e]"
  using demo_group_block [OF entry_header(1) [OF assms], of "option_lines e" xs] entry_options(1) [OF assms]
  by (simp add: demo_line_entry [OF assms] list_all_iff)

section \<open>The assumptions hold\<close>

lemma demo_patch: "patch_adds demo_sshconf"
  unfolding patch_adds_def
proof (intro allI impI)
  fix cfg e assume e: "entry_ok e \<and> list_all (\<lambda>l. \<not> same_header e l) (sc_Lines demo_sshconf cfg)"
  let ?pre = "cfg @ (if ends_line cfg then [] else [newline])"
  have "ends_line ?pre" "full_lines ?pre = full_lines cfg"
    using full_lines_newline [of cfg "[]"] by (auto simp: ends_line_def)
  then have "full_lines (?pre @ buildEntryBlock e @ []) = full_lines cfg @ getEntryHeader e # option_lines e @ []"
    using full_lines_append [of ?pre "buildEntryBlock e @ []"] full_lines_block [of e "[]"] e by (simp only: append_assoc) simp
  moreover have "sc_Patch demo_sshconf (getEntryHeader e) (buildEntryBlock e) cfg = ?pre @ buildEntryBlock e"
    by (simp add: demo_sshconf_def)
  ultimately have "sc_Lines demo_sshconf (sc_Patch demo_sshconf (getEntryHeader e) (buildEntryBlock e) cfg) = sc_Lines demo_sshconf cfg @ [entry_line e]"
    using demo_group_entry e by simp
  then show "\<exists>xs ys. sc_Lines demo_sshconf cfg = xs @ ys \<and>
      sc_Lines demo_sshconf (sc_Patch demo_sshconf (getEntryHeader e) (buildEntryBlock e) cfg) = xs @ entry_line e # ys"
    by (intro exI [of _ "sc_Lines demo_sshconf cfg"] exI [of _ "[]"]) simp
qed

lemma demo_reads: "reads_blocks demo_sshconf"
  unfolding reads_blocks_def
proof (intro allI impI)
  fix cs es assume a: "list_all (\<lambda>c. has_prefix c ''#'' \<and> newline \<notin> set c) cs \<and> list_all entry_ok es"
  have c: "demo_comment c \<and> trim_space c \<noteq> [] \<and> newline \<notin> set c" if "c \<in> set cs" for c
    using a that comment_trimmed by (auto simp: demo_comment_def list_all_iff)
  let ?blocks = "\<lambda>es. concat (map (\<lambda>e. getEntryHeader e # option_lines e) es)"
  have "full_lines (concat (map (\<lambda>e. buildEntryBlock e @ [newline]) es)) = ?blocks es" if "list_all entry_ok es" for es
    using that
  proof (induction es)
    case (Cons e es)
    then show ?case using full_lines_block [of e] full_lines_newline [of "[]"] by simp
  qed simp
  then have "full_lines (unlines cs @ concat (map (\<lambda>e. buildEntryBlock e @ [newline]) es)) = cs @ ?blocks es"
    using a c by (subst full_lines_each) (auto simp: list_all_iff)
  moreover have "demo_group (cs @ ?blocks es) = demo_group cs @ map entry_line es" if "list_all entry_ok es" for es
    using that
  proof (induction es rule: rev_induct)
    case (snoc e es)
    then show ?case using demo_group_entry [of e "cs @ ?blocks es"] by simp
  qed simp
  moreover have "filter block_line (demo_group cs) = []"
  proof -
    have "list_all (\<lambda>l. \<not> demo_header l) cs" using c by (auto simp: list_all_iff demo_header_def)
    then show ?thesis by (simp add: demo_group_def foldr_no_header filter_empty_conv block_line_demo list_all_iff)
  qed
  moreover have "filter block_line (map entry_line es) = map entry_line es"
    using a entry_line_shape(1) by (intro filter_True) (auto simp: list_all_iff)
  ultimately show "filter block_line (sc_Lines demo_sshconf (sc_ParseConfig demo_sshconf (unlines cs @ concat (map (\<lambda>e. buildEntryBlock e @ [newline]) es))))
      = map entry_line es"
    using a by simp
qed

lemma demo_groups: "groups_after_block demo_sshconf"
  unfolding groups_after_block_def
proof (intro allI impI)
  fix a k v ls l
  assume h: "sc_Lines demo_sshconf (sc_ParseConfig demo_sshconf a) = ls @ [l] \<and> block_line l \<and> ends_line a
     \<and> plain_word k \<and> plain_value v \<and> to_lower k \<notin> {''host'', ''match''}"
  have p: "demo_kv (k @ '' '' @ v) = (k, v)" "\<not> demo_comment (k @ '' '' @ v)" "trim_space (k @ '' '' @ v) \<noteq> []"
    using demo_plain_line [of k v "[]"] h by simp_all
  then have "\<not> demo_header (k @ '' '' @ v)" using h by (simp add: demo_header_def)
  moreover have "newline \<notin> set (k @ '' '' @ v)" using plain_no_newline [of k v] h by simp
  then have "full_lines (a @ directive_text k v) = full_lines a @ [k @ '' '' @ v]"
    using full_lines_append [of a] full_lines_line [of "k @ '' '' @ v" "[]"] h p(3) by (simp add: directive_text_def)
  ultimately show "sc_Lines demo_sshconf (sc_ParseConfig demo_sshconf (a @ directive_text k v)) =
      ls @ [l\<lparr>li_Children := li_Children l @ [child_of (k, v)]\<rparr>]"
    using demo_group_tail [of "full_lines a" ls l "k @ '' '' @ v"] h p by simp
qed

section \<open>Concrete files\<close>

definition demo_ssh_config :: string where
  "demo_ssh_config = unlines [''# mine'', ''Host a'', ''    User u'', ''Host b'', ''    User v'', ''Host *'', ''    Compression yes'']"

definition demo_client :: "string \<Rightarrow> string clientConfig" where
  "demo_client s = \<lparr>cc_path = ''/s/config'', cc_config = s\<rparr>"

definition demo_home :: "string \<Rightarrow> treefs" where
  "demo_home s = \<lparr>nodes = [(''/s'', Dir), (''/s/config'', File s 384)], refuse = (\<lambda>_. False), spare = (\<lambda>_. False), short = (\<lambda>_. 0)\<rparr>"

definition demo_new :: SSHConfigEntry where
  "demo_new = \<lparr>ce_ID = [], ce_Type = 1, ce_Position = 0, ce_Patterns = [''c''], ce_Options = zero_options\<lparr>op_Hostname := ''h''\<rparr>\<rparr>"

lemma demo_place:
  "cc_path (demo_client s) = ''/s'' @ slash # ''config''" "clean_dir ''/s''" "plain_elem ''config''" "\<not> refuse (demo_home s) c"
  by (simp_all add: demo_client_def demo_home_def) code_simp+

lemma small_int64: "int64 0"
  by (simp_all add: int64_def)

lemma demo_new_ok: "entry_ok demo_new"
proof -
  have "options_ok (ce_Options demo_new)"
    using small_int64 by (simp add: options_ok_def demo_new_def zero_options_def)
  moreover have "list_all plain_word (ce_Patterns demo_new) \<and> list_all (\<lambda>(k, v). plain_word k \<and> plain_value v \<and> to_lower k \<notin> {''host'', ''match''}) (option_pairs (ce_Options demo_new))"
    by code_simp
  ultimately show ?thesis
    by (simp add: entry_ok_def) (simp add: demo_new_def EntryTypeHost_def)
qed

theorem client_add_entry_witness:
  "\<exists>c' t' e'. AddEntry demo_sshconf id demo_new 0 (demo_client demo_ssh_config) (demo_home demo_ssh_config) = (c', t', Inr e')
    \<and> ce_ID e' = ''1:c:'' \<and> (ce_ID e', 1, [''c''], norm_options (ce_Options demo_new)) \<in> set (map said (ListEntries demo_sshconf id c'))
    \<and> (\<exists>m. look t' ''/s/config.bak'' = Some (File demo_ssh_config m))"
proof -
  let ?c = "demo_client demo_ssh_config" and ?t = "demo_home demo_ssh_config"
  have "(case snd (snd (AddEntry demo_sshconf id demo_new 0 ?c ?t)) of Inr e' \<Rightarrow> ce_ID e' = ''1:c:'' | Inl _ \<Rightarrow> False)"
    by code_simp
  then obtain c' t' e' where run: "AddEntry demo_sshconf id demo_new 0 ?c ?t = (c', t', Inr e')" and ID: "ce_ID e' = ''1:c:''"
    by (cases "AddEntry demo_sshconf id demo_new 0 ?c ?t") (auto split: sum.splits)
  have new: "list_all (\<lambda>l. \<not> same_header demo_new l) (sc_Lines demo_sshconf (cc_config ?c))" by code_simp
  have old: "look ?t (cc_path ?c) = Some (File demo_ssh_config 384)" by (simp add: demo_home_def demo_client_def look_def)
  note concl = client_add_entry [OF run demo_files demo_patch demo_new_ok new demo_place(1,2,3) demo_place(4) demo_place(4), of "[]"]
  have "(ce_ID e', ce_Type demo_new, ce_Patterns demo_new, norm_options (ce_Options demo_new)) \<in> set (map said (ListEntries demo_sshconf id c'))"
  proof -
    from concl obtain xs ys where "map said (ListEntries demo_sshconf id c') =
        xs @ (ce_ID e', ce_Type demo_new, ce_Patterns demo_new, norm_options (ce_Options demo_new)) # ys"
      by (elim conjE exE) assumption
    then show ?thesis by (simp del: set_map)
  qed
  moreover have "ce_Type demo_new = 1" "ce_Patterns demo_new = [''c'']" by (simp_all add: demo_new_def)
  moreover have "\<exists>m. look t' (cc_path ?c @ ''.bak'') = Some (File demo_ssh_config m)"
    using concl old by blast
  ultimately show ?thesis using run ID by (auto simp: demo_client_def)
qed

lemma demo_entries:
  "ListEntries demo_sshconf id (demo_client demo_ssh_config) =
    [\<lparr>ce_ID = ''1:a:'', ce_Type = 1, ce_Position = 0, ce_Patterns = [''a''], ce_Options = zero_options\<lparr>op_User := ''u''\<rparr>\<rparr>,
     \<lparr>ce_ID = ''1:b:'', ce_Type = 1, ce_Position = 1, ce_Patterns = [''b''], ce_Options = zero_options\<lparr>op_User := ''v''\<rparr>\<rparr>]"
  by code_simp

theorem client_reorder_witness:
  "\<exists>c' t'. Reorder demo_sshconf id [''1:b:'', ''1:a:''] (demo_client demo_ssh_config) (demo_home demo_ssh_config) = (c', t', None)
    \<and> map ce_ID (ListEntries demo_sshconf id c') = [''1:b:'', ''1:a:'']
    \<and> length (filter block_line (sc_Lines demo_sshconf (cc_config c'))) = 2"
proof -
  let ?c = "demo_client demo_ssh_config" and ?t = "demo_home demo_ssh_config"
  have "snd (snd (Reorder demo_sshconf id [''1:b:'', ''1:a:''] ?c ?t)) = None" by code_simp
  then obtain c' t' where run: "Reorder demo_sshconf id [''1:b:'', ''1:a:''] ?c ?t = (c', t', None)"
    by (cases "Reorder demo_sshconf id [''1:b:'', ''1:a:''] ?c ?t") auto
  have opts: "options_ok (zero_options\<lparr>op_User := ''u''\<rparr>)" "options_ok (zero_options\<lparr>op_User := ''v''\<rparr>)"
    using small_int64 by (simp_all add: options_ok_def zero_options_def)
  have "list_all (\<lambda>e. list_all plain_word (ce_Patterns e) \<and> ce_Patterns e \<noteq> [] \<and> ce_Patterns e \<noteq> [''*'']
      \<and> ce_Type e \<in> {EntryTypeHost, EntryTypeMatch}
      \<and> list_all (\<lambda>(k, v). plain_word k \<and> plain_value v \<and> to_lower k \<notin> {''host'', ''match''}) (option_pairs (ce_Options e)))
      (ListEntries demo_sshconf id ?c)"
    unfolding demo_entries by code_simp
  then have ok: "list_all entry_ok (ListEntries demo_sshconf id ?c)"
    using opts unfolding demo_entries by (simp add: entry_ok_def)
  have comments: "list_all (\<lambda>l. li_Comment l \<noteq> [] \<longrightarrow> has_prefix (li_Comment l) ''#'' \<and> newline \<notin> set (li_Comment l))
      (sc_Lines demo_sshconf (cc_config ?c))"
    by code_simp
  obtain es where es: "map ce_ID es = [''1:b:'', ''1:a:'']"
      "map said (ListEntries demo_sshconf id c') = map (\<lambda>e. (ce_ID e, ce_Type e, ce_Patterns e, norm_options (ce_Options e))) es"
      "filter block_line (sc_Lines demo_sshconf (cc_config c')) = map entry_line es"
    using client_reorder [OF run demo_files demo_reads demo_place(1,2,3) demo_place(4) demo_place(4) ok comments, of "[]"]
    by (elim exE conjE) (rule that; assumption)
  have "map ce_ID (ListEntries demo_sshconf id c') = map fst (map said (ListEntries demo_sshconf id c'))"
    by (simp add: said_def comp_def)
  also have "\<dots> = map ce_ID es" unfolding es(2) by (simp add: comp_def)
  finally have "map ce_ID (ListEntries demo_sshconf id c') = [''1:b:'', ''1:a:'']" using es(1) by simp
  moreover have "length es = 2" using arg_cong [OF es(1), of length] by simp
  ultimately show ?thesis using run es(3) by auto
qed


theorem directive_captured_by_block_witness:
  "\<exists>c1 t1 c2 t2. SetGlobalDirective demo_sshconf ''Compression'' ''yes'' (demo_client (unlines [''Host a'', ''    User u''])) (demo_home []) = (c1, t1, None)
    \<and> SetGlobalDirective demo_sshconf ''TCPKeepAlive'' ''no'' c1 t1 = (c2, t2, None)
    \<and> GetGlobalDirectives c1 t1 = Inr [(''Compression'', ''yes'')] \<and> GetGlobalDirectives c2 t2 = Inr [(''TCPKeepAlive'', ''no'')]"
proof -
  let ?c = "demo_client (unlines [''Host a'', ''    User u''])" and ?t = "demo_home []"
  let ?k = "''Compression''" and ?k2 = "''TCPKeepAlive''"
  let ?l = "\<lparr>li_Key = ''Host'', li_Value = ''a'', li_Comment = [], li_Children = [child_of (''User'', ''u'')]\<rparr>"
  have ok1: "snd (snd (SetGlobalDirective demo_sshconf ?k ''yes'' ?c ?t)) = None" by code_simp
  have ok2: "(case SetGlobalDirective demo_sshconf ?k ''yes'' ?c ?t of (c1, t1, e) \<Rightarrow> snd (snd (SetGlobalDirective demo_sshconf ?k2 ''no'' c1 t1)) = None)"
    by code_simp
  obtain c1 t1 where r1: "SetGlobalDirective demo_sshconf ?k ''yes'' ?c ?t = (c1, t1, None)"
    using ok1 by (cases "SetGlobalDirective demo_sshconf ?k ''yes'' ?c ?t") auto
  obtain c2 t2 where r2: "SetGlobalDirective demo_sshconf ?k2 ''no'' c1 t1 = (c2, t2, None)"
    using ok2 r1 by (cases "SetGlobalDirective demo_sshconf ?k2 ''no'' c1 t1") auto
  have lines: "sc_Lines demo_sshconf (cc_config ?c) = [] @ [?l]" "block_line ?l" "list_all line_ok ([] @ [?l])"
      "list_all (\<lambda>l. \<not> managed_begin l \<and> \<not> hits ?k l \<and> \<not> hits ?k2 l) ([] @ [?l])"
      "sc_Lines demo_sshconf (sc_ParseConfig demo_sshconf (concat (map kept_line ([] @ [?l])))) = [] @ [?l]"
      "ends_line (concat (map kept_line ([] @ [?l])))"
    by code_simp+
  have k: "plain_word ?k" "to_lower ?k \<notin> {''host'', ''match''}" "plain_value ''yes''"
      "plain_word ?k2" "to_lower ?k2 \<notin> {''host'', ''match''}" "plain_value ''no''"
    by code_simp+
  have "GetGlobalDirectives c1 t1 = Inr (top_of [] @ [(?k, ''yes'')]) \<and> GetGlobalDirectives c2 t2 = Inr (top_of [] @ [(?k2, ''no'')])"
    by (rule directive_captured_by_block [OF r1 r2 demo_files demo_groups lines k demo_place(1,2,3) demo_place(4)])
  then show ?thesis using r1 r2 by (simp add: top_of_def)
qed

end
