(* ===== verification/SystemStatus.thy ===== *)
theory SystemStatus
  imports ServerConfig TreeFS Broadcast
begin

text \<open>
  The state of ssh on the machine: \<open>system/service.go\<close>, \<open>system/network.go\<close> and the comparison of
  \<open>system/watcher.go\<close>.

  The record \<open>sysenv\<close> is the machine: how a process changes the world and what it returns, the search path,
  the files of a world, the host name and the network interfaces, and the parser of systemd's time stamps
  (\<open>time.Parse\<close>).  An operation that runs processes takes the world and returns the new one.
\<close>

record iface =
  if_loopback :: bool
  if_up :: bool
  if_addrs :: "string + (string \<times> bool) option list"

record 'w sysenv =
  se_spawn :: "'w spawner"
  se_LookPath :: "string \<Rightarrow> string option"
  se_files :: "'w \<Rightarrow> treefs"
  se_home :: "string + string"
  se_hostname :: "string + string"
  se_interfaces :: "string + iface list"
  se_time :: "string \<Rightarrow> int option"

section \<open>Data\<close>

datatype ServiceState =
    ServiceStateUnspecified | ServiceStateRunning | ServiceStateStopped | ServiceStateFailed
  | ServiceStateNotFound | ServiceStateUnknown

definition ServiceState_String :: "ServiceState \<Rightarrow> string" where
  "ServiceState_String s =
     (case s of ServiceStateRunning \<Rightarrow> ''running'' | ServiceStateStopped \<Rightarrow> ''stopped'' | ServiceStateFailed \<Rightarrow> ''failed''
      | ServiceStateNotFound \<Rightarrow> ''not_found'' | ServiceStateUnknown \<Rightarrow> ''unknown'' | ServiceStateUnspecified \<Rightarrow> ''unspecified'')"

record ServiceStatus =
  ss_State :: ServiceState
  ss_Enabled :: bool
  ss_ActiveState :: string
  ss_SubState :: string
  ss_LoadState :: string
  ss_PID :: int
  ss_StartedAt :: "int option"
  ss_ServiceName :: string

record ConfigPathInfo =
  cp_Path :: string
  cp_Exists :: bool
  cp_Readable :: bool
  cp_Writable :: bool
  cp_IncludeDir :: string

record SSHClientStatus =
  cs_Installed :: bool
  cs_Version :: string
  cs_BinaryPath :: string
  cs_SystemConfig :: ConfigPathInfo
  cs_UserConfig :: ConfigPathInfo

record SSHServerStatus =
  sv_Installed :: bool
  sv_Version :: string
  sv_BinaryPath :: string
  sv_Service :: ServiceStatus
  sv_Config :: ConfigPathInfo

datatype FirewallType =
    FirewallTypeUnspecified | FirewallTypeUFW | FirewallTypeFirewalld | FirewallTypeIPTables | FirewallTypeNone

definition FirewallType_String :: "FirewallType \<Rightarrow> string" where
  "FirewallType_String f =
     (case f of FirewallTypeUFW \<Rightarrow> ''ufw'' | FirewallTypeFirewalld \<Rightarrow> ''firewalld'' | FirewallTypeIPTables \<Rightarrow> ''iptables''
      | FirewallTypeNone \<Rightarrow> ''none'' | FirewallTypeUnspecified \<Rightarrow> ''unspecified'')"

record FirewallStatus =
  fw_Type :: FirewallType
  fw_Active :: bool
  fw_SSHAllowed :: bool
  fw_StatusText :: string

record NetworkInfo =
  ni_Hostname :: string
  ni_IPAddresses :: "string list"
  ni_SSHPort :: int

record SSHStatus =
  st_Distribution :: string
  st_DistributionVersion :: string
  st_Client :: SSHClientStatus
  st_Server :: SSHServerStatus
  st_Network :: NetworkInfo
  st_Firewall :: FirewallStatus

record SystemManager =
  sm_privilegeCmd :: string

record InstallInstructions =
  in_Distribution :: string
  in_Component :: string
  in_PackageName :: string
  in_InstallCommand :: string
  in_DocumentationURL :: string
  in_Steps :: "string list"

definition zero_path :: ConfigPathInfo where
  "zero_path = \<lparr>cp_Path = [], cp_Exists = False, cp_Readable = False, cp_Writable = False, cp_IncludeDir = []\<rparr>"

definition zero_service :: ServiceStatus where
  "zero_service = \<lparr>ss_State = ServiceStateUnspecified, ss_Enabled = False, ss_ActiveState = [], ss_SubState = [],
     ss_LoadState = [], ss_PID = 0, ss_StartedAt = None, ss_ServiceName = []\<rparr>"

definition NewSystemManager :: "'w sysenv \<Rightarrow> SystemManager" where
  "NewSystemManager se =
     \<lparr>sm_privilegeCmd = (case se_LookPath se ''pkexec'' of None \<Rightarrow> ''sudo'' | Some _ \<Rightarrow> ''pkexec'')\<rparr>"

section \<open>Files\<close>

definition trim_quotes :: "string \<Rightarrow> string" where
  "trim_quotes s = rev (dropWhile (\<lambda>c. c = CHR 0x22) (rev (dropWhile (\<lambda>c. c = CHR 0x22) s)))"

text \<open>The lines of a file, none when it cannot be opened or read.\<close>

definition file_lines :: "string \<Rightarrow> treefs \<Rightarrow> string list" where
  "file_lines p t = (case t_read_file p t of Inl _ \<Rightarrow> [] | Inr s \<Rightarrow> scan_lines s)"

definition os_release_line :: "string \<Rightarrow> string \<times> string \<Rightarrow> string \<times> string" where
  "os_release_line line dv =
     (if has_prefix line ''ID='' then (trim_quotes (trim_prefix line ''ID=''), snd dv)
      else if has_prefix line ''VERSION_ID='' then (fst dv, trim_quotes (trim_prefix line ''VERSION_ID=''))
      else dv)"

definition getDistributionInfo :: "'w sysenv \<Rightarrow> 'w \<Rightarrow> string \<times> string" where
  "getDistributionInfo se w = fold os_release_line (file_lines ''/etc/os-release'' (se_files se w)) (''unknown'', [])"

text \<open>\<open>os.Open\<close> succeeds also on a directory; opening for writing does not.\<close>

definition checkConfigPath :: "string \<Rightarrow> treefs \<Rightarrow> ConfigPathInfo" where
  "checkConfigPath path t =
     (if t_stat path t \<noteq> None then zero_path\<lparr>cp_Path := path\<rparr>
      else \<lparr>cp_Path = path, cp_Exists = True, cp_Readable = (\<not> refuse t (CRead path)),
        cp_Writable = (\<not> is_dir t path \<and> \<not> refuse t (CCreate path)),
        cp_IncludeDir = (if t_stat (path @ ''.d'') t = None then path @ ''.d'' else [])\<rparr>)"

section \<open>The service\<close>

text \<open>The first unit that \<open>systemctl cat\<close> finds.\<close>

fun find_service :: "'w sysenv \<Rightarrow> string list \<Rightarrow> 'w \<Rightarrow> 'w \<times> string" where
  "find_service se [] w = (w, [])"
| "find_service se (name # names) w =
     (case se_spawn se [''systemctl'', ''cat'', name] [] w of (w1, p) \<Rightarrow>
        if proc_fail p = None then (w1, name) else find_service se names w1)"

definition findSSHServiceName :: "'w sysenv \<Rightarrow> 'w \<Rightarrow> 'w \<times> string" where
  "findSSHServiceName se w = find_service se [''ssh.service'', ''sshd.service''] w"

definition set_property :: "(string \<Rightarrow> int option) \<Rightarrow> string \<Rightarrow> ServiceStatus \<Rightarrow> ServiceStatus" where
  "set_property time line status =
     (case cut_at (CHR ''='') line of
        (key, None) \<Rightarrow> status
      | (key, Some v) \<Rightarrow>
          if key = ''ActiveState'' then
            (let s = status\<lparr>ss_ActiveState := v\<rparr> in
             if v = ''active'' then s\<lparr>ss_State := ServiceStateRunning\<rparr>
             else if v = ''inactive'' then s\<lparr>ss_State := ServiceStateStopped\<rparr>
             else if v = ''failed'' then s\<lparr>ss_State := ServiceStateFailed\<rparr> else s)
          else if key = ''SubState'' then status\<lparr>ss_SubState := v\<rparr>
          else if key = ''LoadState'' then
            (let s = status\<lparr>ss_LoadState := v\<rparr> in
             if v = ''not-found'' then s\<lparr>ss_State := ServiceStateNotFound\<rparr> else s)
          else if key = ''MainPID'' then (case atoi v of (pid, None) \<Rightarrow> status\<lparr>ss_PID := pid\<rparr> | _ \<Rightarrow> status)
          else if key = ''ActiveEnterTimestamp'' then
            (if v \<noteq> [] \<and> v \<noteq> ''n/a'' then
               (case time v of Some t \<Rightarrow> status\<lparr>ss_StartedAt := Some t\<rparr> | None \<Rightarrow> status) else status)
          else if key = ''UnitFileState'' then status\<lparr>ss_Enabled := (v = ''enabled'')\<rparr>
          else status)"

definition parse_show :: "(string \<Rightarrow> int option) \<Rightarrow> string \<Rightarrow> string \<Rightarrow> ServiceStatus" where
  "parse_show time name output =
     fold (set_property time) (split_on newline output)
       (zero_service\<lparr>ss_ServiceName := name, ss_State := ServiceStateUnknown\<rparr>)"

definition show_args :: "string \<Rightarrow> string list" where
  "show_args name = [''systemctl'', ''show'', name,
     ''--property=ActiveState,SubState,LoadState,MainPID,ActiveEnterTimestamp,UnitFileState'']"

definition getServiceStatus :: "'w sysenv \<Rightarrow> string \<Rightarrow> 'w \<Rightarrow> 'w \<times> ServiceStatus" where
  "getServiceStatus se name w =
     (case se_spawn se (show_args name) [] w of (w1, p) \<Rightarrow>
        (case proc_fail p of
           Some e \<Rightarrow> (w1, zero_service\<lparr>ss_ServiceName := name,
             ss_State := if contains e ''not found'' then ServiceStateNotFound else ServiceStateUnknown\<rparr>)
         | None \<Rightarrow> (w1, parse_show (se_time se) name (proc_out p))))"

definition GetSSHServiceStatus :: "'w sysenv \<Rightarrow> 'w \<Rightarrow> 'w \<times> ServiceStatus" where
  "GetSSHServiceStatus se w =
     (case findSSHServiceName se w of (w1, name) \<Rightarrow>
        if name = [] then (w1, zero_service\<lparr>ss_State := ServiceStateNotFound, ss_ServiceName := ''ssh.service''\<rparr>)
        else getServiceStatus se name w1)"

definition runPrivilegedCommand :: "'w sysenv \<Rightarrow> SystemManager \<Rightarrow> string list \<Rightarrow> 'w \<Rightarrow> 'w \<times> string option" where
  "runPrivilegedCommand se m argv w =
     (case se_spawn se (sm_privilegeCmd m # argv) [] w of (w1, p) \<Rightarrow>
        (w1, map_option (\<lambda>e. e @ '': '' @ proc_err p) (proc_fail p)))"

definition failure_line :: "string \<Rightarrow> bool" where
  "failure_line line \<longleftrightarrow> line \<noteq> [] \<and> \<not> contains line ''Starting'' \<and> \<not> contains line ''Stopped''"

definition failure_details :: "string \<Rightarrow> string \<Rightarrow> string" where
  "failure_details serviceName output =
     (let lines = trim_space output in
      if lines = [] then []
      else if contains lines ''No such file or directory'' then
        (if contains lines ''sshd_config'' then ''sshd_config file is missing - try: sudo apt reinstall openssh-server''
         else ''configuration file missing - check journalctl -u '' @ serviceName)
      else if contains lines ''Permission denied'' then ''permission denied - check file permissions''
      else if contains lines ''Address already in use'' then ''port 22 is already in use by another process''
      else if contains lines ''Bad configuration'' \<or> contains lines ''error in'' then
        ''configuration error - run 'sudo sshd -t' to check config''
      else (case find failure_line (rev (map trim_space (split_on newline lines))) of
          None \<Rightarrow> []
        | Some line \<Rightarrow> if 200 < length line then take 200 line @ ''...'' else line))"

definition getServiceFailureDetails :: "'w sysenv \<Rightarrow> string \<Rightarrow> 'w \<Rightarrow> 'w \<times> string" where
  "getServiceFailureDetails se serviceName w =
     (case se_spawn se [''journalctl'', ''-u'', serviceName, ''-n'', ''5'', ''--no-pager'', ''-q''] [] w of (w1, p) \<Rightarrow>
        (w1, if proc_fail p \<noteq> None then [] else failure_details serviceName (proc_out p)))"

text \<open>The operations on the service; the six of them differ in the verb, and \<open>start\<close> looks into the journal.\<close>

definition control_service :: "'w sysenv \<Rightarrow> SystemManager \<Rightarrow> string \<Rightarrow> 'w \<Rightarrow> 'w \<times> (string + ServiceStatus)" where
  "control_service se m verb w =
     (case findSSHServiceName se w of (w1, name) \<Rightarrow>
        if name = [] then (w1, Inl ''SSH service not found'')
        else (case runPrivilegedCommand se m [''systemctl'', verb, name] w1 of
            (w2, Some e) \<Rightarrow> (w2, Inl (''failed to '' @ verb @ '' SSH service: '' @ e))
          | (w2, None) \<Rightarrow> (case getServiceStatus se name w2 of (w3, s) \<Rightarrow> (w3, Inr s))))"

definition StartSSHService :: "'w sysenv \<Rightarrow> SystemManager \<Rightarrow> 'w \<Rightarrow> 'w \<times> (string + ServiceStatus)" where
  "StartSSHService se m w =
     (case findSSHServiceName se w of (w1, name) \<Rightarrow>
        if name = [] then (w1, Inl ''SSH service not found'')
        else (case runPrivilegedCommand se m [''systemctl'', ''start'', name] w1 of
            (w2, Some e) \<Rightarrow>
              (case getServiceFailureDetails se name w2 of (w3, details) \<Rightarrow>
                 (w3, Inl (''failed to start SSH service: '' @ (if details \<noteq> [] then details else e))))
          | (w2, None) \<Rightarrow> (case getServiceStatus se name w2 of (w3, s) \<Rightarrow> (w3, Inr s))))"

definition StopSSHService :: "'w sysenv \<Rightarrow> SystemManager \<Rightarrow> 'w \<Rightarrow> 'w \<times> (string + ServiceStatus)" where
  "StopSSHService se m w = control_service se m ''stop'' w"

definition RestartSSHService :: "'w sysenv \<Rightarrow> SystemManager \<Rightarrow> 'w \<Rightarrow> 'w \<times> (string + ServiceStatus)" where
  "RestartSSHService se m w = control_service se m ''restart'' w"

definition ReloadSSHService :: "'w sysenv \<Rightarrow> SystemManager \<Rightarrow> 'w \<Rightarrow> 'w \<times> (string + ServiceStatus)" where
  "ReloadSSHService se m w = control_service se m ''reload'' w"

definition EnableSSHService :: "'w sysenv \<Rightarrow> SystemManager \<Rightarrow> 'w \<Rightarrow> 'w \<times> (string + ServiceStatus)" where
  "EnableSSHService se m w = control_service se m ''enable'' w"

definition DisableSSHService :: "'w sysenv \<Rightarrow> SystemManager \<Rightarrow> 'w \<Rightarrow> 'w \<times> (string + ServiceStatus)" where
  "DisableSSHService se m w = control_service se m ''disable'' w"

section \<open>Client and server\<close>

definition version_text :: "string \<Rightarrow> string" where
  "version_text output =
     (case index_char output (CHR '','') of
        Some idx \<Rightarrow> trim_space (if 0 < idx then take idx output else output)
      | None \<Rightarrow> trim_space output)"

text \<open>\<open>getSSHVersion\<close> and \<open>getSSHDVersion\<close>: what \<open>-V\<close> prints on the standard error.\<close>

definition getSSHVersion :: "'w sysenv \<Rightarrow> string \<Rightarrow> 'w \<Rightarrow> 'w \<times> string" where
  "getSSHVersion se path w = (case se_spawn se [path, ''-V''] [] w of (w1, p) \<Rightarrow> (w1, version_text (proc_err p)))"

definition getSSHClientStatus :: "'w sysenv \<Rightarrow> 'w \<Rightarrow> 'w \<times> SSHClientStatus" where
  "getSSHClientStatus se w =
     (let (w1, installed, version, path) =
        (case se_LookPath se ''ssh'' of
           None \<Rightarrow> (w, False, [], [])
         | Some p \<Rightarrow> (case getSSHVersion se p w of (w1, v) \<Rightarrow> (w1, True, v, p))) in
      (w1, \<lparr>cs_Installed = installed, cs_Version = version, cs_BinaryPath = path,
        cs_SystemConfig = checkConfigPath ''/etc/ssh/ssh_config'' (se_files se w1),
        cs_UserConfig = (case se_home se of Inl _ \<Rightarrow> zero_path
          | Inr home \<Rightarrow> checkConfigPath (path_join [home, ''.ssh'', ''config'']) (se_files se w1))\<rparr>))"

definition getSSHServerStatus :: "'w sysenv \<Rightarrow> 'w \<Rightarrow> 'w \<times> SSHServerStatus" where
  "getSSHServerStatus se w =
     (let (w1, installed, version, path) =
        (case se_LookPath se ''sshd'' of
           None \<Rightarrow> (w, False, [], [])
         | Some p \<Rightarrow> (case getSSHVersion se p w of (w1, v) \<Rightarrow> (w1, True, v, p)));
          (w2, service) = GetSSHServiceStatus se w1 in
      (w2, \<lparr>sv_Installed = installed, sv_Version = version, sv_BinaryPath = path, sv_Service = service,
        sv_Config = checkConfigPath ''/etc/ssh/sshd_config'' (se_files se w2)\<rparr>))"

section \<open>Network and firewall\<close>

text \<open>An address is \<open>None\<close> when it is of another type or nil.\<close>

definition iface_addresses :: "iface \<Rightarrow> string list" where
  "iface_addresses i =
     (if if_loopback i \<or> \<not> if_up i then []
      else (case if_addrs i of Inl _ \<Rightarrow> [] | Inr as \<Rightarrow>
        List.map_filter (\<lambda>a. case a of None \<Rightarrow> None | Some (ip, lo) \<Rightarrow> if lo then None else Some ip) as))"

definition getIPAddresses :: "'w sysenv \<Rightarrow> string list" where
  "getIPAddresses se = (case se_interfaces se of Inl _ \<Rightarrow> [] | Inr is \<Rightarrow> concat (map iface_addresses is))"

text \<open>\<open>(?i)^\s*Port\s+(\d+)\<close>\<close>

definition re_port :: "string \<Rightarrow> string option" where
  "re_port line =
     (let s = dropWhile is_re_space line; r = drop 4 s; ds = takeWhile is_digit (dropWhile is_re_space r) in
      if to_lower (take 4 s) = ''port'' \<and> r \<noteq> [] \<and> is_re_space (hd r) \<and> ds \<noteq> [] then Some ds else None)"

definition port_of_line :: "string \<Rightarrow> int option" where
  "port_of_line line =
     (if has_prefix (trim_space line) ''#'' then None
      else (case re_port line of
          None \<Rightarrow> None
        | Some ds \<Rightarrow> (case atoi ds of (port, None) \<Rightarrow> Some port | _ \<Rightarrow> None)))"

definition port_files :: "treefs \<Rightarrow> string list" where
  "port_files t =
     ''/etc/ssh/sshd_config'' #
     (case t_read_dir ''/etc/ssh/sshd_config.d'' t of
        Inl _ \<Rightarrow> []
      | Inr entries \<Rightarrow> map (\<lambda>(name, isdir). ''/etc/ssh/sshd_config.d'' @ ''/'' @ name)
          (filter (\<lambda>(name, isdir). \<not> isdir \<and> has_suffix name ''.conf'') entries))"

definition getSSHPort :: "treefs \<Rightarrow> int" where
  "getSSHPort t =
     (case first_some (\<lambda>p. first_some port_of_line (file_lines p t)) (port_files t) of
        Some port \<Rightarrow> port | None \<Rightarrow> 22)"

definition GetNetworkInfo :: "'w sysenv \<Rightarrow> 'w \<Rightarrow> NetworkInfo" where
  "GetNetworkInfo se w =
     \<lparr>ni_Hostname = (case se_hostname se of Inl _ \<Rightarrow> [] | Inr h \<Rightarrow> h), ni_IPAddresses = getIPAddresses se,
      ni_SSHPort = getSSHPort (se_files se w)\<rparr>"

definition ufw_allows :: "string \<Rightarrow> bool" where
  "ufw_allows line0 \<longleftrightarrow>
     (let line = to_lower line0 in
      (contains line ''22'' \<or> contains line ''ssh'' \<or> contains line ''openssh'') \<and> contains line ''allow'')"

definition ufw_status :: "string \<Rightarrow> FirewallStatus" where
  "ufw_status output =
     (let status = \<lparr>fw_Type = FirewallTypeUFW, fw_Active = False, fw_SSHAllowed = False,
            fw_StatusText = trim_space (hd (split_on newline output))\<rparr> in
      if contains output ''Status: active'' then
        status\<lparr>fw_Active := True, fw_SSHAllowed := list_ex ufw_allows (split_on newline output)\<rparr>
      else if contains output ''Status: inactive'' then status\<lparr>fw_Active := False, fw_SSHAllowed := True\<rparr>
      else status)"

definition checkUFW :: "'w sysenv \<Rightarrow> 'w \<Rightarrow> 'w \<times> FirewallStatus option" where
  "checkUFW se w =
     (case se_LookPath se ''ufw'' of
        None \<Rightarrow> (w, None)
      | Some _ \<Rightarrow>
          (case se_spawn se [''ufw'', ''status''] [] w of (w1, p) \<Rightarrow>
             (w1, Some (if proc_fail p \<noteq> None
                then \<lparr>fw_Type = FirewallTypeUFW, fw_Active = False, fw_SSHAllowed = False,
                       fw_StatusText = ''ufw installed but status unknown''\<rparr>
                else ufw_status (proc_out p)))))"

text \<open>One query of \<open>firewall-cmd\<close>: whether it succeeds and its output has the word.\<close>

definition firewall_lists :: "'w sysenv \<Rightarrow> string \<Rightarrow> string \<Rightarrow> 'w \<Rightarrow> 'w \<times> bool" where
  "firewall_lists se option word w =
     (case se_spawn se [''firewall-cmd'', option] [] w of (w1, p) \<Rightarrow> (w1, proc_fail p = None \<and> contains (proc_out p) word))"

definition checkFirewalld :: "'w sysenv \<Rightarrow> 'w \<Rightarrow> 'w \<times> FirewallStatus option" where
  "checkFirewalld se w =
     (case se_LookPath se ''firewall-cmd'' of
        None \<Rightarrow> (w, None)
      | Some _ \<Rightarrow>
          (case se_spawn se [''firewall-cmd'', ''--state''] [] w of (w1, p) \<Rightarrow>
             if proc_fail p \<noteq> None then
               (w1, Some \<lparr>fw_Type = FirewallTypeFirewalld, fw_Active = False, fw_SSHAllowed = True,
                  fw_StatusText = ''firewalld installed but not running''\<rparr>)
             else (let state = trim_space (proc_out p);
                       status = \<lparr>fw_Type = FirewallTypeFirewalld, fw_Active = False, fw_SSHAllowed = False, fw_StatusText = state\<rparr> in
               if state = ''running'' then
                 (case firewall_lists se ''--list-services'' ''ssh'' w1 of (w2, service) \<Rightarrow>
                    if service then (w2, Some (status\<lparr>fw_Active := True, fw_SSHAllowed := True\<rparr>))
                    else (case firewall_lists se ''--list-ports'' ''22/tcp'' w2 of (w3, port) \<Rightarrow>
                      (w3, Some (status\<lparr>fw_Active := True, fw_SSHAllowed := port\<rparr>))))
               else (w1, Some status))))"

definition GetFirewallStatus :: "'w sysenv \<Rightarrow> 'w \<Rightarrow> 'w \<times> FirewallStatus" where
  "GetFirewallStatus se w =
     (case checkUFW se w of
        (w1, Some status) \<Rightarrow> (w1, status)
      | (w1, None) \<Rightarrow>
          (case checkFirewalld se w1 of
             (w2, Some status) \<Rightarrow> (w2, status)
           | (w2, None) \<Rightarrow> (w2, \<lparr>fw_Type = FirewallTypeNone, fw_Active = False, fw_SSHAllowed = True,
               fw_StatusText = ''no firewall detected''\<rparr>)))"

definition GetSSHStatus :: "'w sysenv \<Rightarrow> 'w \<Rightarrow> 'w \<times> SSHStatus" where
  "GetSSHStatus se w =
     (let (distro, version) = getDistributionInfo se w;
          (w1, client) = getSSHClientStatus se w;
          (w2, server) = getSSHServerStatus se w1;
          network = GetNetworkInfo se w2;
          (w3, firewall) = GetFirewallStatus se w2 in
      (w3, \<lparr>st_Distribution = distro, st_DistributionVersion = version, st_Client = client, st_Server = server,
         st_Network = network, st_Firewall = firewall\<rparr>))"

text \<open>What the watcher compares (\<open>statusEqual\<close> on two statuses).\<close>

definition statusEqual :: "SSHStatus \<Rightarrow> SSHStatus \<Rightarrow> bool" where
  "statusEqual a b \<longleftrightarrow>
     (let sa = sv_Service (st_Server a); sb = sv_Service (st_Server b) in
      ss_State sa = ss_State sb \<and> ss_Enabled sa = ss_Enabled sb \<and> ss_PID sa = ss_PID sb
      \<and> ss_ActiveState sa = ss_ActiveState sb \<and> ss_SubState sa = ss_SubState sb
      \<and> cs_Installed (st_Client a) = cs_Installed (st_Client b) \<and> sv_Installed (st_Server a) = sv_Installed (st_Server b)
      \<and> cs_SystemConfig (st_Client a) = cs_SystemConfig (st_Client b)
      \<and> cs_UserConfig (st_Client a) = cs_UserConfig (st_Client b) \<and> sv_Config (st_Server a) = sv_Config (st_Server b))"

section \<open>Installation\<close>

definition getClientInstallInstructions :: "string \<Rightarrow> string \<times> string \<times> string list \<times> string" where
  "getClientInstallInstructions distro =
     (if distro \<in> set [''ubuntu'', ''debian'', ''pop'', ''linuxmint'', ''elementary''] then
         (''openssh-client'', ''sudo apt install openssh-client'', 
          [''Open a terminal'', ''Run: sudo apt update'', ''Run: sudo apt install openssh-client'', ''Verify installation: ssh -V''],
          ''https://help.ubuntu.com/community/SSH'')
      else if distro \<in> set [''fedora'', ''rhel'', ''centos'', ''rocky'', ''almalinux''] then
         (''openssh-clients'', ''sudo dnf install openssh-clients'', 
          [''Open a terminal'', ''Run: sudo dnf install openssh-clients'', ''Verify installation: ssh -V''],
          ''https://docs.fedoraproject.org/en-US/fedora/latest/system-administrators-guide/infrastructure-services/OpenSSH/'')
      else if distro \<in> set [''arch'', ''manjaro'', ''endeavouros''] then
         (''openssh'', ''sudo pacman -S openssh'', 
          [''Open a terminal'', ''Run: sudo pacman -S openssh'', ''Verify installation: ssh -V''],
          ''https://wiki.archlinux.org/title/OpenSSH'')
      else if distro \<in> set [''opensuse'', ''suse''] then
         (''openssh'', ''sudo zypper install openssh'', 
          [''Open a terminal'', ''Run: sudo zypper install openssh'', ''Verify installation: ssh -V''],
          ''https://en.opensuse.org/OpenSSH'')
      else (''openssh'', [],
          
          [''Check your distribution's package manager'', ''Search for 'openssh' or 'openssh-client' package'', ''Install using your package manager'', ''Verify installation: ssh -V''],
          ''https://www.openssh.com/''))"

definition getServerInstallInstructions :: "string \<Rightarrow> string \<times> string \<times> string list \<times> string" where
  "getServerInstallInstructions distro =
     (if distro \<in> set [''ubuntu'', ''debian'', ''pop'', ''linuxmint'', ''elementary''] then
         (''openssh-server'', ''sudo apt install openssh-server'', 
          [''Open a terminal'', ''Run: sudo apt update'', ''Run: sudo apt install openssh-server'', ''The SSH service will start automatically'', ''Verify: sudo systemctl status ssh''],
          ''https://help.ubuntu.com/community/SSH'')
      else if distro \<in> set [''fedora'', ''rhel'', ''centos'', ''rocky'', ''almalinux''] then
         (''openssh-server'', ''sudo dnf install openssh-server'', 
          [''Open a terminal'', ''Run: sudo dnf install openssh-server'', ''Start the service: sudo systemctl start sshd'', ''Enable on boot: sudo systemctl enable sshd'', ''Verify: sudo systemctl status sshd''],
          ''https://docs.fedoraproject.org/en-US/fedora/latest/system-administrators-guide/infrastructure-services/OpenSSH/'')
      else if distro \<in> set [''arch'', ''manjaro'', ''endeavouros''] then
         (''openssh'', ''sudo pacman -S openssh'', 
          [''Open a terminal'', ''Run: sudo pacman -S openssh'', ''Start the service: sudo systemctl start sshd'', ''Enable on boot: sudo systemctl enable sshd'', ''Verify: sudo systemctl status sshd''],
          ''https://wiki.archlinux.org/title/OpenSSH'')
      else if distro \<in> set [''opensuse'', ''suse''] then
         (''openssh'', ''sudo zypper install openssh'', 
          [''Open a terminal'', ''Run: sudo zypper install openssh'', ''Start the service: sudo systemctl start sshd'', ''Enable on boot: sudo systemctl enable sshd'', ''Verify: sudo systemctl status sshd''],
          ''https://en.opensuse.org/OpenSSH'')
      else (''openssh-server'', [],
          
          [''Check your distribution's package manager'', ''Search for 'openssh-server' package'', ''Install using your package manager'', ''Start the SSH service (usually sshd or ssh)'', ''Enable the service to start on boot''],
          ''https://www.openssh.com/''))"

definition GetInstallInstructions :: "'w sysenv \<Rightarrow> string \<Rightarrow> 'w \<Rightarrow> InstallInstructions" where
  "GetInstallInstructions se component w =
     (let distro = fst (getDistributionInfo se w);
          none = ([], [], [], []);
          (package, cmd, steps, url) =
            (if component = ''client'' then getClientInstallInstructions distro
             else if component = ''server'' then getServerInstallInstructions distro else none) in
      \<lparr>in_Distribution = distro, in_Component = component, in_PackageName = package, in_InstallCommand = cmd,
       in_DocumentationURL = url, in_Steps = steps\<rparr>)"

section \<open>What is run\<close>

text \<open>The same machine with a log of the argument vectors.\<close>

definition logged_env :: "'w sysenv \<Rightarrow> ('w \<times> string list list) sysenv" where
  "logged_env se = \<lparr>se_spawn = logged (se_spawn se), se_LookPath = se_LookPath se, se_files = (\<lambda>wl. se_files se (fst wl)),
     se_home = se_home se, se_hostname = se_hostname se, se_interfaces = se_interfaces se, se_time = se_time se\<rparr>"

datatype service_call = CStatus | CStart | CStop | CRestart | CReload | CEnable | CDisable

definition service_do :: "'w sysenv \<Rightarrow> SystemManager \<Rightarrow> service_call \<Rightarrow> 'w \<Rightarrow> 'w" where
  "service_do se m c w =
     (case c of CStatus \<Rightarrow> fst (GetSSHServiceStatus se w) | CStart \<Rightarrow> fst (StartSSHService se m w)
      | CStop \<Rightarrow> fst (StopSSHService se m w) | CRestart \<Rightarrow> fst (RestartSSHService se m w)
      | CReload \<Rightarrow> fst (ReloadSSHService se m w) | CEnable \<Rightarrow> fst (EnableSSHService se m w)
      | CDisable \<Rightarrow> fst (DisableSSHService se m w))"

definition service_trace :: "'w sysenv \<Rightarrow> SystemManager \<Rightarrow> service_call list \<Rightarrow> 'w \<Rightarrow> string list list" where
  "service_trace se m cs w = snd (fold (service_do (logged_env se) m) cs (w, []))"

definition ssh_units :: "string list" where
  "ssh_units = [''ssh.service'', ''sshd.service'']"

definition read_only :: "string list \<Rightarrow> bool" where
  "read_only argv \<longleftrightarrow> (\<exists>unit \<in> set ssh_units. argv \<in> {[''systemctl'', ''cat'', unit], show_args unit,
     [''journalctl'', ''-u'', unit, ''-n'', ''5'', ''--no-pager'', ''-q'']})"

definition elevated :: "SystemManager \<Rightarrow> string list \<Rightarrow> bool" where
  "elevated m argv \<longleftrightarrow> (\<exists>unit \<in> set ssh_units. \<exists>verb \<in> set [''start'', ''stop'', ''restart'', ''reload'', ''enable'', ''disable''].
     argv = [sm_privilegeCmd m, ''systemctl'', verb, unit])"

text \<open>\<open>grows P l l'\<close>: the log \<open>l'\<close> extends \<open>l\<close> by argument vectors with \<open>P\<close>.\<close>

definition grows :: "(string list \<Rightarrow> bool) \<Rightarrow> string list list \<Rightarrow> string list list \<Rightarrow> bool" where
  "grows P l l' \<longleftrightarrow> (\<exists>k. l' = l @ k \<and> list_all P k)"

lemma grows_refl [simp, intro]: "grows P l l"
  by (auto simp: grows_def)

lemma grows_trans: "grows P a b \<Longrightarrow> grows P b c \<Longrightarrow> grows P a c"
  by (auto simp: grows_def)

lemma grows_mono: "grows P a b \<Longrightarrow> (\<And>x. P x \<Longrightarrow> Q x) \<Longrightarrow> grows Q a b"
  by (auto simp: grows_def list_all_iff)

lemma grows_spawn:
  "P argv \<Longrightarrow> se_spawn (logged_env se) argv inp wl = (wl', p) \<Longrightarrow> grows P (snd wl) (snd wl')"
  by (auto simp: logged_env_def logged_def grows_def split: prod.splits)

lemma find_service_log:
  assumes "find_service (logged_env se) names wl = (wl', name)" and "set names \<subseteq> set ssh_units"
  shows "grows read_only (snd wl) (snd wl') \<and> (name = [] \<or> name \<in> set ssh_units)"
  using assms
proof (induction names arbitrary: wl)
  case (Cons n ns)
  obtain wl1 p where s: "se_spawn (logged_env se) [''systemctl'', ''cat'', n] [] wl = (wl1, p)" by fastforce
  have "read_only [''systemctl'', ''cat'', n]" using Cons.prems(2) by (auto simp: read_only_def)
  from grows_spawn [of read_only, OF this s] have first: "grows read_only (snd wl) (snd wl1)" .
  show ?case
  proof (cases "proc_fail p")
    case None
    then show ?thesis using Cons.prems s first by auto
  next
    case (Some e)
    then have "find_service (logged_env se) ns wl1 = (wl', name)" using Cons.prems(1) s by simp
    from Cons.IH [OF this] Cons.prems(2) show ?thesis using first grows_trans by auto
  qed
qed simp

lemma status_log:
  assumes "getServiceStatus (logged_env se) name wl = (wl', s)" and "name \<in> set ssh_units"
  shows "grows read_only (snd wl) (snd wl')"
proof -
  obtain wl1 p where s: "se_spawn (logged_env se) (show_args name) [] wl = (wl1, p)" by fastforce
  have "read_only (show_args name)" using assms(2) by (auto simp: read_only_def)
  from grows_spawn [of read_only, OF this s] show ?thesis
    using assms(1) s by (auto simp: getServiceStatus_def split: option.splits)
qed

lemma details_log:
  assumes "getServiceFailureDetails (logged_env se) name wl = (wl', s)" and "name \<in> set ssh_units"
  shows "grows read_only (snd wl) (snd wl')"
proof -
  let ?argv = "[''journalctl'', ''-u'', name, ''-n'', ''5'', ''--no-pager'', ''-q'']"
  obtain wl1 p where s: "se_spawn (logged_env se) ?argv [] wl = (wl1, p)" by fastforce
  have "read_only ?argv" using assms(2) by (auto simp: read_only_def)
  from grows_spawn [of read_only, OF this s] show ?thesis
    using assms(1) s by (auto simp: getServiceFailureDetails_def)
qed

lemma privileged_log:
  assumes "runPrivilegedCommand (logged_env se) m argv wl = (wl', e)"
  shows "snd wl' = snd wl @ [sm_privilegeCmd m # argv]"
  using assms by (auto simp: runPrivilegedCommand_def logged_env_def logged_def split: prod.splits)

definition service_log :: "SystemManager \<Rightarrow> string list \<Rightarrow> bool" where
  "service_log m argv \<longleftrightarrow> read_only argv \<or> elevated m argv"

lemma found_log:
  assumes "findSSHServiceName (logged_env se) wl = (wl1, name)"
  shows "grows (service_log m) (snd wl) (snd wl1)" and "name = [] \<or> name \<in> set ssh_units"
proof -
  have "grows read_only (snd wl) (snd wl1) \<and> (name = [] \<or> name \<in> set ssh_units)"
    by (rule find_service_log [OF assms [unfolded findSSHServiceName_def]]) (simp add: ssh_units_def)
  then show "grows (service_log m) (snd wl) (snd wl1)" "name = [] \<or> name \<in> set ssh_units"
    by (auto simp: service_log_def intro: grows_mono)
qed

lemma control_log:
  assumes "verb \<in> set [''stop'', ''restart'', ''reload'', ''enable'', ''disable'']"
  shows "grows (service_log m) (snd wl) (snd (fst (control_service (logged_env se) m verb wl)))"
proof -
  obtain wl1 name where f: "findSSHServiceName (logged_env se) wl = (wl1, name)" by fastforce
  have found: "grows (service_log m) (snd wl) (snd wl1)" "name = [] \<or> name \<in> set ssh_units"
    using found_log [OF f] by simp_all
  obtain wl2 e where r: "runPrivilegedCommand (logged_env se) m [''systemctl'', verb, name] wl1 = (wl2, e)" by fastforce
  obtain wl3 s where g: "getServiceStatus (logged_env se) name wl2 = (wl3, s)" by fastforce
  show ?thesis
  proof (cases "name = []")
    case True
    then show ?thesis using found f by (simp add: control_service_def)
  next
    case False
    then have unit: "name \<in> set ssh_units" using found(2) by simp
    have "elevated m [sm_privilegeCmd m, ''systemctl'', verb, name]" using assms unit by (auto simp: elevated_def)
    then have run: "grows (service_log m) (snd wl1) (snd wl2)"
      using privileged_log [OF r] by (auto simp: grows_def service_log_def)
    have "grows (service_log m) (snd wl2) (snd wl3)"
      using status_log [OF g unit] by (auto simp: service_log_def intro: grows_mono)
    then have "grows (service_log m) (snd wl) (snd wl3)"
      by (rule grows_trans [OF grows_trans [OF found(1) run]])
    then show ?thesis
      using False f r g grows_trans [OF found(1) run] by (cases e) (simp_all add: control_service_def)
  qed
qed

lemma start_log: "grows (service_log m) (snd wl) (snd (fst (StartSSHService (logged_env se) m wl)))"
proof -
  obtain wl1 name where f: "findSSHServiceName (logged_env se) wl = (wl1, name)" by fastforce
  have found: "grows (service_log m) (snd wl) (snd wl1)" "name = [] \<or> name \<in> set ssh_units"
    using found_log [OF f] by simp_all
  obtain wl2 e where r: "runPrivilegedCommand (logged_env se) m [''systemctl'', ''start'', name] wl1 = (wl2, e)" by fastforce
  obtain wl3 s where g: "getServiceStatus (logged_env se) name wl2 = (wl3, s)" by fastforce
  obtain wl4 d where d: "getServiceFailureDetails (logged_env se) name wl2 = (wl4, d)" by fastforce
  show ?thesis
  proof (cases "name = []")
    case True
    then show ?thesis using found f by (simp add: StartSSHService_def)
  next
    case False
    then have unit: "name \<in> set ssh_units" using found(2) by simp
    have "elevated m [sm_privilegeCmd m, ''systemctl'', ''start'', name]" using unit by (auto simp: elevated_def)
    then have run: "grows (service_log m) (snd wl1) (snd wl2)"
      using privileged_log [OF r] by (auto simp: grows_def service_log_def)
    have "grows (service_log m) (snd wl2) (snd wl3)" "grows (service_log m) (snd wl2) (snd wl4)"
      using status_log [OF g unit] details_log [OF d unit] by (auto simp: service_log_def intro: grows_mono)
    then have "grows (service_log m) (snd wl) (snd wl3)" "grows (service_log m) (snd wl) (snd wl4)"
      using grows_trans [OF grows_trans [OF found(1) run]] by simp_all
    then show ?thesis using False f r g d by (cases e) (simp_all add: StartSSHService_def)
  qed
qed

lemma service_do_log: "grows (service_log m) (snd wl) (snd (service_do (logged_env se) m c wl))"
proof (cases c)
  case CStatus
  obtain wl1 name where f: "findSSHServiceName (logged_env se) wl = (wl1, name)" by fastforce
  have found: "grows (service_log m) (snd wl) (snd wl1)" "name = [] \<or> name \<in> set ssh_units"
    using found_log [OF f] by simp_all
  obtain wl2 s where g: "getServiceStatus (logged_env se) name wl1 = (wl2, s)" by fastforce
  have "name \<noteq> [] \<Longrightarrow> grows (service_log m) (snd wl1) (snd wl2)"
    using status_log [OF g] found(2) by (auto simp: service_log_def intro: grows_mono)
  then show ?thesis using found(1) f g grows_trans by (auto simp: service_do_def CStatus GetSSHServiceStatus_def)
next
  case CStart
  then show ?thesis using start_log by (simp add: service_do_def)
qed (simp_all add: service_do_def StopSSHService_def RestartSSHService_def ReloadSSHService_def EnableSSHService_def
    DisableSSHService_def control_log)

text \<open>
  C22. Whatever calls are made on the service, in any order and whatever the processes answer: with
  elevated rights the only command run is \<open>systemctl\<close> with one of six verbs on \<open>ssh.service\<close> or \<open>sshd.service\<close>; every
  other command only reads, about one of these two units.
\<close>

theorem service_commands_confined:
  "list_all (\<lambda>argv. elevated m argv \<or> read_only argv) (service_trace se m cs w)"
proof -
  have "grows (service_log m) (snd wl) (snd (fold (service_do (logged_env se) m) cs wl))" for wl
  proof (induction cs arbitrary: wl)
    case (Cons c cs)
    then show ?case using service_do_log [of m wl se c] grows_trans by (simp only: fold_Cons o_apply)
  qed simp
  from this [of "(w, [])"] show ?thesis by (auto simp: service_trace_def grows_def service_log_def list_all_iff)
qed

section \<open>Reading the service's properties\<close>

definition property_line :: "string \<times> string \<Rightarrow> string" where
  "property_line kv = fst kv @ ''='' @ snd kv"

definition property_ok :: "string \<times> string \<Rightarrow> bool" where
  "property_ok kv \<longleftrightarrow> CHR ''='' \<notin> set (fst kv) \<and> newline \<notin> set (fst kv) \<and> newline \<notin> set (snd kv)"

text \<open>What the lines say of the state, from the first to the last.\<close>

definition active_state :: "string \<Rightarrow> ServiceState option" where
  "active_state v =
     (if v = ''active'' then Some ServiceStateRunning else if v = ''inactive'' then Some ServiceStateStopped
      else if v = ''failed'' then Some ServiceStateFailed else None)"

definition state_says :: "string \<times> string \<Rightarrow> ServiceState option" where
  "state_says kv =
     (if fst kv = ''ActiveState'' then active_state (snd kv)
      else if kv = (''LoadState'', ''not-found'') then Some ServiceStateNotFound else None)"

definition final_state :: "(string \<times> string) list \<Rightarrow> ServiceState" where
  "final_state kvs = (case List.map_filter state_says kvs of [] \<Rightarrow> ServiceStateUnknown | s # ss \<Rightarrow> last (s # ss))"

lemma set_property_line:
  assumes "property_ok kv"
  shows "ss_State (set_property time (property_line kv) s) = (case state_says kv of None \<Rightarrow> ss_State s | Some x \<Rightarrow> x)"
    and "ss_ActiveState (set_property time (property_line kv) s) = (if fst kv = ''ActiveState'' then snd kv else ss_ActiveState s)"
    and "ss_SubState (set_property time (property_line kv) s) = (if fst kv = ''SubState'' then snd kv else ss_SubState s)"
    and "ss_LoadState (set_property time (property_line kv) s) = (if fst kv = ''LoadState'' then snd kv else ss_LoadState s)"
    and "ss_Enabled (set_property time (property_line kv) s) = (if fst kv = ''UnitFileState'' then snd kv = ''enabled'' else ss_Enabled s)"
    and "ss_PID (set_property time (property_line kv) s) =
      (if fst kv = ''MainPID'' \<and> snd (atoi (snd kv)) = None then fst (atoi (snd kv)) else ss_PID s)"
    and "ss_ServiceName (set_property time (property_line kv) s) = ss_ServiceName s"
proof -
  obtain k v where kv: "kv = (k, v)" by (cases kv)
  have cut: "cut_at (CHR ''='') (property_line kv) = (k, Some v)"
    using assms cut_at_append [of "CHR ''=''" k v] by (simp add: property_line_def property_ok_def kv)
  let ?keys = "{''ActiveState'', ''SubState'', ''LoadState'', ''MainPID'', ''ActiveEnterTimestamp'', ''UnitFileState''}"
  let ?s = "set_property time (property_line kv) s"
  have "k = ''ActiveState'' \<or> k = ''SubState'' \<or> k = ''LoadState'' \<or> k = ''MainPID'' \<or> k = ''ActiveEnterTimestamp''
    \<or> k = ''UnitFileState'' \<or> k \<notin> ?keys" by (simp only: insert_iff empty_iff) satx
  then have "ss_State ?s = (case state_says kv of None \<Rightarrow> ss_State s | Some x \<Rightarrow> x)
    \<and> ss_ActiveState ?s = (if k = ''ActiveState'' then v else ss_ActiveState s)
    \<and> ss_SubState ?s = (if k = ''SubState'' then v else ss_SubState s)
    \<and> ss_LoadState ?s = (if k = ''LoadState'' then v else ss_LoadState s)
    \<and> ss_Enabled ?s = (if k = ''UnitFileState'' then v = ''enabled'' else ss_Enabled s)
    \<and> ss_PID ?s = (if k = ''MainPID'' \<and> snd (atoi v) = None then fst (atoi v) else ss_PID s)
    \<and> ss_ServiceName ?s = ss_ServiceName s"
  proof (elim disjE)
    assume 1: "k = ''ActiveState''"
    from 1 show ?thesis unfolding set_property_def cut by (simp add: kv state_says_def active_state_def)
  next
    assume 2: "k = ''SubState''"
    from 2 show ?thesis unfolding set_property_def cut by (simp add: kv state_says_def)
  next
    assume 3: "k = ''LoadState''"
    from 3 show ?thesis unfolding set_property_def cut by (simp add: kv state_says_def)
  next
    assume 4: "k = ''MainPID''"
    obtain pid e where a: "atoi v = (pid, e)" by fastforce
    from 4 a show ?thesis unfolding set_property_def cut by (cases e) (simp_all add: kv state_says_def)
  next
    assume 5: "k = ''ActiveEnterTimestamp''"
    from 5 show ?thesis unfolding set_property_def cut by (cases "time v") (simp_all add: kv state_says_def)
  next
    assume 6: "k = ''UnitFileState''"
    from 6 show ?thesis unfolding set_property_def cut by (simp add: kv state_says_def)
  next
    assume 7: "k \<notin> ?keys"
    from 7 show ?thesis unfolding set_property_def cut by (simp add: kv state_says_def)
  qed
  then show "ss_State ?s = (case state_says kv of None \<Rightarrow> ss_State s | Some x \<Rightarrow> x)"
    "ss_ActiveState ?s = (if fst kv = ''ActiveState'' then snd kv else ss_ActiveState s)"
    "ss_SubState ?s = (if fst kv = ''SubState'' then snd kv else ss_SubState s)"
    "ss_LoadState ?s = (if fst kv = ''LoadState'' then snd kv else ss_LoadState s)"
    "ss_Enabled ?s = (if fst kv = ''UnitFileState'' then snd kv = ''enabled'' else ss_Enabled s)"
    "ss_PID ?s = (if fst kv = ''MainPID'' \<and> snd (atoi (snd kv)) = None then fst (atoi (snd kv)) else ss_PID s)"
    "ss_ServiceName ?s = ss_ServiceName s"
    by (simp_all add: kv)
qed

lemma fold_property_keep:
  assumes "list_all property_ok kvs" and "k \<notin> fst ` set kvs"
    and "\<And>kv s. property_ok kv \<Longrightarrow> fst kv \<noteq> k \<Longrightarrow> f (set_property time (property_line kv) s) = f s"
  shows "f (fold (set_property time) (map property_line kvs) s) = f s"
  using assms(1,2) by (induction kvs arbitrary: s) (auto simp: assms(3))

text \<open>A field that the line with one key sets, when no key is repeated.\<close>

lemma fold_property_field:
  assumes ok: "list_all property_ok kvs" and dist: "distinct (map fst kvs)"
    and keep: "\<And>kv s. property_ok kv \<Longrightarrow> fst kv \<noteq> k \<Longrightarrow> f (set_property time (property_line kv) s) = f s"
    and put: "\<And>v s. property_ok (k, v) \<Longrightarrow> f (set_property time (property_line (k, v)) s) = g v (f s)"
  shows "f (fold (set_property time) (map property_line kvs) s) = (case map_of kvs k of None \<Rightarrow> f s | Some v \<Rightarrow> g v (f s))"
proof (cases "map_of kvs k")
  case None
  then have "k \<notin> fst ` set kvs" by (simp add: map_of_eq_None_iff)
  from fold_property_keep [OF ok this keep] show ?thesis using None by simp
next
  case (Some v)
  then obtain xs ys where kvs: "kvs = xs @ (k, v) # ys" by (meson map_of_SomeD split_list)
  then have no: "k \<notin> fst ` set xs" "k \<notin> fst ` set ys" and oks: "list_all property_ok xs" "list_all property_ok ys" "property_ok (k, v)"
    using dist ok by auto
  show ?thesis
    using fold_property_keep [OF oks(1) no(1) keep] fold_property_keep [OF oks(2) no(2) keep] put [OF oks(3)] Some
    by (simp add: kvs)
qed

lemma fold_property_state:
  assumes "list_all property_ok kvs"
  shows "ss_State (fold (set_property time) (map property_line kvs) s) =
    (case List.map_filter state_says kvs of [] \<Rightarrow> ss_State s | x # xs \<Rightarrow> last (x # xs))"
  using assms
proof (induction kvs arbitrary: s)
  case (Cons kv kvs)
  then show ?case
    by (auto simp: map_filter_simps set_property_line(1) split: option.split list.split)
qed (simp add: map_filter_simps)

lemma map_filter_Nil: "List.map_filter f xs = [] \<longleftrightarrow> (\<forall>x \<in> set xs. f x = None)"
  by (induction xs) (auto simp: map_filter_simps split: option.splits)

lemma map_filter_append: "List.map_filter f (xs @ ys) = List.map_filter f xs @ List.map_filter f ys"
  by (simp add: List.map_filter_def)

lemma final_state_snoc: "final_state (kvs @ [kv]) = (case state_says kv of None \<Rightarrow> final_state kvs | Some x \<Rightarrow> x)"
proof -
  have "final_state xs = (if List.map_filter state_says xs = [] then ServiceStateUnknown else last (List.map_filter state_says xs))" for xs
    by (simp add: final_state_def split: list.split)
  then show ?thesis by (simp add: map_filter_append map_filter_simps split: option.split)
qed

lemma active_not_found [simp]: "active_state v \<noteq> Some ServiceStateNotFound"
  by (simp add: active_state_def)

lemma final_not_found:
  assumes "distinct (map fst kvs)"
  shows "final_state kvs = ServiceStateNotFound \<longleftrightarrow>
        (\<exists>xs ys. kvs = xs @ (''LoadState'', ''not-found'') # ys
          \<and> (\<forall>v. map_of ys ''ActiveState'' = Some v \<longrightarrow> v \<notin> {''active'', ''inactive'', ''failed''}))"
  using assms
proof (induction kvs rule: rev_induct)
  case Nil
  show ?case by (simp add: final_state_def map_filter_simps)
next
  case (snoc kv kvs)
  let ?ok = "\<lambda>ys. \<forall>v. map_of ys ''ActiveState'' = Some v \<longrightarrow> v \<notin> {''active'', ''inactive'', ''failed''}"
  have dist: "distinct (map fst kvs)" using snoc.prems by simp
  show ?case
  proof (cases "state_says kv")
    case None
    then have kv: "kv \<noteq> (''LoadState'', ''not-found'')"
        "fst kv = ''ActiveState'' \<Longrightarrow> snd kv \<notin> {''active'', ''inactive'', ''failed''}"
      by (auto simp: state_says_def active_state_def split: if_splits)
    have ok: "?ok (ys @ [kv]) \<longleftrightarrow> ?ok ys" for ys
      using kv(2) by (cases kv) (auto simp: map_add_def split: option.splits)
    have "(\<exists>xs ys. kvs @ [kv] = xs @ (''LoadState'', ''not-found'') # ys \<and> ?ok ys) \<longleftrightarrow>
        (\<exists>xs ys. kvs = xs @ (''LoadState'', ''not-found'') # ys \<and> ?ok ys)" (is "?L \<longleftrightarrow> ?R")
    proof
      assume ?L
      then obtain xs ys where e: "kvs @ [kv] = xs @ (''LoadState'', ''not-found'') # ys" "?ok ys" by blast
      with kv(1) have "ys \<noteq> []" by auto
      then obtain zs z where ys: "ys = zs @ [z]" by (metis rev_exhaust)
      with e have "kvs = xs @ (''LoadState'', ''not-found'') # zs" "z = kv" by auto
      then show ?R using e(2) ok [of zs] by (simp only: ys) blast
    next
      assume ?R
      then obtain xs ys where "kvs = xs @ (''LoadState'', ''not-found'') # ys" "?ok ys" by blast
      then have "kvs @ [kv] = xs @ (''LoadState'', ''not-found'') # (ys @ [kv]) \<and> ?ok (ys @ [kv])" using ok by simp
      then show ?L by blast
    qed
    then show ?thesis using snoc.IH [OF dist] None by (simp add: final_state_snoc)
  next
    case (Some x)
    show ?thesis
    proof (cases "kv = (''LoadState'', ''not-found'')")
      case True
      then have "final_state (kvs @ [kv]) = ServiceStateNotFound" by (simp add: final_state_snoc state_says_def)
      moreover have "kvs @ [kv] = kvs @ (''LoadState'', ''not-found'') # [] \<and> ?ok []" by (simp add: True)
      ultimately show ?thesis by blast
    next
      case False
      with Some have act: "fst kv = ''ActiveState''" "active_state (snd kv) = Some x"
        by (auto simp: state_says_def split: if_splits)
      then have known: "snd kv \<in> {''active'', ''inactive'', ''failed''}" by (auto simp: active_state_def split: if_splits)
      have "x \<noteq> ServiceStateNotFound" using act(2) active_not_found by metis
      then have "final_state (kvs @ [kv]) \<noteq> ServiceStateNotFound" using Some by (simp add: final_state_snoc)
      moreover have False if "kvs @ [kv] = xs @ (''LoadState'', ''not-found'') # ys" "?ok ys" for xs ys
      proof -
        have "ys \<noteq> []" using that(1) False by auto
        then obtain zs z where ys: "ys = zs @ [z]" by (metis rev_exhaust)
        with that(1) have e: "z = kv" "kvs = xs @ (''LoadState'', ''not-found'') # zs" by auto
        have "''ActiveState'' \<notin> fst ` set zs" using snoc.prems act(1) e(2) by auto
        then have "map_of ys ''ActiveState'' = Some (snd kv)"
          using act(1) by (cases kv) (simp add: ys e(1) map_add_def map_of_eq_None_iff [symmetric] option.case_eq_if)
        then show False using that(2) known by blast
      qed
      ultimately show ?thesis by blast
    qed
  qed
qed

text \<open>
  Reading the output of \<open>systemctl show\<close>, properties in any order and none twice: every field is the
  value of its property, the PID when it is a number, and the state is what the last line that
  speaks of it says: a unit that is not found is reported as such exactly when no line of the active state comes after.
\<close>

theorem service_status_fields:
  fixes time :: "string \<Rightarrow> int option" and name :: string
  assumes ok: "list_all property_ok kvs" and dist: "distinct (map fst kvs)"
  defines "s \<equiv> parse_show time name (unlines (map property_line kvs))"
  shows "ss_State s = final_state kvs \<and> ss_ServiceName s = name
    \<and> ss_ActiveState s = (case map_of kvs ''ActiveState'' of None \<Rightarrow> [] | Some v \<Rightarrow> v)
    \<and> ss_SubState s = (case map_of kvs ''SubState'' of None \<Rightarrow> [] | Some v \<Rightarrow> v)
    \<and> ss_LoadState s = (case map_of kvs ''LoadState'' of None \<Rightarrow> [] | Some v \<Rightarrow> v)
    \<and> (ss_Enabled s \<longleftrightarrow> map_of kvs ''UnitFileState'' = Some ''enabled'')
    \<and> (\<forall>pid. map_of kvs ''MainPID'' = Some (itoa pid) \<and> int64 pid \<longrightarrow> ss_PID s = pid)
    \<and> (final_state kvs = ServiceStateNotFound \<longleftrightarrow>
        (\<exists>xs ys. kvs = xs @ (''LoadState'', ''not-found'') # ys
          \<and> (\<forall>v. map_of ys ''ActiveState'' = Some v \<longrightarrow> v \<notin> {''active'', ''inactive'', ''failed''})))"
proof -
  define s0 where "s0 = zero_service\<lparr>ss_ServiceName := name, ss_State := ServiceStateUnknown\<rparr>"
  have s0: "ss_State s0 = ServiceStateUnknown" "ss_ServiceName s0 = name" "ss_ActiveState s0 = []" "ss_SubState s0 = []"
      "ss_LoadState s0 = []" "\<not> ss_Enabled s0"
    by (simp_all add: s0_def zero_service_def)
  have lines: "\<forall>l \<in> set (map property_line kvs). newline \<notin> set l"
    using ok by (auto simp: list_all_iff property_ok_def property_line_def)
  have "set_property time [] st = st" for st by (simp add: set_property_def)
  then have s: "s = fold (set_property time) (map property_line kvs) s0"
    using split_on_newline_unlines [OF lines, of "[]"] by (simp add: s_def parse_show_def split_on_none s0_def)
  note eq = set_property_line
  have state: "ss_State s = final_state kvs"
    unfolding s fold_property_state [OF ok] final_state_def s0 by (simp split: list.split)
  have name: "ss_ServiceName s = name"
  proof -
    have "ss_ServiceName (fold (set_property time) (map property_line xs) st) = ss_ServiceName st" if "list_all property_ok xs" for xs st
      using that by (induction xs arbitrary: st) (simp_all add: eq)
    from this [OF ok] show ?thesis by (simp add: s s0)
  qed
  have active: "ss_ActiveState s = (case map_of kvs ''ActiveState'' of None \<Rightarrow> [] | Some v \<Rightarrow> v)"
    unfolding s using fold_property_field [OF ok dist, of "''ActiveState''" ss_ActiveState time "\<lambda>v _. v" s0] eq(2) s0
    by (simp split: option.split)
  have sub: "ss_SubState s = (case map_of kvs ''SubState'' of None \<Rightarrow> [] | Some v \<Rightarrow> v)"
    unfolding s using fold_property_field [OF ok dist, of "''SubState''" ss_SubState time "\<lambda>v _. v" s0] eq(3) s0
    by (simp split: option.split)
  have load: "ss_LoadState s = (case map_of kvs ''LoadState'' of None \<Rightarrow> [] | Some v \<Rightarrow> v)"
    unfolding s using fold_property_field [OF ok dist, of "''LoadState''" ss_LoadState time "\<lambda>v _. v" s0] eq(4) s0
    by (simp split: option.split)
  have enabled: "ss_Enabled s \<longleftrightarrow> map_of kvs ''UnitFileState'' = Some ''enabled''"
    unfolding s using fold_property_field [OF ok dist, of "''UnitFileState''" ss_Enabled time "\<lambda>v _. v = ''enabled''" s0] eq(5) s0
    by (simp split: option.split)
  have pid: "ss_PID s = pid" if "map_of kvs ''MainPID'' = Some (itoa pid)" "int64 pid" for pid
    unfolding s using fold_property_field [OF ok dist, of "''MainPID''" ss_PID time
        "\<lambda>v old. if snd (atoi v) = None then fst (atoi v) else old" s0] eq(6) that
    by (simp add: atoi_itoa int64_def)
  have "final_state kvs = ServiceStateNotFound \<longleftrightarrow>
        (\<exists>xs ys. kvs = xs @ (''LoadState'', ''not-found'') # ys
          \<and> (\<forall>v. map_of ys ''ActiveState'' = Some v \<longrightarrow> v \<notin> {''active'', ''inactive'', ''failed''}))"
    by (rule final_not_found [OF dist])
  then show ?thesis using state name active sub load enabled pid by blast
qed

text \<open>A unit that is not there, its properties in the order of systemd.\<close>

definition demo_show :: "(string \<times> string) list" where
  "demo_show = [(''MainPID'', itoa 7), (''LoadState'', ''not-found''), (''ActiveState'', ''inactive''), (''SubState'', ''dead'')]"

lemma service_status_fields_witness:
  "let s = parse_show (\<lambda>_. None) ''ssh.service'' (unlines (map property_line demo_show)) in
     ss_State s = ServiceStateStopped \<and> ss_LoadState s = ''not-found'' \<and> ss_SubState s = ''dead'' \<and> ss_PID s = 7"
proof -
  have "newline \<notin> set (itoa 7)" using itoa_no_space [of newline 7] by auto
  then have ok: "list_all property_ok demo_show" by (simp add: demo_show_def property_ok_def)
  have dist: "distinct (map fst demo_show)" by (simp add: demo_show_def)
  have final: "final_state demo_show = ServiceStateStopped"
    by (simp add: final_state_def demo_show_def map_filter_simps state_says_def active_state_def)
  have fields: "map_of demo_show ''LoadState'' = Some ''not-found''" "map_of demo_show ''SubState'' = Some ''dead''"
      "map_of demo_show ''MainPID'' = Some (itoa 7)" "int64 7"
    by (simp_all add: demo_show_def int64_def)
  show ?thesis
    using service_status_fields [OF ok dist, of "\<lambda>_. None" "''ssh.service''"] final fields by (simp add: Let_def)
qed

section \<open>The port\<close>

lemma lower_port: "to_lower ''Port'' = ''port''"
  by code_simp

lemma re_port_SomeD:
  assumes "re_port l = Some ds"
  shows "\<exists>sp k c t. l = sp @ k @ c # t \<and> list_all is_re_space sp \<and> equal_fold k ''Port'' \<and> is_re_space c"
proof -
  let ?s = "dropWhile is_re_space l"
  have p: "to_lower (take 4 ?s) = ''port''" "drop 4 ?s \<noteq> []" "is_re_space (hd (drop 4 ?s))"
    using assms by (auto simp: re_port_def Let_def split: if_splits)
  obtain c t where c: "drop 4 ?s = c # t" using p(2) by (cases "drop 4 ?s") auto
  have "l = takeWhile is_re_space l @ take 4 ?s @ c # t" by (metis append_take_drop_id c takeWhile_dropWhile_id)
  moreover have "list_all is_re_space (takeWhile is_re_space l)" by (auto simp: list_all_iff dest: set_takeWhileD)
  moreover have "equal_fold (take 4 ?s) ''Port''" using p(1) by (simp only: equal_fold_def lower_port)
  ultimately show ?thesis using p(3) c by (metis list.sel(1))
qed

lemma port_line_found:
  assumes "port_of_line (drop_cr l) \<noteq> None"
  shows "re_key_line ''Port'' l"
proof -
  obtain ds where "re_port (drop_cr l) = Some ds" using assms by (auto simp: port_of_line_def split: if_splits option.splits)
  then obtain sp k c t where d: "drop_cr l = sp @ k @ c # t" "list_all is_re_space sp" "equal_fold k ''Port''" "is_re_space c"
    using re_port_SomeD by blast
  have "\<exists>u. l = drop_cr l @ u" by (cases "l \<noteq> [] \<and> last l = carriage_return") (auto simp: drop_cr_def intro: append_butlast_last_id [symmetric])
  then obtain u where "l = sp @ k @ c # (t @ u)" using d(1) by auto
  then show ?thesis using d unfolding re_key_line_def re_spaces_key_iff by blast
qed

lemma port_of_directive_line:
  assumes "0 \<le> n" and "int64 n"
  shows "port_of_line (directive_line ''Port'' (itoa n)) = Some n"
    and "drop_cr (directive_line ''Port'' (itoa n)) = directive_line ''Port'' (itoa n)"
proof -
  let ?ds = "itoa n" and ?l = "directive_line ''Port'' (itoa n)"
  have l: "?l = ''Port'' @ CHR '' '' # ?ds" by (simp add: directive_line_def)
  have ds: "?ds \<noteq> []" "list_all is_digit ?ds"
    using assms(1) by (auto simp: itoa_def list_all_iff nat_str_digits)
  have digit: "\<not> is_re_space c \<and> c \<noteq> carriage_return" if "is_digit c" for c
    using that by (auto simp: is_re_space_def is_space_def is_digit_def)
  have d: "dropWhile is_re_space ?ds = ?ds" "takeWhile is_digit ?ds = ?ds"
    using ds digit by (cases ?ds; simp add: list_all_iff takeWhile_eq_all_conv)+
  have sp: "\<not> is_re_space CHR ''P''" "is_re_space CHR '' ''" by (simp_all add: is_re_space_def is_space_def)
  have s: "dropWhile is_re_space ?l = ?l" using sp by (simp add: l)
  have parts: "take 4 ?l = ''Port''" "drop 4 ?l = CHR '' '' # ?ds" by (simp_all add: l)
  have tw: "takeWhile is_digit (dropWhile is_re_space (CHR '' '' # ?ds)) = ?ds"
    by (simp only: dropWhile.simps sp if_True d)
  have "re_port ?l = Some ?ds"
    unfolding re_port_def Let_def s parts lower_port tw using ds(1) sp by simp
  moreover have "\<not> has_prefix (trim_space ?l) ''#''"
  proof -
    have "\<not> is_space (last ?l)" using ds itoa_no_space [of "last ?ds" n] by (simp add: l)
    then have "trim_space ?l = ?l" using trim_space_id [of ?l] by (simp add: l is_space_def)
    then show ?thesis by (simp add: l)
  qed
  moreover have "atoi ?ds = (n, None)" using atoi_itoa assms(2) by (simp add: int64_def)
  ultimately show "port_of_line ?l = Some n" by (simp add: port_of_line_def)
  have "last ?ds \<noteq> carriage_return" using ds digit by (metis last_in_set list_all_iff)
  then show "drop_cr ?l = ?l" using ds by (simp add: drop_cr_def l)
qed

lemma port_after_update:
  assumes n: "0 \<le> n" "int64 n" and short: "\<not> scan_too_long (updateDirective content ''Port'' (itoa n))"
  shows "first_some port_of_line (scan_lines (updateDirective content ''Port'' (itoa n))) = Some n"
proof -
  let ?new = "updateDirective content ''Port'' (itoa n)" and ?lines = "split_on newline content"
  let ?f = "\<lambda>l. port_of_line (drop_cr l)" and ?l = "directive_line ''Port'' (itoa n)"
  have nl: "newline \<notin> set ''Port''" "newline \<notin> set (itoa n)" using itoa_no_space [of newline n] by auto
  have f: "?f ?l = Some n" using port_of_directive_line [OF n] by simp
  have "first_some ?f (update_lines ''Port'' (itoa n) ?lines) = Some n"
  proof (cases "replace_first (re_key_line ''Port'') ?l ?lines")
    case None
    then have "\<forall>l \<in> set ?lines. ?f l = None" using port_line_found by (fastforce simp: replace_first_None)
    then show ?thesis using f None by (simp add: update_lines_def first_some_append first_some_none)
  next
    case (Some ys)
    then show ?thesis
      using replace_first_hit [OF Some, of ?f n] port_line_found f by (simp add: update_lines_def)
  qed
  then have "first_some ?f (raw_lines ?new @ (if last (split_on newline ?new) = [] then [[]] else [])) = Some n"
    unfolding raw_lines_split unfolding split_updateDirective [OF nl] .
  moreover have "?f [] = None" by (simp add: port_of_line_def re_port_def drop_cr_def to_lower_def)
  ultimately have raw: "first_some ?f (raw_lines ?new) = Some n"
    by (auto simp: first_some_append split: if_splits option.splits)
  show ?thesis unfolding scan_lines_short [OF short]
    using first_some_cong [of "raw_lines ?new" ?f port_of_line drop_cr] raw by simp
qed

text \<open>
  A port written to \<open>sshd_config\<close> by the configuration manager is the port that the status reports, whatever
  other port lines, commented ones included, the old file had and whatever the drop-in files say.
\<close>

theorem port_change_reported:
  assumes "0 \<le> n" and "int64 n"
    and "t_read_file ''/etc/ssh/sshd_config'' (se_files se w) = Inr (updateDirective content ''Port'' (itoa n))"
    and "\<not> scan_too_long (updateDirective content ''Port'' (itoa n))"
  shows "ni_SSHPort (GetNetworkInfo se w) = n"
  using port_after_update [OF assms(1,2,4)] assms(3)
  by (simp add: GetNetworkInfo_def getSSHPort_def port_files_def file_lines_def)

definition demo_sshd :: string where
  "demo_sshd = ''#Port 22'' @ newline # ''port 8'' @ [newline]"

definition demo_machine :: "unit sysenv" where
  "demo_machine = \<lparr>se_spawn = (\<lambda>argv inp w. (w, \<lparr>proc_out = [], proc_err = [], proc_fail = Some ''exit status 1''\<rparr>)),
     se_LookPath = (\<lambda>_. None),
     se_files = (\<lambda>_. \<lparr>nodes = [(''/etc/ssh/sshd_config'', File (updateDirective demo_sshd ''Port'' (itoa 7)) 420)],
       refuse = (\<lambda>_. False), spare = (\<lambda>_. False), short = (\<lambda>_. 0)\<rparr>),
     se_home = Inl [], se_hostname = Inr ''h'', se_interfaces = Inr [], se_time = (\<lambda>_. None)\<rparr>"

lemma port_change_reported_witness: "ni_SSHPort (GetNetworkInfo demo_machine ()) = 7"
proof -
  have "\<not> scan_too_long (updateDirective demo_sshd ''Port'' (itoa 7))" by code_simp
  moreover have "t_read_file ''/etc/ssh/sshd_config'' (se_files demo_machine ()) = Inr (updateDirective demo_sshd ''Port'' (itoa 7))"
    by (simp add: t_read_file_def look_def demo_machine_def)
  ultimately show ?thesis by (intro port_change_reported) (simp_all add: int64_def)
qed

section \<open>The watcher\<close>

text \<open>\<open>pollLoop\<close> on the worlds at its turns; \<open>GetSSHStatus\<close> never fails.\<close>

definition pollLoop_status ::
    "'w sysenv \<Rightarrow> 'w list \<Rightarrow> SSHStatus phase \<times> (string, SSHStatus) update hub
      \<Rightarrow> SSHStatus phase \<times> (string, SSHStatus) update hub" where
  "pollLoop_status se ws st = loop_run statusEqual (map (\<lambda>w. Inr (snd (GetSSHStatus se w))) ws) st"

definition status_view ::
    "SSHStatus \<Rightarrow> (ServiceState \<times> bool \<times> int \<times> string \<times> string) \<times> (bool \<times> bool) \<times> ConfigPathInfo \<times> ConfigPathInfo \<times> ConfigPathInfo" where
  "status_view a =
     (let s = sv_Service (st_Server a) in
      ((ss_State s, ss_Enabled s, ss_PID s, ss_ActiveState s, ss_SubState s), (cs_Installed (st_Client a), sv_Installed (st_Server a)),
       cs_SystemConfig (st_Client a), cs_UserConfig (st_Client a), sv_Config (st_Server a)))"

interpretation status_watch: poll_source statusEqual status_view
  by unfold_locales (simp add: statusEqual_def status_view_def Let_def conj_assoc)

lemma last_value_values: "last_value (map Inr (x # xs)) = Some (last (x # xs))"
proof (induction xs rule: rev_induct)
  case (snoc y ys)
  have "last_value (map Inr (x # ys) @ [Inr y]) = Some y" by (simp only: last_value_snoc sum.case)
  then show ?case by simp
qed (simp add: last_value_def)

text \<open>
  After any number of polls the status that the watcher caches for new subscribers has the service's state, the
  installations and the configuration files of the latest poll.  It is the status of a poll as a whole, so a change
  of the firewall, the addresses, the port or the versions alone is not sent.
\<close>

theorem status_watch_current:
  assumes "pollLoop_status se (w # ws) (Starting, b) = (ph, b')"
  shows "\<exists>v. ph = Polling v \<and> hub_lastValue b' = Some (UVal v)
    \<and> status_view v = status_view (snd (GetSSHStatus se (last (w # ws))))
    \<and> (\<forall>w'. status_view (snd (GetSSHStatus se w')) = status_view v
         \<longrightarrow> pollLoop_status se (w # ws @ [w']) (Starting, b) = (ph, b'))"
proof -
  let ?st = "\<lambda>w. snd (GetSSHStatus se w)"
  have run: "loop_run statusEqual (Inr (?st w) # map Inr (map ?st ws)) (Starting, b) = (ph, b')"
    using assms by (simp add: pollLoop_status_def comp_def)
  from status_watch.loop_latest [OF run] obtain p u where p: "ph = Polling p" "hub_lastValue b' = Some (UVal p)"
      "last_value ((Inr (?st w) :: string + SSHStatus) # map Inr (map ?st ws)) = Some u" "status_view p = status_view u" by blast
  have "last_value (map (Inr :: SSHStatus \<Rightarrow> string + SSHStatus) (?st w # map ?st ws)) = Some (last (?st w # map ?st ws))"
    by (rule last_value_values)
  then have "last (?st w # map ?st ws) = u" using p(3) by (simp only: list.map option.inject)
  then have "u = ?st (last (w # ws))" by (cases ws) (auto simp: last_map)
  moreover have "pollLoop_status se (w # ws @ [w']) (Starting, b) = (ph, b')" if "status_view (?st w') = status_view p" for w'
  proof -
    have "pollLoop_status se (w # ws @ [w']) (Starting, b) = loop_turn statusEqual (Inr (?st w')) (ph, b')"
      using assms loop_run_snoc [of statusEqual "map (\<lambda>w. Inr (?st w)) (w # ws)" "Inr (?st w')" "(Starting, b)"]
      by (simp add: pollLoop_status_def)
    then show ?thesis
      using status_watch.quiet_tick [of p "?st w'" b'] that p(1) by (simp add: loop_turn_def)
  qed
  ultimately show ?thesis using p by blast
qed

lemma status_watch_current_witness:
  "\<exists>v b'. pollLoop_status demo_machine [(), ()] (Starting, New_hub) = (Polling v, b') \<and> hub_lastValue b' = Some (UVal v)"
proof -
  obtain ph b' where "pollLoop_status demo_machine [(), ()] (Starting, New_hub) = (ph, b')" by fastforce
  from status_watch_current [OF this] this show ?thesis by blast
qed

section \<open>The instructions\<close>

text \<open>Where there is a command, it is one of the steps, and it installs the package named.\<close>

definition install_ok :: "string \<times> string \<times> string list \<times> string \<Rightarrow> bool" where
  "install_ok i = (case i of (package, cmd, steps, url) \<Rightarrow>
     cmd \<noteq> [] \<longrightarrow> ''Run: '' @ cmd \<in> set steps \<and> has_suffix cmd (CHR '' '' # package))"

lemma if_rule: "P x \<Longrightarrow> P y \<Longrightarrow> P (if c then x else y)"
  by simp

lemma instructions_ok: "install_ok (getClientInstallInstructions distro)" "install_ok (getServerInstallInstructions distro)"
  unfolding getClientInstallInstructions_def getServerInstallInstructions_def
  by (intro if_rule [of install_ok]; simp add: install_ok_def has_suffix_def has_prefix_def)+

lemma install_command_in_steps:
  fixes se :: "'w sysenv"
  defines "i \<equiv> \<lambda>component w. GetInstallInstructions se component w"
  assumes "in_InstallCommand (i component w) \<noteq> []"
  shows "''Run: '' @ in_InstallCommand (i component w) \<in> set (in_Steps (i component w))
    \<and> has_suffix (in_InstallCommand (i component w)) (CHR '' '' # in_PackageName (i component w))"
  using assms(2) instructions_ok [of "fst (getDistributionInfo se w)"]
  by (auto simp: i_def GetInstallInstructions_def Let_def install_ok_def split: if_splits prod.splits)

end
