(* ===== verification/Discovery.thy ===== *)
theory Discovery
  imports SystemStatus "HOL-Library.Multiset"
begin

text \<open>
  Where the configuration files of ssh are: \<open>config/discovery.go\<close>.

  The machine is the record \<open>sysenv\<close> of \<open>SystemStatus\<close>.  \<open>detectDistribution\<close> iterates over a Go map, in no
  fixed order: the order is an argument, and the properties hold for every arrangement of \<open>distroFiles\<close>.
\<close>

section \<open>Data\<close>

datatype DiscoveryMethod =
    DiscoveryMethodUnspecified | DiscoveryMethodCommand | DiscoveryMethodPackageManager
  | DiscoveryMethodCommonPath | DiscoveryMethodUserSpecified

definition DiscoveryMethod_String :: "DiscoveryMethod \<Rightarrow> string" where
  "DiscoveryMethod_String m =
     (case m of DiscoveryMethodCommand \<Rightarrow> ''command'' | DiscoveryMethodPackageManager \<Rightarrow> ''package_manager''
      | DiscoveryMethodCommonPath \<Rightarrow> ''common_path'' | DiscoveryMethodUserSpecified \<Rightarrow> ''user_specified''
      | DiscoveryMethodUnspecified \<Rightarrow> ''unspecified'')"

record DiscoveredPath =
  dp_Path :: string
  dp_Exists :: bool
  dp_Readable :: bool
  dp_Writable :: bool
  dp_IncludeDir :: string
  dp_DiscoveryMethod :: DiscoveryMethod

record DiscoveredPaths =
  ds_ClientSystemConfig :: DiscoveredPath
  ds_ClientUserConfig :: DiscoveredPath
  ds_ServerConfig :: DiscoveredPath
  ds_Distribution :: string
  ds_SSHClientInstalled :: bool
  ds_SSHServerInstalled :: bool

definition zero_discovered :: DiscoveredPath where
  "zero_discovered = \<lparr>dp_Path = [], dp_Exists = False, dp_Readable = False, dp_Writable = False, dp_IncludeDir = [],
     dp_DiscoveryMethod = DiscoveryMethodUnspecified\<rparr>"

section \<open>Paths\<close>

definition isCommandAvailable :: "'w sysenv \<Rightarrow> string \<Rightarrow> bool" where
  "isCommandAvailable se cmd \<longleftrightarrow> se_LookPath se cmd \<noteq> None"

definition checkPath :: "string \<Rightarrow> treefs \<Rightarrow> DiscoveredPath" where
  "checkPath path t =
     (let info = zero_discovered\<lparr>dp_Path := path\<rparr> in
      if t_stat path t \<noteq> None then info
      else info\<lparr>dp_Exists := True, dp_Readable := \<not> refuse t (CRead path),
        dp_Writable := \<not> is_dir t path \<and> \<not> refuse t (CCreate path)\<rparr>)"

text \<open>The include directory, unless it is known not to exist.\<close>

definition include_dir :: "string \<Rightarrow> treefs \<Rightarrow> string" where
  "include_dir dir t = (if t_stat dir t = Some NotExist then [] else dir)"

definition found_at :: "DiscoveryMethod \<Rightarrow> string \<Rightarrow> treefs \<Rightarrow> DiscoveredPath" where
  "found_at m path t = (checkPath path t)\<lparr>dp_DiscoveryMethod := m, dp_IncludeDir := include_dir (path @ ''.d'') t\<rparr>"

fun first_common :: "string list \<Rightarrow> treefs \<Rightarrow> DiscoveredPath option" where
  "first_common [] t = None"
| "first_common (path # paths) t =
     (if dp_Exists (checkPath path t) then Some (found_at DiscoveryMethodCommonPath path t) else first_common paths t)"

text \<open>The first common path that exists, else the first of all with the given include directory.\<close>

definition fallback :: "string list \<Rightarrow> string \<Rightarrow> treefs \<Rightarrow> DiscoveredPath" where
  "fallback paths dir t =
     (case first_common paths t of
        Some info \<Rightarrow> info
      | None \<Rightarrow> zero_discovered\<lparr>dp_Path := hd paths, dp_DiscoveryMethod := DiscoveryMethodCommonPath, dp_IncludeDir := dir\<rparr>)"

definition discoverClientUserConfig :: "'w sysenv \<Rightarrow> 'w \<Rightarrow> DiscoveredPath" where
  "discoverClientUserConfig se w =
     (case se_home se of
        Inl _ \<Rightarrow> zero_discovered
      | Inr homeDir \<Rightarrow>
          (checkPath (path_join [homeDir, ''.ssh'', ''config'']) (se_files se w))
            \<lparr>dp_DiscoveryMethod := DiscoveryMethodCommonPath,
             dp_IncludeDir := include_dir (path_join [homeDir, ''.ssh'', ''config.d'']) (se_files se w)\<rparr>)"

definition client_paths :: "string list" where
  "client_paths = [''/etc/ssh/ssh_config'', ''/etc/ssh_config'', ''/usr/local/etc/ssh/ssh_config'']"

definition server_paths :: "string list" where
  "server_paths = [''/etc/ssh/sshd_config'', ''/etc/sshd_config'', ''/usr/local/etc/ssh/sshd_config'']"

section \<open>The client's configuration\<close>

definition getClientConfigFromCommand :: "'w sysenv \<Rightarrow> 'w \<Rightarrow> 'w \<times> string" where
  "getClientConfigFromCommand se w =
     (case se_spawn se [''ssh'', ''-G'', ''localhost''] [] w of (w1, p) \<Rightarrow>
        (w1, if proc_fail p = None then ''/etc/ssh/ssh_config'' else []))"

text \<open>One package manager: nothing when it is not installed, fails or lists no such file.\<close>

definition ask_packages :: "'w sysenv \<Rightarrow> string list \<Rightarrow> (string list \<Rightarrow> string option) \<Rightarrow> 'w \<Rightarrow> 'w \<times> string option" where
  "ask_packages se argv pick w =
     (if \<not> isCommandAvailable se (hd argv) then (w, None)
      else (case se_spawn se argv [] w of (w1, p) \<Rightarrow>
        (w1, if proc_fail p = None then pick (split_on newline (proc_out p)) else None)))"

definition listed_file :: "string \<Rightarrow> string list \<Rightarrow> string option" where
  "listed_file name lines =
     map_option trim_space (find (\<lambda>line. has_suffix line name \<and> contains line ''/etc/'') lines)"

definition second_field :: "string \<Rightarrow> string option" where
  "second_field line = (if 2 \<le> length (str_fields line) then Some (str_fields line ! 1) else None)"

definition pacman_client :: "string list \<Rightarrow> string option" where
  "pacman_client lines = first_some (\<lambda>line.
     if contains line ''ssh_config'' \<and> contains line ''/etc/'' \<and> \<not> contains line ''sshd'' then second_field line else None) lines"

definition pacman_server :: "string list \<Rightarrow> string option" where
  "pacman_server lines = first_some (\<lambda>line.
     if contains line ''sshd_config'' \<and> contains line ''/etc/'' then second_field line else None) lines"

definition dpkg_server :: "string list \<Rightarrow> string option" where
  "dpkg_server lines =
     (case listed_file ''sshd_config'' lines of
        Some path \<Rightarrow> Some path
      | None \<Rightarrow> if list_ex (\<lambda>line. has_suffix line ''sshd_config'' \<and> contains line ''/usr/share/'') lines
          then Some ''/etc/ssh/sshd_config'' else None)"

text \<open>The first package manager with an answer.\<close>

fun ask_all :: "'w sysenv \<Rightarrow> (string list \<times> (string list \<Rightarrow> string option)) list \<Rightarrow> 'w \<Rightarrow> 'w \<times> string" where
  "ask_all se [] w = (w, [])"
| "ask_all se ((argv, pick) # qs) w =
     (case ask_packages se argv pick w of
        (w1, Some path) \<Rightarrow> (w1, path)
      | (w1, None) \<Rightarrow> ask_all se qs w1)"

definition getClientConfigFromPackageManager :: "'w sysenv \<Rightarrow> 'w \<Rightarrow> 'w \<times> string" where
  "getClientConfigFromPackageManager se w =
     ask_all se [([''dpkg'', ''-L'', ''openssh-client''], listed_file ''ssh_config''),
       ([''rpm'', ''-ql'', ''openssh-clients''], listed_file ''ssh_config''),
       ([''pacman'', ''-Ql'', ''openssh''], pacman_client)] w"

definition discoverClientSystemConfig :: "'w sysenv \<Rightarrow> 'w \<Rightarrow> 'w \<times> DiscoveredPath" where
  "discoverClientSystemConfig se w =
     (case getClientConfigFromCommand se w of (w1, path1) \<Rightarrow>
        if path1 \<noteq> [] then (w1, found_at DiscoveryMethodCommand path1 (se_files se w1))
        else (case getClientConfigFromPackageManager se w1 of (w2, path2) \<Rightarrow>
          if path2 \<noteq> [] then (w2, found_at DiscoveryMethodPackageManager path2 (se_files se w2))
          else (w2, fallback client_paths [] (se_files se w2))))"

section \<open>The server's configuration\<close>

definition getServerConfigFromCommand :: "'w sysenv \<Rightarrow> 'w \<Rightarrow> 'w \<times> string" where
  "getServerConfigFromCommand se w =
     (case se_spawn se [''sshd'', ''-T''] [] w of (w1, p) \<Rightarrow>
        (w1, if contains (proc_err p) ''/etc/ssh/sshd_config'' then ''/etc/ssh/sshd_config''
             else if se_LookPath se ''sshd'' \<noteq> None then ''/etc/ssh/sshd_config'' else []))"

definition getServerConfigFromPackageManager :: "'w sysenv \<Rightarrow> 'w \<Rightarrow> 'w \<times> string" where
  "getServerConfigFromPackageManager se w =
     ask_all se [([''dpkg'', ''-L'', ''openssh-server''], dpkg_server),
       ([''rpm'', ''-ql'', ''openssh-server''], listed_file ''sshd_config''),
       ([''pacman'', ''-Ql'', ''openssh''], pacman_server)] w"

definition discoverServerConfig :: "'w sysenv \<Rightarrow> 'w \<Rightarrow> 'w \<times> DiscoveredPath" where
  "discoverServerConfig se w =
     (case getServerConfigFromCommand se w of (w1, path1) \<Rightarrow>
        if path1 \<noteq> [] then (w1, found_at DiscoveryMethodCommand path1 (se_files se w1))
        else (case getServerConfigFromPackageManager se w1 of (w2, path2) \<Rightarrow>
          if path2 \<noteq> [] then (w2, found_at DiscoveryMethodPackageManager path2 (se_files se w2))
          else (w2, let t = se_files se w2 in fallback server_paths
            (if t_stat ''/usr/share/openssh/sshd_config'' t = None then ''/etc/ssh/sshd_config.d'' else []) t)))"

section \<open>The distribution\<close>

definition distroFiles :: "(string \<times> string) list" where
  "distroFiles = [(''/etc/debian_version'', ''debian''), (''/etc/redhat-release'', ''rhel''),
     (''/etc/fedora-release'', ''fedora''), (''/etc/arch-release'', ''arch''), (''/etc/gentoo-release'', ''gentoo''),
     (''/etc/SuSE-release'', ''suse'')]"

definition release_id :: "string \<Rightarrow> string list \<Rightarrow> string option" where
  "release_id key lines =
     map_option (\<lambda>line. trim_quotes (trim_prefix line key)) (find (\<lambda>line. has_prefix line key) lines)"

definition detectDistribution :: "'w sysenv \<Rightarrow> (string \<times> string) list \<Rightarrow> 'w \<Rightarrow> string" where
  "detectDistribution se order w =
     (let t = se_files se w in
      case release_id ''ID='' (file_lines ''/etc/os-release'' t) of
        Some i \<Rightarrow> i
      | None \<Rightarrow>
          (case release_id ''DISTRIB_ID='' (file_lines ''/etc/lsb-release'' t) of
             Some i \<Rightarrow> to_lower i
           | None \<Rightarrow>
               (case find (\<lambda>(file0, distro). t_stat file0 t = None) order of
                  Some (_, distro) \<Rightarrow> distro
                | None \<Rightarrow> ''unknown'')))"

definition GetDefaultServerConfigPath :: "'w sysenv \<Rightarrow> (string \<times> string) list \<Rightarrow> 'w \<Rightarrow> string" where
  "GetDefaultServerConfigPath se order w =
     (if detectDistribution se order w = ''freebsd'' then ''/usr/local/etc/ssh/sshd_config'' else ''/etc/ssh/sshd_config'')"

definition GetDefaultClientConfigPath :: "'w sysenv \<Rightarrow> (string \<times> string) list \<Rightarrow> 'w \<Rightarrow> string" where
  "GetDefaultClientConfigPath se order w =
     (if detectDistribution se order w = ''freebsd'' then ''/usr/local/etc/ssh/ssh_config'' else ''/etc/ssh/ssh_config'')"

section \<open>All together\<close>

definition Discover :: "'w sysenv \<Rightarrow> (string \<times> string) list \<Rightarrow> 'w \<Rightarrow> 'w \<times> DiscoveredPaths" where
  "Discover se order w =
     (let distribution = detectDistribution se order w;
          user = discoverClientUserConfig se w;
          (w1, system) = discoverClientSystemConfig se w;
          (w2, server) = discoverServerConfig se w1 in
      (w2, \<lparr>ds_ClientSystemConfig = system, ds_ClientUserConfig = user, ds_ServerConfig = server,
         ds_Distribution = distribution, ds_SSHClientInstalled = isCommandAvailable se ''ssh'',
         ds_SSHServerInstalled = isCommandAvailable se ''sshd''\<rparr>))"

definition bool_text :: "bool \<Rightarrow> string" where
  "bool_text b = (if b then ''true'' else ''false'')"

definition path_summary :: "DiscoveredPath \<Rightarrow> string list" where
  "path_summary p =
     [''  Path: '' @ dp_Path p,
      ''  Exists: '' @ bool_text (dp_Exists p) @ '', Readable: '' @ bool_text (dp_Readable p) @ '', Writable: '' @ bool_text (dp_Writable p),
      ''  Discovery: '' @ DiscoveryMethod_String (dp_DiscoveryMethod p)]"

definition include_summary :: "DiscoveredPath \<Rightarrow> string list" where
  "include_summary p = (if dp_IncludeDir p \<noteq> [] then [''  Include Dir: '' @ dp_IncludeDir p] else [])"

definition Summary :: "DiscoveredPaths \<Rightarrow> string" where
  "Summary p = unlines (
     [''Distribution: '' @ ds_Distribution p, ''SSH Client Installed: '' @ bool_text (ds_SSHClientInstalled p),
      ''SSH Server Installed: '' @ bool_text (ds_SSHServerInstalled p), []] @
     ''Client User Config:'' # path_summary (ds_ClientUserConfig p) @
     [[], ''Client System Config:''] @ path_summary (ds_ClientSystemConfig p) @ include_summary (ds_ClientSystemConfig p) @
     [[], ''Server Config:''] @ path_summary (ds_ServerConfig p) @ include_summary (ds_ServerConfig p))"

section \<open>What is reported is so\<close>

definition truthful :: "treefs \<Rightarrow> DiscoveredPath \<Rightarrow> bool" where
  "truthful t info \<longleftrightarrow>
     (dp_Exists info \<longleftrightarrow> t_stat (dp_Path info) t = None)
     \<and> (dp_Readable info \<longleftrightarrow> dp_Exists info \<and> \<not> refuse t (CRead (dp_Path info)))
     \<and> (dp_Writable info \<longleftrightarrow> dp_Exists info \<and> \<not> is_dir t (dp_Path info) \<and> \<not> refuse t (CCreate (dp_Path info)))"

lemma checkPath_truthful: "truthful t (checkPath path t)" "dp_Path (checkPath path t) = path"
  by (simp_all add: truthful_def checkPath_def zero_discovered_def Let_def)

lemma found_at_truthful:
  "truthful t (found_at m path t)" "dp_Path (found_at m path t) = path" "dp_DiscoveryMethod (found_at m path t) = m"
  "dp_IncludeDir (found_at m path t) = include_dir (path @ ''.d'') t"
  using checkPath_truthful [where path = path and t = t] by (simp_all add: truthful_def found_at_def)

lemma first_common_find:
  "first_common paths t = map_option (\<lambda>p. found_at DiscoveryMethodCommonPath p t) (find (\<lambda>p. t_stat p t = None) paths)"
  by (induction paths) (auto simp: checkPath_def zero_discovered_def Let_def)

text \<open>The first usual path that exists, the first of all when none does.\<close>

definition usual_path :: "string list \<Rightarrow> treefs \<Rightarrow> string" where
  "usual_path paths t = (case find (\<lambda>p. t_stat p t = None) paths of Some p \<Rightarrow> p | None \<Rightarrow> hd paths)"

lemma fallback_truthful:
  assumes "paths \<noteq> []"
  shows "truthful t (fallback paths d t)" "dp_Path (fallback paths d t) = usual_path paths t"
    "dp_DiscoveryMethod (fallback paths d t) = DiscoveryMethodCommonPath"
proof -
  have "truthful t (fallback paths d t) \<and> dp_Path (fallback paths d t) = usual_path paths t \<and> dp_DiscoveryMethod (fallback paths d t) = DiscoveryMethodCommonPath"
  proof (cases "find (\<lambda>p. t_stat p t = None) paths")
    case None
    with assms have "t_stat (hd paths) t \<noteq> None" by (simp add: find_None_iff)
    then show ?thesis
      by (simp add: fallback_def None first_common_find usual_path_def truthful_def zero_discovered_def)
  next
    case (Some p)
    then show ?thesis by (simp add: fallback_def first_common_find usual_path_def found_at_truthful)
  qed
  then show "truthful t (fallback paths d t)" "dp_Path (fallback paths d t) = usual_path paths t"
    "dp_DiscoveryMethod (fallback paths d t) = DiscoveryMethodCommonPath" by simp_all
qed

text \<open>
  What is reported of the two system files is so in the file system at the end of the search, whatever way the
  path was found; the way says where it comes from.  When the command gives no path and no package manager does,
  it is the first of the usual paths that exists.
\<close>

theorem discovery_truthful:
  assumes client: "discoverClientSystemConfig se w = (w1, c)" and server: "discoverServerConfig se w1 = (w2, s)"
  shows "truthful (se_files se w1) c \<and> truthful (se_files se w2) s
    \<and> (dp_DiscoveryMethod c = DiscoveryMethodCommand \<and> dp_Path c = ''/etc/ssh/ssh_config''
        \<or> dp_DiscoveryMethod c = DiscoveryMethodPackageManager \<and> dp_Path c \<noteq> []
        \<or> dp_DiscoveryMethod c = DiscoveryMethodCommonPath \<and> dp_Path c = usual_path client_paths (se_files se w1))
    \<and> (dp_DiscoveryMethod s = DiscoveryMethodCommand \<and> dp_Path s = ''/etc/ssh/sshd_config''
        \<or> dp_DiscoveryMethod s = DiscoveryMethodPackageManager \<and> dp_Path s \<noteq> []
        \<or> dp_DiscoveryMethod s = DiscoveryMethodCommonPath \<and> dp_Path s = usual_path server_paths (se_files se w2))
    \<and> (se_LookPath se ''sshd'' \<noteq> None \<longrightarrow> dp_DiscoveryMethod s = DiscoveryMethodCommand)"
proof -
  obtain v1 p1 where c1: "getClientConfigFromCommand se w = (v1, p1)" by fastforce
  then have p1: "p1 = [] \<or> p1 = ''/etc/ssh/ssh_config''" by (auto simp: getClientConfigFromCommand_def split: prod.splits if_splits)
  obtain v2 p2 where c2: "getClientConfigFromPackageManager se v1 = (v2, p2)" by fastforce
  have c: "truthful (se_files se w1) c \<and> (dp_DiscoveryMethod c = DiscoveryMethodCommand \<and> dp_Path c = ''/etc/ssh/ssh_config''
        \<or> dp_DiscoveryMethod c = DiscoveryMethodPackageManager \<and> dp_Path c \<noteq> []
        \<or> dp_DiscoveryMethod c = DiscoveryMethodCommonPath \<and> dp_Path c = usual_path client_paths (se_files se w1))"
  proof (cases "p1 = [] \<and> p2 = []")
    case True
    then have "w1 = v2" "c = fallback client_paths [] (se_files se v2)"
      using client c1 c2 by (auto simp: discoverClientSystemConfig_def)
    then show ?thesis using fallback_truthful [where paths = client_paths and d = "[]" and t = "se_files se w1"] by (simp add: client_paths_def)
  next
    case False
    then show ?thesis using client c1 c2 p1 found_at_truthful by (auto simp: discoverClientSystemConfig_def)
  qed
  obtain u1 q1 where s1: "getServerConfigFromCommand se w1 = (u1, q1)" by fastforce
  then have q1: "q1 = [] \<or> q1 = ''/etc/ssh/sshd_config''" "se_LookPath se ''sshd'' \<noteq> None \<Longrightarrow> q1 \<noteq> []"
    by (auto simp: getServerConfigFromCommand_def split: prod.splits if_splits)
  obtain u2 q2 where s2: "getServerConfigFromPackageManager se u1 = (u2, q2)" by fastforce
  have s: "truthful (se_files se w2) s \<and> (dp_DiscoveryMethod s = DiscoveryMethodCommand \<and> dp_Path s = ''/etc/ssh/sshd_config''
        \<or> dp_DiscoveryMethod s = DiscoveryMethodPackageManager \<and> dp_Path s \<noteq> []
        \<or> dp_DiscoveryMethod s = DiscoveryMethodCommonPath \<and> dp_Path s = usual_path server_paths (se_files se w2))
      \<and> (q1 \<noteq> [] \<longrightarrow> dp_DiscoveryMethod s = DiscoveryMethodCommand)"
  proof (cases "q1 = [] \<and> q2 = []")
    case True
    then obtain d where "w2 = u2" "s = fallback server_paths d (se_files se u2)"
      using server s1 s2 by (auto simp: discoverServerConfig_def Let_def)
    then show ?thesis using fallback_truthful [where paths = server_paths and d = d and t = "se_files se w2"] True by (simp add: server_paths_def)
  next
    case False
    then show ?thesis using server s1 s2 q1(1) found_at_truthful by (auto simp: discoverServerConfig_def)
  qed
  from c s q1(2) show ?thesis by blast
qed

section \<open>The distribution\<close>

text \<open>The identifiers that a file with release information gives, in order.\<close>

definition release_ids :: "string list \<Rightarrow> string list" where
  "release_ids lines = map (\<lambda>l. trim_quotes (trim_prefix l ''ID='')) (filter (\<lambda>l. has_prefix l ''ID='') lines)"

lemma release_id_first: "release_id ''ID='' lines = (case release_ids lines of [] \<Rightarrow> None | i # is \<Rightarrow> Some i)"
proof -
  have "find P xs = (case filter P xs of [] \<Rightarrow> None | x # _ \<Rightarrow> Some x)" for P and xs :: "string list"
    by (induction xs) auto
  then show ?thesis by (simp add: release_id_def release_ids_def split: list.split)
qed

lemma release_id_last:
  "fst (fold os_release_line lines dv) = (if release_ids lines = [] then fst dv else last (release_ids lines))"
proof (induction lines rule: rev_induct)
  case (snoc l ls)
  show ?case
  proof (cases "has_prefix l ''ID=''")
    case True
    then show ?thesis by (simp only: fold_append o_apply fold_simps os_release_line_def if_True release_ids_def filter_append filter.simps map_append list.map last_snoc fst_conv) simp
  next
    case False
    have "fst (os_release_line l d) = fst d" for d using False by (simp only: os_release_line_def if_False) simp
    moreover have "release_ids (ls @ [l]) = release_ids ls"
      by (simp only: release_ids_def filter_append filter.simps False if_False append_Nil2)
    ultimately show ?thesis using snoc.IH by simp
  qed
qed (simp add: release_ids_def)

lemma find_some_order:
  assumes "distinct xs"
  shows "(\<exists>order. mset order = mset xs \<and> find P order = Some x) \<longleftrightarrow> x \<in> set xs \<and> P x"
proof
  assume "\<exists>order. mset order = mset xs \<and> find P order = Some x"
  then show "x \<in> set xs \<and> P x" by (metis find_Some_iff nth_mem mset_eq_setD)
next
  assume x: "x \<in> set xs \<and> P x"
  then have "mset (x # remove1 x xs) = mset xs" by simp
  moreover have "find P (x # remove1 x xs) = Some x" using x by simp
  ultimately show "\<exists>order. mset order = mset xs \<and> find P order = Some x" by blast
qed

text \<open>
  The two detections of the distribution compared: when \<open>/etc/os-release\<close> has ID lines the discovery takes the first
  and the system status the last, so they agree on a file with one; without any, and without \<open>/etc/lsb-release\<close>, the status
  says \<open>unknown\<close> and the discovery answers any distribution whose release file exists: each is the answer in some order of Go's map.
\<close>

theorem distribution_detected:
  fixes se :: "'w sysenv" and w :: 'w
  assumes order: "mset order = mset distroFiles"
  defines "ids \<equiv> release_ids (file_lines ''/etc/os-release'' (se_files se w))"
  shows "(ids \<noteq> [] \<longrightarrow> detectDistribution se order w = hd (ids) \<and> fst (getDistributionInfo se w) = last (ids))
    \<and> (length (ids) = 1 \<longrightarrow> detectDistribution se order w = fst (getDistributionInfo se w))
    \<and> (ids = [] \<longrightarrow> fst (getDistributionInfo se w) = ''unknown'')
    \<and> (ids = [] \<and> t_read_file ''/etc/lsb-release'' (se_files se w) = Inl NotExist \<longrightarrow>
        (if \<exists>(p, d) \<in> set distroFiles. t_stat p (se_files se w) = None
         then {detectDistribution se ord w | ord. mset ord = mset distroFiles} = {d. \<exists>p. (p, d) \<in> set distroFiles \<and> t_stat p (se_files se w) = None}
         else detectDistribution se order w = ''unknown''))"
proof -
  let ?t = "se_files se w" and ?P = "\<lambda>(p, d). t_stat p (se_files se w) = None"
  have info: "fst (getDistributionInfo se w) = (if ids = [] then ''unknown'' else last (ids))"
    by (simp add: getDistributionInfo_def release_id_last ids_def)
  have some: "ids \<noteq> [] \<Longrightarrow> detectDistribution se order w = hd (ids)"
    by (cases "ids") (simp_all add: detectDistribution_def Let_def release_id_first ids_def)
  have one: "detectDistribution se order w = fst (getDistributionInfo se w)" if "length (ids) = 1"
    using that some info by (cases "ids") auto
  have none: "detectDistribution se ord w = (case find ?P ord of Some (_, d) \<Rightarrow> d | None \<Rightarrow> ''unknown'')"
    if "ids = []" "t_read_file ''/etc/lsb-release'' ?t = Inl NotExist" for ord
  proof -
    have "release_id ''ID='' (file_lines ''/etc/os-release'' ?t) = None" using that(1) by (simp add: release_id_first ids_def)
    moreover have "release_id ''DISTRIB_ID='' (file_lines ''/etc/lsb-release'' ?t) = None"
      using that(2) by (simp add: file_lines_def release_id_def)
    ultimately show ?thesis by (simp add: detectDistribution_def Let_def)
  qed
  have files: "if \<exists>(p, d) \<in> set distroFiles. t_stat p ?t = None
         then {detectDistribution se ord w | ord. mset ord = mset distroFiles} = {d. \<exists>p. (p, d) \<in> set distroFiles \<and> t_stat p ?t = None}
         else detectDistribution se order w = ''unknown''"
    if n: "ids = []" "t_read_file ''/etc/lsb-release'' ?t = Inl NotExist"
  proof (cases "\<exists>(p, d) \<in> set distroFiles. t_stat p ?t = None")
    case True
    have dist: "distinct distroFiles" by (simp add: distroFiles_def)
    have found: "find ?P ord \<noteq> None" if "mset ord = mset distroFiles" for ord
      using True mset_eq_setD [OF that] by (auto simp: find_None_iff)
    have "{detectDistribution se ord w | ord. mset ord = mset distroFiles} = {d. \<exists>p. (p, d) \<in> set distroFiles \<and> t_stat p ?t = None}" (is "?L = ?R")
    proof (intro set_eqI iffI)
      fix d assume "d \<in> ?L"
      then obtain ord where ord: "mset ord = mset distroFiles" "d = detectDistribution se ord w" by blast
      then obtain p e where pe: "find ?P ord = Some (p, e)" using found by fastforce
      then have "d = e" using ord(2) none [OF n] by simp
      moreover have "(p, e) \<in> set distroFiles \<and> ?P (p, e)" using find_some_order [OF dist, of ?P "(p, e)"] pe ord(1) by blast
      ultimately show "d \<in> ?R" by auto
    next
      fix d assume "d \<in> ?R"
      then obtain p where "(p, d) \<in> set distroFiles \<and> ?P (p, d)" by auto
      then obtain ord where "mset ord = mset distroFiles" "find ?P ord = Some (p, d)" using find_some_order [OF dist, of ?P "(p, d)"] by blast
      then have "mset ord = mset distroFiles \<and> d = detectDistribution se ord w" using none [OF n] by simp
      then show "d \<in> ?L" by blast
    qed
    with True show ?thesis by simp
  next
    case False
    then have "find ?P order = None" using mset_eq_setD [OF order] by (auto simp: find_None_iff)
    with False none [OF n] show ?thesis by simp
  qed
  from info some one files show ?thesis by auto
qed

lemma discovery_truthful_witness:
  "\<exists>c s. discoverClientSystemConfig demo_machine () = ((), c) \<and> discoverServerConfig demo_machine () = ((), s)
    \<and> truthful (se_files demo_machine ()) c \<and> truthful (se_files demo_machine ()) s"
proof -
  obtain c where c: "discoverClientSystemConfig demo_machine () = ((), c)" by (metis surj_pair unit.exhaust)
  obtain s where s: "discoverServerConfig demo_machine () = ((), s)" by (metis surj_pair unit.exhaust)
  from discovery_truthful [OF c s] c s show ?thesis by blast
qed

text \<open>Fedora has both files.\<close>

definition demo_fedora :: "unit sysenv" where
  "demo_fedora = demo_machine\<lparr>se_files := (\<lambda>_. \<lparr>nodes = [(''/etc/redhat-release'', File [] 420), (''/etc/fedora-release'', File [] 420)],
     refuse = (\<lambda>_. False), spare = (\<lambda>_. False), short = (\<lambda>_. 0)\<rparr>)\<rparr>"

lemma distribution_detected_witness:
  "{detectDistribution demo_fedora ord () | ord. mset ord = mset distroFiles} = {''rhel'', ''fedora''}
    \<and> fst (getDistributionInfo demo_fedora ()) = ''unknown''"
proof -
  let ?t = "se_files demo_fedora ()"
  have "release_ids (file_lines ''/etc/os-release'' ?t) = []"
    by (simp add: demo_fedora_def file_lines_def t_read_file_def look_def release_ids_def)
  moreover have "t_read_file ''/etc/lsb-release'' ?t = Inl NotExist"
    by (simp add: demo_fedora_def t_read_file_def look_def)
  moreover have stat: "t_stat p ?t = None \<longleftrightarrow> p = ''/etc/redhat-release'' \<or> p = ''/etc/fedora-release''" for p
    by (simp add: demo_fedora_def t_stat_def look_def)
  moreover have "\<exists>(p, d) \<in> set distroFiles. t_stat p ?t = None"
    unfolding stat by (simp add: distroFiles_def)
  moreover have "{d. \<exists>p. (p, d) \<in> set distroFiles \<and> t_stat p ?t = None} = {''rhel'', ''fedora''}"
  proof -
    have "(''/etc/redhat-release'', d) \<in> set distroFiles \<longleftrightarrow> d = ''rhel''" for d by (simp add: distroFiles_def)
    moreover have "(''/etc/fedora-release'', d) \<in> set distroFiles \<longleftrightarrow> d = ''fedora''" for d by (simp add: distroFiles_def)
    ultimately have "(\<exists>p. (p, d) \<in> set distroFiles \<and> t_stat p ?t = None) \<longleftrightarrow> d = ''rhel'' \<or> d = ''fedora''" for d
      unfolding stat by metis
    then show ?thesis by simp blast
  qed
  ultimately show ?thesis
    using distribution_detected [of distroFiles demo_fedora "()"] by (simp only: if_True simp_thms)
qed

end
