(* ===== verification/HostFiles.thy ===== *)
theory HostFiles
  imports FileSystem
begin

text \<open>
  What \<open>skeys-core/hosts/known_hosts.go\<close> and \<open>authorized_keys.go\<close> share: a file of one entry per
  line, read by a loop that numbers all lines, trims them, skips the empty ones and the comments, and
  parses the rest; and appending a line.

  The locale \<open>line_entries\<close> is the contract of such a line parser: the entry carries the number it was
  given, and nothing else of the entry depends on the number.  Both managers interpret it.
\<close>

text \<open>The body of both \<open>List\<close> loops, from the line number \<open>n\<close> on.\<close>

fun parse_numbered :: "(string \<Rightarrow> nat \<Rightarrow> 'e option) \<Rightarrow> nat \<Rightarrow> string list \<Rightarrow> 'e list" where
  "parse_numbered parse n [] = []"
| "parse_numbered parse n (l # ls) =
     (let lineNum = Suc n; line = trim_space l in
      if line = [] \<or> has_prefix line ''#'' then parse_numbered parse lineNum ls
      else (case parse line lineNum of
              None \<Rightarrow> parse_numbered parse lineNum ls
            | Some e \<Rightarrow> e # parse_numbered parse lineNum ls))"

text \<open>The entries of a file content.\<close>

definition file_entries :: "(string \<Rightarrow> nat \<Rightarrow> 'e option) \<Rightarrow> string \<Rightarrow> 'e list" where
  "file_entries parse content = parse_numbered parse 0 (scan_lines content)"

text \<open>The content a reader sees; a missing file is read as an empty one.\<close>

definition content_of :: "fsys \<Rightarrow> string \<Rightarrow> string" where
  "content_of fs path = (case files fs path of None \<Rightarrow> [] | Some d \<Rightarrow> d)"

text \<open>
  \<open>os.OpenFile(path, O_APPEND|O_CREATE|O_WRONLY)\<close> and \<open>WriteString\<close>: the error says which of the
  two failed.
\<close>

definition append_to_file :: "string \<Rightarrow> string \<Rightarrow> fsys \<Rightarrow> fsys \<times> bool option" where
  "append_to_file path line fs =
     (case os_open_append path fs of
        (fs1, Some _) \<Rightarrow> (fs1, Some False)
      | (fs1, None) \<Rightarrow>
          (case os_append_string path line fs1 of
             (fs2, Some _) \<Rightarrow> (fs2, Some True)
           | (fs2, None) \<Rightarrow> (fs2, None)))"

lemma append_to_file_content:
  assumes "append_to_file path line fs = (fs', None)"
  shows "files fs' = (files fs)(path \<mapsto> content_of fs path @ line)" and "read_denied fs' = read_denied fs"
  using assms by (auto simp: append_to_file_def os_open_append_def os_append_string_def content_of_def
      Let_def split: prod.splits option.splits write_fault.splits)

lemma parse_numbered_append:
  "parse_numbered parse n (ls @ ms) = parse_numbered parse n ls @ parse_numbered parse (n + length ls) ms"
  by (induction ls arbitrary: n) (simp_all add: Let_def split: option.split)

text \<open>Only the trimmed lines matter.\<close>

lemma parse_numbered_drop_cr: "parse_numbered parse n (map drop_cr ls) = parse_numbered parse n ls"
  by (induction ls arbitrary: n) (simp_all add: Let_def split: option.split)

lemma file_entries_short:
  "\<not> scan_too_long s \<Longrightarrow> file_entries parse s = parse_numbered parse 0 (raw_lines s)"
  by (simp add: file_entries_def scan_lines_short parse_numbered_drop_cr)

lemma scan_too_long_append:
  "ends_line s \<Longrightarrow> scan_too_long (s @ t) \<longleftrightarrow> scan_too_long s \<or> scan_too_long t"
  by (simp add: scan_too_long_def raw_lines_append)

text \<open>Appending a line to a file whose last line is complete adds that line and nothing else.\<close>

lemma file_entries_snoc:
  assumes "ends_line s" and "\<not> scan_too_long s" and "newline \<notin> set line" and "short_line line"
  shows "file_entries parse (s @ line @ [newline]) =
      file_entries parse s @ parse_numbered parse (length (raw_lines s)) [line]"
    and "\<not> scan_too_long (s @ line @ [newline])"
proof -
  have line: "raw_lines (line @ [newline]) = [line]" using assms(3) by (rule raw_lines_line)
  with assms show long: "\<not> scan_too_long (s @ line @ [newline])"
    by (simp add: scan_too_long_append) (simp add: scan_too_long_def)
  show "file_entries parse (s @ line @ [newline]) =
      file_entries parse s @ parse_numbered parse (length (raw_lines s)) [line]"
    using assms line by (simp add: file_entries_short long raw_lines_append parse_numbered_append)
qed

text \<open>Without a final line feed the appended line is glued to the last line.\<close>

lemma raw_lines_glue:
  assumes "s \<noteq> []" and "\<not> ends_line s" and "newline \<notin> set line"
  shows "raw_lines (s @ line @ [newline]) = butlast (raw_lines s) @ [last (raw_lines s) @ line]"
proof -
  let ?ls = "raw_lines s"
  have "s \<noteq> unlines ?ls" using assms(2) by (metis ends_line_unlines)
  then have ls: "?ls \<noteq> []" "s = join [newline] ?ls" using raw_lines_decomp [of s] by blast+
  have "s @ line @ [newline] = unlines (butlast ?ls @ [last ?ls @ line])"
  proof -
    have "join [newline] (butlast ?ls @ [last ?ls]) @ line @ [newline] =
        unlines (butlast ?ls @ [last ?ls @ line])"
      by (cases "butlast ?ls = []")
         (simp_all add: unlines_def join_append join_newline_unlines [unfolded unlines_def, symmetric])
    with ls show ?thesis by (metis append_butlast_last_id)
  qed
  moreover have "newline \<notin> set w" if "w \<in> set (butlast ?ls @ [last ?ls @ line])" for w
    using that assms(3) raw_line_no_newline [of _ s] ls(1) by (auto dest: in_set_butlastD)
  ultimately show ?thesis using raw_lines_unlines by metis
qed

section \<open>Lines made of words\<close>

definition word_ok :: "string \<Rightarrow> bool" where
  "word_ok w \<longleftrightarrow> w \<noteq> [] \<and> list_all (\<lambda>c. \<not> is_space c) w"

lemma hd_join: "ws \<noteq> [] \<Longrightarrow> hd ws \<noteq> [] \<Longrightarrow> join sep ws \<noteq> [] \<and> hd (join sep ws) = hd (hd ws)"
  by (cases ws; cases "tl ws") auto

lemma last_join: "ws \<noteq> [] \<Longrightarrow> last ws \<noteq> [] \<Longrightarrow> join sep ws \<noteq> [] \<and> last (join sep ws) = last (last ws)"
proof (induction ws)
  case (Cons v vs)
  then show ?case by (cases "vs = []") (simp_all add: join_Cons)
qed simp

lemma word_ok_ends: "word_ok w \<Longrightarrow> w \<noteq> [] \<and> \<not> is_space (hd w) \<and> \<not> is_space (last w)"
  by (simp add: word_ok_def list_all_iff)

lemma words_line:
  assumes "ws \<noteq> []" and "list_all word_ok ws"
  shows "str_fields (join '' '' ws) = ws" and "trim_space (join '' '' ws) = join '' '' ws"
    and "newline \<notin> set (join '' '' ws)" and "join '' '' ws \<noteq> []" and "hd (join '' '' ws) = hd (hd ws)"
proof -
  show "str_fields (join '' '' ws) = ws"
    using assms(2) by (intro fields_join_space) (auto simp: word_ok_def list_all_iff)
  have "word_ok (hd ws)" and "word_ok (last ws)" using assms by (simp_all add: list_all_iff)
  note w = word_ok_ends [OF this(1)] word_ok_ends [OF this(2)]
  note ends = hd_join [OF assms(1), of "'' ''"] last_join [OF assms(1), of "'' ''"]
  show "join '' '' ws \<noteq> []" and "hd (join '' '' ws) = hd (hd ws)" using ends w by simp_all
  show "trim_space (join '' '' ws) = join '' '' ws"
    using ends w by (intro trim_space_id) simp_all
  show "newline \<notin> set (join '' '' ws)"
  proof
    assume "newline \<in> set (join '' '' ws)"
    then obtain v where "v \<in> set ws" "newline \<in> set v" using set_join [of "'' ''" ws] by auto
    with assms(2) show False unfolding list_all_iff word_ok_def by (metis is_space_simps(2))
  qed
qed

section \<open>The contract of a line parser\<close>

locale line_entries =
  fixes parse :: "string \<Rightarrow> nat \<Rightarrow> 'e option"
    and line_no :: "'e \<Rightarrow> nat"
    and renumber :: "nat \<Rightarrow> 'e \<Rightarrow> 'e"
  assumes parse_line_no: "parse l n = Some e \<Longrightarrow> line_no e = n"
    and parse_renumber: "parse l n = Some e \<Longrightarrow> parse l m = Some (renumber m e)"
begin

text \<open>Entries come in the order of their lines and carry the numbers of their lines.\<close>

lemma entry_numbers:
  "sorted_wrt (<) (map line_no (parse_numbered parse n ls)) \<and>
   (\<forall>e \<in> set (parse_numbered parse n ls). n < line_no e \<and> line_no e \<le> n + length ls \<and>
      parse (trim_space (ls ! (line_no e - Suc n))) (line_no e) = Some e)"
proof (induction ls arbitrary: n)
  case (Cons l ls)
  let ?rest = "parse_numbered parse (Suc n) ls"
  have IH: "sorted_wrt (<) (map line_no ?rest)"
    "\<forall>e \<in> set ?rest. Suc n < line_no e \<and> line_no e \<le> Suc n + length ls \<and>
      parse (trim_space (ls ! (line_no e - Suc (Suc n)))) (line_no e) = Some e"
    using Cons.IH [of "Suc n"] by blast+
  have shift: "(l # ls) ! (line_no e - Suc n) = ls ! (line_no e - Suc (Suc n))" if "Suc n < line_no e" for e
    using that by (simp add: nth_Cons' Suc_diff_Suc)
  have rest: "\<forall>e \<in> set ?rest. n < line_no e \<and> line_no e \<le> n + length (l # ls) \<and>
      parse (trim_space ((l # ls) ! (line_no e - Suc n))) (line_no e) = Some e"
    using IH(2) shift by auto
  show ?case
  proof (cases "trim_space l = [] \<or> has_prefix (trim_space l) ''#'' \<or> parse (trim_space l) (Suc n) = None")
    case True
    then have "parse_numbered parse n (l # ls) = ?rest" by (auto simp: Let_def)
    with IH(1) rest show ?thesis by simp
  next
    case False
    then obtain e where e: "parse (trim_space l) (Suc n) = Some e" by auto
    with False have "parse_numbered parse n (l # ls) = e # ?rest" by (simp add: Let_def)
    moreover have "line_no e = Suc n" using e by (rule parse_line_no)
    ultimately show ?thesis using IH rest e by auto
  qed
qed simp

lemma entry_numbers_distinct: "distinct (map line_no (parse_numbered parse n ls))"
  using entry_numbers [of n ls] strict_sorted_iff by blast

text \<open>Writing entries back one per line and reading them again only renumbers them.\<close>

lemma reread:
  assumes "\<And>e. e \<in> set es \<Longrightarrow> trim_space (text e) = text e \<and> text e \<noteq> [] \<and> \<not> has_prefix (text e) ''#'' \<and>
      (\<exists>k. parse (text e) k = Some (view e))"
  shows "parse_numbered parse n (map text es) = map2 (\<lambda>i e. renumber i (view e)) [Suc n..<Suc (n + length es)] es"
  using assms
proof (induction es arbitrary: n)
  case (Cons e es)
  then obtain k where "parse (text e) k = Some (view e)" by auto
  then have "parse (text e) (Suc n) = Some (renumber (Suc n) (view e))" by (rule parse_renumber)
  moreover have "[Suc n..<Suc (n + length (e # es))] = Suc n # [Suc (Suc n)..<Suc (Suc n + length es)]"
    by (simp add: upt_conv_Cons del: upt_Suc)
  ultimately show ?case using Cons.prems [of e] Cons.IH [of "Suc n"] Cons.prems
    by (simp add: Let_def del: upt_Suc)
qed simp

end

end
