(* ===== verification/AuthorizedKeys.thy ===== *)
theory AuthorizedKeys
  imports HostFiles Broadcast
begin

text \<open>
  \<open>skeys-core/hosts/authorized_keys.go\<close>: listing, adding, removing and changing the keys that may log
  in, and the comparison of listings of \<open>hosts/watcher.go\<close>.

  An entry is one line; its identifier is its line number.  \<open>Remove\<close> and \<open>Update\<close> write the file anew
  from the parsed entries.  \<open>parseOptions\<close> iterates over the runes of a string; on valid UTF-8 that is
  the same as over its bytes, as here.
\<close>

section \<open>The manager\<close>

record AuthorizedKey =
  ak_ID :: string
  ak_KeyType :: string
  ak_FP :: string
  ak_Comm :: string
  ak_PublicKey :: string
  ak_Options :: "string list"
  ak_LineNumber :: nat

definition NewAuthorizedKeysManager :: "string \<Rightarrow> string" where
  "NewAuthorizedKeysManager homeDir = path_join [homeDir, ''.ssh'', ''authorized_keys'']"

fun parse_options_loop :: "string \<Rightarrow> bool \<Rightarrow> string \<Rightarrow> string list" where
  "parse_options_loop current inQuote [] = (if current \<noteq> [] then [current] else [])"
| "parse_options_loop current inQuote (c # cs) =
     (if c = dquote then parse_options_loop (current @ [c]) (\<not> inQuote) cs
      else if c = CHR '','' then
        (if inQuote then parse_options_loop (current @ [c]) inQuote cs
         else if current \<noteq> [] then current # parse_options_loop [] inQuote cs
         else parse_options_loop [] inQuote cs)
      else parse_options_loop (current @ [c]) inQuote cs)"

definition parseOptions :: "string \<Rightarrow> string list" where
  "parseOptions optStr = parse_options_loop [] False optStr"

definition key_type_field :: "string \<Rightarrow> bool" where
  "key_type_field p \<longleftrightarrow> has_prefix p ''ssh-'' \<or> has_prefix p ''ecdsa-'' \<or> has_prefix p ''sk-''"

definition parseLine_ak :: "string \<Rightarrow> nat \<Rightarrow> AuthorizedKey option" where
  "parseLine_ak line lineNum =
     (let parts = str_fields line in
      if length parts < 2 then None
      else (let opts = (if key_type_field (parts ! 0) then [] else parseOptions (parts ! 0));
                idx = (if key_type_field (parts ! 0) then 0 else 1)
        in if length parts \<le> idx + 1 then None
           else Some \<lparr>ak_ID = nat_str lineNum, ak_KeyType = parts ! idx, ak_FP = [],
                      ak_Comm = (if length parts > idx + 2 then join '' '' (drop (idx + 2) parts) else []),
                      ak_PublicKey = line, ak_Options = opts, ak_LineNumber = lineNum\<rparr>))"

definition List_ak :: "string \<Rightarrow> fsys \<Rightarrow> AuthorizedKey list \<times> string option" where
  "List_ak path fs =
     (case os_read_file fs path of
        Inl NotExist \<Rightarrow> ([], None)
      | Inl e \<Rightarrow> ([], Some (''failed to open authorized_keys: '' @ ioerr_msg e))
      | Inr d \<Rightarrow> (file_entries parseLine_ak d,
                  if scan_too_long d then Some ''bufio.Scanner: token too long'' else None))"

definition Add_ak :: "string \<Rightarrow> string \<Rightarrow> string list \<Rightarrow> fsys \<Rightarrow> fsys \<times> string option" where
  "Add_ak path publicKey options fs =
     (case os_mkdir_all (path_dir path) fs of
        Some e \<Rightarrow> (fs, Some (''failed to create .ssh directory: '' @ ioerr_msg e))
      | None \<Rightarrow>
          (let line = (if options \<noteq> [] then join '','' options @ '' '' @ publicKey else publicKey) in
           case append_to_file path (line @ [newline]) fs of
             (fs', Some False) \<Rightarrow> (fs', Some ''failed to open authorized_keys'')
           | (fs', Some True) \<Rightarrow> (fs', Some ''failed to write key'')
           | (fs', None) \<Rightarrow> (fs', None)))"

definition write_lines :: "string \<Rightarrow> string list \<Rightarrow> fsys \<Rightarrow> fsys \<times> string option" where
  "write_lines path lines fs =
     (let content = join [newline] lines;
          content' = (if lines \<noteq> [] then content @ [newline] else content)
      in map_prod id (map_option ioerr_msg) (os_write_file path content' fs))"

definition Remove_ak :: "string \<Rightarrow> nat \<Rightarrow> fsys \<Rightarrow> fsys \<times> string option" where
  "Remove_ak path lineNumber fs =
     (case List_ak path fs of
        (keys, Some e) \<Rightarrow> (fs, Some e)
      | (keys, None) \<Rightarrow>
          write_lines path (map ak_PublicKey (filter (\<lambda>k. ak_LineNumber k \<noteq> lineNumber) keys)) fs)"

definition updated_line :: "string list \<Rightarrow> AuthorizedKey \<Rightarrow> string" where
  "updated_line options key =
     (let parts = str_fields (ak_PublicKey key); idx = (if ak_Options key \<noteq> [] then 1 else 0) in
      if options \<noteq> [] then join '','' options @ '' '' @ join '' '' (drop idx parts)
      else join '' '' (drop idx parts))"

definition Update_ak :: "string \<Rightarrow> nat \<Rightarrow> string list \<Rightarrow> fsys \<Rightarrow> fsys \<times> string option" where
  "Update_ak path lineNumber options fs =
     (case List_ak path fs of
        (keys, Some e) \<Rightarrow> (fs, Some e)
      | (keys, None) \<Rightarrow>
          write_lines path
            (map (\<lambda>k. if ak_LineNumber k = lineNumber then updated_line options k else ak_PublicKey k) keys)
            fs)"

text \<open>One turn of the watcher of the file: a listing, compared with the last one.\<close>

definition authorizedKeysEqual :: "AuthorizedKey list \<Rightarrow> AuthorizedKey list \<Rightarrow> bool" where
  "authorizedKeysEqual a b = entries_equal a b"

definition listing :: "'a \<times> string option \<Rightarrow> string + 'a" where
  "listing r = (case r of (v, None) \<Rightarrow> Inr v | (v, Some e) \<Rightarrow> Inl e)"

definition pollLoop_ak ::
    "string \<Rightarrow> fsys list \<Rightarrow> AuthorizedKey list phase \<times> (string, AuthorizedKey list) update hub
      \<Rightarrow> AuthorizedKey list phase \<times> (string, AuthorizedKey list) update hub" where
  "pollLoop_ak path states st =
     loop_run authorizedKeysEqual (map (\<lambda>fs. listing (List_ak path fs)) states) st"

section \<open>The line parser\<close>

definition renumber_ak :: "nat \<Rightarrow> AuthorizedKey \<Rightarrow> AuthorizedKey" where
  "renumber_ak n k = k\<lparr>ak_ID := nat_str n, ak_LineNumber := n\<rparr>"

lemma parseLine_ak_SomeD:
  assumes "parseLine_ak l n = Some k"
  shows "ak_LineNumber k = n" and "ak_PublicKey k = l" and "parseLine_ak l m = Some (renumber_ak m k)"
  using assms by (auto simp: parseLine_ak_def Let_def renumber_ak_def split: if_splits)

lemma parseLine_ak_entry:
  "parseLine_ak l n = Some k \<Longrightarrow> ak_PublicKey k = l \<and> parseLine_ak l (ak_LineNumber k) = Some k"
  using parseLine_ak_SomeD(1,2) [of l n k] by simp

interpretation ak: line_entries parseLine_ak ak_LineNumber renumber_ak
  by unfold_locales (auto dest: parseLine_ak_SomeD)

lemma write_lines_unlines:
  "write_lines path lines fs = map_prod id (map_option ioerr_msg) (os_write_file path (unlines lines) fs)"
  by (cases "lines = []") (simp_all add: write_lines_def Let_def join_newline_unlines)

lemma parse_numbered_sound:
  "e \<in> set (parse_numbered parseLine_ak n ls) \<Longrightarrow>
   \<exists>l \<in> set ls. ak_PublicKey e = trim_space l \<and> trim_space l \<noteq> [] \<and> \<not> has_prefix (trim_space l) ''#'' \<and>
     parseLine_ak (trim_space l) (ak_LineNumber e) = Some e"
proof (induction ls arbitrary: n)
  case (Cons l ls)
  then show ?case
    by (auto simp: Let_def dest: parseLine_ak_entry split: option.splits if_splits)
qed simp

text \<open>The lines of the entries of a listing, as they are written back.\<close>

lemma listed_lines:
  assumes "List_ak path fs = (keys, None)" and "k \<in> set keys"
  shows "trim_space (ak_PublicKey k) = ak_PublicKey k" and "ak_PublicKey k \<noteq> []"
    and "\<not> has_prefix (ak_PublicKey k) ''#''" and "parseLine_ak (ak_PublicKey k) (ak_LineNumber k) = Some k"
    and "newline \<notin> set (ak_PublicKey k)" and "short_line (ak_PublicKey k)"
proof -
  from assms obtain d where d: "\<not> scan_too_long d" "k \<in> set (file_entries parseLine_ak d)"
    by (auto simp: List_ak_def split: sum.splits ioerr.splits if_splits)
  then obtain l where l: "l \<in> set (raw_lines d)" "ak_PublicKey k = trim_space l" "trim_space l \<noteq> []"
    "\<not> has_prefix (trim_space l) ''#''" "parseLine_ak (trim_space l) (ak_LineNumber k) = Some k"
    using parse_numbered_sound by (metis file_entries_short)
  then show "trim_space (ak_PublicKey k) = ak_PublicKey k" and "ak_PublicKey k \<noteq> []"
    and "\<not> has_prefix (ak_PublicKey k) ''#''" and "parseLine_ak (ak_PublicKey k) (ak_LineNumber k) = Some k"
    by simp_all
  show "newline \<notin> set (ak_PublicKey k)"
    using l(1,2) raw_line_no_newline set_trim_space by fastforce
  have "short_line l" using d(1) l(1) by (simp add: scan_too_long_def list_all_iff)
  moreover have "length (trim_space l) \<le> length l"
    by (rule trim_space_decomp [of l]) (metis le_add2 le_add1 length_append order_trans)
  ultimately show "short_line (ak_PublicKey k)" using l(2) by (simp add: short_line_def)
qed

lemma scan_too_long_unlines:
  "\<forall>l \<in> set ls. newline \<notin> set l \<Longrightarrow> scan_too_long (unlines ls) \<longleftrightarrow> \<not> list_all short_line ls"
  by (simp add: scan_too_long_def raw_lines_unlines)

text \<open>Writing entries back and listing them.\<close>

lemma rewrite_listing:
  assumes lines: "\<And>k. k \<in> set keys \<Longrightarrow> trim_space (text k) = text k \<and> text k \<noteq> [] \<and>
      \<not> has_prefix (text k) ''#'' \<and> newline \<notin> set (text k) \<and> short_line (text k) \<and>
      (\<exists>n. parseLine_ak (text k) n = Some (view k))"
    and written: "write_lines path (map text keys) fs = (fs', None)" and read: "\<not> read_denied fs path"
  shows "List_ak path fs' = (map2 (\<lambda>i k. renumber_ak i (view k)) [1..<Suc (length keys)] keys, None)"
    and "files fs' = (files fs)(path \<mapsto> unlines (map text keys))"
proof -
  let ?c = "unlines (map text keys)"
  have w: "os_write_file path ?c fs = (fs', None)" using written by (simp add: write_lines_unlines)
  show "files fs' = (files fs)(path \<mapsto> ?c)"
    using w by (auto simp: os_write_file_def split: write_fault.splits)
  have nl: "\<forall>l \<in> set (map text keys). newline \<notin> set l" using lines by auto
  have "os_read_file fs' path = Inr ?c" using os_write_file_read [OF w read] .
  moreover have ok: "\<not> scan_too_long ?c"
    using lines by (simp add: scan_too_long_unlines [OF nl] list_all_iff)
  moreover have "file_entries parseLine_ak ?c =
      map2 (\<lambda>i k. renumber_ak i (view k)) [1..<Suc (length keys)] keys"
    using ak.reread [of keys "text" view 0] lines
    by (simp add: file_entries_short [OF ok] raw_lines_unlines [OF nl] del: upt_Suc)
  ultimately show "List_ak path fs' = (map2 (\<lambda>i k. renumber_ak i (view k)) [1..<Suc (length keys)] keys, None)"
    by (simp add: List_ak_def)
qed

section \<open>Well-formed options and key lines\<close>

text \<open>An option as \<open>sshd\<close> knows it, without white space: commas only inside quotes, which are closed.\<close>

fun quote_ok :: "bool \<Rightarrow> string \<Rightarrow> bool" where
  "quote_ok q [] \<longleftrightarrow> \<not> q"
| "quote_ok q (c # cs) \<longleftrightarrow>
     (if c = dquote then quote_ok (\<not> q) cs else (c = CHR '','' \<longrightarrow> q) \<and> quote_ok q cs)"

definition auth_options :: "string list \<Rightarrow> bool" where
  "auth_options opts \<longleftrightarrow> list_all (\<lambda>opt. word_ok opt \<and> quote_ok False opt) opts \<and>
     \<not> key_type_field (join '','' opts) \<and> \<not> has_prefix (join '','' opts) ''#''"

definition line_of :: "string list \<Rightarrow> string list \<Rightarrow> string" where
  "line_of opts parts =
     (if opts \<noteq> [] then join '','' opts @ '' '' @ join '' '' parts else join '' '' parts)"

lemma parse_options_loop_append:
  "quote_ok q opt \<Longrightarrow> parse_options_loop cur q (opt @ rest) = parse_options_loop (cur @ opt) False rest"
  by (induction opt arbitrary: cur q) (auto split: if_splits)

lemma parseOptions_join:
  "list_all (\<lambda>opt. opt \<noteq> [] \<and> quote_ok False opt) opts \<Longrightarrow> parseOptions (join '','' opts) = opts"
proof (induction opts)
  case (Cons opt opts)
  then show ?case
  proof (cases "opts = []")
    case True
    with Cons.prems show ?thesis
      using parse_options_loop_append [of False opt "[]" "[]"] by (simp add: parseOptions_def)
  next
    case False
    with Cons show ?thesis
      by (simp add: parseOptions_def join_Cons parse_options_loop_append)
  qed
qed (simp add: parseOptions_def)

lemma word_ok_join_comma:
  "opts \<noteq> [] \<Longrightarrow> list_all word_ok opts \<Longrightarrow> word_ok (join '','' opts)"
proof -
  assume ne: "opts \<noteq> []" and ok: "list_all word_ok opts"
  have "hd opts \<noteq> []" using ne ok by (cases opts) (auto simp: word_ok_def)
  then have "join '','' opts \<noteq> []" using ne by (simp add: hd_join)
  moreover have "\<not> is_space c" if c: "c \<in> set (join '','' opts)" for c
  proof -
    have "c = CHR '','' \<or> (\<exists>w \<in> set opts. c \<in> set w)" using c set_join [of "'',''" opts] by auto
    moreover have "\<not> is_space CHR '',''" by (simp add: is_space_def)
    ultimately show ?thesis using ok by (auto simp: list_all_iff word_ok_def)
  qed
  ultimately show ?thesis by (simp add: word_ok_def list_all_iff)
qed

lemma line_of_words:
  "line_of opts parts = join '' '' ((if opts \<noteq> [] then [join '','' opts] else []) @ parts)" if "parts \<noteq> []"
  using that by (simp add: line_of_def join_Cons)

definition new_entry :: "nat \<Rightarrow> string list \<Rightarrow> string list \<Rightarrow> AuthorizedKey" where
  "new_entry n opts parts = \<lparr>ak_ID = nat_str n, ak_KeyType = hd parts, ak_FP = [],
     ak_Comm = join '' '' (drop 2 parts), ak_PublicKey = line_of opts parts, ak_Options = opts,
     ak_LineNumber = n\<rparr>"

text \<open>A line built from good options, a key type, a key and the words of a comment is parsed back.\<close>

lemma parse_line_of:
  assumes parts: "list_all word_ok parts" "2 \<le> length parts" and opts: "auth_options opts"
    and kt: "opts = [] \<Longrightarrow> key_type_field (hd parts)" and hash: "hd (hd parts) \<noteq> CHR ''#''"
  shows "parseLine_ak (line_of opts parts) n = Some (new_entry n opts parts)"
    and "trim_space (line_of opts parts) = line_of opts parts" and "line_of opts parts \<noteq> []"
    and "\<not> has_prefix (line_of opts parts) ''#''" and "newline \<notin> set (line_of opts parts)"
proof -
  let ?ws = "(if opts \<noteq> [] then [join '','' opts] else []) @ parts"
  have ne: "parts \<noteq> []" using parts by auto
  have all: "list_all word_ok ?ws"
    using parts(1) opts word_ok_join_comma [of opts] by (auto simp: auth_options_def list_all_iff)
  note line = line_of_words [OF ne, of opts] and ws = words_line [of ?ws, OF _ all]
  show "trim_space (line_of opts parts) = line_of opts parts" and "line_of opts parts \<noteq> []"
    and "newline \<notin> set (line_of opts parts)" using ws ne by (simp_all add: line)
  have "hd (line_of opts parts) = hd (hd ?ws)" using ws(5) ne by (simp add: line)
  moreover have "hd (hd ?ws) \<noteq> CHR ''#''"
  proof (cases "opts = []")
    case False
    then have "word_ok (join '','' opts)"
      using opts by (intro word_ok_join_comma) (auto simp: auth_options_def list_all_iff)
    with False opts show ?thesis by (cases "join '','' opts") (auto simp: auth_options_def word_ok_def)
  qed (simp add: hash)
  ultimately show "\<not> has_prefix (line_of opts parts) ''#''" by (cases "line_of opts parts") auto
  have "str_fields (line_of opts parts) = ?ws" using ws(1) ne by (simp add: line)
  moreover have "parseOptions (join '','' opts) = opts"
    using opts by (intro parseOptions_join) (auto simp: auth_options_def list_all_iff word_ok_def)
  moreover obtain t b c where "parts = t # b # c" using parts(2) by (cases parts; cases "tl parts") auto
  ultimately show "parseLine_ak (line_of opts parts) n = Some (new_entry n opts parts)"
    using opts kt by (auto simp: parseLine_ak_def Let_def new_entry_def auth_options_def)
qed

section \<open>Properties\<close>

lemma List_ak_content:
  "\<not> read_denied fs path \<Longrightarrow> List_ak path fs = (file_entries parseLine_ak (content_of fs path),
     if scan_too_long (content_of fs path) then Some ''bufio.Scanner: token too long'' else None)"
  by (cases "files fs path") (simp_all add: List_ak_def os_read_file_def content_of_def file_entries_def
      scan_lines_def scan_too_long_def)

text \<open>
  Adding a key works on any file whose last line is complete (or that does not exist yet): if the
  options are well formed and the key is a type, a blob and the words of a comment, then after a
  successful \<open>Add\<close> the file lists exactly the old keys, unchanged, and one new key with the given
  type, comment and options under the next line number.
\<close>

theorem authorized_keys_add:
  assumes parts: "list_all word_ok parts" "2 \<le> length parts" "key_type_field (hd parts)"
    and opts: "auth_options opts" and short: "short_line (line_of opts parts)"
    and complete: "ends_line (content_of fs path)" and read: "\<not> read_denied fs path"
    and before: "List_ak path fs = (keys, None)"
    and add: "Add_ak path (join '' '' parts) opts fs = (fs', None)"
  shows "List_ak path fs' =
    (keys @ [new_entry (Suc (length (raw_lines (content_of fs path)))) opts parts], None)"
proof -
  let ?line = "line_of opts parts" and ?c = "content_of fs path"
  have "append_to_file path (?line @ [newline]) fs = (fs', None)"
    using add by (auto simp: Add_ak_def line_of_def Let_def split: option.splits prod.splits bool.splits)
  then have after: "content_of fs' path = ?c @ ?line @ [newline]" "\<not> read_denied fs' path"
    using append_to_file_content [of path _ fs fs'] read by (simp_all add: content_of_def)
  have hash: "hd (hd parts) \<noteq> CHR ''#''"
    using parts by (cases "hd parts") (auto simp: key_type_field_def)
  note line = parse_line_of [OF parts(1,2) opts parts(3) hash]
  have c: "\<not> scan_too_long ?c" "keys = file_entries parseLine_ak ?c"
    using before by (simp_all add: List_ak_content [OF read] split: if_splits)
  have "parse_numbered parseLine_ak n [?line] = [new_entry (Suc n) opts parts]" for n
    using line by simp
  with after file_entries_snoc(1) [OF complete c(1) line(5) short, of parseLine_ak]
    file_entries_snoc(2) [OF complete c(1) line(5) short] c(2) show ?thesis
    by (simp add: List_ak_content)
qed

theorem authorized_keys_add_witness:
  "List_ak ''/k'' (fst (Add_ak ''/k'' ''ssh-ed25519 AAAA bob'' [''no-pty''] (fs_with []))) =
     ([new_entry 1 [''no-pty''] [''ssh-ed25519'', ''AAAA'', ''bob'']], None)"
proof -
  have "list_all word_ok [''ssh-ed25519'', ''AAAA'', ''bob'']" "key_type_field (hd [''ssh-ed25519'', ''AAAA'', ''bob''])"
    "auth_options [''no-pty'']" "short_line (line_of [''no-pty''] [''ssh-ed25519'', ''AAAA'', ''bob''])"
    by code_simp+
  moreover have "Add_ak ''/k'' (join '' '' [''ssh-ed25519'', ''AAAA'', ''bob'']) [''no-pty''] (fs_with []) =
      (fst (Add_ak ''/k'' ''ssh-ed25519 AAAA bob'' [''no-pty''] (fs_with [])), None)"
    by (simp add: Add_ak_def os_mkdir_all_def append_to_file_def os_open_append_def os_append_string_def Let_def)
  ultimately show ?thesis
    using authorized_keys_add [of "[''ssh-ed25519'', ''AAAA'', ''bob'']" "[''no-pty'']" "fs_with []" "''/k''" "[]"]
    by (simp add: content_of_def List_ak_def os_read_file_def ends_line_def)
qed

text \<open>
  Removing by line number, for every file: after a successful \<open>Remove\<close> the file lists exactly the
  other keys, in order and with the same fields, renumbered from 1 without gaps; the file then holds
  nothing but the lines of those keys, so comments and lines that do not parse are gone, also when no
  key has the given number.
\<close>

theorem authorized_keys_remove:
  assumes read: "\<not> read_denied fs path" and before: "List_ak path fs = (keys, None)"
    and remove: "Remove_ak path n fs = (fs', None)"
  shows "(let kept = filter (\<lambda>k. ak_LineNumber k \<noteq> n) keys
    in List_ak path fs' = (map2 renumber_ak [1..<Suc (length kept)] kept, None) \<and>
       files fs' = (files fs)(path \<mapsto> unlines (map ak_PublicKey kept)))"
proof -
  let ?kept = "filter (\<lambda>k. ak_LineNumber k \<noteq> n) keys"
  have written: "write_lines path (map ak_PublicKey ?kept) fs = (fs', None)"
    using remove before by (simp add: Remove_ak_def)
  have lines: "trim_space (ak_PublicKey k) = ak_PublicKey k \<and> ak_PublicKey k \<noteq> [] \<and>
      \<not> has_prefix (ak_PublicKey k) ''#'' \<and> newline \<notin> set (ak_PublicKey k) \<and> short_line (ak_PublicKey k) \<and>
      (\<exists>i. parseLine_ak (ak_PublicKey k) i = Some k)" if "k \<in> set ?kept" for k
    using that listed_lines [OF before, of k] by auto
  from rewrite_listing [of ?kept ak_PublicKey "\<lambda>k. k", OF lines written read] show ?thesis
    by (simp add: Let_def del: upt_Suc)
qed

definition two_keys :: string where
  "two_keys = ''# laptop'' @ newline # ''ssh-rsa AAAA bob'' @ newline # ''ssh-rsa BBBB eve'' @ [newline]"

theorem authorized_keys_remove_witness:
  "files (fst (Remove_ak ''/k'' 2 (fs_with [(''/k'', two_keys)]))) ''/k'' =
     Some (''ssh-rsa BBBB eve'' @ [newline])"
proof -
  let ?fs = "fs_with [(''/k'', two_keys)]"
  obtain keys where keys: "keys = file_entries parseLine_ak two_keys" by blast
  have long: "\<not> scan_too_long two_keys" by code_simp
  have before: "List_ak ''/k'' ?fs = (keys, None)"
    using long by (simp add: List_ak_def os_read_file_def keys)
  have kept: "filter (\<lambda>k. ak_LineNumber k \<noteq> 2) keys = [new_entry 3 [] [''ssh-rsa'', ''BBBB'', ''eve'']]"
    unfolding keys by code_simp
  have "Remove_ak ''/k'' 2 ?fs = (fst (Remove_ak ''/k'' 2 ?fs), None)"
    by (simp add: Remove_ak_def before write_lines_def os_write_file_def Let_def)
  from authorized_keys_remove [OF _ before this] kept show ?thesis
    by (simp add: new_entry_def line_of_def unlines_def)
qed

text \<open>What a parsed line has, and the lines that \<open>Update\<close> writes.\<close>

lemma parseLine_ak_shape:
  assumes "parseLine_ak l n = Some k"
  shows "2 \<le> length (str_fields l)"
    and "Suc (if key_type_field (str_fields l ! 0) then 0 else Suc 0) < length (str_fields l)"
    and "ak_KeyType k = str_fields l ! (if key_type_field (str_fields l ! 0) then 0 else Suc 0)"
    and "ak_Options k = (if key_type_field (str_fields l ! 0) then [] else parseOptions (str_fields l ! 0))"
    and "ak_Comm k = join '' '' (drop ((if key_type_field (str_fields l ! 0) then 0 else Suc 0) + 2) (str_fields l))"
    and "ak_FP k = []" and "ak_ID k = nat_str n"
  using assms by (auto simp: parseLine_ak_def Let_def split: if_splits)

lemma updated_line_of:
  assumes "parseLine_ak (ak_PublicKey k) n = Some k" and "\<not> has_prefix (ak_PublicKey k) ''#''"
  obtains parts where "list_all word_ok parts" "2 \<le> length parts" "hd parts = ak_KeyType k"
    "join '' '' (drop 2 parts) = ak_Comm k" "updated_line opts k = line_of opts parts \<or>
       (ak_Options k = [] \<and> \<not> key_type_field (hd (str_fields (ak_PublicKey k))))"
proof -
  let ?fs = "str_fields (ak_PublicKey k)"
  let ?i = "if key_type_field (?fs ! 0) then 0 else Suc 0"
  let ?parts = "drop ?i ?fs"
  note k = parseLine_ak_shape [OF assms(1)]
  have "list_all word_ok ?fs" using fields_word by (force simp: list_all_iff word_ok_def)
  then have "list_all word_ok ?parts" by (auto simp: list_all_iff dest: in_set_dropD)
  moreover have "2 \<le> length ?parts" and "hd ?parts = ak_KeyType k"
    using k(2,3) by (simp_all add: hd_drop_conv_nth)
  moreover have "join '' '' (drop 2 ?parts) = ak_Comm k" using k(5) by (simp add: add.commute)
  moreover have "hd ?fs = ?fs ! 0" using k(1) by (intro hd_conv_nth) auto
  then have "updated_line opts k = line_of opts ?parts \<or>
       (ak_Options k = [] \<and> \<not> key_type_field (hd ?fs))"
    using k(4) by (auto simp: updated_line_def line_of_def Let_def)
  ultimately show ?thesis using that by blast
qed

text \<open>
  Changing the options of a key: if the new options are well formed (and, when there are none, the
  line then starts with a known key type), a successful \<open>Update\<close> gives the key with that line number
  exactly those options and leaves its type and comment and all other keys as they were, up to
  renumbering.
\<close>

theorem authorized_keys_update:
  assumes read: "\<not> read_denied fs path" and before: "List_ak path fs = (keys, None)"
    and opts: "auth_options opts" and update: "Update_ak path n opts fs = (fs', None)"
    and target: "\<forall>k \<in> set keys. ak_LineNumber k = n \<longrightarrow>
      (ak_Options k = [] \<longrightarrow> key_type_field (hd (str_fields (ak_PublicKey k)))) \<and>
      (opts = [] \<longrightarrow> key_type_field (ak_KeyType k)) \<and>
      hd (ak_KeyType k) \<noteq> CHR ''#'' \<and> short_line (updated_line opts k)"
  shows "List_ak path fs' =
    (map2 (\<lambda>i k. renumber_ak i (if ak_LineNumber k = n
         then k\<lparr>ak_Options := opts, ak_PublicKey := updated_line opts k\<rparr> else k))
       [1..<Suc (length keys)] keys, None)"
proof -
  let ?text = "\<lambda>k. if ak_LineNumber k = n then updated_line opts k else ak_PublicKey k"
  let ?view = "\<lambda>k. if ak_LineNumber k = n
      then k\<lparr>ak_Options := opts, ak_PublicKey := updated_line opts k\<rparr> else k"
  have written: "write_lines path (map ?text keys) fs = (fs', None)"
    using update before by (simp add: Update_ak_def)
  have lines: "trim_space (?text k) = ?text k \<and> ?text k \<noteq> [] \<and> \<not> has_prefix (?text k) ''#'' \<and>
      newline \<notin> set (?text k) \<and> short_line (?text k) \<and> (\<exists>i. parseLine_ak (?text k) i = Some (?view k))"
    if k: "k \<in> set keys" for k
  proof (cases "ak_LineNumber k = n")
    case False
    then show ?thesis using listed_lines [OF before k] by auto
  next
    case True
    note old = listed_lines [OF before k]
    obtain parts where parts: "list_all word_ok parts" "2 \<le> length parts" "hd parts = ak_KeyType k"
      "join '' '' (drop 2 parts) = ak_Comm k" "updated_line opts k = line_of opts parts"
      using updated_line_of [OF old(4,3), of opts] target k True by metis
    have kt: "opts = [] \<Longrightarrow> key_type_field (hd parts)" and hash: "hd (hd parts) \<noteq> CHR ''#''"
      using target k True parts(3) by auto
    note line = parse_line_of [OF parts(1,2) opts kt hash]
    have "new_entry (ak_LineNumber k) opts parts = ?view k"
      using parts True parseLine_ak_shape(6,7) [OF old(4)] by (cases k) (simp add: new_entry_def)
    with line True parts(5) target k show ?thesis by auto
  qed
  from rewrite_listing [of keys ?text ?view, OF lines written read] show ?thesis by simp
qed

theorem authorized_keys_update_witness:
  "List_ak ''/k'' (fst (Update_ak ''/k'' 2 [''no-pty''] (fs_with [(''/k'', two_keys)]))) =
     ([new_entry 1 [''no-pty''] [''ssh-rsa'', ''AAAA'', ''bob''],
       new_entry 2 [] [''ssh-rsa'', ''BBBB'', ''eve'']], None)"
proof -
  let ?fs = "fs_with [(''/k'', two_keys)]"
  let ?keys = "[new_entry 2 [] [''ssh-rsa'', ''AAAA'', ''bob''], new_entry 3 [] [''ssh-rsa'', ''BBBB'', ''eve'']]"
  have keys: "file_entries parseLine_ak two_keys = ?keys" and long: "\<not> scan_too_long two_keys"
    by code_simp+
  then have before: "List_ak ''/k'' ?fs = (?keys, None)" by (simp add: List_ak_def os_read_file_def)
  have update: "Update_ak ''/k'' 2 [''no-pty''] ?fs = (fst (Update_ak ''/k'' 2 [''no-pty''] ?fs), None)"
    by (simp add: Update_ak_def before write_lines_def os_write_file_def Let_def)
  have opts: "auth_options [''no-pty'']" by code_simp
  have target: "\<forall>k \<in> set ?keys. ak_LineNumber k = 2 \<longrightarrow>
      (ak_Options k = [] \<longrightarrow> key_type_field (hd (str_fields (ak_PublicKey k)))) \<and>
      ([''no-pty''] = [] \<longrightarrow> key_type_field (ak_KeyType k)) \<and>
      hd (ak_KeyType k) \<noteq> CHR ''#'' \<and> short_line (updated_line [''no-pty''] k)" by code_simp
  have after: "map2 (\<lambda>i k. renumber_ak i (if ak_LineNumber k = 2
         then k\<lparr>ak_Options := [''no-pty''], ak_PublicKey := updated_line [''no-pty''] k\<rparr> else k))
       [1..<Suc (length ?keys)] ?keys =
     [new_entry 1 [''no-pty''] [''ssh-rsa'', ''AAAA'', ''bob''],
       new_entry 2 [] [''ssh-rsa'', ''BBBB'', ''eve'']]" by code_simp
  from authorized_keys_update [OF _ before opts update target] after show ?thesis by simp
qed

text \<open>
  Adding to a file whose last line lacks its line feed does not add a key: the new line is glued to
  the last one, so the file has as many lines as before and every line but the last is unchanged.
\<close>

theorem authorized_keys_add_glues:
  assumes "content_of fs path \<noteq> []" and "\<not> ends_line (content_of fs path)"
    and "newline \<notin> set line" and add: "Add_ak path line [] fs = (fs', None)"
  shows "raw_lines (content_of fs' path) =
      butlast (raw_lines (content_of fs path)) @ [last (raw_lines (content_of fs path)) @ line] \<and>
    length (raw_lines (content_of fs' path)) = length (raw_lines (content_of fs path))"
proof -
  have "append_to_file path (line @ [newline]) fs = (fs', None)"
    using add by (auto simp: Add_ak_def Let_def split: option.splits prod.splits bool.splits)
  then have "content_of fs' path = content_of fs path @ line @ [newline]"
    using append_to_file_content(1) [of path _ fs fs'] by (simp add: content_of_def)
  moreover have "raw_lines (content_of fs path) \<noteq> []"
    using assms(1) raw_lines_decomp [of "content_of fs path"] by (auto simp: unlines_def)
  ultimately show ?thesis using raw_lines_glue [OF assms(1-3)] by simp
qed

theorem authorized_keys_add_glues_witness:
  "(let fs' = fst (Add_ak ''/k'' ''ssh-rsa BBBB eve'' [] (fs_with [(''/k'', ''ssh-rsa AAAA bob'')]))
    in map ak_PublicKey (fst (List_ak ''/k'' fs')) = [''ssh-rsa AAAA bobssh-rsa BBBB eve''])"
proof -
  let ?fs = "fs_with [(''/k'', ''ssh-rsa AAAA bob'')]"
  let ?fs' = "fst (Add_ak ''/k'' ''ssh-rsa BBBB eve'' [] ?fs)"
  have c: "content_of ?fs ''/k'' = ''ssh-rsa AAAA bob''" by (simp add: content_of_def)
  have lines: "raw_lines ''ssh-rsa AAAA bob'' = [''ssh-rsa AAAA bob'']"
    "\<not> ends_line ''ssh-rsa AAAA bob''" "newline \<notin> set ''ssh-rsa BBBB eve''" by code_simp+
  have add: "Add_ak ''/k'' ''ssh-rsa BBBB eve'' [] ?fs = (?fs', None)"
    by (simp add: Add_ak_def os_mkdir_all_def append_to_file_def os_open_append_def os_append_string_def Let_def)
  have one: "raw_lines (content_of ?fs' ''/k'') = [''ssh-rsa AAAA bobssh-rsa BBBB eve'']"
    using authorized_keys_add_glues [OF _ _ lines(3) add] lines unfolding c by simp
  have parse: "parse_numbered parseLine_ak 0 [''ssh-rsa AAAA bobssh-rsa BBBB eve''] =
      [new_entry 1 [] [''ssh-rsa'', ''AAAA'', ''bobssh-rsa'', ''BBBB'', ''eve'']]"
    and short: "short_line ''ssh-rsa AAAA bobssh-rsa BBBB eve''" by code_simp+
  have ok: "\<not> scan_too_long (content_of ?fs' ''/k'')" using one short by (simp add: scan_too_long_def)
  have "\<not> read_denied ?fs' ''/k''"
    by (simp add: Add_ak_def os_mkdir_all_def append_to_file_def os_open_append_def os_append_string_def Let_def)
  then show ?thesis
    using ok one parse by (simp add: Let_def List_ak_content file_entries_short new_entry_def line_of_def)
qed

text \<open>
  Options with a quoted blank are taken apart: the line is split at white space before the quotes
  are looked at.  For a key restricted to a command with an argument the listing shows half of the
  option, the rest of it as the key type, and \<open>Update\<close> leaves that rest at the start of the line, so
  the key is lost.
\<close>

theorem quoted_option_broken:
  "(let line = ''command='' @ dquote # ''ls -l'' @ dquote # '' ssh-rsa AAAA bob'';
        k = the (parseLine_ak line 1)
    in parseLine_ak line 1 \<noteq> None \<and> ak_Options k = [''command='' @ dquote # ''ls''] \<and>
       ak_KeyType k = ''-l'' @ [dquote] \<and>
       updated_line [''no-pty''] k = ''no-pty -l'' @ dquote # '' ssh-rsa AAAA bob'')"
  by code_simp

end
