(* ===== verification/KnownHosts.thy ===== *)
theory KnownHosts
  imports AuthorizedKeys Executor
begin

text \<open>
  \<open>skeys-core/hosts/known_hosts.go\<close>: listing, adding, removing, hashing and scanning host keys, and the
  known-hosts watcher of \<open>hosts/watcher.go\<close>.

  The commands \<open>ssh-keygen\<close> and \<open>ssh-keyscan\<close> are the argument \<open>run\<close>, an executor on the file system.
  The name of a temporary file is an argument as well, \<open>None\<close> when \<open>os.CreateTemp\<close> fails.  A deferred
  \<open>os.Remove\<close> runs on every way out of the function after it.
\<close>

record KnownHost =
  kh_ID :: string
  kh_Hostnames :: "string list"
  kh_KeyType :: string
  kh_Fingerprint :: string
  kh_PublicKey :: string
  kh_IsHashed :: bool
  kh_IsRevoked :: bool
  kh_IsCertAuth :: bool
  kh_LineNumber :: nat

definition NewKnownHostsManager :: "string \<Rightarrow> string" where
  "NewKnownHostsManager homeDir = path_join [homeDir, ''.ssh'', ''known_hosts'']"

definition Run_default :: "'w spawner \<Rightarrow> 'w runner" where
  "Run_default spawn name args w =
     Run_local spawn \<lparr>le_allowedCommands = [''ssh-keygen'', ''ssh-keyscan'']\<rparr> name args w"

definition parseLine_kh :: "string \<Rightarrow> nat \<Rightarrow> KnownHost option" where
  "parseLine_kh line lineNum =
     (let parts = str_fields line in
      if length parts < 3 then None
      else (let revoked = (parts ! 0 = ''@revoked''); cert = (parts ! 0 = ''@cert-authority'');
                idx = (if revoked \<or> cert then 1 else 0)
        in if length parts \<le> idx + 2 then None
           else (let hostnames = parts ! idx; hashed = has_prefix hostnames ''|1|'' in
             Some \<lparr>kh_ID = nat_str lineNum,
                   kh_Hostnames = (if hashed then [''[hashed]''] else split_on (CHR '','') hostnames),
                   kh_KeyType = parts ! (idx + 1), kh_Fingerprint = [], kh_PublicKey = parts ! (idx + 2),
                   kh_IsHashed = hashed, kh_IsRevoked = revoked, kh_IsCertAuth = cert,
                   kh_LineNumber = lineNum\<rparr>)))"

definition List_kh :: "string \<Rightarrow> fsys \<Rightarrow> KnownHost list \<times> string option" where
  "List_kh path fs =
     (case os_read_file fs path of
        Inl NotExist \<Rightarrow> ([], None)
      | Inl e \<Rightarrow> ([], Some (''failed to open known_hosts: '' @ ioerr_msg e))
      | Inr d \<Rightarrow> if scan_too_long d then ([], Some ''bufio.Scanner: token too long'')
                 else (file_entries parseLine_kh d, None))"

text \<open>The lines that \<open>ssh-keygen -F\<close> prints are parsed with line number 0.\<close>

definition parse_output :: "string \<Rightarrow> KnownHost list" where
  "parse_output output =
     concat (map (\<lambda>l. let line = trim_space l in
         if line = [] \<or> has_prefix line ''#'' then []
         else (case parseLine_kh line 0 of None \<Rightarrow> [] | Some h \<Rightarrow> [h]))
       (split_on newline output))"

definition Lookup_kh :: "fsys runner \<Rightarrow> string \<Rightarrow> string \<Rightarrow> fsys \<Rightarrow> fsys \<times> KnownHost list" where
  "Lookup_kh run path hostname fs =
     (case run ''ssh-keygen'' [''-F'', hostname, ''-f'', path] fs of
        (fs', _, Some e) \<Rightarrow> (fs', [])
      | (fs', output, None) \<Rightarrow> (fs', parse_output output))"

definition Remove_kh :: "fsys runner \<Rightarrow> string \<Rightarrow> string \<Rightarrow> fsys \<Rightarrow> fsys \<times> string option" where
  "Remove_kh run path hostname fs =
     (case run ''ssh-keygen'' [''-R'', hostname, ''-f'', path] fs of
        (fs', _, Some e) \<Rightarrow> (fs', Some (''failed to remove host: '' @ e))
      | (fs', _, None) \<Rightarrow> (fst (os_remove (path @ ''.old'') fs'), None))"

definition Hash_kh :: "fsys runner \<Rightarrow> string \<Rightarrow> fsys \<Rightarrow> fsys \<times> string option" where
  "Hash_kh run path fs =
     (case run ''ssh-keygen'' [''-H'', ''-f'', path] fs of
        (fs', _, Some e) \<Rightarrow> (fs', Some (''failed to hash known_hosts: '' @ e))
      | (fs', _, None) \<Rightarrow> (fst (os_remove (path @ ''.old'') fs'), None))"

section \<open>Scanning\<close>

record ScannedKey =
  sk_Hostname :: string
  sk_Port :: int
  sk_KeyType :: string
  sk_PublicKey :: string
  sk_Fingerprint :: string

definition temp_write :: "string \<Rightarrow> string \<Rightarrow> fsys \<Rightarrow> fsys \<times> ioerr option" where
  "temp_write t data fs = os_append_string t data (set_file t [] fs)"

definition calculateFingerprint ::
    "fsys runner \<Rightarrow> string option \<Rightarrow> string \<Rightarrow> fsys \<Rightarrow> fsys \<times> string option" where
  "calculateFingerprint run tmp line fs =
     (case tmp of
        None \<Rightarrow> (fs, None)
      | Some t \<Rightarrow>
          (case temp_write t (line @ [newline]) fs of
             (fs1, Some _) \<Rightarrow> (fst (os_remove t fs1), None)
           | (fs1, None) \<Rightarrow>
               (case run ''ssh-keygen'' [''-l'', ''-f'', t] fs1 of
                  (fs2, output, err) \<Rightarrow>
                    (fst (os_remove t fs2),
                     if err \<noteq> None then None
                     else (let parts = str_fields output in
                           if 2 \<le> length parts then Some (parts ! 1) else None)))))"

text \<open>The loop over the lines of \<open>ssh-keyscan\<close>; \<open>tmps i\<close> is the temporary file of the \<open>i\<close>-th key.\<close>

fun scan_key_lines ::
    "fsys runner \<Rightarrow> (nat \<Rightarrow> string option) \<Rightarrow> int \<Rightarrow> string list \<Rightarrow> fsys \<Rightarrow> fsys \<times> ScannedKey list" where
  "scan_key_lines run tmps port [] fs = (fs, [])"
| "scan_key_lines run tmps port (l # ls) fs =
     (let line = trim_space l; parts = str_fields line in
      if line = [] \<or> has_prefix line ''#'' \<or> length parts < 3 then scan_key_lines run tmps port ls fs
      else (case calculateFingerprint run (tmps 0) line fs of
        (fs1, fp) \<Rightarrow>
          (case scan_key_lines run (\<lambda>i. tmps (Suc i)) port ls fs1 of
             (fs2, keys) \<Rightarrow>
               (fs2, \<lparr>sk_Hostname = parts ! 0, sk_Port = port, sk_KeyType = parts ! 1,
                      sk_PublicKey = parts ! 2,
                      sk_Fingerprint = (case fp of None \<Rightarrow> [] | Some f \<Rightarrow> f)\<rparr> # keys))))"

definition ScanHostKeys ::
    "fsys runner \<Rightarrow> (nat \<Rightarrow> string option) \<Rightarrow> string \<Rightarrow> int \<Rightarrow> int \<Rightarrow> fsys
      \<Rightarrow> fsys \<times> (string + ScannedKey list)" where
  "ScanHostKeys run tmps hostname port timeoutSecs fs =
     (let port' = (if port \<le> 0 then 22 else port);
          timeout = (if timeoutSecs \<le> 0 then 10 else timeoutSecs);
          args = [''-T'', itoa timeout] @ (if port' \<noteq> 22 then [''-p'', itoa port'] else []) @ [hostname]
      in case run ''ssh-keyscan'' args fs of
           (fs1, _, Some e) \<Rightarrow> (fs1, Inl (''failed to scan host keys: '' @ e))
         | (fs1, output, None) \<Rightarrow>
             map_prod id Inr (scan_key_lines run tmps port' (split_on newline output) fs1))"

section \<open>Adding\<close>

definition host_entry :: "string \<Rightarrow> int \<Rightarrow> string" where
  "host_entry hostname port =
     (if port \<noteq> 0 \<and> port \<noteq> 22 then ''['' @ hostname @ '']:'' @ itoa port else hostname)"

text \<open>The end of \<open>Add\<close>, once the line is known.\<close>

definition append_known_host ::
    "string \<Rightarrow> string \<Rightarrow> KnownHost \<Rightarrow> fsys \<Rightarrow> fsys \<times> (string + KnownHost)" where
  "append_known_host path line fallback fs =
     (case os_mkdir_all (path_dir path) fs of
        Some e \<Rightarrow> (fs, Inl (''failed to create .ssh directory: '' @ ioerr_msg e))
      | None \<Rightarrow>
          (case append_to_file path line fs of
             (fs', Some False) \<Rightarrow> (fs', Inl ''failed to open known_hosts'')
           | (fs', Some True) \<Rightarrow> (fs', Inl ''failed to write to known_hosts'')
           | (fs', None) \<Rightarrow>
               (fs', Inr (let hosts = fst (List_kh path fs') in
                          if hosts \<noteq> [] then last hosts else fallback))))"

definition remove_temps :: "string \<Rightarrow> fsys \<Rightarrow> fsys" where
  "remove_temps t fs = fst (os_remove t (fst (os_remove (t @ ''.old'') fs)))"

text \<open>The branch of \<open>Add\<close> that hashes the line in a temporary file: the hashed line or the error.\<close>

definition hash_line ::
    "fsys runner \<Rightarrow> string \<Rightarrow> string \<Rightarrow> fsys \<Rightarrow> fsys \<times> (string + string)" where
  "hash_line run t line fs =
     (case temp_write t line fs of
        (fs1, Some e) \<Rightarrow> (fs1, Inl (''failed to write temp file: '' @ ioerr_msg e))
      | (fs1, None) \<Rightarrow>
          (case run ''ssh-keygen'' [''-H'', ''-f'', t] fs1 of
             (fs2, _, Some e) \<Rightarrow> (fs2, Inl (''failed to hash hostname: '' @ e))
           | (fs2, _, None) \<Rightarrow>
               (case os_read_file fs2 t of
                  Inl e \<Rightarrow> (fs2, Inl (''failed to read hashed file: '' @ ioerr_msg e))
                | Inr hashed \<Rightarrow> (fs2, Inr hashed))))"

definition Add_kh ::
    "fsys runner \<Rightarrow> string option \<Rightarrow> string \<Rightarrow> string \<Rightarrow> int \<Rightarrow> string \<Rightarrow> string \<Rightarrow> bool \<Rightarrow> fsys
      \<Rightarrow> fsys \<times> (string + KnownHost)" where
  "Add_kh run tmp path hostname port keyType publicKey hashHostname fs =
     (let hostEntry = host_entry hostname port;
          line = hostEntry @ '' '' @ keyType @ '' '' @ publicKey @ [newline];
          fallback = \<lparr>kh_ID = [], kh_Hostnames = [hostEntry], kh_KeyType = keyType, kh_Fingerprint = [],
                      kh_PublicKey = publicKey, kh_IsHashed = hashHostname, kh_IsRevoked = False,
                      kh_IsCertAuth = False, kh_LineNumber = 0\<rparr>
      in if \<not> hashHostname then append_known_host path line fallback fs
         else (case tmp of
           None \<Rightarrow> (fs, Inl ''failed to create temp file'')
         | Some t \<Rightarrow>
             (case hash_line run t line fs of
                (fs1, Inl e) \<Rightarrow> (remove_temps t fs1, Inl e)
              | (fs1, Inr hashed) \<Rightarrow> map_prod (remove_temps t) id (append_known_host path hashed fallback fs1))))"

section \<open>The watcher\<close>

definition knownHostsEqual :: "KnownHost list \<Rightarrow> KnownHost list \<Rightarrow> bool" where
  "knownHostsEqual a b = entries_equal a b"

definition pollLoop_kh ::
    "string \<Rightarrow> fsys list \<Rightarrow> KnownHost list phase \<times> (string, KnownHost list) update hub
      \<Rightarrow> KnownHost list phase \<times> (string, KnownHost list) update hub" where
  "pollLoop_kh path states st =
     loop_run knownHostsEqual (map (\<lambda>fs. listing (List_kh path fs)) states) st"

section \<open>The line parser\<close>

definition renumber_kh :: "nat \<Rightarrow> KnownHost \<Rightarrow> KnownHost" where
  "renumber_kh n h = h\<lparr>kh_ID := nat_str n, kh_LineNumber := n\<rparr>"

lemma parseLine_kh_SomeD:
  assumes "parseLine_kh l n = Some h"
  shows "kh_LineNumber h = n" and "kh_ID h = nat_str n" and "parseLine_kh l m = Some (renumber_kh m h)"
    and "kh_Hostnames h \<noteq> []"
  using assms by (auto simp: parseLine_kh_def Let_def renumber_kh_def split: if_splits)

interpretation kh: line_entries parseLine_kh kh_LineNumber renumber_kh
  by unfold_locales (auto dest: parseLine_kh_SomeD)

lemma List_kh_content:
  "\<not> read_denied fs path \<Longrightarrow> List_kh path fs =
     (if scan_too_long (content_of fs path) then ([], Some ''bufio.Scanner: token too long'')
      else (file_entries parseLine_kh (content_of fs path), None))"
  by (cases "files fs path") (simp_all add: List_kh_def os_read_file_def content_of_def file_entries_def
      scan_lines_def scan_too_long_def)

section \<open>Properties\<close>

text \<open>
  A listing is faithful to the file, whatever the file holds: its entries come in the order of their
  lines, no identifier is given twice, every identifier is the number of a line that exists, and the
  entry is what that line says.
\<close>

theorem known_hosts_listing:
  assumes "List_kh path fs = (hosts, None)"
  shows "sorted_wrt (<) (map kh_LineNumber hosts) \<and>
    (\<forall>h \<in> set hosts. kh_ID h = nat_str (kh_LineNumber h) \<and>
       1 \<le> kh_LineNumber h \<and> kh_LineNumber h \<le> length (raw_lines (content_of fs path)) \<and>
       parseLine_kh (trim_space (raw_lines (content_of fs path) ! (kh_LineNumber h - 1)))
         (kh_LineNumber h) = Some h \<and> kh_Hostnames h \<noteq> [])"
proof -
  have "hosts = parse_numbered parseLine_kh 0 (raw_lines (content_of fs path))"
  proof (cases "files fs path")
    case None
    with assms show ?thesis by (simp add: List_kh_def os_read_file_def content_of_def)
  next
    case (Some d)
    with assms have "\<not> scan_too_long d" "hosts = file_entries parseLine_kh d"
      by (auto simp: List_kh_def os_read_file_def split: if_splits)
    with Some show ?thesis by (simp add: content_of_def file_entries_short)
  qed
  with kh.entry_numbers [of 0 "raw_lines (content_of fs path)"] show ?thesis
    by (auto dest: parseLine_kh_SomeD)
qed

theorem known_hosts_listing_witness:
  "\<exists>hosts. List_kh ''/h'' (fs_with [(''/h'', ''# x'' @ newline # ''a,b ssh-rsa AAAA'')]) = (hosts, None) \<and>
     sorted_wrt (<) (map kh_LineNumber hosts)"
proof -
  have "\<not> scan_too_long (''# x'' @ newline # ''a,b ssh-rsa AAAA'')" by code_simp
  then have "\<exists>hosts. List_kh ''/h'' (fs_with [(''/h'', ''# x'' @ newline # ''a,b ssh-rsa AAAA'')]) = (hosts, None)"
    by (simp add: List_kh_def os_read_file_def)
  with known_hosts_listing show ?thesis by blast
qed

definition host_word :: "string \<Rightarrow> bool" where
  "host_word he \<longleftrightarrow> word_ok he \<and> CHR '','' \<notin> set he \<and> hd he \<noteq> CHR ''#'' \<and> hd he \<noteq> CHR ''|'' \<and>
     hd he \<noteq> CHR ''@''"

definition plain_host :: "nat \<Rightarrow> string \<Rightarrow> string \<Rightarrow> string \<Rightarrow> KnownHost" where
  "plain_host n he keyType publicKey = \<lparr>kh_ID = nat_str n, kh_Hostnames = [he], kh_KeyType = keyType,
     kh_Fingerprint = [], kh_PublicKey = publicKey, kh_IsHashed = False, kh_IsRevoked = False,
     kh_IsCertAuth = False, kh_LineNumber = n\<rparr>"

lemma parse_host_line:
  assumes "host_word he" and "word_ok keyType" and "word_ok publicKey"
  shows "parseLine_kh (join '' '' [he, keyType, publicKey]) n = Some (plain_host n he keyType publicKey)"
    and "trim_space (join '' '' [he, keyType, publicKey]) = join '' '' [he, keyType, publicKey]"
    and "\<not> has_prefix (join '' '' [he, keyType, publicKey]) ''#''"
    and "join '' '' [he, keyType, publicKey] \<noteq> []" and "newline \<notin> set (join '' '' [he, keyType, publicKey])"
proof -
  have he: "word_ok he" "CHR '','' \<notin> set he" and c: "he = hd he # tl he"
    using assms(1) by (auto simp: host_word_def word_ok_def)
  have all: "list_all word_ok [he, keyType, publicKey]" using he assms by simp
  note ws = words_line [OF _ all]
  show "trim_space (join '' '' [he, keyType, publicKey]) = join '' '' [he, keyType, publicKey]"
    and "join '' '' [he, keyType, publicKey] \<noteq> []" and "newline \<notin> set (join '' '' [he, keyType, publicKey])"
    using ws by simp_all
  show "\<not> has_prefix (join '' '' [he, keyType, publicKey]) ''#''"
    using assms(1) c by (cases he) (auto simp: host_word_def)
  have "\<not> has_prefix he ''|1|'' \<and> he \<noteq> ''@revoked'' \<and> he \<noteq> ''@cert-authority''"
    using assms(1) by (cases he) (auto simp: host_word_def)
  then show "parseLine_kh (join '' '' [he, keyType, publicKey]) n = Some (plain_host n he keyType publicKey)"
    using ws(1) he(2) by (simp add: parseLine_kh_def Let_def plain_host_def split_on_none)
qed

text \<open>
  Adding a host key without hashing works on any file whose last line is complete (or that does
  not exist yet): after a successful \<open>Add\<close> the listing is the old one and the new entry, with the host
  name (in brackets with its port when it is not the default), key type and key that were given, and
  that entry is also what \<open>Add\<close> returns.
\<close>

theorem known_hosts_add:
  assumes host: "host_word (host_entry hostname port)" and words: "word_ok keyType" "word_ok publicKey"
    and short: "short_line (join '' '' [host_entry hostname port, keyType, publicKey])"
    and complete: "ends_line (content_of fs path)" and read: "\<not> read_denied fs path"
    and before: "List_kh path fs = (hosts, None)"
    and add: "Add_kh run tmp path hostname port keyType publicKey False fs = (fs', Inr h)"
  shows "(let new = plain_host (Suc (length (raw_lines (content_of fs path))))
              (host_entry hostname port) keyType publicKey
    in List_kh path fs' = (hosts @ [new], None) \<and> h = new)"
proof -
  let ?line = "join '' '' [host_entry hostname port, keyType, publicKey]" and ?c = "content_of fs path"
  let ?new = "plain_host (Suc (length (raw_lines ?c))) (host_entry hostname port) keyType publicKey"
  from add have appended: "append_to_file path (?line @ [newline]) fs = (fs', None)"
    and h: "fst (List_kh path fs') \<noteq> [] \<Longrightarrow> h = last (fst (List_kh path fs'))"
    by (auto simp: Add_kh_def append_known_host_def Let_def split: option.splits prod.splits bool.splits
        if_splits)
  have after: "content_of fs' path = ?c @ ?line @ [newline]" "\<not> read_denied fs' path"
    using append_to_file_content [OF appended] read by (simp_all add: content_of_def)
  note line = parse_host_line [OF host words]
  have c: "\<not> scan_too_long ?c" "hosts = file_entries parseLine_kh ?c"
    using before by (simp_all add: List_kh_content [OF read] split: if_splits)
  note snoc = file_entries_snoc [OF complete c(1) line(5) short]
  have "parse_numbered parseLine_kh (length (raw_lines ?c)) [?line] = [?new]"
    using line by (simp add: Let_def del: join.simps)
  then have "List_kh path fs' = (hosts @ [?new], None)"
    using snoc(1) [of parseLine_kh] snoc(2) c(2)
    by (simp add: List_kh_content [OF after(2)] after(1) del: join.simps parse_numbered.simps)
  with h show ?thesis by (simp add: Let_def)
qed

theorem known_hosts_add_witness:
  "snd (Add_kh (\<lambda>_ _ w. (w, [], None)) None ''/h'' ''example.org'' 2222 ''ssh-ed25519'' ''AAAA'' False (fs_with []))
     = Inr (plain_host 1 ''[example.org]:2222'' ''ssh-ed25519'' ''AAAA'')"
proof -
  let ?run = "\<lambda>_ _ w. (w :: fsys, [] :: string, None :: string option)"
  let ?add = "Add_kh ?run None ''/h'' ''example.org'' 2222 ''ssh-ed25519'' ''AAAA'' False (fs_with [])"
  have port: "itoa 2222 = ''2222''"
    by (simp add: itoa_def nat_str.simps digit_char_def char_of_def bit_0)
  then have entry: "host_entry ''example.org'' 2222 = ''[example.org]:2222''" by (simp add: host_entry_def)
  have words: "host_word ''[example.org]:2222''" "word_ok ''ssh-ed25519''" "word_ok ''AAAA''"
    "short_line (join '' '' [''[example.org]:2222'', ''ssh-ed25519'', ''AAAA''])" by code_simp+
  have "\<exists>h. ?add = (fst ?add, Inr h)"
    by (simp add: Add_kh_def append_known_host_def os_mkdir_all_def append_to_file_def os_open_append_def
        os_append_string_def Let_def)
  then obtain h where h: "?add = (fst ?add, Inr h)" by blast
  have "List_kh ''/h'' (fs_with []) = ([], None)" by (simp add: List_kh_def os_read_file_def)
  from known_hosts_add [OF _ words(2,3) _ _ _ this h] words entry
  have "h = plain_host 1 ''[example.org]:2222'' ''ssh-ed25519'' ''AAAA''"
    by (simp add: content_of_def ends_line_def Let_def)
  with h show ?thesis by (metis snd_conv)
qed

section \<open>Temporary files\<close>

text \<open>An executor that keeps the permissions of the file system.\<close>

definition keeps_policy :: "fsys runner \<Rightarrow> bool" where
  "keeps_policy run \<longleftrightarrow> (\<forall>name args fs. remove_denied (fst (run name args fs)) = remove_denied fs)"

lemma remove_denied_append [simp]: "remove_denied (fst (append_to_file path line fs)) = remove_denied fs"
  by (auto simp: append_to_file_def os_open_append_def os_append_string_def Let_def
      split: prod.split option.split write_fault.split)

lemma remove_denied_temp_write [simp]: "remove_denied (fst (temp_write t data fs)) = remove_denied fs"
  by (simp add: temp_write_def os_append_string_def Let_def split: option.split write_fault.split)

lemma remove_denied_hash_line:
  "keeps_policy run \<Longrightarrow> remove_denied (fst (hash_line run t line fs)) = remove_denied fs"
proof -
  assume run: "keeps_policy run"
  obtain fs1 e where tw: "temp_write t line fs = (fs1, e)" by fastforce
  obtain fs2 out err where r: "run ''ssh-keygen'' [''-H'', ''-f'', t] fs1 = (fs2, out, err)"
    using prod_cases3 by blast
  have "remove_denied fs1 = remove_denied fs" using remove_denied_temp_write [of t line fs] tw by simp
  moreover have "remove_denied fs2 = remove_denied fs1" using run r unfolding keeps_policy_def by (metis fst_conv)
  ultimately show ?thesis by (simp add: hash_line_def tw r split: option.split sum.split)
qed

lemma remove_denied_append_known_host:
  "remove_denied (fst (append_known_host path line fallback fs)) = remove_denied fs"
  using remove_denied_append [of path line fs]
  by (cases "append_to_file path line fs") (simp add: append_known_host_def split: option.split bool.split)

lemma files_os_remove:
  "\<not> remove_denied fs p \<Longrightarrow> files (fst (os_remove p fs)) = (files fs)(p := None)"
  "remove_denied (fst (os_remove p fs)) = remove_denied fs"
  by (auto simp: os_remove_def fun_upd_idem split: option.split)

lemma files_remove_temps:
  "\<not> remove_denied fs t \<Longrightarrow> \<not> remove_denied fs (t @ ''.old'') \<Longrightarrow>
   files (remove_temps t fs) = (files fs)(t := None, t @ ''.old'' := None)"
  by (simp add: remove_temps_def files_os_remove fun_upd_twist)

text \<open>
  Adding a host with a hashed name cleans up: whatever \<open>ssh-keygen\<close> does to the files and however
  \<open>Add\<close> ends, neither the temporary file nor the backup that \<open>ssh-keygen\<close> makes of it is left; and when
  \<open>Add\<close> succeeds, the known-hosts file has grown by exactly the content of the temporary file after
  hashing.
\<close>

theorem known_hosts_hashed_add:
  assumes run: "keeps_policy run" and removable: "\<not> remove_denied fs t" "\<not> remove_denied fs (t @ ''.old'')"
    and other: "path \<noteq> t" "path \<noteq> t @ ''.old''"
    and add: "Add_kh run (Some t) path hostname port keyType publicKey True fs = (fs', res)"
  shows "files fs' t = None \<and> files fs' (t @ ''.old'') = None \<and>
    (\<forall>h. res = Inr h \<longrightarrow>
      (\<exists>fs1 hashed. hash_line run t
          (host_entry hostname port @ '' '' @ keyType @ '' '' @ publicKey @ [newline]) fs = (fs1, Inr hashed) \<and>
        files fs' path = Some (content_of fs1 path @ hashed)))"
proof -
  let ?line = "host_entry hostname port @ '' '' @ keyType @ '' '' @ publicKey @ [newline]"
  obtain fs1 r where r: "hash_line run t ?line fs = (fs1, r)" by fastforce
  have pol: "remove_denied fs1 = remove_denied fs" using remove_denied_hash_line [OF run] r by (metis fst_conv)
  show ?thesis
  proof (cases r)
    case (Inl e)
    with add r have "fs' = remove_temps t fs1" "res = Inl e" by (auto simp: Add_kh_def Let_def)
    with pol removable show ?thesis by (simp add: files_remove_temps)
  next
    case (Inr hashed)
    with add r obtain fallback fs2 where fs2: "append_known_host path hashed fallback fs1 = (fs2, res)"
      and fs': "fs' = remove_temps t fs2"
      by (auto simp: Add_kh_def Let_def map_prod_def split: prod.splits)
    have "remove_denied fs2 = remove_denied fs"
      using remove_denied_append_known_host [of path hashed fallback fs1] fs2 pol by simp
    then have files': "files fs' = (files fs2)(t := None, t @ ''.old'' := None)"
      unfolding fs' using removable by (simp add: files_remove_temps)
    have "files fs2 path = Some (content_of fs1 path @ hashed)" if "res = Inr h" for h
      using fs2 that append_to_file_content(1) [of path hashed fs1 fs2]
      by (auto simp: append_known_host_def split: option.splits prod.splits bool.splits)
    with files' other Inr r show ?thesis by auto
  qed
qed

text \<open>A stand-in for \<open>ssh-keygen -H\<close> that marks the line and leaves a backup.\<close>

definition demo_keygen :: "fsys runner" where
  "demo_keygen name args fs =
     (let t = last args in (set_file t (''|1|'' @ content_of fs t) (set_file (t @ ''.old'') (content_of fs t) fs), [], None))"

theorem known_hosts_hashed_add_witness:
  "(let fs' = fst (Add_kh demo_keygen (Some ''/tmp/a'') ''/h'' ''x'' 22 ''ssh-rsa'' ''AAAA'' True (fs_with []))
    in files fs' ''/tmp/a'' = None \<and> files fs' ''/tmp/a.old'' = None)"
proof -
  have "keeps_policy demo_keygen" by (simp add: keeps_policy_def demo_keygen_def Let_def)
  from known_hosts_hashed_add [OF this, of "fs_with []" "''/tmp/a''" "''/h''" "''x''" 22 "''ssh-rsa''" "''AAAA''"]
  show ?thesis by (simp add: Let_def) (metis prod.collapse)
qed

text \<open>
  The known-hosts watcher misses no change: if its first listing succeeds, then after any number of
  polls over any states of the file system, listings that fail included, the value that it last
  broadcast, and that a new subscriber is handed, is the last listing that succeeded.
\<close>

theorem known_hosts_watch_latest:
  assumes first: "List_kh path fs0 = (v0, None)"
    and run: "pollLoop_kh path (fs0 # states) (Starting, b) = (ph, b')"
  shows "\<exists>v. ph = Polling v \<and> hub_lastValue b' = Some (UVal v) \<and>
    last_value (map (\<lambda>fs. listing (List_kh path fs)) (fs0 # states)) = Some v"
proof -
  have "loop_run entries_equal (Inr v0 # map (\<lambda>fs. listing (List_kh path fs)) states) (Starting, b) = (ph, b')"
    using run first by (simp add: pollLoop_kh_def listing_def knownHostsEqual_def [abs_def])
  from entry_watch.loop_latest [OF this] first show ?thesis by (simp add: listing_def)
qed

theorem known_hosts_watch_latest_witness:
  "\<exists>v b'. pollLoop_kh ''/h'' [fs_with [], fs_with [(''/h'', ''a ssh-rsa AAAA'')]] (Starting, New_hub) = (Polling v, b') \<and>
     hub_lastValue b' = Some (UVal v)"
proof -
  have "List_kh ''/h'' (fs_with []) = ([], None)" by (simp add: List_kh_def os_read_file_def)
  from known_hosts_watch_latest [OF this] show ?thesis by (metis surj_pair)
qed

end
