(* ===== verification/SkeysBlock.thy ===== *)
theory SkeysBlock
  imports FileSystem
begin

text \<open>
  \<open>skeys-core/sshconfig/manager.go\<close>: the block that the program puts at the head of \<open>~/.ssh/config\<close> to
  route ssh to its agent: enabling, disabling, the test whether it is there, and writing the file with
  a backup.  The warnings of \<open>ValidateConfig\<close> are only logged, so its result is that of the scanner.
\<close>

definition beginMarker :: string where "beginMarker = ''# BEGIN skeys managed block''"
definition endMarker :: string where "endMarker = ''# END skeys managed block''"

record sshManager =
  sg_configPath :: string
  sg_agentSocket :: string

definition NewManager :: "string \<Rightarrow> nat \<Rightarrow> sshManager" where
  "NewManager homeDir uid = \<lparr>sg_configPath = path_join [homeDir, ''.ssh'', ''config''],
     sg_agentSocket = ''/run/user/'' @ nat_str uid @ ''/skeys-agent.sock''\<rparr>"

definition readConfig :: "sshManager \<Rightarrow> fsys \<Rightarrow> ioerr + string" where
  "readConfig m fs = os_read_file fs (sg_configPath m)"

definition IsEnabled :: "sshManager \<Rightarrow> fsys \<Rightarrow> ioerr + bool" where
  "IsEnabled m fs =
     (case readConfig m fs of
        Inl NotExist \<Rightarrow> Inr False
      | Inl e \<Rightarrow> Inl e
      | Inr content \<Rightarrow> Inr (contains content beginMarker))"

definition buildManagedBlock :: "sshManager \<Rightarrow> string" where
  "buildManagedBlock m = beginMarker @ newline # ''Host *'' @ newline # ''    IdentityAgent '' @
     sg_agentSocket m @ newline # endMarker"

fun strip_block :: "bool \<Rightarrow> string list \<Rightarrow> string list \<times> bool" where
  "strip_block inBlock [] = ([], False)"
| "strip_block inBlock (l # ls) =
     (if trim_space l = beginMarker then (case strip_block True ls of (r, _) \<Rightarrow> (r, True))
      else if trim_space l = endMarker then strip_block False ls
      else (case strip_block inBlock ls of (r, ch) \<Rightarrow> (if inBlock then r else l # r, ch)))"

definition blank :: "string \<Rightarrow> bool" where
  "blank l \<longleftrightarrow> trim_space l = []"

definition removeManagedBlock :: "string \<Rightarrow> string \<times> bool" where
  "removeManagedBlock content =
     (case strip_block False (split_on newline content) of
        (result, changed) \<Rightarrow> (join [newline] (dropWhile blank result), changed))"

definition backup_path :: "sshManager \<Rightarrow> string" where
  "backup_path m = sg_configPath m @ ''.skeys.bak''"

definition writeConfig :: "sshManager \<Rightarrow> string \<Rightarrow> fsys \<Rightarrow> fsys \<times> ioerr option" where
  "writeConfig m content fs =
     (case os_stat fs (sg_configPath m) of
        Some _ \<Rightarrow> os_write_file (sg_configPath m) content fs
      | None \<Rightarrow>
          (case os_read_file fs (sg_configPath m) of
             Inl e \<Rightarrow> (fs, Some e)
           | Inr data \<Rightarrow>
               (case os_write_file (backup_path m) data fs of
                  (fs1, Some e) \<Rightarrow> (fs1, Some e)
                | (fs1, None) \<Rightarrow> os_write_file (sg_configPath m) content fs1)))"

definition Enable :: "sshManager \<Rightarrow> fsys \<Rightarrow> fsys \<times> ioerr option" where
  "Enable m fs =
     (case IsEnabled m fs of
        Inl e \<Rightarrow> (fs, Some e)
      | Inr True \<Rightarrow> (fs, None)
      | Inr False \<Rightarrow>
          (case os_mkdir_all (path_dir (sg_configPath m)) fs of
             Some e \<Rightarrow> (fs, Some e)
           | None \<Rightarrow>
               (case readConfig m fs of
                  Inl IOFail \<Rightarrow> (fs, Some IOFail)
                | r \<Rightarrow>
                    (let content = (case r of Inr c \<Rightarrow> c | Inl _ \<Rightarrow> []); block = buildManagedBlock m in
                     writeConfig m (if content = [] then block else block @ newline # content) fs))))"

definition Disable :: "sshManager \<Rightarrow> fsys \<Rightarrow> fsys \<times> ioerr option" where
  "Disable m fs =
     (case readConfig m fs of
        Inl NotExist \<Rightarrow> (fs, None)
      | Inl e \<Rightarrow> (fs, Some e)
      | Inr content \<Rightarrow>
          (case removeManagedBlock content of
             (newContent, changed) \<Rightarrow> if \<not> changed then (fs, None) else writeConfig m newContent fs))"

definition GetAgentSocket :: "sshManager \<Rightarrow> string" where
  "GetAgentSocket m = sg_agentSocket m"

definition ValidateConfig :: "sshManager \<Rightarrow> fsys \<Rightarrow> string option" where
  "ValidateConfig m fs =
     (case readConfig m fs of
        Inl NotExist \<Rightarrow> None
      | Inl e \<Rightarrow> Some (ioerr_msg e)
      | Inr content \<Rightarrow> if scan_too_long content then Some ''bufio.Scanner: token too long'' else None)"

section \<open>Stripping the block\<close>

definition no_markers :: "string list \<Rightarrow> bool" where
  "no_markers ls \<longleftrightarrow> list_all (\<lambda>l. trim_space l \<noteq> beginMarker \<and> trim_space l \<noteq> endMarker) ls"

lemma strip_block_out: "no_markers ls \<Longrightarrow> strip_block False ls = (ls, False)"
  by (induction ls) (simp_all add: no_markers_def)

lemma strip_block_in: "no_markers ls \<Longrightarrow> strip_block True ls = ([], False)"
  by (induction ls) (simp_all add: no_markers_def)

lemma strip_block_append:
  "no_markers ls \<Longrightarrow> strip_block b (ls @ ms) =
     (case strip_block b ms of (r, ch) \<Rightarrow> (if b then r else ls @ r, ch))"
  by (induction ls) (auto simp: no_markers_def split: prod.split)

lemma hd_trim_space: "s \<noteq> [] \<Longrightarrow> \<not> is_space (hd s) \<Longrightarrow> trim_space s \<noteq> [] \<and> hd (trim_space s) = hd s"
proof -
  assume s: "s \<noteq> []" "\<not> is_space (hd s)"
  then have "trim_left s = s" by (simp add: trim_left_id)
  moreover have "trim_space s \<noteq> []" using s by (cases s) (auto simp: trim_space_Nil_iff)
  ultimately show ?thesis using hd_trim_right [of s] by (simp add: trim_space_def)
qed

lemma trim_markers [simp]: "trim_space beginMarker = beginMarker" "trim_space endMarker = endMarker"
  "beginMarker \<noteq> endMarker" "endMarker \<noteq> beginMarker"
  by (simp_all add: trim_space_id beginMarker_def endMarker_def is_space_def)

definition block_lines :: "sshManager \<Rightarrow> string list" where
  "block_lines m = [beginMarker, ''Host *'', ''    IdentityAgent '' @ sg_agentSocket m, endMarker]"

lemma block_body_no_markers: "no_markers [''Host *'', ''    IdentityAgent '' @ sock]"
proof -
  have "trim_space (''    IdentityAgent '' @ sock) = trim_space (''IdentityAgent '' @ sock)" by simp
  moreover have "hd (trim_space (''IdentityAgent '' @ sock)) = CHR ''I''"
    using hd_trim_space [of "''IdentityAgent '' @ sock"] by (simp add: is_space_def)
  moreover have "hd (trim_space ''Host *'') = CHR ''H''"
    using hd_trim_space [of "''Host *''"] by (simp add: is_space_def)
  ultimately show ?thesis by (auto simp: no_markers_def beginMarker_def endMarker_def)
qed

lemma strip_block_managed:
  assumes "no_markers ls"
  shows "strip_block False (block_lines m @ ls) = (ls, True)"
  using assms strip_block_append [OF block_body_no_markers, of True "sg_agentSocket m" "endMarker # ls"]
  by (simp add: block_lines_def strip_block_out del: strip_block.simps(2) append_Cons)
     (simp add: strip_block_out split: prod.split)

lemma no_newline_markers: "newline \<notin> set beginMarker" "newline \<notin> set endMarker"
  by (simp_all add: beginMarker_def endMarker_def)

lemma split_block:
  assumes "newline \<notin> set (sg_agentSocket m)"
  shows "split_on newline (buildManagedBlock m) = block_lines m"
    and "split_on newline (buildManagedBlock m @ newline # c) = block_lines m @ split_on newline c"
proof -
  have "split_on newline (beginMarker @ newline # ''Host *'' @ newline # (''    IdentityAgent '' @
      sg_agentSocket m) @ newline # endMarker) = block_lines m"
    using assms unfolding split_on_append_sep
    by (simp add: split_on_none no_newline_markers block_lines_def)
  then show "split_on newline (buildManagedBlock m) = block_lines m" by (simp add: buildManagedBlock_def)
  then show "split_on newline (buildManagedBlock m @ newline # c) = block_lines m @ split_on newline c"
    by (simp add: split_on_append_sep)
qed

section \<open>The file\<close>

definition enabled_content :: "sshManager \<Rightarrow> string \<Rightarrow> string" where
  "enabled_content m c =
     (if c = [] then buildManagedBlock m else buildManagedBlock m @ newline # c)"

definition without_leading_blanks :: "string \<Rightarrow> string" where
  "without_leading_blanks c = join [newline] (dropWhile blank (split_on newline c))"

lemma remove_enabled_content:
  assumes "newline \<notin> set (sg_agentSocket m)" and "no_markers (split_on newline c)"
  shows "removeManagedBlock (enabled_content m c) = (without_leading_blanks c, True)"
proof (cases "c = []")
  case True
  have "strip_block False (block_lines m) = ([], True)"
    using strip_block_managed [of "[]" m] by (simp add: no_markers_def)
  with True show ?thesis
    by (simp add: removeManagedBlock_def enabled_content_def split_block [OF assms(1)]
        without_leading_blanks_def split_on_none blank_def)
next
  case False
  then show ?thesis using strip_block_managed [OF assms(2), of m]
    by (simp add: removeManagedBlock_def enabled_content_def split_block [OF assms(1)]
        without_leading_blanks_def)
qed

lemma join_suffix: "\<exists>a. join [newline] (us @ vs) = a @ join [newline] vs"
proof (cases "us = [] \<or> vs = []")
  case True
  then show ?thesis by auto
next
  case False
  then show ?thesis by (simp add: join_append)
qed

lemma contains_without_leading_blanks:
  "\<not> contains c sub \<Longrightarrow> \<not> contains (without_leading_blanks c) sub"
proof -
  obtain a where "c = a @ without_leading_blanks c"
    using join_suffix [of "takeWhile blank (split_on newline c)" "dropWhile blank (split_on newline c)"]
    by (auto simp: without_leading_blanks_def)
  then show "\<not> contains c sub \<Longrightarrow> \<not> contains (without_leading_blanks c) sub"
    unfolding contains_iff by (metis append.assoc)
qed

lemma contains_enabled: "contains (enabled_content m c) beginMarker"
  unfolding contains_iff enabled_content_def buildManagedBlock_def by (metis append.assoc append_Nil)

lemma writeConfig_ok:
  assumes "writeConfig m content fs = (fs', None)" and "\<not> read_denied fs (sg_configPath m)"
  shows "os_read_file fs' (sg_configPath m) = Inr content" and "\<not> read_denied fs' (sg_configPath m)"
proof -
  from assms(1) obtain fs1 where fs1: "os_write_file (sg_configPath m) content fs1 = (fs', None)"
    and pol: "read_denied fs1 = read_denied fs"
    by (auto simp: writeConfig_def split: option.splits sum.splits prod.splits dest: os_write_file_policyD)
  then show "os_read_file fs' (sg_configPath m) = Inr content" and "\<not> read_denied fs' (sg_configPath m)"
    using osfs.load_store [OF fs1] osfs.readable_store [OF fs1] assms(2) by auto
qed

lemma writeConfig_faults: "write_fault_at (fst (writeConfig m content fs)) = write_fault_at fs"
  by (auto simp: writeConfig_def os_write_file_def split: option.split sum.split prod.splits write_fault.splits)

lemma Enable_ok:
  assumes c: "readConfig m fs = Inr c \<or> readConfig m fs = Inl NotExist \<and> c = []"
    and off: "\<not> contains c beginMarker" and enable: "Enable m fs = (fs', None)"
  shows "writeConfig m (enabled_content m c) fs = (fs', None)"
proof -
  from c have "IsEnabled m fs = Inr False" using off by (auto simp: IsEnabled_def)
  with c enable show ?thesis
    by (auto simp: Enable_def enabled_content_def Let_def split: option.splits if_splits)
qed

section \<open>Properties\<close>

text \<open>
  Enabling and disabling are inverse, on files: take a configuration without marker lines and
  without the text of the begin marker, or no file at all.  After a successful \<open>Enable\<close> the file is the
  managed block followed by the old text, the block is reported as there, and enabling again changes
  nothing; a successful \<open>Disable\<close> then gives back the old text up to blank lines at its head, and the
  block is reported as gone.
\<close>

theorem enable_disable:
  assumes c: "readConfig m fs = Inr c \<or> readConfig m fs = Inl NotExist \<and> c = []"
    and markers: "no_markers (split_on newline c)" "\<not> contains c beginMarker"
    and sock: "newline \<notin> set (sg_agentSocket m)" and read: "\<not> read_denied fs (sg_configPath m)"
    and enable: "Enable m fs = (fs1, None)" and disable: "Disable m fs1 = (fs2, None)"
  shows "readConfig m fs1 = Inr (if c = [] then buildManagedBlock m else buildManagedBlock m @ newline # c) \<and>
    IsEnabled m fs1 = Inr True \<and> Enable m fs1 = (fs1, None) \<and>
    readConfig m fs2 = Inr (without_leading_blanks c) \<and> IsEnabled m fs2 = Inr False"
proof -
  have w: "writeConfig m (enabled_content m c) fs = (fs1, None)"
    using c markers(2) enable by (rule Enable_ok)
  then have r1: "readConfig m fs1 = Inr (enabled_content m c)" and read1: "\<not> read_denied fs1 (sg_configPath m)"
    using writeConfig_ok [OF w read] by (simp_all add: readConfig_def)
  then have on: "IsEnabled m fs1 = Inr True" using contains_enabled by (simp add: IsEnabled_def)
  have "writeConfig m (without_leading_blanks c) fs1 = (fs2, None)"
    using disable r1 remove_enabled_content [OF sock markers(1)] by (simp add: Disable_def)
  then have "readConfig m fs2 = Inr (without_leading_blanks c)"
    using writeConfig_ok(1) read1 by (simp add: readConfig_def)
  moreover from this have "IsEnabled m fs2 = Inr False"
    using contains_without_leading_blanks [OF markers(2)] by (simp add: IsEnabled_def)
  ultimately show ?thesis using r1 on by (simp add: enabled_content_def Enable_def)
qed

definition demo_manager :: sshManager where
  "demo_manager = \<lparr>sg_configPath = ''/c'', sg_agentSocket = ''/s''\<rparr>"

theorem enable_disable_witness:
  "(let fs1 = fst (Enable demo_manager (fs_with [(''/c'', ''Host a'')])); fs2 = fst (Disable demo_manager fs1)
    in IsEnabled demo_manager fs1 = Inr True \<and> readConfig demo_manager fs2 = Inr ''Host a'')"
proof -
  let ?fs = "fs_with [(''/c'', ''Host a'')]"
  let ?fs1 = "fst (Enable demo_manager ?fs)"
  have r: "readConfig demo_manager ?fs = Inr ''Host a''"
    by (simp add: readConfig_def demo_manager_def os_read_file_def)
  have c: "no_markers (split_on newline ''Host a'')" "\<not> contains ''Host a'' beginMarker"
    "newline \<notin> set (sg_agentSocket demo_manager)" "without_leading_blanks ''Host a'' = ''Host a''"
    by code_simp+
  have off: "IsEnabled demo_manager ?fs = Inr False" using c(2) r by (simp add: IsEnabled_def)
  have enable: "Enable demo_manager ?fs = (?fs1, None)"
    unfolding Enable_def off r
    by (simp add: writeConfig_def demo_manager_def os_mkdir_all_def os_stat_def os_read_file_def
        os_write_file_def backup_path_def Let_def)
  have w: "writeConfig demo_manager (enabled_content demo_manager ''Host a'') ?fs = (?fs1, None)"
    using r c(2) enable by (intro Enable_ok) simp_all
  have fault: "write_fault_at ?fs1 p = WOk" for p
    using writeConfig_faults [of demo_manager "enabled_content demo_manager ''Host a''" ?fs] w by simp
  then have "Disable demo_manager ?fs1 = (fst (Disable demo_manager ?fs1), None)"
    using writeConfig_ok(1) [OF w] remove_enabled_content [OF c(3,1)]
    by (auto simp: Disable_def readConfig_def writeConfig_def os_write_file_def split: option.split)
  from enable_disable [OF disjI1 [OF r] c(1-3) _ enable this] c(4) show ?thesis by (simp add: Let_def)
qed

text \<open>
  C33. Changing the configuration never loses it: for every fault of the file system in the middle of
  \<open>Enable\<close> or \<open>Disable\<close>, as long as the file can be looked at, the old text is still in the file or in
  the backup beside it, and no third file is touched.
\<close>

theorem config_survives_faults:
  assumes old: "files fs (sg_configPath m) = Some d" and stat: "\<not> stat_denied fs (sg_configPath m)"
    and op: "fs' = fst (Enable m fs) \<or> fs' = fst (Disable m fs)"
  shows "(files fs' (sg_configPath m) = Some d \<or> files fs' (backup_path m) = Some d) \<and>
    (\<forall>p. p \<noteq> sg_configPath m \<and> p \<noteq> backup_path m \<longrightarrow> files fs' p = files fs p)"
proof -
  have ne: "backup_path m \<noteq> sg_configPath m" by (simp add: backup_path_def)
  have wc: "(files (fst (writeConfig m c fs)) (sg_configPath m) = Some d \<or>
       files (fst (writeConfig m c fs)) (backup_path m) = Some d) \<and>
      (\<forall>p. p \<noteq> sg_configPath m \<and> p \<noteq> backup_path m \<longrightarrow> files (fst (writeConfig m c fs)) p = files fs p)" for c
    using old stat ne by (auto simp: writeConfig_def os_stat_def os_read_file_def os_write_file_def
        split: write_fault.splits option.splits prod.splits)
  have "fs' = fs \<or> (\<exists>c. fs' = fst (writeConfig m c fs))"
    using op by (auto simp: Enable_def Disable_def Let_def split: option.splits sum.splits ioerr.splits
        bool.splits prod.splits if_splits)
  with wc old show ?thesis by auto
qed

theorem config_survives_faults_witness:
  "(let fs = (fs_with [(''/c'', ''Host a'')])\<lparr>write_fault_at := (\<lambda>p. if p = ''/c'' then WShort 3 else WOk)\<rparr>;
        fs' = fst (Enable demo_manager fs)
    in files fs' ''/c'' = Some ''Host a'' \<or> files fs' ''/c.skeys.bak'' = Some ''Host a'')"
  using config_survives_faults [of "(fs_with [(''/c'', ''Host a'')])\<lparr>write_fault_at :=
      (\<lambda>p. if p = ''/c'' then WShort 3 else WOk)\<rparr>" demo_manager "''Host a''"]
  by (simp add: Let_def demo_manager_def backup_path_def)

text \<open>
  Detection and removal disagree about the markers.  A begin marker line without an end marker line
  after it makes \<open>Disable\<close> drop everything that follows; and a text that only mentions the begin marker
  inside a line counts as enabled, so \<open>Enable\<close> does nothing, while removal finds nothing to remove.
\<close>

theorem marker_mismatch:
  assumes "no_markers pre" and "no_markers post" and "list_all (\<lambda>l. newline \<notin> set l) (pre @ post)"
  shows "removeManagedBlock (join [newline] (pre @ beginMarker # post)) =
      (join [newline] (dropWhile blank pre), True) \<and>
    (let content = ''Host x '' @ beginMarker
     in contains content beginMarker \<and> removeManagedBlock content = (content, False))"
proof
  have "split_on newline (join [newline] (pre @ beginMarker # post)) = pre @ beginMarker # post"
    using assms(3) no_newline_markers by (intro split_on_join) (auto simp: list_all_iff)
  moreover have "strip_block False (pre @ beginMarker # post) = (pre, True)"
    using strip_block_append [OF assms(1), of False "beginMarker # post"] strip_block_in [OF assms(2)] by simp
  ultimately show "removeManagedBlock (join [newline] (pre @ beginMarker # post)) =
      (join [newline] (dropWhile blank pre), True)" by (simp add: removeManagedBlock_def)
  show "let content = ''Host x '' @ beginMarker
     in contains content beginMarker \<and> removeManagedBlock content = (content, False)" by code_simp
qed

theorem marker_mismatch_witness:
  "removeManagedBlock (join [newline] [''Host a'', beginMarker, ''Host b'']) = (''Host a'', True)"
proof -
  have "no_markers [''Host a'']" "no_markers [''Host b'']" "dropWhile blank [''Host a''] = [''Host a'']"
    by code_simp+
  with marker_mismatch [of "[''Host a'']" "[''Host b'']"] show ?thesis by simp
qed

end
