(* ===== verification/Json.thy ===== *)
theory Json
  imports Prelude "HOL-Library.List_Lexorder" "HOL-Library.Char_ord"
begin

text \<open>
  The part of Go's \<open>encoding/json\<close> that the program relies on: JSON values, the printer
  \<open>MarshalIndent(v, "", "  ")\<close> with Go's escapes, the parser behind \<open>Unmarshal\<close> and \<open>Decode\<close>, and the
  decoding of an object into the fields of a struct (names compared exactly, then without case; a
  later member replaces an earlier one; \<open>null\<close> leaves a field as it is; a member of the wrong kind
  is remembered as the error and skipped).

  A number keeps its literal, as Go's scanner does; the decoder of an integer field reads it with
  \<open>atoi\<close>.  The parser has fuel: a value uses at most two units for
  every byte, and \<open>pval_enough\<close> shows that any fuel above twice the length of the input gives the
  same result, which is what \<open>parse_json\<close> supplies.  Strings are taken to be valid UTF-8 without U+2028 and U+2029: bytes
  from 128 on are copied by both the printer and the parser.  Go's limit of 10000 nested values is
  not modelled.
\<close>

datatype json =
    JNull
  | JBool bool
  | JNum string
  | JStr string
  | JArr "json list"
  | JObj "(string \<times> json) list"

abbreviation backslash :: char where "backslash \<equiv> CHR 0x5C"

section \<open>Printing\<close>

definition hex_digit :: "nat \<Rightarrow> char" where
  "hex_digit n = (if n < 10 then char_of (48 + n) else char_of (87 + n))"

definition unicode_escape :: "char \<Rightarrow> string" where
  "unicode_escape c = backslash # ''u00'' @ [hex_digit (of_char c div 16), hex_digit (of_char c mod 16)]"

definition esc_char :: "char \<Rightarrow> string" where
  "esc_char c =
     (if c = dquote \<or> c = backslash then [backslash, c]
      else if c = newline then [backslash, CHR ''n'']
      else if c = carriage_return then [backslash, CHR ''r'']
      else if c = tab then [backslash, CHR ''t'']
      else if c = CHR 0x08 then [backslash, CHR ''b'']
      else if c = CHR 0x0C then [backslash, CHR ''f'']
      else if (of_char c :: nat) < 32 \<or> c = CHR ''<'' \<or> c = CHR ''>'' \<or> c = CHR ''&'' then unicode_escape c
      else [c])"

definition quote_str :: "string \<Rightarrow> string" where
  "quote_str s = dquote # concat (map esc_char s) @ [dquote]"

definition indent :: "nat \<Rightarrow> string" where
  "indent d = newline # replicate (2 * d) (CHR '' '')"

fun commas :: "nat \<Rightarrow> string list \<Rightarrow> string" where
  "commas d [] = []"
| "commas d [x] = indent d @ x"
| "commas d (x # y # ys) = indent d @ x @ CHR '','' # commas d (y # ys)"

text \<open>\<open>MarshalIndent\<close>: \<open>d\<close> is the depth of the value.\<close>

fun print_json :: "nat \<Rightarrow> json \<Rightarrow> string" where
  "print_json d JNull = ''null''"
| "print_json d (JBool b) = (if b then ''true'' else ''false'')"
| "print_json d (JNum l) = l"
| "print_json d (JStr s) = quote_str s"
| "print_json d (JArr vs) =
     (if vs = [] then ''[]''
      else CHR ''['' # commas (Suc d) (map (print_json (Suc d)) vs) @ indent d @ '']'')"
| "print_json d (JObj ms) =
     (if ms = [] then ''{}''
      else CHR ''{'' # commas (Suc d) (map (\<lambda>(k, v). quote_str k @ '': '' @ print_json (Suc d) v) ms)
        @ indent d @ ''}'')"

definition MarshalIndent :: "json \<Rightarrow> string" where
  "MarshalIndent v = print_json 0 v"

section \<open>Parsing\<close>

definition json_space :: "char \<Rightarrow> bool" where
  "json_space c \<longleftrightarrow> c = CHR '' '' \<or> c = tab \<or> c = newline \<or> c = carriage_return"

definition skip_ws :: "string \<Rightarrow> string" where
  "skip_ws s = dropWhile json_space s"

definition hex_val :: "char \<Rightarrow> nat option" where
  "hex_val c =
     (let n = (of_char c :: nat) in
      if 48 \<le> n \<and> n \<le> 57 then Some (n - 48)
      else if 97 \<le> n \<and> n \<le> 102 then Some (n - 87)
      else if 65 \<le> n \<and> n \<le> 70 then Some (n - 55) else None)"

definition hex4 :: "char \<Rightarrow> char \<Rightarrow> char \<Rightarrow> char \<Rightarrow> nat option" where
  "hex4 a b c d =
     (case (hex_val a, hex_val b, hex_val c, hex_val d) of
        (Some w, Some x, Some y, Some z) \<Rightarrow> Some (((w * 16 + x) * 16 + y) * 16 + z)
      | _ \<Rightarrow> None)"

text \<open>The UTF-8 bytes of a code point.\<close>

definition utf8 :: "nat \<Rightarrow> string" where
  "utf8 n =
     (if n < 128 then [char_of n]
      else if n < 2048 then [char_of (192 + n div 64), char_of (128 + n mod 64)]
      else if n < 65536 then
        [char_of (224 + n div 4096), char_of (128 + n div 64 mod 64), char_of (128 + n mod 64)]
      else [char_of (240 + n div 262144), char_of (128 + n div 4096 mod 64),
            char_of (128 + n div 64 mod 64), char_of (128 + n mod 64)])"

definition simple_escape :: "char \<Rightarrow> char option" where
  "simple_escape c =
     (if c = dquote \<or> c = backslash \<or> c = CHR ''/'' then Some c
      else if c = CHR ''n'' then Some newline
      else if c = CHR ''r'' then Some carriage_return
      else if c = CHR ''t'' then Some tab
      else if c = CHR ''b'' then Some (CHR 0x08)
      else if c = CHR ''f'' then Some (CHR 0x0C)
      else None)"

definition push :: "string \<Rightarrow> (string \<times> string) option \<Rightarrow> (string \<times> string) option" where
  "push w r = map_option (\<lambda>(s, rest). (w @ s, rest)) r"

text \<open>
  The escape after a backslash: the bytes it stands for and the rest.  A surrogate pair is one code
  point; a surrogate without its partner becomes U+FFFD.
\<close>

definition low_surrogate :: "string \<Rightarrow> nat option" where
  "low_surrogate r =
     (case r of
        b # u # g1 # g2 # g3 # g4 # r2 \<Rightarrow>
          (case hex4 g1 g2 g3 g4 of
             Some m \<Rightarrow> if b = backslash \<and> u = CHR ''u'' \<and> 56320 \<le> m \<and> m < 57344 then Some m else None
           | None \<Rightarrow> None)
      | _ \<Rightarrow> None)"

definition code_unit :: "nat \<Rightarrow> string \<Rightarrow> string \<times> string" where
  "code_unit n r =
     (if n < 55296 \<or> 57344 \<le> n then (utf8 n, r)
      else (case low_surrogate r of
          Some m \<Rightarrow> if n < 56320 then (utf8 (65536 + (n - 55296) * 1024 + (m - 56320)), drop 6 r)
                    else (utf8 65533, r)
        | None \<Rightarrow> (utf8 65533, r)))"

definition unescape :: "string \<Rightarrow> (string \<times> string) option" where
  "unescape s =
     (case s of
        [] \<Rightarrow> None
      | e # es \<Rightarrow>
          if e = CHR ''u'' then
            (case es of
               h1 # h2 # h3 # h4 # r \<Rightarrow> map_option (\<lambda>n. code_unit n r) (hex4 h1 h2 h3 h4)
             | _ \<Rightarrow> None)
          else map_option (\<lambda>x. ([x], es)) (simple_escape e))"

lemma unescape_length: "unescape s = Some (w, r) \<Longrightarrow> length r < length s"
  by (auto simp: unescape_def code_unit_def split: list.splits if_splits option.splits)

text \<open>The rest of a string after its opening quote.\<close>

function pstr :: "string \<Rightarrow> (string \<times> string) option" where
  "pstr [] = None"
| "pstr (c # cs) =
     (if c = dquote then Some ([], cs)
      else if (of_char c :: nat) < 32 then None
      else if c = backslash then
        (case unescape cs of None \<Rightarrow> None | Some (w, r) \<Rightarrow> push w (pstr r))
      else push [c] (pstr cs))"
  by pat_completeness auto
termination
  by (relation "measure length") (auto dest: unescape_length)

text \<open>The grammar of number literals.\<close>

definition num_char :: "char \<Rightarrow> bool" where
  "num_char c \<longleftrightarrow> is_digit c \<or> c = CHR ''-'' \<or> c = CHR ''+'' \<or> c = CHR ''.'' \<or> c = CHR ''e'' \<or> c = CHR ''E''"

definition exp_ok :: "string \<Rightarrow> bool" where
  "exp_ok s =
     (case s of
        [] \<Rightarrow> True
      | c # cs \<Rightarrow> (c = CHR ''e'' \<or> c = CHR ''E'') \<and>
          (let ds = (case cs of d # r \<Rightarrow> if d = CHR ''+'' \<or> d = CHR ''-'' then r else cs | [] \<Rightarrow> []) in
           ds \<noteq> [] \<and> list_all is_digit ds))"

definition frac_ok :: "string \<Rightarrow> bool" where
  "frac_ok s =
     (case s of
        [] \<Rightarrow> True
      | c # cs \<Rightarrow>
          if c = CHR ''.'' then takeWhile is_digit cs \<noteq> [] \<and> exp_ok (dropWhile is_digit cs)
          else exp_ok s)"

definition num_ok :: "string \<Rightarrow> bool" where
  "num_ok s =
     (let t = (case s of c # r \<Rightarrow> if c = CHR ''-'' then r else s | [] \<Rightarrow> []);
          ds = takeWhile is_digit t in
      ds \<noteq> [] \<and> (hd ds = CHR ''0'' \<longrightarrow> length ds = 1) \<and> frac_ok (dropWhile is_digit t))"

definition plit :: "string \<Rightarrow> json \<Rightarrow> string \<Rightarrow> (json \<times> string) option" where
  "plit w v s = (if has_prefix s w then Some (v, drop (length w) s) else None)"

fun pval :: "nat \<Rightarrow> string \<Rightarrow> (json \<times> string) option"
  and pelems :: "nat \<Rightarrow> string \<Rightarrow> (json list \<times> string) option"
  and pmembers :: "nat \<Rightarrow> string \<Rightarrow> ((string \<times> json) list \<times> string) option" where
  "pval 0 s = None"
| "pval (Suc n) s =
     (case skip_ws s of
        [] \<Rightarrow> None
      | c # cs \<Rightarrow>
          if c = dquote then map_option (\<lambda>(w, r). (JStr w, r)) (pstr cs)
          else if c = CHR ''{'' then
            (case skip_ws cs of
               [] \<Rightarrow> None
             | d # ds \<Rightarrow> if d = CHR ''}'' then Some (JObj [], ds)
                         else map_option (\<lambda>(ms, r). (JObj ms, r)) (pmembers n (d # ds)))
          else if c = CHR ''['' then
            (case skip_ws cs of
               [] \<Rightarrow> None
             | d # ds \<Rightarrow> if d = CHR '']'' then Some (JArr [], ds)
                         else map_option (\<lambda>(vs, r). (JArr vs, r)) (pelems n (d # ds)))
          else if c = CHR ''n'' then plit ''null'' JNull (c # cs)
          else if c = CHR ''t'' then plit ''true'' (JBool True) (c # cs)
          else if c = CHR ''f'' then plit ''false'' (JBool False) (c # cs)
          else (let l = takeWhile num_char (c # cs) in
            if num_ok l then Some (JNum l, dropWhile num_char (c # cs)) else None))"
| "pelems 0 s = None"
| "pelems (Suc n) s =
     (case pval n s of
        None \<Rightarrow> None
      | Some (v, r) \<Rightarrow>
          (case skip_ws r of
             [] \<Rightarrow> None
           | c # cs \<Rightarrow>
               if c = CHR '']'' then Some ([v], cs)
               else if c = CHR '','' then map_option (\<lambda>(vs, r'). (v # vs, r')) (pelems n cs)
               else None))"
| "pmembers 0 s = None"
| "pmembers (Suc n) s =
     (case skip_ws s of
        [] \<Rightarrow> None
      | q # qs \<Rightarrow>
          if q \<noteq> dquote then None
          else (case pstr qs of
              None \<Rightarrow> None
            | Some (k, r) \<Rightarrow>
                (case skip_ws r of
                   [] \<Rightarrow> None
                 | e # es \<Rightarrow>
                     if e \<noteq> CHR '':'' then None
                     else (case pval n es of
                         None \<Rightarrow> None
                       | Some (v, r2) \<Rightarrow>
                           (case skip_ws r2 of
                              [] \<Rightarrow> None
                            | c # cs \<Rightarrow>
                                if c = CHR ''}'' then Some ([(k, v)], cs)
                                else if c = CHR '','' then
                                  map_option (\<lambda>(ms, r'). ((k, v) # ms, r')) (pmembers n cs)
                                else None)))))"

text \<open>The first value of a text (\<open>Decoder.Decode\<close>), and a text that is one value (\<open>Unmarshal\<close>).\<close>

definition first_json :: "string \<Rightarrow> (json \<times> string) option" where
  "first_json s = pval (2 * length s + 1) s"

definition parse_json :: "string \<Rightarrow> json option" where
  "parse_json s =
     (case first_json s of Some (v, r) \<Rightarrow> if skip_ws r = [] then Some v else None | None \<Rightarrow> None)"

section \<open>Decoding into a struct\<close>

text \<open>
  A decoder takes a value and the variable it is decoded into; it returns the new content and whether
  a value of the wrong kind was met.  A struct is a list of field decoders under their names.
\<close>

type_synonym 'a decoder = "json \<Rightarrow> 'a \<Rightarrow> 'a \<times> bool"

definition dec_str :: "(string \<Rightarrow> 'a \<Rightarrow> 'a) \<Rightarrow> 'a decoder" where
  "dec_str upd v x = (case v of JStr s \<Rightarrow> (upd s x, False) | JNull \<Rightarrow> (x, False) | _ \<Rightarrow> (x, True))"

definition dec_bool :: "(bool \<Rightarrow> 'a \<Rightarrow> 'a) \<Rightarrow> 'a decoder" where
  "dec_bool upd v x = (case v of JBool b \<Rightarrow> (upd b x, False) | JNull \<Rightarrow> (x, False) | _ \<Rightarrow> (x, True))"

definition dec_int :: "(int \<Rightarrow> 'a \<Rightarrow> 'a) \<Rightarrow> 'a decoder" where
  "dec_int upd v x =
     (case v of
        JNum l \<Rightarrow> (case atoi l of (i, None) \<Rightarrow> (upd i x, False) | _ \<Rightarrow> (x, True))
      | JNull \<Rightarrow> (x, False)
      | _ \<Rightarrow> (x, True))"

definition find_field :: "(string \<times> 'a decoder) list \<Rightarrow> string \<Rightarrow> 'a decoder option" where
  "find_field fs k =
     (case find (\<lambda>f. fst f = k) fs of
        Some f \<Rightarrow> Some (snd f)
      | None \<Rightarrow> map_option snd (find (\<lambda>f. equal_fold (fst f) k) fs))"

definition dec_member :: "(string \<times> 'a decoder) list \<Rightarrow> 'a \<times> bool \<Rightarrow> string \<times> json \<Rightarrow> 'a \<times> bool" where
  "dec_member fs s m =
     (case find_field fs (fst m) of
        None \<Rightarrow> s
      | Some d \<Rightarrow> (case d (snd m) (fst s) of (y, e) \<Rightarrow> (y, snd s \<or> e)))"

definition dec_struct :: "(string \<times> 'a decoder) list \<Rightarrow> 'a decoder" where
  "dec_struct fs v x =
     (case v of
        JObj ms \<Rightarrow> foldl (dec_member fs) (x, False) ms
      | JNull \<Rightarrow> (x, False)
      | _ \<Rightarrow> (x, True))"

text \<open>
  A map from strings to pointers: \<open>None\<close> is the nil pointer that \<open>null\<close> decodes to.  Every member
  is decoded into a fresh zero value and replaces the one under its name.
\<close>

definition dec_pointer :: "'v decoder \<Rightarrow> 'v \<Rightarrow> json \<Rightarrow> 'v option \<times> bool" where
  "dec_pointer d zero v = (case v of JNull \<Rightarrow> (None, False) | _ \<Rightarrow> map_prod Some id (d v zero))"

definition dec_entry :: "'v decoder \<Rightarrow> 'v \<Rightarrow> (string \<times> 'v option) list \<times> bool \<Rightarrow> string \<times> json \<Rightarrow>
    (string \<times> 'v option) list \<times> bool" where
  "dec_entry d zero s m =
     (case dec_pointer d zero (snd m) of (p, e) \<Rightarrow> (AList.update (fst m) p (fst s), snd s \<or> e))"

definition dec_map :: "'v decoder \<Rightarrow> 'v \<Rightarrow> (string \<times> 'v option) list decoder" where
  "dec_map d zero v x =
     (case v of
        JObj ms \<Rightarrow> foldl (dec_entry d zero) (x, False) ms
      | JNull \<Rightarrow> ([], False)
      | _ \<Rightarrow> (x, True))"

text \<open>\<open>json.Unmarshal\<close>: a text that is no JSON value leaves the variable untouched.\<close>

definition Unmarshal :: "'a decoder \<Rightarrow> string \<Rightarrow> 'a \<Rightarrow> 'a \<times> string option" where
  "Unmarshal d s x =
     (case parse_json s of
        None \<Rightarrow> (x, Some ''invalid JSON text'')
      | Some v \<Rightarrow> (case d v x of (y, e) \<Rightarrow> (y, if e then Some ''json: cannot unmarshal'' else None)))"

definition jint :: "int \<Rightarrow> json" where
  "jint i = JNum (itoa i)"

section \<open>Enough fuel\<close>

lemma skip_ws_length: "length (skip_ws s) \<le> length s"
  by (simp add: skip_ws_def length_dropWhile_le)

lemma skip_ws_Cons_length: "skip_ws s = c # cs \<Longrightarrow> length cs < length s"
  using skip_ws_length [of s] by simp

lemma push_Some: "push w x = Some (a, r) \<longleftrightarrow> (\<exists>b. x = Some (b, r) \<and> a = w @ b)"
  by (auto simp: push_def)

lemma pstr_length: "pstr s = Some (w, r) \<Longrightarrow> length r < length s"
proof (induction s arbitrary: w r rule: pstr.induct)
  case (2 c cs)
  then show ?case
    by (fastforce simp: push_Some split: if_splits option.splits dest: unescape_length)
qed simp

lemma num_ok_not_Nil: "num_ok l \<Longrightarrow> l \<noteq> []"
  by (auto simp: num_ok_def)

lemma pelems_SomeD:
  "pelems (Suc n) s = Some (vs, r) \<Longrightarrow>
     \<exists>v r1 c cs. pval n s = Some (v, r1) \<and> skip_ws r1 = c # cs \<and>
       (c = CHR '']'' \<and> r = cs \<or> c = CHR '','' \<and> (\<exists>vs'. pelems n cs = Some (vs', r)))"
  by (auto split: if_splits list.splits option.splits)

lemma pmembers_SomeD:
  "pmembers (Suc n) s = Some (ms, r) \<Longrightarrow>
     \<exists>qs k r0 es v r1 c cs. skip_ws s = dquote # qs \<and> pstr qs = Some (k, r0) \<and>
       skip_ws r0 = CHR '':'' # es \<and> pval n es = Some (v, r1) \<and> skip_ws r1 = c # cs \<and>
       (c = CHR ''}'' \<and> r = cs \<or> c = CHR '','' \<and> (\<exists>ms'. pmembers n cs = Some (ms', r)))"
  by (auto split: if_splits list.splits option.splits)

lemma pval_length:
  "pval n s = Some (v, r) \<Longrightarrow> length r < length s"
  "pelems n s = Some (vs, r) \<Longrightarrow> length r < length s"
  "pmembers n s = Some (ms, r) \<Longrightarrow> length r < length s"
proof (induction n s and n s and n s arbitrary: v r and vs r and ms r rule: pval_pelems_pmembers.induct)
  case (2 n s)
  obtain c cs where c: "skip_ws s = c # cs" using 2(3) by (cases "skip_ws s") auto
  then have cs: "length cs < length s" by (rule skip_ws_Cons_length)
  show ?case
  proof (cases "c \<in> {CHR ''{'', CHR ''[''}")
    case True
    then obtain d ds where d: "skip_ws cs = d # ds" using 2(3) c by (cases "skip_ws cs") auto
    then have "length ds < length cs" by (rule skip_ws_Cons_length)
    then show ?thesis using 2(3) c cs d True 2(1) [OF c _ _ d] 2(2) [OF c _ _ _ d]
      by (auto split: if_splits)
  next
    case False
    have "num_ok (takeWhile num_char (c # cs)) \<Longrightarrow> length (dropWhile num_char (c # cs)) < length s"
      using cs num_ok_not_Nil [of "takeWhile num_char (c # cs)"] length_dropWhile_le [of num_char cs]
      by (auto split: if_splits)
    then show ?thesis using 2(3) c cs False
      by (auto simp: plit_def Let_def split: if_splits dest!: pstr_length)
  qed
next
  case (4 n s)
  obtain v r1 c cs where e: "pval n s = Some (v, r1)" "skip_ws r1 = c # cs"
      "r = cs \<or> (\<exists>vs'. pelems n cs = Some (vs', r))" and c: "r = cs \<or> c = CHR '','' "
    using pelems_SomeD [OF 4(3)] by blast
  have "length cs < length s" using 4(1) e(1) skip_ws_Cons_length [OF e(2)] by fastforce
  moreover have "length r < length cs" if "r \<noteq> cs"
    using that e c 4(2) by fastforce
  ultimately show ?case by fastforce
next
  case (6 n s)
  obtain qs k r0 es v r1 c cs where e: "skip_ws s = dquote # qs" "pstr qs = Some (k, r0)"
      "skip_ws r0 = CHR '':'' # es" "pval n es = Some (v, r1)" "skip_ws r1 = c # cs"
      "r = cs \<or> (\<exists>ms'. pmembers n cs = Some (ms', r))" and c: "c = CHR ''}'' \<and> r = cs \<or> c = CHR '','' "
    using pmembers_SomeD [OF 6(3)] by blast
  have "length r1 < length es" using 6(1) e by fastforce
  then have "length cs < length s"
    using skip_ws_Cons_length [OF e(1)] pstr_length [OF e(2)] skip_ws_Cons_length [OF e(3)]
      skip_ws_Cons_length [OF e(5)] by simp
  moreover have "length r < length cs" if "r \<noteq> cs"
    using that e c 6(2) by fastforce
  ultimately show ?case by fastforce
qed simp_all


lemma pval_enough:
  "2 * length s < n \<Longrightarrow> 2 * length s < m \<Longrightarrow> pval n s = pval m s"
  "2 * length s + 1 < n \<Longrightarrow> 2 * length s + 1 < m \<Longrightarrow> pelems n s = pelems m s"
  "2 * length s + 1 < n \<Longrightarrow> 2 * length s + 1 < m \<Longrightarrow> pmembers n s = pmembers m s"
proof (induction n s and n s and n s arbitrary: m and m and m rule: pval_pelems_pmembers.induct)
  case (2 n s)
  from 2(4) obtain k where m: "m = Suc k" by (cases m) auto
  have sub: "2 * length (d # ds) + 1 < n \<and> 2 * length (d # ds) + 1 < k"
    if "skip_ws s = c # cs" "skip_ws cs = d # ds" for c cs d ds
    using 2 m skip_ws_Cons_length [OF that(1)] skip_ws_Cons_length [OF that(2)] by simp
  have els: "pelems n (d # ds) = pelems k (d # ds)"
    if "skip_ws s = CHR ''['' # cs" "skip_ws cs = d # ds" "d \<noteq> CHR '']''" for cs d ds
    using 2(2) [OF that(1) _ _ _ that(2,3)] sub [OF that(1,2)] by simp
  have mems: "pmembers n (d # ds) = pmembers k (d # ds)"
    if "skip_ws s = CHR ''{'' # cs" "skip_ws cs = d # ds" "d \<noteq> CHR ''}''" for cs d ds
    using 2(1) [OF that(1) _ _ that(2,3)] sub [OF that(1,2)] by simp
  show ?case
  proof (cases "skip_ws s")
    case (Cons c cs)
    show ?thesis
    proof (cases "skip_ws cs")
      case Nil
      then show ?thesis using Cons by (simp add: m)
    next
      case (Cons d ds)
      consider "c = CHR ''{''" | "c = CHR ''[''" | "c \<noteq> CHR ''{''" "c \<noteq> CHR ''[''" by blast
      then show ?thesis
        using els [of cs d ds] mems [of cs d ds] \<open>skip_ws s = c # cs\<close> Cons
        by cases (simp_all add: m)
    qed
  qed (simp add: m)
next
  case (4 n s)
  from 4(4) obtain k where m: "m = Suc k" by (cases m) auto
  have hd: "pval n s = pval k s" by (rule 4(1)) (use 4(3,4) m in simp_all)
  have tl: "pelems n cs = pelems k cs" if "pval n s = Some (v, r)" "skip_ws r = CHR '','' # cs" for v r cs
    by (rule 4(2) [OF that(1) refl that(2)])
       (use 4(3,4) m pval_length(1) [OF that(1)] skip_ws_Cons_length [OF that(2)] in simp_all)
  show ?case unfolding m pelems.simps hd [symmetric]
    using tl by (intro option.case_cong prod.case_cong list.case_cong if_cong refl arg_cong [where f = "map_option _"]) simp_all
next
  case (6 n s)
  from 6(4) obtain k where m: "m = Suc k" by (cases m) auto
  have len: "length es + 1 < length s"
    if "skip_ws s = q # qs" "pstr qs = Some (a, r)" "skip_ws r = e # es" for q qs a r e es
    using skip_ws_Cons_length [OF that(1)] skip_ws_Cons_length [OF that(3)] pstr_length [OF that(2)] by simp
  have hd: "pval n es = pval k es"
    if "skip_ws s = dquote # qs" "pstr qs = Some (a, r)" "skip_ws r = CHR '':'' # es" for qs a r es
    by (rule 6(1) [OF that(1) _ that(2) refl that(3)]) (use 6(3,4) m len [OF that] in simp_all)
  have tl: "pmembers n cs = pmembers k cs"
    if "skip_ws s = dquote # qs" "pstr qs = Some (a, r)" "skip_ws r = CHR '':'' # es"
      "pval n es = Some (v, r2)" "skip_ws r2 = CHR '','' # cs" for qs a r es v r2 cs
    by (rule 6(2) [OF that(1) _ that(2) refl that(3) _ that(4) refl that(5)])
       (use 6(3,4) m len [OF that(1,2,3)] pval_length(1) [OF that(4)]
          skip_ws_Cons_length [OF that(5)] in simp_all)
  show ?case unfolding m pmembers.simps
    using hd tl
    by (intro option.case_cong prod.case_cong list.case_cong if_cong refl arg_cong [where f = "map_option _"]) auto
qed simp_all

section \<open>Reading back what was printed\<close>

fun wf_json :: "json \<Rightarrow> bool" where
  "wf_json (JNum l) = (num_ok l \<and> list_all num_char l)"
| "wf_json (JArr vs) = list_all wf_json vs"
| "wf_json (JObj ms) = list_all (\<lambda>(k, v). wf_json v) ms"
| "wf_json _ = True"

lemma hex_val_digit: "n < 16 \<Longrightarrow> hex_val (hex_digit n) = Some n"
  by (auto simp: hex_val_def hex_digit_def Let_def)

lemma unescape_unicode:
  assumes "(of_char c :: nat) < 128"
  shows "unescape (tl (unicode_escape c) @ r) = Some ([c], r)"
proof -
  have "(of_char c :: nat) div 16 < 16" using assms by simp
  moreover have "of_char c div 16 * 16 + of_char c mod 16 = (of_char c :: nat)" by simp
  moreover have "hex_val (CHR ''0'') = Some 0" by (simp add: hex_val_def)
  ultimately show ?thesis using assms
    by (simp add: unescape_def unicode_escape_def hex4_def hex_val_digit code_unit_def utf8_def)
qed

lemma pstr_backslash: "unescape cs = Some (w, r) \<Longrightarrow> pstr (backslash # cs) = push w (pstr r)"
  by simp

lemma pstr_short: "simple_escape e = Some c \<Longrightarrow> e \<noteq> CHR ''u'' \<Longrightarrow> pstr (backslash # e # r) = push [c] (pstr r)"
  by (rule pstr_backslash) (simp add: unescape_def)

lemma esc_char_cases:
  obtains (short) e where "esc_char c = [backslash, e]" "simple_escape e = Some c" "e \<noteq> CHR ''u''"
    | (uni) "esc_char c = unicode_escape c" "(of_char c :: nat) < 128"
    | (plain) "esc_char c = [c]" "c \<noteq> dquote" "c \<noteq> backslash" "\<not> (of_char c :: nat) < 32"
proof -
  note sh = short
  consider "c = dquote" | "c = backslash" | "c = newline" | "c = carriage_return" | "c = tab"
    | "c = CHR 0x08" | "c = CHR 0x0C"
    | (other) "c \<notin> {dquote, backslash, newline, carriage_return, tab, CHR 0x08, CHR 0x0C}"
    by blast
  then show ?thesis
  proof cases
    case other
    show ?thesis
    proof (cases "(of_char c :: nat) < 32 \<or> c \<in> {CHR ''<'', CHR ''>'', CHR ''&''}")
      case True
      then have "(of_char c :: nat) < 128" by auto
      moreover have "esc_char c = unicode_escape c" using True other by (simp add: esc_char_def)
      ultimately show ?thesis by (rule uni [rotated])
    next
      case False
      then show ?thesis using other by (intro plain) (simp_all add: esc_char_def)
    qed
  next
    case 1 then show ?thesis by (intro sh [of dquote]) (simp_all add: esc_char_def simple_escape_def)
  next
    case 2 then show ?thesis by (intro sh [of backslash]) (simp_all add: esc_char_def simple_escape_def)
  next
    case 3 then show ?thesis by (intro sh [of "CHR ''n''"]) (simp_all add: esc_char_def simple_escape_def)
  next
    case 4 then show ?thesis by (intro sh [of "CHR ''r''"]) (simp_all add: esc_char_def simple_escape_def)
  next
    case 5 then show ?thesis by (intro sh [of "CHR ''t''"]) (simp_all add: esc_char_def simple_escape_def)
  next
    case 6 then show ?thesis by (intro sh [of "CHR ''b''"]) (simp_all add: esc_char_def simple_escape_def)
  next
    case 7 then show ?thesis by (intro sh [of "CHR ''f''"]) (simp_all add: esc_char_def simple_escape_def)
  qed
qed

lemma pstr_esc_char: "pstr (esc_char c @ r) = push [c] (pstr r)"
proof (cases c rule: esc_char_cases)
  case (short e)
  then show ?thesis using pstr_short [of e c r] by (simp del: pstr.simps)
next
  case uni
  then show ?thesis using pstr_backslash [OF unescape_unicode, of c r]
    by (simp add: unicode_escape_def del: pstr.simps)
next
  case plain
  then show ?thesis by simp
qed

lemma pstr_quoted: "pstr (concat (map esc_char s) @ dquote # r) = Some (s, r)"
  by (induction s) (simp_all add: pstr_esc_char push_def del: pstr.simps(2), simp)

lemma skip_ws_indent [simp]: "skip_ws (indent d @ x) = skip_ws x"
proof -
  have "dropWhile json_space (replicate k (CHR '' '') @ x) = dropWhile json_space x" for k
    by (induction k) (simp_all add: json_space_def)
  then show ?thesis by (simp add: skip_ws_def indent_def json_space_def)
qed

lemma skip_ws_Cons [simp]: "\<not> json_space c \<Longrightarrow> skip_ws (c # x) = c # x"
  and skip_ws_space [simp]: "skip_ws (CHR '' '' # x) = skip_ws x"
  and skip_ws_Nil [simp]: "skip_ws [] = []"
  by (simp_all add: skip_ws_def json_space_def)

lemma json_space_simps [simp]:
  "\<not> json_space dquote" "\<not> json_space CHR '','' " "\<not> json_space CHR '':''" "\<not> json_space CHR ''{''"
  "\<not> json_space CHR ''}''" "\<not> json_space CHR ''[''" "\<not> json_space CHR '']''" "\<not> json_space CHR ''n''"
  "\<not> json_space CHR ''t''" "\<not> json_space CHR ''f''"
  by (simp_all add: json_space_def)

lemma num_char_simps [simp]:
  "\<not> num_char dquote" "\<not> num_char CHR ''{''" "\<not> num_char CHR ''[''" "\<not> num_char CHR ''n''"
  "\<not> num_char CHR ''t''" "\<not> num_char CHR ''f''" "\<not> num_char CHR '']''" "\<not> num_char CHR ''}''"
  "\<not> num_char CHR '','' " "\<not> num_char newline" "\<not> num_char CHR '' ''" "\<not> num_char carriage_return"
  "\<not> num_char tab"
  by (simp_all add: num_char_def is_digit_def)

lemma num_char_not:
  "num_char c \<Longrightarrow> \<not> json_space c \<and>
     c \<notin> {dquote, CHR ''{'', CHR ''['', CHR '']'', CHR ''}'', CHR ''n'', CHR ''t'', CHR ''f''}"
  using num_char_simps unfolding json_space_def by fast

lemma print_json_start:
  assumes "wf_json v"
  shows "\<exists>c cs. print_json d v = c # cs \<and> \<not> json_space c \<and> c \<noteq> CHR '']''"
proof (cases v)
  case (JNum l)
  with assms num_ok_not_Nil obtain c cs where "l = c # cs" by (cases l) auto
  with JNum assms show ?thesis using num_char_not [of c] by simp
qed (simp_all add: quote_str_def)

lemma pval_ws: "skip_ws s = skip_ws t \<Longrightarrow> pval n s = pval n t"
  by (cases n) simp_all

lemma pelems_ws: "skip_ws s = skip_ws t \<Longrightarrow> pelems n s = pelems n t"
  by (cases n) (simp_all add: pval_ws [of s t])

lemma pmembers_ws: "skip_ws s = skip_ws t \<Longrightarrow> pmembers n s = pmembers n t"
  by (cases n) simp_all

text \<open>A value that ends where a delimiter follows.\<close>

definition delim :: "string \<Rightarrow> bool" where
  "delim r \<longleftrightarrow> (case r of [] \<Rightarrow> True | c # _ \<Rightarrow> \<not> num_char c)"

definition reads_back :: "nat \<Rightarrow> json \<Rightarrow> bool" where
  "reads_back d v \<longleftrightarrow> (\<forall>n r. delim r \<longrightarrow> 2 * length (print_json d v @ r) < n \<longrightarrow>
     pval n (print_json d v @ r) = Some (v, r))"

lemma reads_backD:
  "reads_back d v \<Longrightarrow> delim r \<Longrightarrow> 2 * length (print_json d v @ r) < n \<Longrightarrow>
     pval n (print_json d v @ r) = Some (v, r)"
  by (simp add: reads_back_def)

lemma delim_simps [simp]: "delim []" "delim (CHR '','' # r)" "delim (indent d @ r)"
  by (simp_all add: delim_def indent_def)

lemma pelems_print:
  assumes "vs \<noteq> []" and "\<forall>v \<in> set vs. reads_back d v"
    and "2 * length (commas d (map (print_json d) vs) @ indent e @ CHR '']'' # r) + 1 < n"
  shows "pelems n (commas d (map (print_json d) vs) @ indent e @ CHR '']'' # r) = Some (vs, r)"
  using assms
proof (induction vs arbitrary: n)
  case (Cons v vs)
  let ?t = "if vs = [] then indent e @ CHR '']'' # r
            else CHR '','' # commas d (map (print_json d) vs) @ indent e @ CHR '']'' # r"
  from Cons.prems(3) obtain k where n: "n = Suc k" by (cases n) auto
  have eq: "commas d (map (print_json d) (v # vs)) @ indent e @ CHR '']'' # r = indent d @ print_json d v @ ?t"
    by (cases vs) simp_all
  have "pval k (indent d @ print_json d v @ ?t) = pval k (print_json d v @ ?t)"
    by (rule pval_ws) simp
  also have "\<dots> = Some (v, ?t)"
    using Cons.prems(3) n unfolding eq by (intro reads_backD) (use Cons.prems(2) in auto)
  finally have "pval k (indent d @ print_json d v @ ?t) = Some (v, ?t)" .
  moreover have "vs \<noteq> [] \<Longrightarrow> pelems k (commas d (map (print_json d) vs) @ indent e @ CHR '']'' # r) = Some (vs, r)"
    using Cons.prems n unfolding eq by (intro Cons.IH) auto
  ultimately show ?case unfolding eq n by simp
qed simp

definition print_member :: "nat \<Rightarrow> string \<times> json \<Rightarrow> string" where
  "print_member d m = quote_str (fst m) @ '': '' @ print_json d (snd m)"

lemma pmembers_print:
  assumes "ms \<noteq> []" and "\<forall>m \<in> set ms. reads_back d (snd m)"
    and "2 * length (commas d (map (print_member d) ms) @ indent e @ CHR ''}'' # r) + 1 < n"
  shows "pmembers n (commas d (map (print_member d) ms) @ indent e @ CHR ''}'' # r) = Some (ms, r)"
  using assms
proof (induction ms arbitrary: n)
  case (Cons m ms)
  let ?t = "if ms = [] then indent e @ CHR ''}'' # r
            else CHR '','' # commas d (map (print_member d) ms) @ indent e @ CHR ''}'' # r"
  from Cons.prems(3) obtain k where n: "n = Suc k" by (cases n) auto
  have eq: "commas d (map (print_member d) (m # ms)) @ indent e @ CHR ''}'' # r =
      indent d @ dquote # concat (map esc_char (fst m)) @ dquote # CHR '':'' # CHR '' '' # print_json d (snd m) @ ?t"
    by (cases ms) (simp_all add: print_member_def quote_str_def)
  have "pval k (CHR '' '' # print_json d (snd m) @ ?t) = pval k (print_json d (snd m) @ ?t)"
    by (rule pval_ws) simp
  also have "\<dots> = Some (snd m, ?t)"
    using Cons.prems(3) n unfolding eq by (intro reads_backD) (use Cons.prems(2) in auto)
  finally have "pval k (CHR '' '' # print_json d (snd m) @ ?t) = Some (snd m, ?t)" .
  moreover have "ms \<noteq> [] \<Longrightarrow> pmembers k (commas d (map (print_member d) ms) @ indent e @ CHR ''}'' # r) = Some (ms, r)"
    using Cons.prems n unfolding eq by (intro Cons.IH) auto
  ultimately show ?case unfolding eq n by (simp add: pstr_quoted)
qed simp

lemma takeWhile_num: "list_all num_char l \<Longrightarrow> delim r \<Longrightarrow> takeWhile num_char (l @ r) = l"
  and dropWhile_num: "list_all num_char l \<Longrightarrow> delim r \<Longrightarrow> dropWhile num_char (l @ r) = r"
  by (induction l) (auto simp: delim_def split: list.splits)

lemma reads_back_num: "num_ok l \<Longrightarrow> list_all num_char l \<Longrightarrow> reads_back d (JNum l)"
proof -
  assume l: "num_ok l" "list_all num_char l"
  obtain c cs where c: "l = c # cs" using num_ok_not_Nil [OF l(1)] by (cases l) auto
  then have "num_char c" using l by simp
  note nc = num_char_not [OF this]
  show ?thesis unfolding reads_back_def
  proof (intro allI impI)
    fix n r assume d: "delim r" and "2 * length (print_json d (JNum l) @ r) < n"
    then obtain k where n: "n = Suc k" by (cases n) auto
    have "takeWhile num_char (c # cs @ r) = l" "dropWhile num_char (c # cs @ r) = r"
      using takeWhile_num [OF l(2) d] dropWhile_num [OF l(2) d] c by simp_all
    then show "pval n (print_json d (JNum l) @ r) = Some (JNum l, r)"
      using nc l c unfolding n by (simp del: takeWhile.simps dropWhile.simps)
  qed
qed

lemma reads_back_str: "reads_back d (JStr s)"
  unfolding reads_back_def
proof (intro allI impI)
  fix n r assume "2 * length (print_json d (JStr s) @ r) < n"
  then obtain k where "n = Suc k" by (cases n) auto
  then show "pval n (print_json d (JStr s) @ r) = Some (JStr s, r)"
    by (simp add: quote_str_def pstr_quoted)
qed

lemma reads_back_lit: "reads_back d JNull" "reads_back d (JBool b)"
  unfolding reads_back_def
  by (intro allI impI; rename_tac n r; case_tac n; simp add: plit_def)+

lemma commas_start: "xs \<noteq> [] \<Longrightarrow> \<exists>t. commas d xs = indent d @ hd xs @ t"
  by (cases "(d, xs)" rule: commas.cases) auto

lemma skip_ws_commas:
  assumes "xs \<noteq> []" and "hd xs = c # cs" and "\<not> json_space c"
  shows "\<exists>ds. skip_ws (commas d xs @ r) = c # ds"
  using commas_start [OF assms(1), of d] assms by auto

lemma reads_back_arr:
  assumes "\<forall>v \<in> set vs. reads_back (Suc d) v" and "\<forall>v \<in> set vs. wf_json v"
  shows "reads_back d (JArr vs)"
  unfolding reads_back_def
proof (intro allI impI)
  fix n r assume l: "2 * length (print_json d (JArr vs) @ r) < n"
  then obtain k where n: "n = Suc k" by (cases n) auto
  show "pval n (print_json d (JArr vs) @ r) = Some (JArr vs, r)"
  proof (cases "vs = []")
    case False
    let ?t = "commas (Suc d) (map (print_json (Suc d)) vs) @ indent d @ CHR '']'' # r"
    have "pelems k (skip_ws ?t) = pelems k ?t"
      by (rule pelems_ws) (simp add: skip_ws_def dropWhile_idem)
    also have "\<dots> = Some (vs, r)"
      using l False n by (intro pelems_print assms) auto
    finally have e: "pelems k (skip_ws ?t) = Some (vs, r)" .
    obtain v ws where vs: "vs = v # ws" using False by (cases vs) auto
    then obtain c cs where c: "print_json (Suc d) v = c # cs" "\<not> json_space c" "c \<noteq> CHR '']''"
      using print_json_start [of v "Suc d"] assms(2) by auto
    obtain ds where "skip_ws ?t = c # ds" using skip_ws_commas [of _ c cs] vs c by fastforce
    then show ?thesis using e c(3) False unfolding n by simp
  qed (simp add: n)
qed

lemma reads_back_obj:
  assumes "\<forall>m \<in> set ms. reads_back (Suc d) (snd m)"
  shows "reads_back d (JObj ms)"
  unfolding reads_back_def
proof (intro allI impI)
  fix n r assume l: "2 * length (print_json d (JObj ms) @ r) < n"
  then obtain k where n: "n = Suc k" by (cases n) auto
  have pm: "(\<lambda>(k, v). quote_str k @ '': '' @ print_json (Suc d) v) = print_member (Suc d)"
    by (auto simp: print_member_def fun_eq_iff)
  show "pval n (print_json d (JObj ms) @ r) = Some (JObj ms, r)"
  proof (cases "ms = []")
    case False
    let ?t = "commas (Suc d) (map (print_member (Suc d)) ms) @ indent d @ CHR ''}'' # r"
    have "pmembers k (skip_ws ?t) = pmembers k ?t"
      by (rule pmembers_ws) (simp add: skip_ws_def dropWhile_idem)
    also have "\<dots> = Some (ms, r)"
      using l False n unfolding print_json.simps pm by (intro pmembers_print assms) auto
    finally have e: "pmembers k (skip_ws ?t) = Some (ms, r)" .
    have "hd (map (print_member (Suc d)) ms) = dquote # tl (hd (map (print_member (Suc d)) ms))"
      using False by (cases ms) (auto simp: print_member_def quote_str_def)
    then obtain ds where "skip_ws ?t = dquote # ds"
      using skip_ws_commas [of "map (print_member (Suc d)) ms" dquote] False by fastforce
    then show ?thesis using e False unfolding n print_json.simps pm by simp
  qed (simp add: n)
qed

lemma reads_back_print: "wf_json v \<Longrightarrow> reads_back d v"
proof (induction v arbitrary: d)
  case (JArr vs)
  then show ?case by (intro reads_back_arr) (auto simp: list_all_iff)
next
  case (JObj ms)
  then show ?case by (intro reads_back_obj) (fastforce simp: list_all_iff)
qed (simp_all add: reads_back_num reads_back_str reads_back_lit)

lemma parse_MarshalIndent: "wf_json v \<Longrightarrow> parse_json (MarshalIndent v) = Some v"
  using reads_backD [OF reads_back_print [of v 0], of "[]"]
  by (simp add: parse_json_def first_json_def MarshalIndent_def del: pval.simps)

section \<open>Facts about decoding\<close>

lemma update_append_new: "k \<notin> fst ` set xs \<Longrightarrow> AList.update k v xs = xs @ [(k, v)]"
  by (induction xs) auto

lemma dec_simps [simp]:
  "dec_str upd (JStr s) x = (upd s x, False)"
  "dec_bool setb (JBool b) x = (setb b x, False)"
  "dec_struct fs (JObj ms) x = foldl (dec_member fs) (x, False) ms"
  "dec_map d z (JObj es) y = foldl (dec_entry d z) (y, False) es"
  by (simp_all add: dec_str_def dec_bool_def dec_struct_def dec_map_def)

lemma dec_int_jint [simp]: "int64 i \<Longrightarrow> dec_int upd (jint i) x = (upd i x, False)"
  by (simp add: dec_int_def jint_def int64_def atoi_itoa)

lemma hd_nat_str_pos: "0 < n \<Longrightarrow> hd (nat_str n) \<noteq> CHR ''0''"
proof (induction n rule: nat_str.induct)
  case (1 n)
  show ?case
  proof (cases "n < 10")
    case True
    have "digit_val (CHR ''0'') = 0" by (simp add: digit_val_def)
    with True 1(2) show ?thesis using digit_char_props [of n] by (auto simp: nat_str.simps [of n])
  next
    case False
    then show ?thesis using 1(1) by (subst nat_str.simps) simp
  qed
qed

lemma num_ok_nat_str: "num_ok (nat_str n) \<and> list_all is_digit (nat_str n)"
proof -
  have dig: "list_all is_digit (nat_str n)" using nat_str_digits by (auto simp: list_all_iff)
  then have tk: "takeWhile is_digit (nat_str n) = nat_str n" "dropWhile is_digit (nat_str n) = []"
    by (simp_all add: list_all_iff takeWhile_eq_all_conv dropWhile_eq_Nil_conv)
  have lead: "hd (nat_str n) = CHR ''0'' \<longrightarrow> length (nat_str n) = 1"
    using hd_nat_str_pos [of n] by (cases "n = 0") (simp_all add: nat_str.simps [of 0])
  have "hd (nat_str n) \<noteq> CHR ''-''" using hd_nat_str [of n] by (auto simp: is_digit_def)
  then have minus: "(case nat_str n of c # r \<Rightarrow> if c = CHR ''-'' then r else nat_str n | [] \<Rightarrow> []) = nat_str n"
    by (cases "nat_str n") simp_all
  show ?thesis unfolding num_ok_def Let_def minus tk frac_ok_def using lead dig by simp
qed

lemma wf_jint [simp]: "wf_json (jint i)"
proof -
  have n: "num_ok (nat_str n)" "list_all num_char (nat_str n)" for n
    using num_ok_nat_str [of n] by (auto simp: list_all_iff num_char_def)
  have "num_ok (CHR ''-'' # nat_str n)" for n
  proof -
    have "hd (nat_str n) \<noteq> CHR ''-''" using hd_nat_str [of n] by (auto simp: is_digit_def)
    then show ?thesis using n(1) [of n] by (cases "nat_str n") (simp_all add: num_ok_def)
  qed
  with n show ?thesis by (simp add: jint_def itoa_def num_char_def)
qed

lemma Unmarshal_MarshalIndent:
  "wf_json v \<Longrightarrow> Unmarshal d (MarshalIndent v) x =
     (case d v x of (y, e) \<Rightarrow> (y, if e then Some ''json: cannot unmarshal'' else None))"
  by (simp add: Unmarshal_def parse_MarshalIndent)

text \<open>Members under other names are skipped; a member under a field's own name is decoded into it.\<close>

lemma dec_member_known:
  "find_field fs k = Some d \<Longrightarrow> dec_member fs (x, e) (k, v) = (case d v x of (y, e') \<Rightarrow> (y, e \<or> e'))"
  by (simp add: dec_member_def)

lemma foldl_dec_entry:
  assumes "\<forall>(k, p) \<in> set m. dec_pointer d z (enc p) = (p, False)" and "distinct (map fst m)"
    and "fst ` set m \<inter> fst ` set acc = {}"
  shows "foldl (dec_entry d z) (acc, False) (map (\<lambda>(k, p). (k, enc p)) m) = (acc @ m, False)"
  using assms
proof (induction m arbitrary: acc)
  case (Cons kp m)
  obtain k p where kp: "kp = (k, p)" by (cases kp)
  with Cons.prems have "k \<notin> fst ` set acc" by auto
  then have "dec_entry d z (acc, False) (k, enc p) = (acc @ [(k, p)], False)"
    using Cons.prems(1) kp by (simp add: dec_entry_def update_append_new)
  then show ?case using Cons.IH [of "acc @ [(k, p)]"] Cons.prems kp by auto
qed simp

end
