(* ===== verification/Storage.thy ===== *)
theory Storage
  imports Json FileSystem
begin

text \<open>
  The persistent metadata store (\<open>storage/storage.go\<close>): two maps of pointers, written as indented
  JSON to a temporary file that is then renamed over \<open>metadata.json\<close>.

  The maps are association lists; \<open>None\<close> as a value is the nil pointer that a \<open>null\<close> in the file
  decodes to.  A method that would dereference such a pointer returns \<open>None\<close> (the Go panic).
  An operation takes and returns the store and the file system; its error is a string.  The lock is
  held during the whole of every mutation, so mutations are atomic steps.
\<close>

record KeyMetadata =
  KeyPath :: string
  VerifiedService :: string
  VerifiedHost :: string
  VerifiedPort :: int
  VerifiedUser :: string

record RemoteServer =
  ID :: string
  Name :: string
  Host :: string
  Port :: int
  User :: string
  IdentityFile :: string
  SSHConfigAlias :: string
  CreatedAt :: int
  LastConnectedAt :: int

record storeData =
  version :: int
  key_metadata :: "(string \<times> KeyMetadata option) list"
  remote_servers :: "(string \<times> RemoteServer option) list"

record Store =
  dataDir :: string
  metaFile :: string
  sdata :: storeData

section \<open>The file format\<close>

definition opt_str :: "string \<Rightarrow> string \<Rightarrow> (string \<times> json) list" where
  "opt_str k s = (if s = [] then [] else [(k, JStr s)])"

definition opt_int :: "string \<Rightarrow> int \<Rightarrow> (string \<times> json) list" where
  "opt_int k i = (if i = 0 then [] else [(k, jint i)])"

definition enc_key :: "KeyMetadata \<Rightarrow> json" where
  "enc_key m = JObj ([(''key_path'', JStr (KeyPath m))] @
     opt_str ''verified_service'' (VerifiedService m) @ opt_str ''verified_host'' (VerifiedHost m) @
     opt_int ''verified_port'' (VerifiedPort m) @ opt_str ''verified_user'' (VerifiedUser m))"

definition enc_remote :: "RemoteServer \<Rightarrow> json" where
  "enc_remote r = JObj ([(''id'', JStr (ID r)), (''name'', JStr (Name r)), (''host'', JStr (Host r)),
       (''port'', jint (Port r)), (''user'', JStr (User r))] @
     opt_str ''identity_file'' (IdentityFile r) @ opt_str ''ssh_config_alias'' (SSHConfigAlias r) @
     [(''created_at'', jint (CreatedAt r))] @ opt_int ''last_connected_at'' (LastConnectedAt r))"

definition enc_pointer :: "('v \<Rightarrow> json) \<Rightarrow> 'v option \<Rightarrow> json" where
  "enc_pointer enc p = (case p of None \<Rightarrow> JNull | Some x \<Rightarrow> enc x)"

definition enc_map :: "('v \<Rightarrow> json) \<Rightarrow> (string \<times> 'v option) list \<Rightarrow> json" where
  "enc_map enc m = JObj (map (\<lambda>(k, p). (k, enc_pointer enc p)) (sort_key fst m))"

definition enc_store :: "storeData \<Rightarrow> json" where
  "enc_store d = JObj [(''version'', jint (version d)),
     (''key_metadata'', enc_map enc_key (key_metadata d)),
     (''remote_servers'', enc_map enc_remote (remote_servers d))]"

definition zero_key :: KeyMetadata where
  "zero_key = \<lparr>KeyPath = [], VerifiedService = [], VerifiedHost = [], VerifiedPort = 0, VerifiedUser = []\<rparr>"

definition zero_remote :: RemoteServer where
  "zero_remote = \<lparr>ID = [], Name = [], Host = [], Port = 0, User = [], IdentityFile = [],
     SSHConfigAlias = [], CreatedAt = 0, LastConnectedAt = 0\<rparr>"

definition zero_store :: storeData where
  "zero_store = \<lparr>version = 0, key_metadata = [], remote_servers = []\<rparr>"

definition key_fields :: "(string \<times> KeyMetadata decoder) list" where
  "key_fields =
     [(''key_path'', dec_str (\<lambda>s m. m\<lparr>KeyPath := s\<rparr>)),
      (''verified_service'', dec_str (\<lambda>s m. m\<lparr>VerifiedService := s\<rparr>)),
      (''verified_host'', dec_str (\<lambda>s m. m\<lparr>VerifiedHost := s\<rparr>)),
      (''verified_port'', dec_int (\<lambda>i m. m\<lparr>VerifiedPort := i\<rparr>)),
      (''verified_user'', dec_str (\<lambda>s m. m\<lparr>VerifiedUser := s\<rparr>))]"

definition remote_fields :: "(string \<times> RemoteServer decoder) list" where
  "remote_fields =
     [(''id'', dec_str (\<lambda>s r. r\<lparr>ID := s\<rparr>)),
      (''name'', dec_str (\<lambda>s r. r\<lparr>Name := s\<rparr>)),
      (''host'', dec_str (\<lambda>s r. r\<lparr>Host := s\<rparr>)),
      (''port'', dec_int (\<lambda>i r. r\<lparr>Port := i\<rparr>)),
      (''user'', dec_str (\<lambda>s r. r\<lparr>User := s\<rparr>)),
      (''identity_file'', dec_str (\<lambda>s r. r\<lparr>IdentityFile := s\<rparr>)),
      (''ssh_config_alias'', dec_str (\<lambda>s r. r\<lparr>SSHConfigAlias := s\<rparr>)),
      (''created_at'', dec_int (\<lambda>i r. r\<lparr>CreatedAt := i\<rparr>)),
      (''last_connected_at'', dec_int (\<lambda>i r. r\<lparr>LastConnectedAt := i\<rparr>))]"

definition store_fields :: "(string \<times> storeData decoder) list" where
  "store_fields =
     [(''version'', dec_int (\<lambda>i d. d\<lparr>version := i\<rparr>)),
      (''key_metadata'', \<lambda>v d.
         map_prod (\<lambda>m. d\<lparr>key_metadata := m\<rparr>) id (dec_map (dec_struct key_fields) zero_key v (key_metadata d))),
      (''remote_servers'', \<lambda>v d.
         map_prod (\<lambda>m. d\<lparr>remote_servers := m\<rparr>) id
           (dec_map (dec_struct remote_fields) zero_remote v (remote_servers d)))]"

section \<open>Loading and saving\<close>

definition fresh_data :: storeData where
  "fresh_data = \<lparr>version = 1, key_metadata = [], remote_servers = []\<rparr>"

definition load :: "Store \<Rightarrow> fsys \<Rightarrow> Store \<times> string option" where
  "load s fs =
     (case os_read_file fs (metaFile s) of
        Inl NotExist \<Rightarrow> (s\<lparr>sdata := fresh_data\<rparr>, None)
      | Inl e \<Rightarrow> (s, Some (''failed to read metadata file: '' @ ioerr_msg e))
      | Inr text \<Rightarrow>
          (case Unmarshal (dec_struct store_fields) text zero_store of
             (d, Some e) \<Rightarrow> (s\<lparr>sdata := d\<rparr>, Some (''failed to parse metadata file: '' @ e))
           | (d, None) \<Rightarrow> (s\<lparr>sdata := d\<rparr>, None)))"

definition save :: "Store \<Rightarrow> fsys \<Rightarrow> fsys \<times> string option" where
  "save s fs =
     (let tmp = metaFile s @ ''.tmp'' in
      case os_write_file tmp (MarshalIndent (enc_store (sdata s))) fs of
        (fs1, Some e) \<Rightarrow> (fs1, Some (''failed to write metadata file: '' @ ioerr_msg e))
      | (fs1, None) \<Rightarrow>
          (case os_rename tmp (metaFile s) fs1 of
             (fs2, Some e) \<Rightarrow> (fst (os_remove tmp fs2), Some (''failed to rename metadata file: '' @ ioerr_msg e))
           | (fs2, None) \<Rightarrow> (fs2, None)))"

datatype StoreOption = WithDataDir string | WithLogger

definition apply_option :: "Store \<Rightarrow> StoreOption \<Rightarrow> Store" where
  "apply_option s opt = (case opt of WithDataDir dir \<Rightarrow> s\<lparr>dataDir := dir\<rparr> | WithLogger \<Rightarrow> s)"

text \<open>\<open>home\<close> is the answer of \<open>os.UserHomeDir\<close>.\<close>

definition NewStore :: "string + string \<Rightarrow> StoreOption list \<Rightarrow> fsys \<Rightarrow> string + Store" where
  "NewStore home opts fs =
     (case home of
        Inl e \<Rightarrow> Inl (''failed to get home directory: '' @ e)
      | Inr homeDir \<Rightarrow>
          (let s0 = \<lparr>dataDir = path_join [homeDir, ''.local'', ''share'', ''skeys''], metaFile = [],
                     sdata = zero_store\<rparr>;
               s1 = foldl apply_option s0 opts;
               s = s1\<lparr>metaFile := path_join [dataDir s1, ''metadata.json'']\<rparr> in
           case os_mkdir_all (dataDir s) fs of
             Some e \<Rightarrow> Inl (''failed to create data directory: '' @ ioerr_msg e)
           | None \<Rightarrow>
               (case load s fs of
                  (s', Some _) \<Rightarrow> Inr (s'\<lparr>sdata := fresh_data\<rparr>)
                | (s', None) \<Rightarrow> Inr s')))"

section \<open>Key metadata\<close>

definition GetKeyMetadata :: "Store \<Rightarrow> string \<Rightarrow> KeyMetadata option" where
  "GetKeyMetadata s keyPath =
     (case map_of (key_metadata (sdata s)) keyPath of Some (Some m) \<Rightarrow> Some m | _ \<Rightarrow> None)"

definition put_key :: "KeyMetadata \<Rightarrow> Store \<Rightarrow> Store" where
  "put_key m s = s\<lparr>sdata := (sdata s)\<lparr>key_metadata := AList.update (KeyPath m) (Some m) (key_metadata (sdata s))\<rparr>\<rparr>"

definition SetKeyMetadata :: "KeyMetadata option \<Rightarrow> Store \<Rightarrow> fsys \<Rightarrow> Store \<times> fsys \<times> string option" where
  "SetKeyMetadata meta s fs =
     (case meta of
        None \<Rightarrow> (s, fs, Some ''key path is required'')
      | Some m \<Rightarrow>
          if KeyPath m = [] then (s, fs, Some ''key path is required'')
          else (let s' = put_key m s in (s', save s' fs)))"

definition del_key :: "string \<Rightarrow> Store \<Rightarrow> Store" where
  "del_key k s = s\<lparr>sdata := (sdata s)\<lparr>key_metadata := AList.delete k (key_metadata (sdata s))\<rparr>\<rparr>"

definition DeleteKeyMetadata :: "string \<Rightarrow> Store \<Rightarrow> fsys \<Rightarrow> Store \<times> fsys \<times> string option" where
  "DeleteKeyMetadata keyPath s fs = (let s' = del_key keyPath s in (s', save s' fs))"

text \<open>\<open>None\<close>: a nil pointer is dereferenced.\<close>

fun all_some :: "'a option list \<Rightarrow> 'a list option" where
  "all_some [] = Some []"
| "all_some (p # ps) = (case p of None \<Rightarrow> None | Some x \<Rightarrow> map_option (\<lambda>xs. x # xs) (all_some ps))"

definition ListKeyMetadata :: "Store \<Rightarrow> KeyMetadata list option" where
  "ListKeyMetadata s = all_some (map snd (key_metadata (sdata s)))"

section \<open>Remote servers\<close>

definition GetRemoteServer :: "Store \<Rightarrow> string \<Rightarrow> RemoteServer option" where
  "GetRemoteServer s k =
     (case map_of (remote_servers (sdata s)) k of Some (Some r) \<Rightarrow> Some r | _ \<Rightarrow> None)"

definition put_remote :: "RemoteServer \<Rightarrow> Store \<Rightarrow> Store" where
  "put_remote r s = s\<lparr>sdata := (sdata s)\<lparr>remote_servers := AList.update (ID r) (Some r) (remote_servers (sdata s))\<rparr>\<rparr>"

definition AddRemoteServer :: "RemoteServer option \<Rightarrow> Store \<Rightarrow> fsys \<Rightarrow> Store \<times> fsys \<times> string option" where
  "AddRemoteServer remote s fs =
     (case remote of
        None \<Rightarrow> (s, fs, Some ''remote ID is required'')
      | Some r \<Rightarrow>
          if ID r = [] then (s, fs, Some ''remote ID is required'')
          else (let s' = put_remote r s in (s', save s' fs)))"

definition UpdateRemoteServer :: "RemoteServer option \<Rightarrow> Store \<Rightarrow> fsys \<Rightarrow> Store \<times> fsys \<times> string option" where
  "UpdateRemoteServer remote s fs =
     (case remote of
        None \<Rightarrow> (s, fs, Some ''remote ID is required'')
      | Some r \<Rightarrow>
          if ID r = [] then (s, fs, Some ''remote ID is required'')
          else if map_of (remote_servers (sdata s)) (ID r) = None
          then (s, fs, Some (''remote server not found: '' @ ID r))
          else (let s' = put_remote r s in (s', save s' fs)))"

definition del_remote :: "string \<Rightarrow> Store \<Rightarrow> Store" where
  "del_remote k s = s\<lparr>sdata := (sdata s)\<lparr>remote_servers := AList.delete k (remote_servers (sdata s))\<rparr>\<rparr>"

definition DeleteRemoteServer :: "string \<Rightarrow> Store \<Rightarrow> fsys \<Rightarrow> Store \<times> fsys \<times> string option" where
  "DeleteRemoteServer k s fs = (let s' = del_remote k s in (s', save s' fs))"

definition ListRemoteServers :: "Store \<Rightarrow> RemoteServer list option" where
  "ListRemoteServers s = all_some (map snd (remote_servers (sdata s)))"

text \<open>The result \<open>None\<close> is the dereference of a nil pointer.\<close>

definition set_remote :: "string \<Rightarrow> RemoteServer \<Rightarrow> Store \<Rightarrow> Store" where
  "set_remote k r s = s\<lparr>sdata := (sdata s)\<lparr>remote_servers := AList.update k (Some r) (remote_servers (sdata s))\<rparr>\<rparr>"

definition UpdateRemoteServerLastConnected ::
    "string \<Rightarrow> int \<Rightarrow> Store \<Rightarrow> fsys \<Rightarrow> (Store \<times> fsys \<times> string option) option" where
  "UpdateRemoteServerLastConnected k timestamp s fs =
     (case map_of (remote_servers (sdata s)) k of
        None \<Rightarrow> Some (s, fs, Some (''remote server not found: '' @ k))
      | Some None \<Rightarrow> None
      | Some (Some r) \<Rightarrow>
          (let s' = set_remote k (r\<lparr>LastConnectedAt := timestamp\<rparr>) s in Some (s', save s' fs)))"

section \<open>Runs of operations\<close>

datatype store_op =
    OpSetKey "KeyMetadata option"
  | OpDelKey string
  | OpAdd "RemoteServer option"
  | OpUpdate "RemoteServer option"
  | OpDelete string
  | OpTouch string int

fun run_op :: "store_op \<Rightarrow> Store \<Rightarrow> fsys \<Rightarrow> (Store \<times> fsys \<times> string option) option" where
  "run_op (OpSetKey m) s fs = Some (SetKeyMetadata m s fs)"
| "run_op (OpDelKey k) s fs = Some (DeleteKeyMetadata k s fs)"
| "run_op (OpAdd r) s fs = Some (AddRemoteServer r s fs)"
| "run_op (OpUpdate r) s fs = Some (UpdateRemoteServer r s fs)"
| "run_op (OpDelete k) s fs = Some (DeleteRemoteServer k s fs)"
| "run_op (OpTouch k t) s fs = UpdateRemoteServerLastConnected k t s fs"

section \<open>Writing the file\<close>

definition encoded :: "Store \<Rightarrow> string" where
  "encoded s = MarshalIndent (enc_store (sdata s))"

lemma save_ok: "save s fs = (fs', None) \<Longrightarrow> files fs' (metaFile s) = Some (encoded s)"
  by (auto simp: save_def encoded_def Let_def os_write_file_def os_rename_def
      split: prod.splits option.splits write_fault.splits if_splits)

lemma save_failed: "save s fs = (fs', Some e) \<Longrightarrow> files fs' (metaFile s) = files fs (metaFile s)"
  by (auto simp: save_def Let_def os_write_file_def os_rename_def os_remove_def
      split: prod.splits option.splits write_fault.splits if_splits)

lemma save_policy:
  "save s fs = (fs', e) \<Longrightarrow> read_denied fs' = read_denied fs \<and> mkdir_denied fs' = mkdir_denied fs"
  by (auto simp: save_def Let_def os_write_file_def os_rename_def os_remove_def
      split: prod.splits option.splits write_fault.splits if_splits)

section \<open>Reading the file back\<close>

definition key_ok :: "KeyMetadata \<Rightarrow> bool" where
  "key_ok m \<longleftrightarrow> int64 (VerifiedPort m)"

definition remote_ok :: "RemoteServer \<Rightarrow> bool" where
  "remote_ok r \<longleftrightarrow> int64 (Port r) \<and> int64 (CreatedAt r) \<and> int64 (LastConnectedAt r)"

definition entries_ok :: "('v \<Rightarrow> bool) \<Rightarrow> (string \<times> 'v option) list \<Rightarrow> bool" where
  "entries_ok P m \<longleftrightarrow> distinct (map fst m) \<and> (\<forall>k x. map_of m k = Some (Some x) \<longrightarrow> P x)"

definition data_ok :: "storeData \<Rightarrow> bool" where
  "data_ok d \<longleftrightarrow> int64 (version d) \<and> entries_ok key_ok (key_metadata d) \<and>
     entries_ok remote_ok (remote_servers d)"

lemma find_field_simps [simp]:
  "find_field key_fields ''key_path'' = Some (dec_str (\<lambda>s m. m\<lparr>KeyPath := s\<rparr>))"
  "find_field key_fields ''verified_service'' = Some (dec_str (\<lambda>s m. m\<lparr>VerifiedService := s\<rparr>))"
  "find_field key_fields ''verified_host'' = Some (dec_str (\<lambda>s m. m\<lparr>VerifiedHost := s\<rparr>))"
  "find_field key_fields ''verified_port'' = Some (dec_int (\<lambda>i m. m\<lparr>VerifiedPort := i\<rparr>))"
  "find_field key_fields ''verified_user'' = Some (dec_str (\<lambda>s m. m\<lparr>VerifiedUser := s\<rparr>))"
  by (simp_all add: find_field_def key_fields_def)

lemma find_remote_simps [simp]:
  "find_field remote_fields ''id'' = Some (dec_str (\<lambda>s r. r\<lparr>ID := s\<rparr>))"
  "find_field remote_fields ''name'' = Some (dec_str (\<lambda>s r. r\<lparr>Name := s\<rparr>))"
  "find_field remote_fields ''host'' = Some (dec_str (\<lambda>s r. r\<lparr>Host := s\<rparr>))"
  "find_field remote_fields ''port'' = Some (dec_int (\<lambda>i r. r\<lparr>Port := i\<rparr>))"
  "find_field remote_fields ''user'' = Some (dec_str (\<lambda>s r. r\<lparr>User := s\<rparr>))"
  "find_field remote_fields ''identity_file'' = Some (dec_str (\<lambda>s r. r\<lparr>IdentityFile := s\<rparr>))"
  "find_field remote_fields ''ssh_config_alias'' = Some (dec_str (\<lambda>s r. r\<lparr>SSHConfigAlias := s\<rparr>))"
  "find_field remote_fields ''created_at'' = Some (dec_int (\<lambda>i r. r\<lparr>CreatedAt := i\<rparr>))"
  "find_field remote_fields ''last_connected_at'' = Some (dec_int (\<lambda>i r. r\<lparr>LastConnectedAt := i\<rparr>))"
  by (simp_all add: find_field_def remote_fields_def)

lemma dec_opt_str:
  "find_field fs k = Some (dec_str upd) \<Longrightarrow>
     foldl (dec_member fs) (x, False) (opt_str k s) = (if s = [] then x else upd s x, False)"
  by (simp add: opt_str_def dec_member_known)

lemma dec_opt_int:
  "find_field fs k = Some (dec_int upd) \<Longrightarrow> int64 i \<Longrightarrow>
     foldl (dec_member fs) (x, False) (opt_int k i) = (if i = 0 then x else upd i x, False)"
  by (simp add: opt_int_def dec_member_known)

lemma dec_enc_key: "key_ok m \<Longrightarrow> dec_struct key_fields (enc_key m) zero_key = (m, False)"
  by (cases m) (simp add: enc_key_def key_ok_def dec_member_known dec_opt_str dec_opt_int zero_key_def)

lemma dec_enc_remote: "remote_ok r \<Longrightarrow> dec_struct remote_fields (enc_remote r) zero_remote = (r, False)"
  by (cases r) (simp add: enc_remote_def remote_ok_def dec_member_known dec_opt_str dec_opt_int zero_remote_def)

lemma wf_enc [simp]: "wf_json (enc_key m)" "wf_json (enc_remote r)"
  by (simp_all add: enc_key_def enc_remote_def opt_str_def opt_int_def)

lemma enc_obj: "\<exists>ms. enc_key m = JObj ms" "\<exists>ms. enc_remote r = JObj ms"
  by (simp_all add: enc_key_def enc_remote_def)

lemma wf_enc_map: "(\<And>x. wf_json (enc x)) \<Longrightarrow> wf_json (enc_map enc m)"
  by (auto simp: enc_map_def enc_pointer_def list_all_iff split: option.splits)

lemma wf_enc_store: "wf_json (enc_store d)"
  by (simp add: enc_store_def wf_enc_map)

text \<open>The maps come back sorted by their keys, with the same entries.\<close>

lemma dec_pointer_enc:
  assumes "d (enc x) z = (x, False)" and "\<exists>ms. enc x = JObj ms"
  shows "dec_pointer d z (enc_pointer enc (Some x)) = (Some x, False)"
  using assms by (auto simp: dec_pointer_def enc_pointer_def)

lemma dec_map_enc:
  assumes ok: "entries_ok P m" and rt: "\<And>x. P x \<Longrightarrow> d (enc x) z = (x, False)"
    and obj: "\<And>x. \<exists>ms. enc x = JObj ms"
  shows "dec_map d z (enc_map enc m) [] = (sort_key fst m, False)"
proof -
  have "\<forall>(k, p) \<in> set m. dec_pointer d z (enc_pointer enc p) = (p, False)"
  proof (intro ballI, clarify)
    fix k p assume "(k, p) \<in> set m"
    with ok have "map_of m k = Some p" and "p = Some x \<Longrightarrow> P x" for x by (auto simp: entries_ok_def)
    then show "dec_pointer d z (enc_pointer enc p) = (p, False)"
      using rt dec_pointer_enc [of d enc _ z] obj by (cases p) (auto simp: dec_pointer_def enc_pointer_def)
  qed
  then show ?thesis
    using ok foldl_dec_entry [of "sort_key fst m" d z "enc_pointer enc" "[]"]
    by (simp add: enc_map_def entries_ok_def distinct_map)
qed

lemma map_of_sort_key: "distinct (map fst m) \<Longrightarrow> map_of (sort_key fst m) = map_of m"
  by (subst map_of_inject_set) (simp_all add: distinct_map)

lemma find_store_simps [simp]:
  "find_field store_fields ''version'' = Some (dec_int (\<lambda>i d. d\<lparr>version := i\<rparr>))"
  "find_field store_fields ''key_metadata'' = Some (\<lambda>v d.
     map_prod (\<lambda>m. d\<lparr>key_metadata := m\<rparr>) id (dec_map (dec_struct key_fields) zero_key v (key_metadata d)))"
  "find_field store_fields ''remote_servers'' = Some (\<lambda>v d.
     map_prod (\<lambda>m. d\<lparr>remote_servers := m\<rparr>) id
       (dec_map (dec_struct remote_fields) zero_remote v (remote_servers d)))"
  by (simp_all add: find_field_def store_fields_def)

definition sorted_data :: "storeData \<Rightarrow> storeData" where
  "sorted_data d = \<lparr>version = version d, key_metadata = sort_key fst (key_metadata d),
     remote_servers = sort_key fst (remote_servers d)\<rparr>"

lemma decode_encoded:
  assumes "data_ok (sdata s)"
  shows "Unmarshal (dec_struct store_fields) (encoded s) zero_store = (sorted_data (sdata s), None)"
proof -
  have k: "dec_map (dec_struct key_fields) zero_key (enc_map enc_key (key_metadata (sdata s))) [] =
      (sort_key fst (key_metadata (sdata s)), False)"
    using assms by (intro dec_map_enc [where P = key_ok]) (simp_all add: data_ok_def dec_enc_key enc_obj)
  have r: "dec_map (dec_struct remote_fields) zero_remote (enc_map enc_remote (remote_servers (sdata s))) [] =
      (sort_key fst (remote_servers (sdata s)), False)"
    using assms by (intro dec_map_enc [where P = remote_ok]) (simp_all add: data_ok_def dec_enc_remote enc_obj)
  show ?thesis
    using assms k r
    by (simp add: encoded_def Unmarshal_MarshalIndent wf_enc_store)
       (simp add: enc_store_def dec_member_known data_ok_def zero_store_def sorted_data_def)
qed

section \<open>The invariant\<close>

lemma entries_update: "entries_ok P m \<Longrightarrow> P x \<Longrightarrow> entries_ok P (AList.update k (Some x) m)"
  by (auto simp: entries_ok_def distinct_update update_conv')

lemma entries_delete: "entries_ok P m \<Longrightarrow> entries_ok P (AList.delete k m)"
  by (auto simp: entries_ok_def distinct_delete delete_conv')

lemma entries_sort: "entries_ok P m \<Longrightarrow> entries_ok P (sort_key fst m)"
  by (simp add: entries_ok_def map_of_sort_key) (simp add: distinct_map)

definition op_ok :: "store_op \<Rightarrow> bool" where
  "op_ok op = (case op of OpSetKey m \<Rightarrow> pred_option key_ok m | OpAdd r \<Rightarrow> pred_option remote_ok r
     | OpUpdate r \<Rightarrow> pred_option remote_ok r | OpTouch k t \<Rightarrow> int64 t | _ \<Rightarrow> True)"

text \<open>What an operation does to the store in memory, when it does not stop at a check.\<close>

lemma run_op_cases:
  assumes "run_op op s fs = Some (s', fs', e)"
  obtains (refused) msg where "s' = s" "fs' = fs" "e = Some msg"
    | (saved) "save s' fs = (fs', e)" "metaFile s' = metaFile s" "dataDir s' = dataDir s"
  using assms
  by (cases op)
     (auto simp: SetKeyMetadata_def DeleteKeyMetadata_def AddRemoteServer_def UpdateRemoteServer_def
       DeleteRemoteServer_def UpdateRemoteServerLastConnected_def Let_def put_key_def del_key_def
       put_remote_def del_remote_def set_remote_def split: option.splits if_splits)

lemma run_op_ok:
  assumes "run_op op s fs = Some (s', fs', e)" and "data_ok (sdata s)" and "op_ok op"
  shows "data_ok (sdata s')"
proof -
  have touch: "entries_ok remote_ok (AList.update k (Some (r\<lparr>LastConnectedAt := t\<rparr>)) (remote_servers (sdata s)))"
    if "map_of (remote_servers (sdata s)) k = Some (Some r)" "int64 t" for r k t
    using that assms(2) by (intro entries_update) (auto simp: data_ok_def entries_ok_def remote_ok_def)
  show ?thesis using assms
    by (cases op)
       (auto simp: SetKeyMetadata_def DeleteKeyMetadata_def AddRemoteServer_def UpdateRemoteServer_def
         DeleteRemoteServer_def UpdateRemoteServerLastConnected_def Let_def put_key_def del_key_def
         put_remote_def del_remote_def set_remote_def op_ok_def data_ok_def
         split: option.splits if_splits intro: entries_update entries_delete touch)
qed

section \<open>Restarts\<close>

definition same_content :: "Store \<Rightarrow> Store \<Rightarrow> bool" where
  "same_content a b \<longleftrightarrow> version (sdata a) = version (sdata b) \<and>
     map_of (key_metadata (sdata a)) = map_of (key_metadata (sdata b)) \<and>
     map_of (remote_servers (sdata a)) = map_of (remote_servers (sdata b))"

definition meta_path :: "string \<Rightarrow> string" where
  "meta_path dir = path_join [dir, ''metadata.json'']"

definition restart :: "string \<Rightarrow> fsys \<Rightarrow> string + Store" where
  "restart dir fs = NewStore (Inr ''/root'') [WithDataDir dir] fs"

lemma load_encoded:
  assumes "files fs (metaFile s) = Some (encoded t)" and "data_ok (sdata t)"
    and "\<not> read_denied fs (metaFile s)"
  shows "load s fs = (s\<lparr>sdata := sorted_data (sdata t)\<rparr>, None)"
  using assms by (simp add: load_def os_read_file_def decode_encoded)

lemma restart_encoded:
  assumes "files fs (meta_path dir) = Some (encoded t)" and "data_ok (sdata t)"
    and "\<not> read_denied fs (meta_path dir)" and "\<not> mkdir_denied fs dir"
  shows "\<exists>s. restart dir fs = Inr s \<and> same_content s t \<and> data_ok (sdata s) \<and> dataDir s = dir \<and>
     metaFile s = meta_path dir"
proof -
  have d: "entries_ok key_ok (key_metadata (sdata t))" "entries_ok remote_ok (remote_servers (sdata t))"
    "int64 (version (sdata t))" using assms(2) by (simp_all add: data_ok_def)
  then have "data_ok (sorted_data (sdata t))" by (simp add: data_ok_def sorted_data_def entries_sort)
  moreover have "map_of (sort_key fst (key_metadata (sdata t))) = map_of (key_metadata (sdata t))"
    "map_of (sort_key fst (remote_servers (sdata t))) = map_of (remote_servers (sdata t))"
    using d by (simp_all add: entries_ok_def map_of_sort_key)
  ultimately show ?thesis
    using assms
    by (simp add: restart_def NewStore_def Let_def apply_option_def os_mkdir_all_def load_encoded
      flip: meta_path_def) (simp add: same_content_def sorted_data_def)
qed

lemma same_content_get:
  "same_content a b \<Longrightarrow> GetKeyMetadata a = GetKeyMetadata b \<and> GetRemoteServer a = GetRemoteServer b"
  by (auto simp: same_content_def GetKeyMetadata_def GetRemoteServer_def fun_eq_iff)

section \<open>Runs under changing faults\<close>

text \<open>Before every step the operating system may change what it refuses, not the files.\<close>

fun run_ops :: "(store_op \<times> fsys) list \<Rightarrow> Store \<times> fsys \<Rightarrow> (Store \<times> fsys) option" where
  "run_ops [] st = Some st"
| "run_ops ((op, env) # steps) (s, fs) =
     (case run_op op s (env\<lparr>files := files fs\<rparr>) of
        None \<Rightarrow> None
      | Some (s', fs', e) \<Rightarrow> run_ops steps (s', fs'))"

lemma run_ops_snoc:
  "run_ops (xs @ [(op, env)]) st =
     (case run_ops xs st of None \<Rightarrow> None
      | Some (s, fs) \<Rightarrow> map_option (\<lambda>(s', fs', e). (s', fs')) (run_op op s (env\<lparr>files := files fs\<rparr>)))"
  by (induction xs st rule: run_ops.induct) (auto split: option.splits)

lemma run_ops_keep:
  assumes "run_ops steps (s, fs) = Some (s', fs')" and "data_ok (sdata s)" and "list_all (op_ok \<circ> fst) steps"
  shows "data_ok (sdata s') \<and> metaFile s' = metaFile s \<and> dataDir s' = dataDir s"
  using assms
proof (induction steps arbitrary: s' fs' rule: rev_induct)
  case (snoc x steps)
  obtain op env where x: "x = (op, env)" by (cases x)
  with snoc.prems(1) obtain s1 fs1 e where r1: "run_ops steps (s, fs) = Some (s1, fs1)"
      and r2: "run_op op s1 (env\<lparr>files := files fs1\<rparr>) = Some (s', fs', e)"
    by (auto simp: run_ops_snoc split: option.splits)
  have "data_ok (sdata s1) \<and> metaFile s1 = metaFile s \<and> dataDir s1 = dataDir s"
    using snoc r1 by auto
  moreover have "op_ok op" using snoc.prems(3) x by simp
  ultimately show ?case using run_op_ok [OF r2] run_op_cases [OF r2] by metis
qed simp

lemma run_ops_meta: "run_ops steps (s, fs) = Some (s', fs') \<Longrightarrow> metaFile s' = metaFile s"
proof (induction steps arbitrary: s' fs' rule: rev_induct)
  case (snoc x steps)
  obtain op env where x: "x = (op, env)" by (cases x)
  with snoc.prems(1) obtain s1 fs1 e where r1: "run_ops steps (s, fs) = Some (s1, fs1)"
      and r2: "run_op op s1 (env\<lparr>files := files fs1\<rparr>) = Some (s', fs', e)"
    by (auto simp: run_ops_snoc split: option.splits)
  then show ?case using snoc.IH [OF r1] run_op_cases [OF r2] by metis
qed simp

lemma run_op_saved:
  assumes "run_op op s fs = Some (s', fs', None)"
  shows "files fs' (metaFile s) = Some (encoded s')" and "metaFile s' = metaFile s"
    and "read_denied fs' = read_denied fs" and "mkdir_denied fs' = mkdir_denied fs"
  using assms by (cases rule: run_op_cases; use save_ok [of s'] save_policy [of s'] in fastforce)+

text \<open>
  C35. Whatever the operating system refuses at each step, and however short a write falls, the
  metadata file is at every moment either what it was before the run or the complete text of the
  store as it was after one of the steps.
\<close>

theorem metadata_file_always_whole:
  assumes "run_ops steps (s, fs) = Some (s', fs')"
  shows "files fs' (metaFile s) = files fs (metaFile s) \<or>
    (\<exists>pre s1 fs1. prefix pre steps \<and> run_ops pre (s, fs) = Some (s1, fs1) \<and>
       files fs' (metaFile s) = Some (encoded s1))"
  using assms
proof (induction steps arbitrary: s' fs' rule: rev_induct)
  case (snoc x steps)
  obtain op env where x: "x = (op, env)" by (cases x)
  with snoc.prems(1) obtain s1 fs1 e where r1: "run_ops steps (s, fs) = Some (s1, fs1)"
      and r2: "run_op op s1 (env\<lparr>files := files fs1\<rparr>) = Some (s', fs', e)"
    by (auto simp: run_ops_snoc split: option.splits)
  have m: "metaFile s1 = metaFile s" using run_ops_meta [OF r1] .
  consider "files fs' (metaFile s) = files fs1 (metaFile s)" | "files fs' (metaFile s) = Some (encoded s')"
    using r2
  proof (cases rule: run_op_cases)
    case refused
    then show ?thesis using that(1) by simp
  next
    case saved
    then show ?thesis using that save_ok [of s'] save_failed [of s'] m by (cases e) fastforce+
  qed
  then show ?case
  proof cases
    case 1
    then show ?thesis using snoc.IH [OF r1] prefixI [of "steps @ [x]" steps "[x]"]
      by (auto dest: prefix_order.trans)
  next
    case 2
    then show ?thesis using snoc.prems by blast
  qed
qed simp

text \<open>
  C34. An operation that reports success survives a restart: a new store on the same directory
  answers every query as the old one does in memory.
\<close>

theorem store_survives_restart:
  assumes "run_op op s fs = Some (s1, fs1, None)" and "data_ok (sdata s)" and "op_ok op"
    and "metaFile s = meta_path (dataDir s)"
    and "\<not> read_denied fs (metaFile s)" and "\<not> mkdir_denied fs (dataDir s)"
  shows "\<exists>s2. restart (dataDir s) fs1 = Inr s2 \<and> GetKeyMetadata s2 = GetKeyMetadata s1 \<and>
    GetRemoteServer s2 = GetRemoteServer s1 \<and> data_ok (sdata s2)"
  using restart_encoded [of fs1 "dataDir s" s1] run_op_saved [OF assms(1)] run_op_ok [OF assms(1-3)]
    assms(4-6) same_content_get by metis

theorem store_survives_restart_witness:
  "\<exists>s1 fs1 s2. run_op (OpSetKey (Some \<lparr>KeyPath = ''/k'', VerifiedService = ''git<hub>'', VerifiedHost = [],
       VerifiedPort = -22, VerifiedUser = ''a''\<rparr>))
     \<lparr>dataDir = ''/d'', metaFile = meta_path ''/d'', sdata = fresh_data\<rparr> (fs_with []) = Some (s1, fs1, None) \<and>
     restart ''/d'' fs1 = Inr s2 \<and> GetKeyMetadata s2 = GetKeyMetadata s1 \<and> GetKeyMetadata s1 ''/k'' \<noteq> None"
proof -
  let ?m = "\<lparr>KeyPath = ''/k'', VerifiedService = ''git<hub>'', VerifiedHost = [], VerifiedPort = -22, VerifiedUser = ''a''\<rparr>"
  let ?s = "\<lparr>dataDir = ''/d'', metaFile = meta_path ''/d'', sdata = fresh_data\<rparr>"
  obtain s1 fs1 where r: "run_op (OpSetKey (Some ?m)) ?s (fs_with []) = Some (s1, fs1, None)"
    and g: "GetKeyMetadata s1 ''/k'' = Some ?m"
    by (simp add: SetKeyMetadata_def Let_def save_def os_write_file_def os_rename_def put_key_def
        GetKeyMetadata_def update_conv')
  have "\<exists>s2. restart (dataDir ?s) fs1 = Inr s2 \<and> GetKeyMetadata s2 = GetKeyMetadata s1 \<and>
    GetRemoteServer s2 = GetRemoteServer s1 \<and> data_ok (sdata s2)"
    by (rule store_survives_restart [OF r])
       (simp_all add: fresh_data_def data_ok_def entries_ok_def int64_def op_ok_def key_ok_def)
  then show ?thesis using r g by auto
qed

text \<open>
  A save that fails is not undone in memory: the store goes on answering with the new value
  although the method returned an error and the file is unchanged, and the next operation that
  succeeds, on whatever other entry, writes the value whose saving was reported as failed.
\<close>

theorem failed_save_is_kept:
  assumes "SetKeyMetadata (Some m) s fs = (s1, fs1, Some e)" and "KeyPath m \<noteq> []"
    and "data_ok (sdata s)" and "key_ok m" and "metaFile s = meta_path (dataDir s)"
  shows "files fs1 (metaFile s) = files fs (metaFile s) \<and> GetKeyMetadata s1 (KeyPath m) = Some m \<and>
    (\<forall>r env s2 fs2. remote_ok r \<longrightarrow> \<not> read_denied env (metaFile s) \<longrightarrow> \<not> mkdir_denied env (dataDir s) \<longrightarrow>
       AddRemoteServer (Some r) s1 (env\<lparr>files := files fs1\<rparr>) = (s2, fs2, None) \<longrightarrow>
       (\<exists>s3. restart (dataDir s) fs2 = Inr s3 \<and> GetKeyMetadata s3 (KeyPath m) = Some m))"
proof -
  have s1: "s1 = put_key m s" "save s1 fs = (fs1, Some e)"
    using assms(1,2) by (auto simp: SetKeyMetadata_def Let_def)
  have meta: "metaFile s1 = metaFile s" "dataDir s1 = dataDir s" by (simp_all add: s1 put_key_def)
  have ok: "data_ok (sdata s1)"
    using run_op_ok [of "OpSetKey (Some m)" s fs s1 fs1 "Some e"] assms by (simp add: op_ok_def)
  have get: "GetKeyMetadata s1 (KeyPath m) = Some m"
    by (simp add: s1 put_key_def GetKeyMetadata_def update_conv')
  have "\<exists>s3. restart (dataDir s) fs2 = Inr s3 \<and> GetKeyMetadata s3 (KeyPath m) = Some m"
    if p: "remote_ok r" "\<not> read_denied env (metaFile s)" "\<not> mkdir_denied env (dataDir s)"
      and add: "AddRemoteServer (Some r) s1 (env\<lparr>files := files fs1\<rparr>) = (s2, fs2, None)" for r env s2 fs2
  proof -
    have run: "run_op (OpAdd (Some r)) s1 (env\<lparr>files := files fs1\<rparr>) = Some (s2, fs2, None)"
      using add by simp
    have "data_ok (sdata s2)" using run_op_ok [OF run ok] p(1) by (simp add: op_ok_def)
    then obtain s3 where "restart (dataDir s) fs2 = Inr s3" "same_content s3 s2"
      using restart_encoded [of fs2 "dataDir s" s2] run_op_saved [OF run] meta p assms(5) by auto
    moreover have "GetKeyMetadata s2 = GetKeyMetadata s1"
      using add by (auto simp: AddRemoteServer_def Let_def put_remote_def GetKeyMetadata_def fun_eq_iff split: if_splits)
    ultimately show ?thesis using same_content_get get by metis
  qed
  then show ?thesis using save_failed [OF s1(2)] meta get by auto
qed

text \<open>
  A metadata file that cannot be read or parsed is no error: the store starts empty, the file is
  left alone until the first operation that succeeds, and that operation replaces it by a store that
  holds nothing but its own entry.
\<close>

theorem corrupt_file_is_replaced:
  assumes "files fs (meta_path dir) = Some text" and "\<not> mkdir_denied fs dir"
    and "read_denied fs (meta_path dir) \<or> parse_json text = None"
  shows "\<exists>s. restart dir fs = Inr s \<and> sdata s = fresh_data \<and>
    (\<forall>m env s1 fs1. key_ok m \<longrightarrow> \<not> read_denied env (meta_path dir) \<longrightarrow> \<not> mkdir_denied env dir \<longrightarrow>
       SetKeyMetadata (Some m) s (env\<lparr>files := files fs\<rparr>) = (s1, fs1, None) \<longrightarrow>
       (\<exists>s2. restart dir fs1 = Inr s2 \<and> GetKeyMetadata s2 = [KeyPath m \<mapsto> m] \<and> GetRemoteServer s2 = Map.empty))"
proof -
  let ?s = "\<lparr>dataDir = dir, metaFile = meta_path dir, sdata = fresh_data\<rparr>"
  have start: "restart dir fs = Inr ?s"
    using assms
    by (auto simp: restart_def NewStore_def Let_def apply_option_def os_mkdir_all_def load_def
        os_read_file_def Unmarshal_def simp flip: meta_path_def)
  have "\<exists>s2. restart dir fs1 = Inr s2 \<and> GetKeyMetadata s2 = [KeyPath m \<mapsto> m] \<and> GetRemoteServer s2 = Map.empty"
    if p: "key_ok m" "\<not> read_denied env (meta_path dir)" "\<not> mkdir_denied env dir"
      and set: "SetKeyMetadata (Some m) ?s (env\<lparr>files := files fs\<rparr>) = (s1, fs1, None)" for m env s1 fs1
  proof -
    have run: "run_op (OpSetKey (Some m)) ?s (env\<lparr>files := files fs\<rparr>) = Some (s1, fs1, None)"
      using set by simp
    have ok: "data_ok (sdata s1)"
      by (rule run_op_ok [OF run])
         (simp_all add: fresh_data_def data_ok_def entries_ok_def int64_def op_ok_def p)
    have "GetKeyMetadata s1 = [KeyPath m \<mapsto> m]" and "GetRemoteServer s1 = Map.empty"
      using set by (auto simp: SetKeyMetadata_def Let_def put_key_def fresh_data_def GetKeyMetadata_def
          GetRemoteServer_def fun_eq_iff split: if_splits)
    moreover obtain s2 where "restart dir fs1 = Inr s2" "same_content s2 s1"
      using restart_encoded [of fs1 dir s1] run_op_saved [OF run] ok p by auto
    ultimately show ?thesis using same_content_get by metis
  qed
  with start show ?thesis by auto
qed

theorem corrupt_file_is_replaced_witness:
  "\<exists>s. restart ''/d'' (fs_with [(meta_path ''/d'', ''{'')]) = Inr s \<and> sdata s = fresh_data"
  using corrupt_file_is_replaced [of "fs_with [(meta_path ''/d'', ''{'')]" "''/d''" "''{''"]
  by (auto simp: parse_json_def first_json_def json_space_def skip_ws_def numeral_eq_Suc)

theorem failed_save_is_kept_witness:
  "let s = \<lparr>dataDir = ''/d'', metaFile = meta_path ''/d'', sdata = fresh_data\<rparr>;
       fs = (fs_with [])\<lparr>write_fault_at := \<lambda>_. WShort 3\<rparr>;
       m = zero_key\<lparr>KeyPath := ''/k''\<rparr> in
   files (fst (snd (SetKeyMetadata (Some m) s fs))) (metaFile s) = None \<and>
   GetKeyMetadata (fst (SetKeyMetadata (Some m) s fs)) ''/k'' = Some m"
proof -
  let ?s = "\<lparr>dataDir = ''/d'', metaFile = meta_path ''/d'', sdata = fresh_data\<rparr>"
  let ?fs = "(fs_with [])\<lparr>write_fault_at := \<lambda>_. WShort 3\<rparr>"
  let ?m = "zero_key\<lparr>KeyPath := ''/k''\<rparr>"
  obtain s1 fs1 e where r: "SetKeyMetadata (Some ?m) ?s ?fs = (s1, fs1, Some e)"
    by (simp add: SetKeyMetadata_def Let_def save_def os_write_file_def zero_key_def)
  show ?thesis
    using failed_save_is_kept [OF r] r
    by (simp add: zero_key_def fresh_data_def data_ok_def entries_ok_def int64_def key_ok_def)
qed

theorem metadata_file_always_whole_witness:
  "\<exists>s' fs'. run_ops [(OpDelete ''a'', (fs_with [])\<lparr>write_fault_at := \<lambda>_. WShort 3\<rparr>), (OpDelKey ''b'', fs_with [])]
     (\<lparr>dataDir = ''/d'', metaFile = ''/d/m'', sdata = fresh_data\<rparr>, fs_with [(''/d/m'', ''x'')]) = Some (s', fs') \<and>
   (files fs' ''/d/m'' = Some ''x'' \<or> (\<exists>s1. files fs' ''/d/m'' = Some (encoded s1)))"
proof -
  let ?steps = "[(OpDelete ''a'', (fs_with [])\<lparr>write_fault_at := \<lambda>_. WShort 3\<rparr>), (OpDelKey ''b'', fs_with [])]"
  let ?s = "\<lparr>dataDir = ''/d'', metaFile = ''/d/m'', sdata = fresh_data\<rparr>"
  let ?fs = "fs_with [(''/d/m'', ''x'')]"
  obtain s' fs' where r: "run_ops ?steps (?s, ?fs) = Some (s', fs')"
    by (cases "run_ops ?steps (?s, ?fs)")
       (auto simp: DeleteRemoteServer_def DeleteKeyMetadata_def Let_def case_prod_beta)
  then show ?thesis using metadata_file_always_whole [OF r] by auto
qed

section \<open>Null entries\<close>

definition no_nil :: "storeData \<Rightarrow> bool" where
  "no_nil d \<longleftrightarrow> None \<notin> snd ` set (key_metadata d) \<and> None \<notin> snd ` set (remote_servers d)"

lemma all_some_total: "all_some ps \<noteq> None \<longleftrightarrow> None \<notin> set ps"
  by (induction ps) (auto split: option.splits)

lemma set_update_sub: "set (AList.update k v m) \<subseteq> insert (k, v) (set m)"
  by (induction m) auto

lemma nil_update: "None \<notin> snd ` set m \<Longrightarrow> None \<notin> snd ` set (AList.update k (Some x) m)"
  using set_update_sub [of k "Some x" m] by force

lemma nil_delete: "None \<notin> snd ` set m \<Longrightarrow> None \<notin> snd ` set (AList.delete k m)"
  by (auto simp: AList.delete_eq)

lemma run_op_no_nil:
  assumes "no_nil (sdata s)"
  shows "\<exists>s' fs' e. run_op op s fs = Some (s', fs', e) \<and> no_nil (sdata s')"
proof -
  have "map_of (remote_servers (sdata s)) k \<noteq> Some None" for k
    using assms map_of_SomeD [of "remote_servers (sdata s)" k None] by (force simp: no_nil_def)
  then show ?thesis
    using assms
    by (cases op)
       (auto simp: no_nil_def SetKeyMetadata_def DeleteKeyMetadata_def AddRemoteServer_def
         UpdateRemoteServer_def DeleteRemoteServer_def UpdateRemoteServerLastConnected_def Let_def
         put_key_def del_key_def put_remote_def del_remote_def set_remote_def nil_update nil_delete
         split: option.splits)
qed

text \<open>
  A store whose file held no \<open>null\<close> entry never dereferences a nil pointer, whatever operations
  follow and whatever fails, and both listings of the result succeed.
\<close>

theorem store_never_panics:
  assumes "no_nil (sdata s)"
  shows "\<exists>s' fs'. run_ops steps (s, fs) = Some (s', fs') \<and> ListKeyMetadata s' \<noteq> None \<and>
    ListRemoteServers s' \<noteq> None"
  using assms
proof (induction steps arbitrary: s fs)
  case Nil
  then show ?case
    using all_some_total [of "map snd (key_metadata (sdata s))"]
      all_some_total [of "map snd (remote_servers (sdata s))"]
    by (simp add: ListKeyMetadata_def ListRemoteServers_def no_nil_def)
next
  case (Cons x steps)
  obtain op env where x: "x = (op, env)" by (cases x)
  obtain s' fs' e where "run_op op s (env\<lparr>files := files fs\<rparr>) = Some (s', fs', e)" "no_nil (sdata s')"
    using run_op_no_nil [OF Cons.prems] by blast
  then show ?case using Cons.IH [of s' fs'] x by simp
qed

theorem store_never_panics_witness:
  "(\<exists>s' fs'. run_ops [(OpTouch ''a'' 3, fs_with [])]
      (\<lparr>dataDir = ''/d'', metaFile = ''/d/m'', sdata = fresh_data\<rparr>, fs_with []) = Some (s', fs')) \<and>
   run_ops [(OpTouch ''a'' 3, fs_with [])]
      (\<lparr>dataDir = ''/d'', metaFile = ''/d/m'', sdata = fresh_data\<lparr>remote_servers := [(''a'', None)]\<rparr>\<rparr>, fs_with []) = None"
  using store_never_panics [of "\<lparr>dataDir = ''/d'', metaFile = ''/d/m'', sdata = fresh_data\<rparr>"
      "[(OpTouch ''a'' 3, fs_with [])]" "fs_with []"]
  by (auto simp: no_nil_def fresh_data_def UpdateRemoteServerLastConnected_def)

end
