(* ===== verification/Version.thy ===== *)
theory Version
  imports Prelude "HOL-Library.List_Lexorder" "HOL-Library.Char_ord"
begin

text \<open>
  The comparison of version strings of \<open>update/manager.go\<close>.  Go compares strings byte by byte, which
  is the lexicographic order on \<^typ>\<open>string\<close>.

  \<open>version_order\<close> says that on versions whose dot-separated parts are all numbers the comparison is
  the lexicographic order of the numbers, hence a strict total order; \<open>build_metadata_as_text\<close> what
  happens when a part carries build metadata.
\<close>

fun newer_parts :: "string list \<Rightarrow> string list \<Rightarrow> bool" where
  "newer_parts (a # as) (b # bs) =
     (case (atoi a, atoi b) of
        ((aNum, None), (bNum, None)) \<Rightarrow>
          if aNum > bNum then True
          else if aNum < bNum then False
          else newer_parts as bs
      | _ \<Rightarrow>
          if a > b then True
          else if a < b then False
          else newer_parts as bs)"
| "newer_parts as bs = (length as > length bs)"

definition isNewerVersion :: "string \<Rightarrow> string \<Rightarrow> bool" where
  "isNewerVersion a b =
     newer_parts (split_on (CHR ''.'') (trim_prefix a ''v'')) (split_on (CHR ''.'') (trim_prefix b ''v''))"

definition splitBuildMetadata :: "string \<Rightarrow> string \<times> string" where
  "splitBuildMetadata version =
     (case index_char version (CHR ''+'') of
        Some idx \<Rightarrow> (take idx version, drop (idx + 1) version)
      | None \<Rightarrow> (version, []))"

definition same_number :: "string \<Rightarrow> string \<Rightarrow> bool" where
  "same_number x y =
     (case (atoi x, atoi y) of ((m, None), (n, None)) \<Rightarrow> m = n | _ \<Rightarrow> False)"

definition isPatchUpdate :: "string \<Rightarrow> string \<Rightarrow> bool" where
  "isPatchUpdate current latest =
     (let currentParts = split_on (CHR ''.'') (fst (splitBuildMetadata (trim_prefix current ''v'')));
          latestParts = split_on (CHR ''.'') (fst (splitBuildMetadata (trim_prefix latest ''v''))) in
      if length currentParts < 2 \<or> length latestParts < 2 then False
      else if \<not> same_number (currentParts ! 0) (latestParts ! 0) then False
      else if \<not> same_number (currentParts ! 1) (latestParts ! 1) then False
      else True)"

section \<open>Numeric versions\<close>

definition version_parts :: "string \<Rightarrow> string list" where
  "version_parts v = split_on (CHR ''.'') (trim_prefix v ''v'')"

definition numeric_version :: "string \<Rightarrow> bool" where
  "numeric_version v \<longleftrightarrow> list_all (\<lambda>p. snd (atoi p) = None) (version_parts v)"

definition version_nums :: "string \<Rightarrow> int list" where
  "version_nums v = map (fst \<circ> atoi) (version_parts v)"

lemma newer_parts_numeric:
  "list_all (\<lambda>p. snd (atoi p) = None) as \<Longrightarrow> list_all (\<lambda>p. snd (atoi p) = None) bs \<Longrightarrow>
     newer_parts as bs \<longleftrightarrow> map (fst \<circ> atoi) bs < map (fst \<circ> atoi) as"
proof (induction as arbitrary: bs)
  case Nil
  then show ?case by (cases bs) simp_all
next
  case (Cons a as)
  note IH = Cons.IH and prems = Cons.prems
  show ?case
  proof (cases bs)
    case (Cons b cs)
    then show ?thesis using prems IH [of cs] by (cases "atoi a"; cases "atoi b") auto
  qed simp
qed

lemma newer_version_nums:
  "numeric_version a \<Longrightarrow> numeric_version b \<Longrightarrow> isNewerVersion a b \<longleftrightarrow> version_nums b < version_nums a"
  using newer_parts_numeric
  by (simp add: isNewerVersion_def numeric_version_def version_nums_def flip: version_parts_def)

text \<open>
  C38. On versions whose parts are numbers (with or without a leading \<open>v\<close>), \<open>isNewerVersion\<close> is the
  lexicographic order of the number lists, where a longer version is newer than its own prefix:
  it is irreflexive and transitive, and of two versions with different numbers exactly one is newer.
\<close>

theorem version_order:
  assumes "numeric_version a" and "numeric_version b" and "numeric_version c"
  shows "(isNewerVersion a b \<longleftrightarrow> version_nums b < version_nums a) \<and>
    (isNewerVersion a b \<and> isNewerVersion b c \<longrightarrow> isNewerVersion a c) \<and>
    (isNewerVersion a b \<or> isNewerVersion b a \<longleftrightarrow> version_nums a \<noteq> version_nums b) \<and>
    \<not> (isNewerVersion a b \<and> isNewerVersion b a)"
  using newer_version_nums [of a b] newer_version_nums [of b a] newer_version_nums [of b c]
    newer_version_nums [of a c] assms by auto

theorem version_order_witness:
  "isNewerVersion ''v0.10.0'' ''0.9.12'' \<and> \<not> isNewerVersion ''0.9.12'' ''v0.10.0''"
proof -
  have a: "version_parts ''v0.10.0'' = [''0'', ''10'', ''0'']" "version_parts ''0.9.12'' = [''0'', ''9'', ''12'']"
    by (simp_all add: version_parts_def split_on_def trim_prefix_def has_prefix_def)
  have "numeric_version ''v0.10.0''" "numeric_version ''0.9.12''" "version_nums ''0.9.12'' < version_nums ''v0.10.0''"
    unfolding numeric_version_def version_nums_def a
    by (simp_all add: atoi_def atoi_signed_def is_digit_def digit_val_def)
  then show ?thesis using version_order [of "''v0.10.0''" "''0.9.12''" "''0.9.12''"] by simp
qed

section \<open>Build metadata\<close>

lemma newer_parts_same: "newer_parts (ps @ as) (ps @ bs) = newer_parts as bs"
  by (induction ps) (auto split: prod.split option.split)

lemma less_append_same: "u @ x < u @ y \<longleftrightarrow> x < (y :: string)"
  by (induction u) simp_all

lemma parse_uint_loop_plus: "CHR ''+'' \<in> set s \<Longrightarrow> snd (parse_uint_loop n s) \<noteq> None"
  by (induction n s rule: parse_uint_loop.induct) (auto simp: is_digit_def Let_def)

lemma parse_uint_range: "parse_uint_loop n s = (u, Some ErrRange) \<Longrightarrow> u = 18446744073709551615"
  by (induction n s rule: parse_uint_loop.induct) (auto simp: Let_def split: if_splits)

lemma atoi_plus_inside:
  assumes "l \<noteq> []"
  shows "snd (atoi (l @ CHR ''+'' # x)) \<noteq> None"
proof -
  obtain c cs where l: "l = c # cs" using assms by (cases l) auto
  have "snd (atoi_signed neg s) \<noteq> None" if "CHR ''+'' \<in> set s" for neg s
    using parse_uint_loop_plus [OF that, of 0] that
    by (auto simp: atoi_signed_def split: prod.splits option.splits num_err.splits dest!: parse_uint_range)
  then show ?thesis by (simp add: l atoi_def)
qed

lemma split_on_append_none:
  "sep \<notin> set t \<Longrightarrow> split_on sep (s @ t) = butlast (split_on sep s) @ [last (split_on sep s) @ t]"
proof (induction s)
  case Nil
  then show ?case by (simp add: split_on_none)
next
  case (Cons c s)
  have "split_on sep (c # s) =
      (if c = sep then [] # split_on sep s else (c # hd (split_on sep s)) # tl (split_on sep s))" for s
    using split_on_not_Nil [of sep s] by (auto simp: split_on_def split: list.split)
  then show ?case using Cons split_on_not_Nil [of sep s]
    by (cases "split_on sep s") auto
qed

lemma version_parts_append:
  assumes "last (version_parts base) \<noteq> []" and "CHR ''.'' \<notin> set t"
  shows "version_parts (base @ t) = butlast (version_parts base) @ [last (version_parts base) @ t]"
proof -
  have "base \<noteq> []" using assms(1) by (auto simp: version_parts_def trim_prefix_def has_prefix_def split_on_def)
  then have "trim_prefix (base @ t) ''v'' = trim_prefix base ''v'' @ t"
    by (cases base) (simp_all add: trim_prefix_def)
  then show ?thesis using split_on_append_none [OF assms(2)] by (simp add: version_parts_def)
qed

text \<open>
  Two versions that differ in their build metadata only, as the release builds \<open>0.0.4+9\<close> and
  \<open>0.0.4+10\<close> do, are compared by the text of the metadata: build 9 counts as newer than build 10,
  so the update from 9 to 10 is never offered and 9 is offered to a program at build 10.
\<close>

theorem build_metadata_as_text:
  assumes "last (version_parts base) \<noteq> []" and "CHR ''.'' \<notin> set x" and "CHR ''.'' \<notin> set y"
  shows "isNewerVersion (base @ ''+'' @ x) (base @ ''+'' @ y) \<longleftrightarrow> y < x"
proof -
  let ?l = "last (version_parts base)"
  have "\<exists>i e. atoi (?l @ CHR ''+'' # z) = (i, Some e)" for z
    using atoi_plus_inside [OF assms(1), of z] by (cases "atoi (?l @ CHR ''+'' # z)") auto
  then obtain i e where "atoi (?l @ CHR ''+'' # x) = (i, Some e)" by blast
  then have "newer_parts [?l @ CHR ''+'' # x] [?l @ CHR ''+'' # y] \<longleftrightarrow>
      ?l @ CHR ''+'' # y < ?l @ CHR ''+'' # x"
    by (cases "atoi (?l @ CHR ''+'' # y)") auto
  moreover have "?l @ CHR ''+'' # y < ?l @ CHR ''+'' # x \<longleftrightarrow> y < x"
    using less_append_same [of "?l @ ''+''" y x] by simp
  ultimately show ?thesis
    using version_parts_append [OF assms(1), of "''+'' @ x"] version_parts_append [OF assms(1), of "''+'' @ y"]
      assms(2,3)
    by (simp add: isNewerVersion_def newer_parts_same flip: version_parts_def)
qed

theorem build_metadata_as_text_witness:
  "isNewerVersion ''0.0.4+9'' ''0.0.4+10'' \<and> \<not> isNewerVersion ''0.0.4+10'' ''0.0.4+9''"
proof -
  have "last (version_parts ''0.0.4'') \<noteq> []"
    by (simp add: version_parts_def split_on_def trim_prefix_def has_prefix_def)
  then show ?thesis
    using build_metadata_as_text [of "''0.0.4''" "''9''" "''10''"] build_metadata_as_text [of "''0.0.4''" "''10''" "''9''"]
    by (simp add: less_char_def)
qed

end
