(* ===== verification/UpdateManager.thy ===== *)
theory UpdateManager
  imports Version TreeFS Json
begin

text \<open>
  The updater (\<open>update/manager.go\<close>, \<open>update/settings.go\<close>): the manager with its status, the check for
  a newer release, the download with its checksum, the replacement of the installation with a backup,
  and the settings file.

  Arguments of the model: \<open>http\<close> answers a GET of a URL with an error or a response, whose body
  arrives in chunks and may break off with an error; \<open>speed\<close> is the measured speed at each number of
  downloaded bytes; \<open>sha\<close> is the hexadecimal SHA-256 of a text; \<open>untar\<close> unpacks a gzipped tar
  archive into the headers and bodies that the reader delivers before it ends or fails; \<open>rfc3339\<close>
  reads a time.  Go's \<open>DownloadProgress\<close> points to the variable that \<open>DownloadUpdate\<close> goes on
  changing; the model keeps the current content there once the pointer is set.
\<close>

unbundle bit_operations_syntax

section \<open>Data\<close>

record Asset =
  asset_Name :: string
  asset_Size :: int
  BrowserDownloadURL :: string

record ReleaseInfo =
  TagName :: string
  rel_Name :: string
  rel_Body :: string
  HTMLURL :: string
  Prerelease :: bool
  PublishedAt :: int
  Assets :: "Asset list"

datatype State =
    StateIdle | StateChecking | StateUpdateAvailable | StateDownloading | StateReadyToApply
  | StateApplying | StateError

datatype DownloadState =
    DownloadStarting | DownloadDownloading | DownloadVerifying | DownloadCompleted | DownloadError

record Progress =
  prog_State :: DownloadState
  BytesDownloaded :: int
  TotalBytes :: int
  BytesPerSecond :: int
  prog_Error :: string
  DownloadedPath :: string

record Status =
  st_State :: State
  AvailableUpdate :: "ReleaseInfo option"
  DownloadProgress :: "Progress option"
  LastCheck :: "int option"
  st_Error :: string

record Manager =
  currentVersion :: string
  installDir :: string
  cacheDir :: string
  status :: Status

record Settings =
  AutoCheck :: bool
  AutoDownload :: bool
  AutoApply :: bool
  IncludePrereleases :: bool
  CheckIntervalHours :: int
  IncludePatches :: bool

definition DefaultSettings :: Settings where
  "DefaultSettings = \<lparr>AutoCheck = True, AutoDownload = False, AutoApply = False,
     IncludePrereleases = False, CheckIntervalHours = 24, IncludePatches = True\<rparr>"

definition NewManager_upd :: "string \<Rightarrow> string \<Rightarrow> string \<Rightarrow> Manager" where
  "NewManager_upd current install cache =
     \<lparr>currentVersion = current, installDir = install, cacheDir = cache,
      status = \<lparr>st_State = StateIdle, AvailableUpdate = None, DownloadProgress = None,
        LastCheck = None, st_Error = []\<rparr>\<rparr>"

definition GetStatus_upd :: "Manager \<Rightarrow> Status" where
  "GetStatus_upd m = status m"

definition setState :: "State \<Rightarrow> Manager \<Rightarrow> Manager" where
  "setState s m = m\<lparr>status := (status m)\<lparr>st_State := s\<rparr>\<rparr>"

definition setError :: "string \<Rightarrow> Manager \<Rightarrow> Manager" where
  "setError e m = m\<lparr>status := (status m)\<lparr>st_State := StateError, st_Error := e\<rparr>\<rparr>"

definition setProgress :: "Progress \<Rightarrow> Manager \<Rightarrow> Manager" where
  "setProgress p m = m\<lparr>status := (status m)\<lparr>DownloadProgress := Some p\<rparr>\<rparr>"

section \<open>The check\<close>

record http_response =
  StatusCode :: int
  StatusLine :: string
  ContentLength :: int
  body_chunks :: "string list"
  body_error :: "string option"

type_synonym http = "string \<Rightarrow> string + http_response"

definition dec_slice :: "'v decoder \<Rightarrow> 'v \<Rightarrow> 'v list decoder" where
  "dec_slice d zero v x =
     (case v of
        JArr vs \<Rightarrow> (map (\<lambda>w. fst (d w zero)) vs, list_ex (\<lambda>w. snd (d w zero)) vs)
      | JNull \<Rightarrow> ([], False)
      | _ \<Rightarrow> (x, True))"

definition zero_asset :: Asset where
  "zero_asset = \<lparr>asset_Name = [], asset_Size = 0, BrowserDownloadURL = []\<rparr>"

definition asset_fields :: "(string \<times> Asset decoder) list" where
  "asset_fields =
     [(''name'', dec_str (\<lambda>s a. a\<lparr>asset_Name := s\<rparr>)),
      (''size'', dec_int (\<lambda>i a. a\<lparr>asset_Size := i\<rparr>)),
      (''browser_download_url'', dec_str (\<lambda>s a. a\<lparr>BrowserDownloadURL := s\<rparr>))]"

definition zero_release :: ReleaseInfo where
  "zero_release = \<lparr>TagName = [], rel_Name = [], rel_Body = [], HTMLURL = [], Prerelease = False,
     PublishedAt = 0, Assets = []\<rparr>"

definition dec_time :: "(string \<Rightarrow> int option) \<Rightarrow> ReleaseInfo decoder" where
  "dec_time rfc3339 v r =
     (case v of
        JStr s \<Rightarrow> (case rfc3339 s of Some i \<Rightarrow> (r\<lparr>PublishedAt := i\<rparr>, False) | None \<Rightarrow> (r, True))
      | JNull \<Rightarrow> (r, False)
      | _ \<Rightarrow> (r, True))"

definition release_fields :: "(string \<Rightarrow> int option) \<Rightarrow> (string \<times> ReleaseInfo decoder) list" where
  "release_fields rfc3339 =
     [(''tag_name'', dec_str (\<lambda>s r. r\<lparr>TagName := s\<rparr>)),
      (''name'', dec_str (\<lambda>s r. r\<lparr>rel_Name := s\<rparr>)),
      (''body'', dec_str (\<lambda>s r. r\<lparr>rel_Body := s\<rparr>)),
      (''html_url'', dec_str (\<lambda>s r. r\<lparr>HTMLURL := s\<rparr>)),
      (''prerelease'', dec_bool (\<lambda>b r. r\<lparr>Prerelease := b\<rparr>)),
      (''published_at'', dec_time rfc3339),
      (''assets'', \<lambda>v r. map_prod (\<lambda>a. r\<lparr>Assets := a\<rparr>) id (dec_slice (dec_struct asset_fields) zero_asset v (Assets r)))]"

text \<open>\<open>json.NewDecoder(body).Decode\<close>: the first value of the body.\<close>

definition decode_body :: "'a decoder \<Rightarrow> 'a \<Rightarrow> http_response \<Rightarrow> string + 'a" where
  "decode_body d zero resp =
     (case first_json (concat (body_chunks resp)) of
        None \<Rightarrow> Inl (case body_error resp of Some e \<Rightarrow> e | None \<Rightarrow> ''invalid JSON text'')
      | Some (v, _) \<Rightarrow> (case d v zero of (x, False) \<Rightarrow> Inr x | _ \<Rightarrow> Inl ''json: cannot unmarshal''))"

definition releases_url :: "bool \<Rightarrow> string" where
  "releases_url includePrereleases =
     ''https://api.github.com/repos/automationaddict/skeys/releases'' @
     (if includePrereleases then [] else ''/latest'')"

definition fetchLatestRelease :: "http \<Rightarrow> (string \<Rightarrow> int option) \<Rightarrow> bool \<Rightarrow> string + ReleaseInfo" where
  "fetchLatestRelease http rfc3339 includePrereleases =
     (case http (releases_url includePrereleases) of
        Inl e \<Rightarrow> Inl e
      | Inr resp \<Rightarrow>
          if StatusCode resp = 404 then Inl ''no releases found''
          else if StatusCode resp \<noteq> 200 then Inl (''unexpected status: '' @ StatusLine resp)
          else if includePrereleases then
            (case decode_body (dec_slice (dec_struct (release_fields rfc3339)) zero_release) [] resp of
               Inl e \<Rightarrow> Inl e
             | Inr [] \<Rightarrow> Inl ''no releases found''
             | Inr (r # _) \<Rightarrow> Inr r)
          else decode_body (dec_struct (release_fields rfc3339)) zero_release resp)"

definition CheckForUpdates ::
    "http \<Rightarrow> (string \<Rightarrow> int option) \<Rightarrow> int \<Rightarrow> bool \<Rightarrow> bool \<Rightarrow> Manager \<Rightarrow> Manager \<times> (string + ReleaseInfo option)" where
  "CheckForUpdates http rfc3339 now includePrereleases includePatches m =
     (let m1 = setState StateChecking m in
      case fetchLatestRelease http rfc3339 includePrereleases of
        Inl e \<Rightarrow> (setError e m1, Inl (''failed to fetch latest release: '' @ e))
      | Inr release \<Rightarrow>
          (let m2 = m1\<lparr>status := (status m1)\<lparr>LastCheck := Some now\<rparr>\<rparr>;
               latest = trim_prefix (TagName release) ''v'';
               current = trim_prefix (currentVersion m) ''v'' in
           if \<not> isNewerVersion latest current then (setState StateIdle m2, Inr None)
           else if \<not> includePatches \<and> isPatchUpdate current latest then (setState StateIdle m2, Inr None)
           else (m2\<lparr>status := (status m2)\<lparr>st_State := StateUpdateAvailable, AvailableUpdate := Some release\<rparr>\<rparr>,
                 Inr (Some release))))"

section \<open>The download\<close>

fun copy_body :: "(int \<Rightarrow> int) \<Rightarrow> string \<Rightarrow> int \<Rightarrow> int \<Rightarrow> string list \<Rightarrow> treefs \<Rightarrow>
    treefs \<times> (int \<times> int \<times> int) list \<times> ioerr option" where
  "copy_body speed dest totalSize downloaded [] t = (t, [], None)"
| "copy_body speed dest totalSize downloaded (c # cs) t =
     (if c = [] then copy_body speed dest totalSize downloaded cs t
      else (case t_write dest c t of
          (t', Some e) \<Rightarrow> (t', [], Some e)
        | (t', None) \<Rightarrow>
            (let d = downloaded + int (length c) in
             case copy_body speed dest totalSize d cs t' of
               (t'', reports, e) \<Rightarrow> (t'', (d, totalSize, speed d) # reports, e))))"

definition downloadFile :: "http \<Rightarrow> (int \<Rightarrow> int) \<Rightarrow> string \<Rightarrow> string \<Rightarrow> int \<Rightarrow> treefs \<Rightarrow>
    treefs \<times> (int \<times> int \<times> int) list \<times> string option" where
  "downloadFile http speed url dest expectedSize t =
     (case http url of
        Inl e \<Rightarrow> (t, [], Some e)
      | Inr resp \<Rightarrow>
          if StatusCode resp \<noteq> 200 then (t, [], Some (''download failed: '' @ StatusLine resp))
          else (let totalSize = (if ContentLength resp \<le> 0 \<and> expectedSize > 0 then expectedSize else ContentLength resp) in
            case t_create dest t of
              (t1, Some e) \<Rightarrow> (t1, [], Some (ioerr_msg e))
            | (t1, None) \<Rightarrow>
                (case copy_body speed dest totalSize 0 (body_chunks resp) t1 of
                   (t2, reports, Some e) \<Rightarrow> (t2, reports, Some (ioerr_msg e))
                 | (t2, reports, None) \<Rightarrow> (t2, reports, body_error resp))))"

definition verifyChecksum :: "(string \<Rightarrow> string) \<Rightarrow> string \<Rightarrow> string \<Rightarrow> treefs \<Rightarrow> string option" where
  "verifyChecksum sha tarballPath checksumPath t =
     (case t_read_file checksumPath t of
        Inl e \<Rightarrow> Some (ioerr_msg e)
      | Inr data \<Rightarrow>
          (case str_fields data of
             [] \<Rightarrow> Some ''empty checksum file''
           | w # _ \<Rightarrow>
               (let expectedHash = to_lower w in
                case t_read_file tarballPath t of
                  Inl e \<Rightarrow> Some (ioerr_msg e)
                | Inr body \<Rightarrow>
                    (let actualHash = sha body in
                     if actualHash \<noteq> expectedHash
                     then Some (''checksum mismatch: expected '' @ expectedHash @ '', got '' @ actualHash)
                     else None))))"

definition asset_name :: "ReleaseInfo \<Rightarrow> string" where
  "asset_name release = ''skeys-'' @ TagName release @ ''-linux-x64.tar.gz''"

definition tarball_path :: "Manager \<Rightarrow> ReleaseInfo \<Rightarrow> string" where
  "tarball_path m release = path_join [cacheDir m, asset_name release]"

definition finish_download :: "string \<Rightarrow> Progress \<Rightarrow> Progress list \<Rightarrow> Manager \<Rightarrow> treefs \<Rightarrow>
    Manager \<times> treefs \<times> Progress list \<times> (string + string)" where
  "finish_download tarballPath progress reported m t =
     (let p = progress\<lparr>prog_State := DownloadCompleted, DownloadedPath := tarballPath\<rparr> in
      (setProgress p (setState StateReadyToApply m), t, reported @ [p], Inr tarballPath))"

definition DownloadUpdate :: "http \<Rightarrow> (int \<Rightarrow> int) \<Rightarrow> (string \<Rightarrow> string) \<Rightarrow> ReleaseInfo \<Rightarrow> Manager \<Rightarrow> treefs \<Rightarrow>
    Manager \<times> treefs \<times> Progress list \<times> (string + string)" where
  "DownloadUpdate http speed sha release m t =
     (let m1 = setState StateDownloading m in
      case find (\<lambda>a. asset_Name a = asset_name release) (Assets release) of
        None \<Rightarrow>
          (let err = ''asset '' @ asset_name release @ '' not found in release'' in
           (setError err m1, t, [], Inl err))
      | Some asset \<Rightarrow>
          (case t_mkdir_all (cacheDir m) t of
             (t1, Some e) \<Rightarrow>
               (setError (ioerr_msg e) m1, t1, [], Inl (''failed to create cache directory: '' @ ioerr_msg e))
           | (t1, None) \<Rightarrow>
               (let tarballPath = tarball_path m release;
                    checksumPath = tarballPath @ ''.sha256'';
                    url = BrowserDownloadURL asset;
                    p0 = \<lparr>prog_State = DownloadStarting, BytesDownloaded = 0, TotalBytes = asset_Size asset,
                          BytesPerSecond = 0, prog_Error = [], DownloadedPath = []\<rparr> in
                case downloadFile http speed url tarballPath (asset_Size asset) t1 of
                  (t2, reports, err) \<Rightarrow>
                    (let ps = map (\<lambda>(d, tot, sp). p0\<lparr>prog_State := DownloadDownloading, BytesDownloaded := d,
                                TotalBytes := tot, BytesPerSecond := sp\<rparr>) reports;
                         p1 = last (p0 # ps);
                         m2 = (if ps = [] then m1 else setProgress p1 m1) in
                     case err of
                       Some e \<Rightarrow> (setError e m2, t2, p0 # ps, Inl (''failed to download tarball: '' @ e))
                     | None \<Rightarrow>
                         (case downloadFile http speed (url @ ''.sha256'') checksumPath 0 t2 of
                            (t3, _, Some _) \<Rightarrow> finish_download tarballPath p1 (p0 # ps) m2 t3
                          | (t3, _, None) \<Rightarrow>
                              (let p2 = p1\<lparr>prog_State := DownloadVerifying\<rparr>;
                                   m3 = (if ps = [] then m2 else setProgress p2 m2) in
                               case verifyChecksum sha tarballPath checksumPath t3 of
                                 Some e \<Rightarrow>
                                   (setError e m3, fst (t_remove checksumPath (fst (t_remove tarballPath t3))),
                                    p0 # ps @ [p2], Inl (''checksum verification failed: '' @ e))
                               | None \<Rightarrow> finish_download tarballPath p2 (p0 # ps @ [p2]) m3 t3))))))"

section \<open>The installation\<close>

datatype tar_type = TypeDir | TypeReg | TypeOther

record tar_entry =
  hdr_Name :: string
  hdr_Typeflag :: tar_type
  hdr_Mode :: int
  tar_body :: string
  tar_body_error :: "string option"

type_synonym untar = "string \<Rightarrow> string + (tar_entry list \<times> string option)"

definition tar_name :: "string \<Rightarrow> string" where
  "tar_name name = (case index_char name (CHR ''/'') of Some idx \<Rightarrow> drop (idx + 1) name | None \<Rightarrow> name)"

definition tar_allowed :: "string \<Rightarrow> string \<Rightarrow> bool" where
  "tar_allowed destDir target \<longleftrightarrow> has_prefix (path_clean target) (path_clean destDir)"

definition extract_file :: "string \<Rightarrow> tar_entry \<Rightarrow> treefs \<Rightarrow> treefs \<times> string option" where
  "extract_file target h t =
     (case t_mkdir_all (path_dir target) t of
        (t1, Some e) \<Rightarrow> (t1, Some (ioerr_msg e))
      | (t1, None) \<Rightarrow>
          (case t_create target t1 of
             (t2, Some e) \<Rightarrow> (t2, Some (ioerr_msg e))
           | (t2, None) \<Rightarrow>
               (case t_write target (tar_body h) t2 of
                  (t3, Some e) \<Rightarrow> (t3, Some (ioerr_msg e))
                | (t3, None) \<Rightarrow>
                    (case tar_body_error h of
                       Some e \<Rightarrow> (t3, Some e)
                     | None \<Rightarrow>
                         (if hdr_Mode h AND 73 \<noteq> 0 then fst (t_chmod target (hdr_Mode h AND 511) t3) else t3, None)))))"

definition extract_entry :: "string \<Rightarrow> tar_entry \<Rightarrow> treefs \<Rightarrow> treefs \<times> string option" where
  "extract_entry destDir h t =
     (let name = tar_name (hdr_Name h); target = path_join [destDir, name] in
      if name = [] then (t, None)
      else if \<not> tar_allowed destDir target then (t, Some (''invalid tar path: '' @ hdr_Name h))
      else (case hdr_Typeflag h of
          TypeDir \<Rightarrow> (case t_mkdir_all target t of (t1, Some e) \<Rightarrow> (t1, Some (ioerr_msg e)) | (t1, None) \<Rightarrow> (t1, None))
        | TypeReg \<Rightarrow> extract_file target h t
        | TypeOther \<Rightarrow> (t, None)))"

fun extract_entries :: "string \<Rightarrow> tar_entry list \<Rightarrow> treefs \<Rightarrow> treefs \<times> string option" where
  "extract_entries destDir [] t = (t, None)"
| "extract_entries destDir (h # hs) t =
     (case extract_entry destDir h t of
        (t1, Some e) \<Rightarrow> (t1, Some e)
      | (t1, None) \<Rightarrow> extract_entries destDir hs t1)"

definition extractTarball :: "untar \<Rightarrow> string \<Rightarrow> string \<Rightarrow> treefs \<Rightarrow> treefs \<times> string option" where
  "extractTarball untar tarballPath destDir t =
     (case t_read_file tarballPath t of
        Inl e \<Rightarrow> (t, Some (ioerr_msg e))
      | Inr data \<Rightarrow>
          (case untar data of
             Inl e \<Rightarrow> (t, Some e)
           | Inr (hs, err) \<Rightarrow>
               (case extract_entries destDir hs t of
                  (t1, Some e) \<Rightarrow> (t1, Some e)
                | (t1, None) \<Rightarrow> (t1, err))))"

definition backup_dir :: "Manager \<Rightarrow> string" where
  "backup_dir m = installDir m @ ''.backup''"

definition make_executable :: "string \<Rightarrow> treefs \<Rightarrow> treefs" where
  "make_executable dir t =
     foldl (\<lambda>t bin. fst (t_chmod (path_join [dir, bin]) 493 t)) t [''skeys-app'', ''skeys-daemon'']"

text \<open>The part of \<open>ApplyUpdate\<close> after the old installation is out of the way.\<close>

definition install_new :: "untar \<Rightarrow> string \<Rightarrow> Manager \<Rightarrow> treefs \<Rightarrow> Manager \<times> treefs \<times> string option" where
  "install_new untar tarballPath m t =
     (case t_mkdir_all (installDir m) t of
        (t1, Some e) \<Rightarrow>
          (setError (ioerr_msg e) m, fst (t_rename (backup_dir m) (installDir m) t1),
           Some (''failed to create install directory: '' @ ioerr_msg e))
      | (t1, None) \<Rightarrow>
          (case extractTarball untar tarballPath (installDir m) t1 of
             (t2, Some e) \<Rightarrow>
               (setError e m,
                fst (t_rename (backup_dir m) (installDir m) (fst (t_remove_all (installDir m) t2))),
                Some (''failed to extract update: '' @ e))
           | (t2, None) \<Rightarrow>
               (setState StateIdle m,
                fst (t_remove (tarballPath @ ''.sha256'')
                  (fst (t_remove tarballPath (make_executable (installDir m) t2)))),
                None)))"

definition ApplyUpdate :: "untar \<Rightarrow> string \<Rightarrow> bool \<Rightarrow> Manager \<Rightarrow> treefs \<Rightarrow> Manager \<times> treefs \<times> string option" where
  "ApplyUpdate untar tarballPath force m t =
     (let m1 = setState StateApplying m;
          t1 = fst (t_remove_all (backup_dir m) t) in
      if t_stat (installDir m) t1 = None then
        (case t_rename (installDir m) (backup_dir m) t1 of
           (t2, Some e) \<Rightarrow> (setError (ioerr_msg e) m1, t2, Some (''failed to create backup: '' @ ioerr_msg e))
         | (t2, None) \<Rightarrow> install_new untar tarballPath m1 t2)
      else install_new untar tarballPath m1 t1)"

definition Rollback :: "Manager \<Rightarrow> treefs \<Rightarrow> treefs \<times> string option" where
  "Rollback m t =
     (if t_stat (backup_dir m) t = Some NotExist then (t, Some ''no backup available'')
      else (case t_remove_all (installDir m) t of
          (t1, Some e) \<Rightarrow> (t1, Some (''failed to remove current installation: '' @ ioerr_msg e))
        | (t1, None) \<Rightarrow>
            (case t_rename (backup_dir m) (installDir m) t1 of
               (t2, Some e) \<Rightarrow> (t2, Some (''failed to restore backup: '' @ ioerr_msg e))
             | (t2, None) \<Rightarrow> (t2, None))))"

section \<open>The settings file\<close>

definition enc_settings :: "Settings \<Rightarrow> json" where
  "enc_settings s = JObj [(''auto_check'', JBool (AutoCheck s)), (''auto_download'', JBool (AutoDownload s)),
     (''auto_apply'', JBool (AutoApply s)), (''include_prereleases'', JBool (IncludePrereleases s)),
     (''check_interval_hours'', jint (CheckIntervalHours s)), (''include_patches'', JBool (IncludePatches s))]"

definition settings_fields :: "(string \<times> Settings decoder) list" where
  "settings_fields =
     [(''auto_check'', dec_bool (\<lambda>b s. s\<lparr>AutoCheck := b\<rparr>)),
      (''auto_download'', dec_bool (\<lambda>b s. s\<lparr>AutoDownload := b\<rparr>)),
      (''auto_apply'', dec_bool (\<lambda>b s. s\<lparr>AutoApply := b\<rparr>)),
      (''include_prereleases'', dec_bool (\<lambda>b s. s\<lparr>IncludePrereleases := b\<rparr>)),
      (''check_interval_hours'', dec_int (\<lambda>i s. s\<lparr>CheckIntervalHours := i\<rparr>)),
      (''include_patches'', dec_bool (\<lambda>b s. s\<lparr>IncludePatches := b\<rparr>))]"

definition zero_settings :: Settings where
  "zero_settings = \<lparr>AutoCheck = False, AutoDownload = False, AutoApply = False,
     IncludePrereleases = False, CheckIntervalHours = 0, IncludePatches = False\<rparr>"

definition settings_path :: "string \<Rightarrow> string" where
  "settings_path configDir = path_join [configDir, ''update-settings.json'']"

definition LoadSettings :: "string \<Rightarrow> fsys \<Rightarrow> Settings \<times> string option" where
  "LoadSettings configDir fs =
     (case os_read_file fs (settings_path configDir) of
        Inl NotExist \<Rightarrow> (DefaultSettings, None)
      | Inl e \<Rightarrow> (zero_settings, Some (ioerr_msg e))
      | Inr data \<Rightarrow>
          (case Unmarshal (dec_struct settings_fields) data zero_settings of
             (_, Some e) \<Rightarrow> (DefaultSettings, Some e)
           | (s, None) \<Rightarrow> (s, None)))"

definition SaveSettings :: "string \<Rightarrow> Settings \<Rightarrow> fsys \<Rightarrow> fsys \<times> string option" where
  "SaveSettings configDir settings fs =
     (case os_mkdir_all configDir fs of
        Some e \<Rightarrow> (fs, Some (ioerr_msg e))
      | None \<Rightarrow> map_prod id (map_option ioerr_msg)
          (os_write_file (settings_path configDir) (MarshalIndent (enc_settings settings)) fs))"

section \<open>Extraction stays in the installation\<close>

lemma clean_dir_long: "clean_dir d \<Longrightarrow> \<exists>c cs. d = slash # c # cs"
proof -
  assume d: "clean_dir d"
  obtain e es where "path_elems d = e # es" using clean_dirD(3) [OF d] by (cases "path_elems d") auto
  moreover have "plain_elem e" using clean_dirD(2) [OF d] calculation by simp
  ultimately have "d = slash # join ''/'' (e # es)" "e \<noteq> []"
    using clean_dirD(1) [OF d] by (simp_all add: path_of_def plain_elem_def)
  then show ?thesis by (cases e; cases es) auto
qed

lemma path_dir_outside:
  assumes "clean_dir d" and "clean_dir dest" and "n \<noteq> []"
    and out: "\<not> within d (path_join [dest, n])"
  shows "\<not> within d (path_dir (path_join [dest, n]))"
proof -
  obtain es where es: "path_join [dest, n] = path_of es" "list_all plain_elem es"
    using path_join_plain [OF assms(2,3)] .
  show ?thesis
  proof (cases es rule: rev_cases)
    case Nil
    then show ?thesis using out es path_dir_root by simp
  next
    case (snoc fs f)
    have dir: "path_dir (path_of es) = path_of fs" using path_dir_snoc es(2) snoc by simp
    show ?thesis
    proof (cases "fs = []")
      case True
      then show ?thesis using clean_dir_long [OF assms(1)] dir es(1)
        by (auto simp: path_of_def within_iff)
    next
      case False
      then have "path_of es = path_of fs @ slash # f" using snoc by (simp add: path_of_append) (simp add: path_of_def)
      then have "within (path_of fs) (path_of es)" by (simp add: within_iff)
      then show ?thesis using out dir es(1) within_trans by metis
    qed
  qed
qed

lemma extract_file_keeps:
  assumes "\<not> within d (path_dir target)" and "\<not> within d target"
  shows "keeps d t (fst (extract_file target h t))"
proof -
  obtain t1 e1 where 1: "t_mkdir_all (path_dir target) t = (t1, e1)" by fastforce
  obtain t2 e2 where 2: "t_create target t1 = (t2, e2)" by fastforce
  obtain t3 e3 where 3: "t_write target (tar_body h) t2 = (t3, e3)" by fastforce
  have "keeps d t t1" "keeps d t1 t2" "keeps d t2 t3"
    using keeps_mkdir [OF assms(1), of t] keeps_create [OF assms(2), of t1] keeps_write [OF assms(2), of t2 "tar_body h"] 1 2 3
    by simp_all
  moreover have "keeps d t3 (fst (t_chmod target m t3))" for m using keeps_chmod [OF assms(2)] .
  ultimately have k: "keeps d t t1" "keeps d t t2" "keeps d t t3" "keeps d t (fst (t_chmod target m t3))" for m
    by (meson keeps_trans)+
  then show ?thesis by (simp add: extract_file_def 1 2 3 split: option.split)
qed

text \<open>An entry whose place and the directory of its place are outside \<open>d\<close>.\<close>

definition avoids :: "string \<Rightarrow> string \<Rightarrow> tar_entry \<Rightarrow> bool" where
  "avoids d destDir h \<longleftrightarrow> tar_name (hdr_Name h) \<noteq> [] \<longrightarrow>
     \<not> within d (path_join [destDir, tar_name (hdr_Name h)]) \<and>
     \<not> within d (path_dir (path_join [destDir, tar_name (hdr_Name h)]))"

lemma extract_entry_keeps: "avoids d destDir h \<Longrightarrow> keeps d t (fst (extract_entry destDir h t))"
  using keeps_mkdir extract_file_keeps
  by (auto simp: extract_entry_def avoids_def Let_def split: tar_type.split prod.split option.split)
     (metis fst_conv)+

lemma extract_entries_keeps:
  "list_all (avoids d destDir) hs \<Longrightarrow> keeps d t (fst (extract_entries destDir hs t))"
proof (induction hs arbitrary: t)
  case (Cons h hs)
  obtain t1 e where 1: "extract_entry destDir h t = (t1, e)" by fastforce
  then have "keeps d t t1" using extract_entry_keeps [of d destDir h t] Cons.prems by simp
  then show ?case using Cons 1 keeps_trans by (auto split: option.split) 
qed simp

text \<open>Without \<open>..\<close> in its name an entry lands in the installation directory, not in the backup.\<close>

definition plain_entry :: "tar_entry \<Rightarrow> bool" where
  "plain_entry h \<longleftrightarrow> ''..'' \<notin> set (split_on slash (hdr_Name h))"

lemma index_char_split: "index_char s c = Some i \<Longrightarrow> s = take i s @ c # drop (i + 1) s"
  by (induction s arbitrary: i) (auto split: if_splits)

lemma tar_name_plain: "plain_entry h \<Longrightarrow> ''..'' \<notin> set (split_on slash (tar_name (hdr_Name h)))"
proof (cases "index_char (hdr_Name h) slash")
  case (Some i)
  let ?s = "hdr_Name h"
  have "split_on slash ?s = split_on slash (take i ?s) @ split_on slash (drop (i + 1) ?s)"
    by (subst index_char_split [OF Some]) (rule split_on_append_sep)
  then show "plain_entry h \<Longrightarrow> ?thesis" by (simp add: plain_entry_def tar_name_def Some)
qed (simp add: plain_entry_def tar_name_def)

lemma backup_clean: "clean_dir d \<Longrightarrow> clean_dir (d @ ''.backup'')"
proof -
  assume d: "clean_dir d"
  obtain es e where es: "path_elems d = es @ [e]" using clean_dirD(3) [OF d] by (metis rev_exhaust)
  have plain: "list_all plain_elem (es @ [e])" using clean_dirD(2) [OF d] unfolding es .
  have "d = path_of (es @ [e])" using clean_dirD(1) [OF d] unfolding es .
  then have b: "d @ ''.backup'' = path_of (es @ [e @ ''.backup''])"
    by (cases "es = []") (simp_all add: path_of_def join_append)
  have "plain_elem (e @ ''.backup'')" using plain by (auto simp: plain_elem_def append_eq_Cons_conv)
  then have "list_all plain_elem (es @ [e @ ''.backup''])" using plain by simp
  then show ?thesis unfolding b clean_dir_def by (simp add: path_elems_path_of)
qed

lemma backup_apart: "\<not> within d (d @ ''.backup'')" "\<not> within (d @ ''.backup'') d"
  using sibling_apart [of "''.backup''" d] by simp_all

lemma plain_entry_inside:
  assumes "clean_dir d" and "plain_entry h" and "tar_name (hdr_Name h) \<noteq> []"
  shows "within d (path_join [d, tar_name (hdr_Name h)])"
  using path_join_inside [OF assms(1,3) tar_name_plain [OF assms(2)]] by (auto simp: within_iff)

lemma plain_entry_avoids:
  assumes "clean_dir d" and "plain_entry h"
  shows "avoids (d @ ''.backup'') d h"
proof -
  have "\<not> within (d @ ''.backup'') p" if "within d p" for p
    using that within_comparable backup_apart by blast
  then show ?thesis
    using plain_entry_inside [OF assms] path_dir_outside [OF backup_clean [OF assms(1)] assms(1)]
    by (simp add: avoids_def)
qed

section \<open>The old installation is never lost\<close>

definition plain_archive :: "untar \<Rightarrow> bool" where
  "plain_archive untar \<longleftrightarrow>
     (\<forall>data hs err. untar data = Inr (hs, err) \<longrightarrow> list_all plain_entry hs)"

lemma extractTarball_keeps:
  assumes "clean_dir d" and "plain_archive untar"
  shows "keeps (d @ ''.backup'') t (fst (extractTarball untar tarballPath d t))"
proof -
  have "keeps (d @ ''.backup'') t (fst (extract_entries d hs t))" if "untar data = Inr (hs, err)" for data hs err
    using assms(2) that plain_entry_avoids [OF assms(1)]
    by (intro extract_entries_keeps) (fastforce simp: list_all_iff plain_archive_def)
  then show ?thesis by (auto simp: extractTarball_def split: sum.split prod.split option.split) (metis fst_conv)+
qed

lemma make_executable_keeps:
  assumes "clean_dir d"
  shows "keeps (d @ ''.backup'') t (make_executable d t)"
proof -
  have in_d: "within d (path_join [d, ''skeys-app''])" "within d (path_join [d, ''skeys-daemon''])"
    using path_join_inside [OF assms, of "''skeys-app''"] path_join_inside [OF assms, of "''skeys-daemon''"]
    by (auto simp: within_iff split_on_def)
  have "\<not> within (d @ ''.backup'') p" if "within d p" for p
    using that within_comparable backup_apart by blast
  then have "keeps (d @ ''.backup'') t (fst (t_chmod p 493 t))" if "within d p" for p t
    using that keeps_chmod by blast
  from this [OF in_d(1), of t] this [OF in_d(2), of "fst (t_chmod (path_join [d, ''skeys-app'']) 493 t)"]
  show ?thesis by (simp add: make_executable_def keeps_def)
qed

lemma install_new_keeps:
  assumes cd: "clean_dir (installDir m)"
    and ar: "plain_archive untar"
    and out: "\<not> within (backup_dir m) tarballPath" "\<not> within (backup_dir m) (tarballPath @ ''.sha256'')"
    and run: "install_new untar tarballPath m t = (m', t', e)"
  shows "keeps (backup_dir m) t t' \<or> e \<noteq> None \<and> same_tree (backup_dir m) t (installDir m) t'"
proof -
  let ?d = "installDir m" and ?b = "backup_dir m"
  have b: "?b = ?d @ ''.backup''" by (simp add: backup_dir_def)
  have apart: "\<not> within ?b ?d" "\<not> within ?d ?b" unfolding b by (rule backup_apart)+
  have undo: "keeps ?b t (fst (t_rename ?b ?d s)) \<or> same_tree ?b t ?d (fst (t_rename ?b ?d s))" if "keeps ?b t s" for s
  proof -
    obtain s' r where r: "t_rename ?b ?d s = (s', r)" by fastforce
    show ?thesis
    proof (cases r)
      case None
      then have "same_tree ?b s ?d s'" using r rename_moves by blast
      then show ?thesis using keeps_same_tree_trans [OF that] r by simp
    next
      case (Some e)
      then have "s' = s" using r rename_failed by blast
      then show ?thesis using that r by simp
    qed
  qed
  obtain t1 e1 where 1: "t_mkdir_all ?d t = (t1, e1)" by fastforce
  obtain t2 e2 where 2: "extractTarball untar tarballPath ?d t1 = (t2, e2)" by fastforce
  have k1: "keeps ?b t t1" using keeps_mkdir [OF apart(1), of t] 1 by simp
  have "keeps ?b t1 t2"
    using extractTarball_keeps [OF cd ar, where tarballPath = tarballPath and t = t1] 2 b by simp
  then have k2: "keeps ?b t t2" by (rule keeps_trans [OF k1])
  have k3: "keeps ?b t (fst (t_remove_all ?d t2))"
    by (rule keeps_trans [OF k2 keeps_remove_all [OF apart]])
  have "keeps ?b t2 (make_executable ?d t2)" using make_executable_keeps [OF cd] b by simp
  then have "keeps ?b t (make_executable ?d t2)" by (rule keeps_trans [OF k2])
  then have "keeps ?b t (fst (t_remove tarballPath (make_executable ?d t2)))"
    by (rule keeps_trans [OF _ keeps_remove [OF out(1)]])
  then have k4: "keeps ?b t (fst (t_remove (tarballPath @ ''.sha256'') (fst (t_remove tarballPath (make_executable ?d t2)))))"
    by (rule keeps_trans [OF _ keeps_remove [OF out(2)]])
  show ?thesis using run undo [OF k1] undo [OF k3] k4
    by (auto simp: install_new_def 1 2 split: option.splits)
qed

lemma stat_present: "look t p \<noteq> None \<Longrightarrow> \<not> refuse t (CStat p) \<Longrightarrow> t_stat p t = None"
  by (auto simp: t_stat_def)

text \<open>
  C36. For an archive whose names have no \<open>..\<close> element, an installed program is never lost, whatever
  call the operating system refuses on the way (the first \<open>Stat\<close> apart) and however the archive ends:
  after \<open>ApplyUpdate\<close> the whole old installation is either in place again or in the backup directory,
  and in the backup directory when the update succeeded; \<open>Rollback\<close> then puts it back in place, or
  leaves it in the backup directory and says so.
\<close>

theorem old_installation_kept:
  assumes cd: "clean_dir (installDir m)" and inst: "look t (installDir m) \<noteq> None"
    and stat: "\<not> refuse t (CStat (installDir m))"
    and ar: "plain_archive untar"
    and out: "\<not> within (backup_dir m) tarballPath" "\<not> within (backup_dir m) (tarballPath @ ''.sha256'')"
    and run: "ApplyUpdate untar tarballPath force m t = (m', t', e)"
  shows "(e \<noteq> None \<longrightarrow> same_tree (installDir m) t (installDir m) t' \<or> same_tree (installDir m) t (backup_dir m) t') \<and>
    (e = None \<longrightarrow> same_tree (installDir m) t (backup_dir m) t' \<and>
       (case Rollback m t' of
          (t'', None) \<Rightarrow> same_tree (installDir m) t (installDir m) t''
        | (t'', Some _) \<Rightarrow> same_tree (installDir m) t (backup_dir m) t''))"
proof -
  let ?d = "installDir m" and ?b = "backup_dir m" and ?m = "setState StateApplying m"
  have b: "?b = ?d @ ''.backup''" by (simp add: backup_dir_def)
  have apart: "\<not> within ?b ?d" "\<not> within ?d ?b" unfolding b by (rule backup_apart)+
  have m: "installDir ?m = ?d" "backup_dir ?m = ?b" by (simp_all add: setState_def backup_dir_def)
  define t1 where "t1 = fst (t_remove_all ?b t)"
  have k1: "keeps ?d t t1" unfolding t1_def using keeps_remove_all [OF apart(2,1)] .
  then have s1: "t_stat ?d t1 = None"
    using inst stat keeps_look [OF k1] by (intro stat_present) (simp_all add: t1_def)
  obtain t2 e2 where 2: "t_rename ?d ?b t1 = (t2, e2)" by fastforce
  show ?thesis
  proof (cases e2)
    case (Some err)
    then have "t' = t1 \<and> e \<noteq> None"
      using run s1 2 rename_failed [of ?d ?b t1 t2 err] by (auto simp: ApplyUpdate_def t1_def [symmetric] Let_def)
    then show ?thesis using k1 keeps_same_tree by blast
  next
    case None
    have moved: "same_tree ?d t ?b t2"
      using rename_moves [of ?d ?b t1 t2] 2 None k1 keeps_same_tree_trans by blast
    have run2: "install_new untar tarballPath ?m t2 = (m', t', e)"
      using run s1 2 None by (simp add: ApplyUpdate_def t1_def [symmetric] Let_def)
    have kept: "keeps ?b t2 t' \<or> e \<noteq> None \<and> same_tree ?b t2 ?d t'"
      using install_new_keeps [OF _ _ _ _ run2] cd ar out m by auto
    then have main: "same_tree ?d t ?b t' \<or> e \<noteq> None \<and> same_tree ?d t ?d t'"
      using moved same_tree_keeps same_tree_trans by blast
    have "case Rollback m t' of (t'', None) \<Rightarrow> same_tree ?d t ?d t'' | (t'', Some _) \<Rightarrow> same_tree ?d t ?b t''"
      if "same_tree ?d t ?b t'"
    proof -
      obtain t3 e3 where 3: "t_remove_all ?d t' = (t3, e3)" by fastforce
      obtain t4 e4 where 4: "t_rename ?b ?d t3 = (t4, e4)" by fastforce
      have "same_tree ?d t ?b t3"
        using keeps_remove_all [OF apart, of t'] 3 that same_tree_keeps by (metis fst_conv)
      moreover have "e4 = None \<Longrightarrow> same_tree ?b t3 ?d t4" using rename_moves 4 by blast
      moreover have "e4 \<noteq> None \<Longrightarrow> t4 = t3" using rename_failed 4 by blast
      ultimately show ?thesis using that same_tree_trans
        by (auto simp: Rollback_def 3 4 split: option.split)
    qed
    with main show ?thesis by (cases "e = None") auto
  qed
qed

lemma index_char_skip: "c \<notin> set s \<Longrightarrow> index_char (s @ c # r) c = Some (length s)"
  by (induction s) auto

text \<open>
  The check against path traversal compares names as texts: an entry that goes up and into the
  sibling directory \<open>.backup\<close> passes it, so an archive can write into the very directory that a
  failed update is rolled back from.
\<close>

theorem tar_check_admits_backup:
  assumes cd: "clean_dir d" and lead: "slash \<notin> set lead" and fs: "list_all plain_elem fs" "fs \<noteq> []"
  shows "\<exists>name. tar_name (lead @ slash # name) = name \<and>
    path_join [d, name] = d @ ''.backup'' @ path_of fs \<and> tar_allowed d (path_join [d, name]) \<and>
    within (d @ ''.backup'') (path_join [d, name])"
proof -
  let ?e = "last (path_elems d) @ ''.backup''"
  let ?name = "join ''/'' (''..'' # ?e # fs)"
  have last: "plain_elem (last (path_elems d))"
    using clean_dirD(2,3) [OF cd] by (auto simp: list_all_iff)
  then have e: "plain_elem ?e" by (auto simp: plain_elem_def append_eq_Cons_conv)
  have target: "path_join [d, ?name] = d @ ''.backup'' @ path_of fs"
    using path_join_sibling [OF cd e fs(1)] fs(2) by simp
  have "path_rooted (path_join [d, ?name])"
    using cd path_rooted_append [of d] unfolding target by (simp add: clean_dir_def)
  moreover have "path_join [d, ?name] = path_clean (d @ slash # ?name)"
    using clean_dirD(4) [OF cd] by (simp add: path_join_def)
  moreover have "path_rooted (d @ slash # ?name)" using cd path_rooted_append by (simp add: clean_dir_def)
  ultimately have "path_clean (path_join [d, ?name]) = path_join [d, ?name]"
    using path_clean_idem by metis
  moreover have "has_prefix (path_join [d, ?name]) d" unfolding target by simp
  ultimately have "tar_allowed d (path_join [d, ?name])"
    using clean_dirD(5) [OF cd] unfolding tar_allowed_def by metis
  moreover have "tar_name (lead @ slash # ?name) = ?name"
    using index_char_skip [OF lead] by (simp add: tar_name_def)
  moreover have "within (d @ ''.backup'') (path_join [d, ?name])"
    unfolding target within_iff path_of_def by simp
  ultimately show ?thesis using target by blast
qed

definition demo_tree :: treefs where
  "demo_tree = \<lparr>nodes = [(''/s'', Dir), (''/s/a'', File ''good'' 493), (''/u.gz'', File ''z'' 420)],
     refuse = (\<lambda>_. False), spare = (\<lambda>_. False), short = (\<lambda>_. 0)\<rparr>"

definition demo_manager_upd :: Manager where
  "demo_manager_upd = NewManager_upd ''0.1.0'' ''/s'' ''/c''"

definition evil_archive :: untar where
  "evil_archive data = Inr ([\<lparr>hdr_Name = ''x/../s.backup/a'', hdr_Typeflag = TypeReg, hdr_Mode = 493,
     tar_body = ''evil'', tar_body_error = None\<rparr>], Some ''unexpected EOF'')"

theorem tar_check_admits_backup_witness:
  "(\<exists>name. tar_name (''x/'' @ name) = name \<and> path_join [''/s'', name] = ''/s.backup/a'' \<and>
      tar_allowed ''/s'' (path_join [''/s'', name])) \<and>
   (case ApplyUpdate evil_archive ''/u.gz'' False demo_manager_upd demo_tree of
      (m', t', e) \<Rightarrow> e \<noteq> None \<and> look t' ''/s/a'' = Some (File ''evil'' 493))"
proof
  have "clean_dir ''/s''"
    by (simp add: clean_dir_def path_rooted_def has_prefix_def path_clean_def path_elems_def split_on_def)
  then obtain name where "tar_name (''x'' @ slash # name) = name" "path_join [''/s'', name] = ''/s'' @ ''.backup'' @ path_of [''a'']"
      "tar_allowed ''/s'' (path_join [''/s'', name])"
    using tar_check_admits_backup [of "''/s''" "''x''" "[''a'']"] by (auto simp: plain_elem_def)
  then show "\<exists>name. tar_name (''x/'' @ name) = name \<and> path_join [''/s'', name] = ''/s.backup/a'' \<and>
      tar_allowed ''/s'' (path_join [''/s'', name])"
    by (auto simp: path_of_def)
  show "case ApplyUpdate evil_archive ''/u.gz'' False demo_manager_upd demo_tree of
      (m', t', e) \<Rightarrow> e \<noteq> None \<and> look t' ''/s/a'' = Some (File ''evil'' 493)"
    by code_simp
qed

section \<open>Downloads\<close>

lemma copy_body_ok:
  "copy_body speed dest n d cs t = (t', rs, None) \<Longrightarrow> look t dest = Some (File c0 m) \<Longrightarrow>
     look t' dest = Some (File (c0 @ concat cs) m)"
  by (induction speed dest n d cs t arbitrary: t' rs c0 rule: copy_body.induct)
     (fastforce simp: Let_def t_write_def split: if_splits prod.splits option.splits)+

lemma t_write_other: "q \<noteq> p \<Longrightarrow> look (fst (t_write p s t)) q = look t q"
  by (auto simp: t_write_def split: option.split node.split)

lemma copy_body_other: "q \<noteq> dest \<Longrightarrow> look (fst (copy_body speed dest n d cs t)) q = look t q"
proof (induction cs arbitrary: d t)
  case (Cons c cs)
  obtain t' e where w: "t_write dest c t = (t', e)" by fastforce
  then have "look t' q = look t q" using t_write_other [OF Cons.prems, of c t] by simp
  then show ?case using Cons w by (auto simp: Let_def split: option.split prod.split) (metis fst_conv)+
qed simp

lemma create_ok: "t_create p t = (t', None) \<Longrightarrow> \<exists>m. look t' p = Some (File [] m)"
  by (auto simp: t_create_def split: if_splits option.splits node.splits)

lemma create_other: "q \<noteq> p \<Longrightarrow> look (fst (t_create p t)) q = look t q"
  by (auto simp: t_create_def split: option.split node.split)

lemma downloadFile_ok:
  assumes "downloadFile http speed url dest n t = (t', rs, None)"
  shows "\<exists>resp m. http url = Inr resp \<and> StatusCode resp = 200 \<and> body_error resp = None \<and>
    look t' dest = Some (File (concat (body_chunks resp)) m)"
proof -
  obtain resp where h: "http url = Inr resp" and s: "StatusCode resp = 200"
    using assms by (auto simp: downloadFile_def split: sum.splits if_splits)
  obtain t1 e1 where c: "t_create dest t = (t1, e1)" by fastforce
  then have e1: "e1 = None" using assms h s by (cases e1) (auto simp: downloadFile_def Let_def)
  obtain t2 rs2 e2 where b: "copy_body speed dest (if ContentLength resp \<le> 0 \<and> n > 0 then n else ContentLength resp)
      0 (body_chunks resp) t1 = (t2, rs2, e2)" by (metis prod.exhaust)
  have r: "e2 = None" "body_error resp = None" "t' = t2"
    using assms h s c e1 b by (cases e2; simp add: downloadFile_def Let_def)+
  obtain m where "look t1 dest = Some (File [] m)" using create_ok c e1 by blast
  then have "look t2 dest = Some (File (concat (body_chunks resp)) m)"
    using copy_body_ok [of speed dest _ 0 "body_chunks resp" t1 t2 rs2 "[]" m] b r(1) by auto
  then show ?thesis using h s r by blast
qed

lemma downloadFile_other: "q \<noteq> dest \<Longrightarrow> look (fst (downloadFile http speed url dest n t)) q = look t q"
proof (cases "http url")
  case (Inr resp)
  assume q: "q \<noteq> dest"
  obtain t1 e1 where c: "t_create dest t = (t1, e1)" by fastforce
  obtain t2 rs e2 where b: "copy_body speed dest (if ContentLength resp \<le> 0 \<and> n > 0 then n else ContentLength resp)
      0 (body_chunks resp) t1 = (t2, rs, e2)" by (metis prod.exhaust)
  have "look t1 q = look t q" "look t2 q = look t1 q"
    using create_other [OF q, of t] c copy_body_other [OF q, of speed _ 0 "body_chunks resp" t1] b by (metis fst_conv)+
  then show ?thesis using Inr c b by (cases e1; cases e2) (simp_all add: downloadFile_def Let_def)
qed (simp add: downloadFile_def)

lemma verify_ok:
  assumes "verifyChecksum sha p q t = None" and "look t q = Some (File ck ms)" and "look t p = Some (File body mb)"
  shows "str_fields ck \<noteq> [] \<and> sha body = to_lower (hd (str_fields ck))"
  using assms by (auto simp: verifyChecksum_def t_read_file_def Let_def split: if_splits list.splits)

lemma remove_gone: "\<not> refuse t (CRemove p) \<Longrightarrow> look t p = Some (File c m) \<Longrightarrow> look (fst (t_remove p t)) p = None"
  by (simp add: t_remove_def)

lemma remove_still_gone: "look t p = None \<Longrightarrow> look (fst (t_remove q t)) p = None"
  by (auto simp: t_remove_def split: option.split)

definition download_verified :: "http \<Rightarrow> (int \<Rightarrow> int) \<Rightarrow> (string \<Rightarrow> string) \<Rightarrow> string \<Rightarrow> string \<Rightarrow> string \<Rightarrow> bool" where
  "download_verified http speed sha url p body \<longleftrightarrow>
     (\<exists>ck. http (url @ ''.sha256'') = Inr ck \<and> StatusCode ck = 200 \<and>
        str_fields (concat (body_chunks ck)) \<noteq> [] \<and>
        sha body = to_lower (hd (str_fields (concat (body_chunks ck))))) \<or>
     (\<exists>t err. snd (snd (downloadFile http speed (url @ ''.sha256'') (p @ ''.sha256'') 0 t)) = Some err)"


section \<open>The check\<close>

lemma split_no_plus: "CHR ''+'' \<notin> set s \<Longrightarrow> splitBuildMetadata s = (s, [])"
proof -
  have "CHR ''+'' \<notin> set s \<Longrightarrow> index_char s CHR ''+'' = None" by (induction s) auto
  then show "CHR ''+'' \<notin> set s \<Longrightarrow> splitBuildMetadata s = (s, [])" by (simp add: splitBuildMetadata_def)
qed

lemma same_number_numeric:
  "snd (atoi x) = None \<Longrightarrow> snd (atoi y) = None \<Longrightarrow> same_number x y \<longleftrightarrow> fst (atoi x) = fst (atoi y)"
  by (cases "atoi x"; cases "atoi y") (simp add: same_number_def)

lemma isPatchUpdate_numeric:
  assumes "numeric_version a" "numeric_version b" "CHR ''+'' \<notin> set a" "CHR ''+'' \<notin> set b"
    and "2 \<le> length (version_nums a)" "2 \<le> length (version_nums b)"
  shows "isPatchUpdate a b \<longleftrightarrow> take 2 (version_nums a) = take 2 (version_nums b)"
proof -
  have np: "CHR ''+'' \<notin> set (trim_prefix v ''v'')" if "CHR ''+'' \<notin> set v" for v
    using that by (auto simp: trim_prefix_def dest: in_set_dropD)
  obtain a1 a2 as where a: "version_parts a = a1 # a2 # as"
    using assms(5) by (auto simp: version_nums_def numeral_2_eq_2 Suc_le_length_iff)
  obtain b1 b2 bs where b: "version_parts b = b1 # b2 # bs"
    using assms(6) by (auto simp: version_nums_def numeral_2_eq_2 Suc_le_length_iff)
  have num: "snd (atoi x) = None" if "x \<in> {a1, a2, b1, b2}" for x
    using that assms(1,2) by (auto simp: numeric_version_def a b)
  show ?thesis
    using a b num np assms(3,4)
    by (auto simp: isPatchUpdate_def split_no_plus Let_def same_number_numeric version_nums_def
        simp flip: version_parts_def)
qed

text \<open>
  For numeric versions of at least two parts, the check reports a release exactly if its number
  is greater than the running one's in the lexicographic order and, where patches are not wanted, the
  first two numbers differ; only then is the manager in the state "update available", with that
  release.
\<close>

theorem check_reports_newer:
  assumes "fetchLatestRelease http rfc3339 pre = Inr release"
    and "tag = trim_prefix (TagName release) ''v''" and "current = trim_prefix (currentVersion m) ''v''"
    and num: "numeric_version tag" "numeric_version current" "CHR ''+'' \<notin> set tag" "CHR ''+'' \<notin> set current"
    and len: "2 \<le> length (version_nums tag)" "2 \<le> length (version_nums current)"
    and run: "CheckForUpdates http rfc3339 now pre patches m = (m', r)"
  shows "(r = Inr (Some release) \<longleftrightarrow> version_nums current < version_nums tag \<and>
      (patches \<or> take 2 (version_nums current) \<noteq> take 2 (version_nums tag))) \<and>
    (r = Inr (Some release) \<longrightarrow> st_State (status m') = StateUpdateAvailable \<and> AvailableUpdate (status m') = Some release) \<and>
    (r \<noteq> Inr (Some release) \<longrightarrow> r = Inr None \<and> st_State (status m') = StateIdle) \<and>
    LastCheck (status m') = Some now"
  using run isPatchUpdate_numeric [OF num(2,1,4,3) len(2,1)] newer_version_nums [OF num(1,2)] assms(1-3)
  by (auto simp: CheckForUpdates_def Let_def setState_def split: if_splits)

section \<open>Settings\<close>

lemma find_settings_simps:
  "find_field settings_fields ''auto_check'' = Some (dec_bool (\<lambda>b s. s\<lparr>AutoCheck := b\<rparr>))"
  "find_field settings_fields ''auto_download'' = Some (dec_bool (\<lambda>b s. s\<lparr>AutoDownload := b\<rparr>))"
  "find_field settings_fields ''auto_apply'' = Some (dec_bool (\<lambda>b s. s\<lparr>AutoApply := b\<rparr>))"
  "find_field settings_fields ''include_prereleases'' = Some (dec_bool (\<lambda>b s. s\<lparr>IncludePrereleases := b\<rparr>))"
  "find_field settings_fields ''check_interval_hours'' = Some (dec_int (\<lambda>i s. s\<lparr>CheckIntervalHours := i\<rparr>))"
  "find_field settings_fields ''include_patches'' = Some (dec_bool (\<lambda>b s. s\<lparr>IncludePatches := b\<rparr>))"
  by (simp_all add: find_field_def settings_fields_def)

lemma decode_settings:
  "int64 (CheckIntervalHours s) \<Longrightarrow>
     Unmarshal (dec_struct settings_fields) (MarshalIndent (enc_settings s)) zero_settings = (s, None)"
  by (cases s)
     (simp add: enc_settings_def Unmarshal_MarshalIndent dec_member_known find_settings_simps zero_settings_def)

text \<open>
  Settings that were saved are loaded back, whatever was in the file before.  The file is written
  in place: when nothing arrives after it was truncated, saving fails and the next load gives the
  default settings with an error, so the old settings are gone.
\<close>

theorem settings_roundtrip:
  assumes "int64 (CheckIntervalHours s)" and "\<not> read_denied fs (settings_path dir)" and "\<not> mkdir_denied fs dir"
  shows "(snd (SaveSettings dir s fs) = None \<longrightarrow> LoadSettings dir (fst (SaveSettings dir s fs)) = (s, None)) \<and>
    (write_fault_at fs (settings_path dir) = WShort 0 \<longrightarrow> snd (SaveSettings dir s fs) \<noteq> None \<and>
       (\<exists>e. LoadSettings dir (fst (SaveSettings dir s fs)) = (DefaultSettings, Some e)))"
proof (intro conjI impI)
  let ?w = "os_write_file (settings_path dir) (MarshalIndent (enc_settings s)) fs"
  have save: "SaveSettings dir s fs = map_prod id (map_option ioerr_msg) ?w"
    using assms(3) by (simp add: SaveSettings_def os_mkdir_all_def)
  {
    assume "snd (SaveSettings dir s fs) = None"
    then obtain fs' where w: "?w = (fs', None)" unfolding save by (cases ?w) auto
    then have "os_read_file fs' (settings_path dir) = Inr (MarshalIndent (enc_settings s))"
      using osfs.load_store assms(2) by blast
    then show "LoadSettings dir (fst (SaveSettings dir s fs)) = (s, None)"
      using decode_settings [OF assms(1)] w by (simp add: LoadSettings_def save)
  }
  assume "write_fault_at fs (settings_path dir) = WShort 0"
  then have w: "?w = (set_file (settings_path dir) [] fs, Some IOFail)" by (simp add: os_write_file_def)
  have "parse_json [] = None" by (simp add: parse_json_def first_json_def)
  then show "snd (SaveSettings dir s fs) \<noteq> None" "\<exists>e. LoadSettings dir (fst (SaveSettings dir s fs)) = (DefaultSettings, Some e)"
    using assms(2) by (simp_all add: save w LoadSettings_def os_read_file_def Unmarshal_def)
qed

theorem settings_roundtrip_witness:
  "LoadSettings ''/c'' (fst (SaveSettings ''/c'' (DefaultSettings\<lparr>CheckIntervalHours := 6\<rparr>) (fs_with []))) =
     (DefaultSettings\<lparr>CheckIntervalHours := 6\<rparr>, None)"
  using settings_roundtrip [of "DefaultSettings\<lparr>CheckIntervalHours := 6\<rparr>" "fs_with []" "''/c''"]
  by (simp add: int64_def SaveSettings_def os_mkdir_all_def os_write_file_def)

theorem old_installation_kept_witness:
  "same_tree ''/s'' demo_tree ''/s.backup'' (fst (snd (ApplyUpdate (\<lambda>_. Inr ([], None)) ''/u.gz'' False demo_manager_upd demo_tree)))"
proof -
  have cd: "clean_dir ''/s''"
    by (simp add: clean_dir_def path_rooted_def has_prefix_def path_clean_def path_elems_def split_on_def)
  obtain m' t' e where run: "ApplyUpdate (\<lambda>_. Inr ([], None)) ''/u.gz'' False demo_manager_upd demo_tree = (m', t', e)"
    by (metis prod.exhaust)
  moreover have "snd (snd (ApplyUpdate (\<lambda>_. Inr ([], None)) ''/u.gz'' False demo_manager_upd demo_tree)) = None"
    by code_simp
  ultimately have e: "e = None" by simp
  have d: "installDir demo_manager_upd = ''/s''" "backup_dir demo_manager_upd = ''/s.backup''"
    by (simp_all add: demo_manager_upd_def NewManager_upd_def backup_dir_def)
  have t: "look demo_tree ''/s'' \<noteq> None" "\<not> refuse demo_tree (CStat ''/s'')" "plain_archive (\<lambda>_. Inr ([], None))"
    by (simp_all add: demo_tree_def look_def plain_archive_def)
  have "same_tree (installDir demo_manager_upd) demo_tree (backup_dir demo_manager_upd) t'"
    using old_installation_kept [OF _ _ _ _ _ _ run] cd t e by (simp add: d within_iff)
  then show ?thesis by (simp add: d run)
qed

definition demo_release :: ReleaseInfo where
  "demo_release = zero_release\<lparr>TagName := ''v0.2.0'',
     Assets := [\<lparr>asset_Name = ''skeys-v0.2.0-linux-x64.tar.gz'', asset_Size = 1, BrowserDownloadURL = ''u''\<rparr>]\<rparr>"

definition demo_http :: http where
  "demo_http url = (if url = ''u'' then Inr \<lparr>StatusCode = 200, StatusLine = [], ContentLength = 1,
     body_chunks = [''z''], body_error = None\<rparr> else Inl ''offline'')"


theorem check_reports_newer_witness:
  "snd (CheckForUpdates (\<lambda>_. Inr \<lparr>StatusCode = 200, StatusLine = [], ContentLength = 0,
       body_chunks = [''{'', [dquote] @ ''tag_name'' @ [dquote], '':'' @ [dquote] @ ''v0.1.1'' @ [dquote] @ ''}''], body_error = None\<rparr>)
     (\<lambda>_. None) 7 False False demo_manager_upd) = Inr None"
proof -
  let ?http = "\<lambda>_. Inr \<lparr>StatusCode = 200, StatusLine = [], ContentLength = 0,
       body_chunks = [''{'', [dquote] @ ''tag_name'' @ [dquote], '':'' @ [dquote] @ ''v0.1.1'' @ [dquote] @ ''}''], body_error = None\<rparr>"
  let ?r = "zero_release\<lparr>TagName := ''v0.1.1''\<rparr>"
  have fetch: "fetchLatestRelease ?http (\<lambda>_. None) False = Inr ?r" by code_simp
  have parts: "version_parts ''0.1.1'' = [''0'', ''1'', ''1'']" "version_parts ''0.1.0'' = [''0'', ''1'', ''0'']"
    by (simp_all add: version_parts_def split_on_def trim_prefix_def has_prefix_def)
  have nums: "version_nums ''0.1.1'' = [0, 1, 1]" "version_nums ''0.1.0'' = [0, 1, 0]"
    "numeric_version ''0.1.1''" "numeric_version ''0.1.0''"
    unfolding numeric_version_def version_nums_def parts
    by (simp_all add: atoi_def atoi_signed_def is_digit_def digit_val_def)
  have tags: "''0.1.1'' = trim_prefix (TagName ?r) ''v''" "''0.1.0'' = trim_prefix (currentVersion demo_manager_upd) ''v''"
    by (simp_all add: trim_prefix_def has_prefix_def demo_manager_upd_def NewManager_upd_def)
  obtain m' r where run: "CheckForUpdates ?http (\<lambda>_. None) 7 False False demo_manager_upd = (m', r)" by fastforce
  have "r = Inr None"
    using check_reports_newer [OF fetch tags nums(3,4) _ _ _ _ run] by (simp add: nums)
  with run show ?thesis by (metis snd_conv)
qed

end
