(* ===== verification/Grpc.thy ===== *)
theory Grpc
  imports Broadcast
begin

text \<open>
  What the gRPC adapters (\<open>skeys-daemon/internal/adapter\<close>) share: the error of a request with its code, the
  32-bit integers and time stamps of the messages, and the loop of the \<open>Watch\<close> methods.

  A request is answered by \<open>Inr\<close> a message or \<open>Inl\<close> an error.  A message is a record with the fields of the proto file that the
  adapter sets or reads; a time stamp is in nanoseconds.
\<close>

datatype grpc_code = CodeUnknown | InvalidArgument | NotFound | Internal | FailedPrecondition | Unimplemented

type_synonym 'a rpc = "(grpc_code \<times> string) + 'a"

definition to_int32 :: "int \<Rightarrow> int" where
  "to_int32 i = signed_take_bit 31 i"

definition int32 :: "int \<Rightarrow> bool" where
  "int32 i \<longleftrightarrow> - 2147483648 \<le> i \<and> i < 2147483648"

lemma to_int32_id [simp]: "int32 i \<Longrightarrow> to_int32 i = i"
  by (simp add: to_int32_def int32_def signed_take_bit_int_eq_self)

lemma int32_to_int32 [simp]: "int32 (to_int32 i)"
  using signed_take_bit_int_greater_eq_minus_exp [of 31 i] signed_take_bit_int_less_exp [of 31 i]
  by (simp add: to_int32_def int32_def)

definition unix_time :: "int \<Rightarrow> int" where
  "unix_time s = s * 1000000000"

text \<open>
  The loop of a \<open>Watch\<close> method: an update with an error ends the stream with it, any other is translated and
  sent; a failed send ends the stream.  Each update comes with the result of its send.
\<close>

fun send_updates :: "string \<Rightarrow> ('v \<Rightarrow> 'r) \<Rightarrow> ((string, 'v) update \<times> string option) list \<Rightarrow> 'r list \<times> (grpc_code \<times> string) option" where
  "send_updates what f [] = ([], None)"
| "send_updates what f ((UErr e, s) # us) = ([], Some (Internal, what @ '': '' @ e))"
| "send_updates what f ((UVal v, Some s) # us) = ([], Some (CodeUnknown, s))"
| "send_updates what f ((UVal v, None) # us) = (case send_updates what f us of (rs, e) \<Rightarrow> (f v # rs, e))"

end
