(* ===== verification/HostKeys.thy ===== *)
theory HostKeys
  imports FileSystem Paths
begin

text \<open>
  Host key verification (\<open>remote/hostkey.go\<close>) and the connection test (\<open>TestConnection\<close> of
  \<open>remote/connection.go\<close>).

  The record \<open>ssh_env\<close> holds what the code takes from elsewhere: the home directory, the parser and
  the line format of \<open>x/crypto/ssh/knownhosts\<close>, the key formats of \<open>x/crypto/ssh\<close>, SHA-256 and
  base64, and the network: \<open>en_scan\<close> is the key that a server presents to the probe, \<open>en_present\<close> the
  one it presents to the connection (they may differ), \<open>en_auth\<close> how authentication with the given
  methods ends; \<open>en_agent\<close> says whether an agent listens on a socket and \<open>en_signers\<close> what it answers
  when a signers callback asks it.  The known_hosts file is a file of the model's file system.
\<close>

datatype kh_verdict = KhOk | KhKeyError "string list" | KhOther string

datatype 'sg auth_method = PublicKeys 'sg | PublicKeysCallback "string + 'sg list"

record ('pk, 'sg) ssh_env =
  en_home :: "string + string"
  en_known_hosts :: "string \<Rightarrow> string + (string \<Rightarrow> 'pk \<Rightarrow> kh_verdict)"
  en_line :: "string \<Rightarrow> 'pk \<Rightarrow> string"
  en_Marshal :: "'pk \<Rightarrow> string"
  en_Type :: "'pk \<Rightarrow> string"
  en_ParsePublicKey :: "string \<Rightarrow> string + 'pk"
  en_ParsePrivateKey :: "string \<Rightarrow> string \<Rightarrow> string + 'sg"
  en_sha256 :: "string \<Rightarrow> string"
  en_b64 :: "string \<Rightarrow> string"
  en_unb64 :: "string \<Rightarrow> string + string"
  en_scan :: "string \<Rightarrow> string + 'pk option"
  en_present :: "string \<Rightarrow> string + 'pk"
  en_auth :: "string \<Rightarrow> string \<Rightarrow> 'sg auth_method list \<Rightarrow> string + (string \<times> string option)"
  en_agent :: "string \<Rightarrow> bool"
  en_signers :: "string \<Rightarrow> string + 'sg list"
  en_signer_key :: "'sg \<Rightarrow> 'pk"
  en_latency :: int

datatype HostKeyStatus =
    HostKeyStatusUnspecified | HostKeyStatusVerified | HostKeyStatusUnknown | HostKeyStatusMismatch
  | HostKeyStatusAdded

record HostKeyInfo =
  hk_Hostname :: string
  hk_Port :: int
  hk_KeyType :: string
  hk_Fingerprint :: string
  hk_PublicKey :: string

section \<open>The verifier\<close>

definition NewHostKeyVerifier :: "('pk, 'sg) ssh_env \<Rightarrow> string + string" where
  "NewHostKeyVerifier en =
     (case en_home en of
        Inl e \<Rightarrow> Inl (''failed to get home directory: '' @ e)
      | Inr homeDir \<Rightarrow> Inr (path_join [homeDir, ''.ssh'', ''known_hosts'']))"

definition JoinHostPort :: "string \<Rightarrow> string \<Rightarrow> string" where
  "JoinHostPort host port =
     (if CHR '':'' \<in> set host \<or> CHR ''%'' \<in> set host then ''['' @ host @ '']:'' @ port
      else host @ '':'' @ port)"

definition fingerprint :: "('pk, 'sg) ssh_env \<Rightarrow> 'pk \<Rightarrow> string" where
  "fingerprint en key =
     ''SHA256:'' @ rev (dropWhile (\<lambda>c. c = CHR ''='') (rev (en_b64 en (en_sha256 en (en_Marshal en key)))))"

definition scanHostKey :: "('pk, 'sg) ssh_env \<Rightarrow> string \<Rightarrow> int \<Rightarrow> string + 'pk \<times> string" where
  "scanHostKey en host port =
     (case en_scan en (JoinHostPort host (itoa port)) of
        Inl e \<Rightarrow> Inl (''failed to connect: '' @ e)
      | Inr None \<Rightarrow> Inl ''failed to retrieve host key''
      | Inr (Some key) \<Rightarrow> Inr (key, en_Type en key))"

definition default_port :: "int \<Rightarrow> int" where
  "default_port port = (if port = 0 then 22 else port)"

text \<open>\<open>os.Stat\<close> and \<open>os.IsNotExist\<close>.\<close>

definition missing :: "fsys \<Rightarrow> string \<Rightarrow> bool" where
  "missing fs p \<longleftrightarrow> os_stat fs p = Some NotExist"

definition load_known_hosts :: "('pk, 'sg) ssh_env \<Rightarrow> fsys \<Rightarrow> string \<Rightarrow> string + (string \<Rightarrow> 'pk \<Rightarrow> kh_verdict)" where
  "load_known_hosts en fs path =
     (case os_read_file fs path of
        Inl e \<Rightarrow> Inl (''failed to parse known_hosts: '' @ ioerr_msg e)
      | Inr text \<Rightarrow>
          (case en_known_hosts en text of
             Inl e \<Rightarrow> Inl (''failed to parse known_hosts: '' @ e)
           | Inr callback \<Rightarrow> Inr callback))"

definition host_key_info :: "('pk, 'sg) ssh_env \<Rightarrow> string \<Rightarrow> int \<Rightarrow> 'pk \<times> string \<Rightarrow> HostKeyInfo" where
  "host_key_info en host port k =
     \<lparr>hk_Hostname = host, hk_Port = port, hk_KeyType = snd k, hk_Fingerprint = fingerprint en (fst k),
      hk_PublicKey = en_b64 en (en_Marshal en (fst k))\<rparr>"

definition CheckHostKey :: "('pk, 'sg) ssh_env \<Rightarrow> string \<Rightarrow> string \<Rightarrow> int \<Rightarrow> fsys \<Rightarrow>
    string + HostKeyStatus \<times> HostKeyInfo option" where
  "CheckHostKey en path host port0 fs =
     (let port = default_port port0; hostname = JoinHostPort host (itoa port) in
      if missing fs path then Inr (HostKeyStatusUnknown, None)
      else (case load_known_hosts en fs path of
          Inl e \<Rightarrow> Inl e
        | Inr callback \<Rightarrow>
            (case scanHostKey en host port of
               Inl e \<Rightarrow> Inl (''failed to scan host key: '' @ e)
             | Inr k \<Rightarrow>
                 (case callback hostname (fst k) of
                    KhOk \<Rightarrow> Inr (HostKeyStatusVerified, Some (host_key_info en host port k))
                  | KhKeyError want \<Rightarrow>
                      if want \<noteq> [] then Inr (HostKeyStatusMismatch, Some (host_key_info en host port k))
                      else Inr (HostKeyStatusUnknown, Some (host_key_info en host port k))
                  | KhOther e \<Rightarrow> Inl (''unexpected error checking host key: '' @ e)))))"

definition AddHostKey :: "('pk, 'sg) ssh_env \<Rightarrow> string \<Rightarrow> string \<Rightarrow> int \<Rightarrow> string \<Rightarrow> fsys \<Rightarrow> fsys \<times> string option" where
  "AddHostKey en path host port0 publicKeyB64 fs =
     (let port = default_port port0 in
      case en_unb64 en publicKeyB64 of
        Inl e \<Rightarrow> (fs, Some (''failed to decode public key: '' @ e))
      | Inr bytes \<Rightarrow>
          (case en_ParsePublicKey en bytes of
             Inl e \<Rightarrow> (fs, Some (''failed to parse public key: '' @ e))
           | Inr pubKey \<Rightarrow>
               (let hostname = (if port \<noteq> 22 then ''['' @ host @ '']:'' @ itoa port else host);
                    line = en_line en hostname pubKey in
                case os_mkdir_all (path_dir path) fs of
                  Some e \<Rightarrow> (fs, Some (''failed to create .ssh directory: '' @ ioerr_msg e))
                | None \<Rightarrow>
                    (case os_open_append path fs of
                       (fs1, Some e) \<Rightarrow> (fs1, Some (''failed to open known_hosts: '' @ ioerr_msg e))
                     | (fs1, None) \<Rightarrow>
                         (case os_append_string path (line @ [newline]) fs1 of
                            (fs2, Some e) \<Rightarrow> (fs2, Some (''failed to write to known_hosts: '' @ ioerr_msg e))
                          | (fs2, None) \<Rightarrow> (fs2, None))))))"

text \<open>A callback answers \<open>None\<close> for an accepted key, else the error.\<close>

definition kh_error :: "kh_verdict \<Rightarrow> string option" where
  "kh_error v = (case v of KhOk \<Rightarrow> None | KhKeyError [] \<Rightarrow> Some ''knownhosts: key is unknown''
     | KhKeyError _ \<Rightarrow> Some ''knownhosts: key mismatch'' | KhOther e \<Rightarrow> Some e)"

definition CreateHostKeyCallback :: "('pk, 'sg) ssh_env \<Rightarrow> string \<Rightarrow> bool \<Rightarrow> fsys \<Rightarrow>
    string + (string \<Rightarrow> 'pk \<Rightarrow> string option)" where
  "CreateHostKeyCallback en path trustUnknown fs =
     (if missing fs path then
        (if trustUnknown then Inr (\<lambda>hostname key. None)
         else Inr (\<lambda>hostname key. kh_error (KhKeyError [])))
      else (case load_known_hosts en fs path of
          Inl e \<Rightarrow> Inl e
        | Inr callback \<Rightarrow>
            if trustUnknown then
              Inr (\<lambda>hostname key. case callback hostname key of KhKeyError [] \<Rightarrow> None | v \<Rightarrow> kh_error v)
            else Inr (\<lambda>hostname key. kh_error (callback hostname key))))"

section \<open>The connection test\<close>

record ConnectionConfig =
  cc_Host :: string
  cc_Port :: int
  cc_User :: string
  cc_PrivateKey :: string
  cc_PrivateKeyPath :: string
  cc_Passphrase :: string
  cc_AgentSocket :: string
  cc_KeyFingerprint :: string
  cc_TrustHostKey :: bool

record TestResult =
  tr_Success :: bool
  tr_Message :: string
  tr_ServerVersion :: string
  tr_LatencyMs :: int
  tr_HostKeyStatus :: HostKeyStatus
  tr_HostKeyInfo :: "HostKeyInfo option"

definition failed_test :: "string \<Rightarrow> int \<Rightarrow> HostKeyStatus \<Rightarrow> HostKeyInfo option \<Rightarrow> TestResult" where
  "failed_test msg latency st info =
     \<lparr>tr_Success = False, tr_Message = msg, tr_ServerVersion = [], tr_LatencyMs = latency,
      tr_HostKeyStatus = st, tr_HostKeyInfo = info\<rparr>"

text \<open>
  One private key: its signer, or that it needs a passphrase, or the message of the failure.
\<close>

definition parse_key :: "('pk, 'sg) ssh_env \<Rightarrow> ConnectionConfig \<Rightarrow> string \<Rightarrow> string + 'sg option" where
  "parse_key en cfg bytes =
     (case en_ParsePrivateKey en bytes (cc_Passphrase cfg) of
        Inr signer \<Rightarrow> Inr (Some signer)
      | Inl e \<Rightarrow>
          if contains e ''this private key is passphrase protected'' \<or> contains e ''decryption password''
          then Inr None
          else Inl (''failed to parse private key: '' @ e))"

text \<open>The methods from the key bytes and the key file, and whether one of them needs a passphrase.\<close>

definition key_methods :: "('pk, 'sg) ssh_env \<Rightarrow> ConnectionConfig \<Rightarrow> fsys \<Rightarrow> string + 'sg auth_method list \<times> bool" where
  "key_methods en cfg fs =
     (let add = (\<lambda>bytes (ms, np). case parse_key en cfg bytes of
            Inl e \<Rightarrow> Inl e
          | Inr None \<Rightarrow> Inr (ms, True)
          | Inr (Some s) \<Rightarrow> Inr (ms @ [PublicKeys s], np)) in
      case (if cc_PrivateKey cfg \<noteq> [] then add (cc_PrivateKey cfg) ([], False) else Inr ([], False)) of
        Inl e \<Rightarrow> Inl e
      | Inr (ms, np) \<Rightarrow>
          if cc_PrivateKeyPath cfg \<noteq> [] then
            (case os_read_file fs (cc_PrivateKeyPath cfg) of
               Inl e \<Rightarrow> Inl (''failed to read private key file: '' @ ioerr_msg e)
             | Inr bytes \<Rightarrow> add bytes (ms, np))
          else Inr (ms, np))"

definition test_methods :: "('pk, 'sg) ssh_env \<Rightarrow> ConnectionConfig \<Rightarrow> fsys \<Rightarrow> string + 'sg auth_method list" where
  "test_methods en cfg fs =
     (case key_methods en cfg fs of
        Inl e \<Rightarrow> Inl e
      | Inr (ms, needsPassphrase) \<Rightarrow>
          (let ms' = (if cc_AgentSocket cfg \<noteq> [] \<and> (ms = [] \<or> needsPassphrase) \<and> en_agent en (cc_AgentSocket cfg)
                      then ms @ [PublicKeysCallback (en_signers en (cc_AgentSocket cfg))] else ms) in
           if needsPassphrase \<and> ms' = [] then
             Inl ''private key is passphrase protected - load key into agent or provide passphrase''
           else if ms' = [] then
             Inl ''no authentication methods available - load key into agent or provide key file''
           else Inr ms'))"

text \<open>\<open>ssh.Dial\<close>: the server presents a key, the callback accepts it or ends the handshake, the client authenticates.\<close>

definition dial_addr :: "string \<Rightarrow> int \<Rightarrow> string" where
  "dial_addr host port = host @ '':'' @ itoa port"

definition ssh_dial :: "('pk, 'sg) ssh_env \<Rightarrow> string \<Rightarrow> string \<Rightarrow> 'sg auth_method list \<Rightarrow>
    (string \<Rightarrow> 'pk \<Rightarrow> string option) \<Rightarrow> string + string \<times> string option" where
  "ssh_dial en addr user ms callback =
     (case en_present en addr of
        Inl e \<Rightarrow> Inl e
      | Inr key \<Rightarrow>
          (case callback addr key of
             Some e \<Rightarrow> Inl (''ssh: handshake failed: '' @ e)
           | None \<Rightarrow> en_auth en addr user ms))"

definition friendly_error :: "string \<Rightarrow> string" where
  "friendly_error msg =
     (if contains msg ''unable to authenticate'' \<or> contains msg ''no supported methods remain''
      then ''authentication failed - key may not be registered with the server''
      else if contains msg ''connection refused''
      then ''connection refused - server may be down or port may be blocked''
      else if contains msg ''i/o timeout'' \<or> contains msg ''deadline exceeded''
      then ''connection timed out - server may be unreachable''
      else msg)"

definition greeting :: "string option \<Rightarrow> string" where
  "greeting out =
     (case out of
        None \<Rightarrow> ''Authentication successful''
      | Some output \<Rightarrow>
          (let s = trim_space output in
           if output \<noteq> [] \<and> (has_prefix s ''Hi '' \<or> contains s ''Welcome'' \<or> contains s ''successfully authenticated'')
           then (case index_char s newline of
                   Some idx \<Rightarrow> if idx > 0 then take idx s else s
                 | None \<Rightarrow> s)
           else ''Authentication successful''))"

definition finish_test :: "('pk, 'sg) ssh_env \<Rightarrow> string \<Rightarrow> ConnectionConfig \<Rightarrow> HostKeyStatus \<Rightarrow>
    HostKeyInfo option \<Rightarrow> fsys \<Rightarrow> TestResult" where
  "finish_test en path cfg st info fs =
     (case test_methods en cfg fs of
        Inl msg \<Rightarrow> failed_test msg 0 st info
      | Inr ms \<Rightarrow>
          (case CreateHostKeyCallback en path False fs of
             Inl e \<Rightarrow> failed_test (''failed to create host key callback: '' @ e) 0 st info
           | Inr callback \<Rightarrow>
               (case ssh_dial en (dial_addr (cc_Host cfg) (cc_Port cfg)) (cc_User cfg) ms callback of
                  Inl msg \<Rightarrow> failed_test (friendly_error msg) (en_latency en) st info
                | Inr (version, out) \<Rightarrow>
                    \<lparr>tr_Success = True, tr_Message = greeting out, tr_ServerVersion = version,
                     tr_LatencyMs = en_latency en, tr_HostKeyStatus = st, tr_HostKeyInfo = info\<rparr>)))"

definition TestConnection :: "('pk, 'sg) ssh_env \<Rightarrow> ConnectionConfig \<Rightarrow> fsys \<Rightarrow> fsys \<times> TestResult" where
  "TestConnection en cfg0 fs =
     (let cfg = cfg0\<lparr>cc_Port := default_port (cc_Port cfg0)\<rparr> in
      case NewHostKeyVerifier en of
        Inl e \<Rightarrow> (fs, failed_test (''failed to initialize host key verifier: '' @ e) 0 HostKeyStatusUnspecified None)
      | Inr path \<Rightarrow>
          (case CheckHostKey en path (cc_Host cfg) (cc_Port cfg) fs of
             Inl e \<Rightarrow> (fs, failed_test (''failed to check host key: '' @ e) 0 HostKeyStatusUnspecified None)
           | Inr (st, info) \<Rightarrow>
               if st = HostKeyStatusMismatch then
                 (fs, failed_test ''WARNING: Remote host identification has changed! This could indicate a man-in-the-middle attack.''
                    0 HostKeyStatusMismatch info)
               else if st = HostKeyStatusUnknown \<and> \<not> cc_TrustHostKey cfg then
                 (fs, failed_test (''Host '' @ [CHR 0x27] @ cc_Host cfg @ [CHR 0x27] @
                    '' is not in known_hosts. Verify the fingerprint before connecting.'') 0 HostKeyStatusUnknown info)
               else if st = HostKeyStatusUnknown \<and> info \<noteq> None then
                 (case AddHostKey en path (cc_Host cfg) (cc_Port cfg) (hk_PublicKey (the info)) fs of
                    (fs1, Some e) \<Rightarrow>
                      (fs1, failed_test (''failed to add host key to known_hosts: '' @ e) 0 HostKeyStatusUnspecified None)
                  | (fs1, None) \<Rightarrow> (fs1, finish_test en path cfg HostKeyStatusAdded info fs1))
               else (fs, finish_test en path cfg st info fs)))"

section \<open>What a test can do\<close>

lemma load_known_hostsD:
  assumes "load_known_hosts en fs path = Inr cb"
  shows "\<exists>content. os_read_file fs path = Inr content \<and> en_known_hosts en content = Inr cb"
  using assms by (auto simp: load_known_hosts_def split: sum.splits)

lemma strict_callback:
  assumes "CreateHostKeyCallback en path False fs = Inr callback" and "callback a key = None"
  shows "\<exists>content cb. os_read_file fs path = Inr content \<and> en_known_hosts en content = Inr cb \<and> cb a key = KhOk"
proof (cases "missing fs path")
  case True
  with assms show ?thesis by (auto simp: CreateHostKeyCallback_def kh_error_def)
next
  case False
  with assms(1) obtain cb where cb: "load_known_hosts en fs path = Inr cb"
      and callback: "callback = (\<lambda>h k. kh_error (cb h k))"
    by (auto simp: CreateHostKeyCallback_def split: sum.splits)
  have "cb a key = KhOk"
    using assms(2) callback by (simp add: kh_error_def split: kh_verdict.splits list.splits)
  with load_known_hostsD [OF cb] show ?thesis by blast
qed

lemma failed_test_simps [simp]:
  "tr_Success (failed_test m l st i) = False" "tr_HostKeyStatus (failed_test m l st i) = st"
  "tr_HostKeyInfo (failed_test m l st i) = i" "tr_Message (failed_test m l st i) = m"
  by (simp_all add: failed_test_def)

lemma finish_test_success:
  assumes "tr_Success (finish_test en path cfg st info fs)"
  shows "\<exists>content cb key ms v. os_read_file fs path = Inr content \<and> en_known_hosts en content = Inr cb
    \<and> en_present en (dial_addr (cc_Host cfg) (cc_Port cfg)) = Inr key
    \<and> cb (dial_addr (cc_Host cfg) (cc_Port cfg)) key = KhOk
    \<and> test_methods en cfg fs = Inr ms \<and> en_auth en (dial_addr (cc_Host cfg) (cc_Port cfg)) (cc_User cfg) ms = Inr v"
proof -
  let ?a = "dial_addr (cc_Host cfg) (cc_Port cfg)"
  obtain ms where ms: "test_methods en cfg fs = Inr ms"
    using assms by (cases "test_methods en cfg fs") (auto simp: finish_test_def)
  obtain callback where cb: "CreateHostKeyCallback en path False fs = Inr callback"
    using assms ms by (cases "CreateHostKeyCallback en path False fs") (auto simp: finish_test_def)
  obtain v where v: "ssh_dial en ?a (cc_User cfg) ms callback = Inr v"
    using assms ms cb by (cases "ssh_dial en ?a (cc_User cfg) ms callback") (auto simp: finish_test_def)
  then obtain key where "en_present en ?a = Inr key" "callback ?a key = None" "en_auth en ?a (cc_User cfg) ms = Inr v"
    by (auto simp: ssh_dial_def split: sum.splits option.splits)
  with strict_callback [OF cb] ms show ?thesis by blast
qed

lemma finish_test_status: "tr_HostKeyStatus (finish_test en path cfg st info fs) = st"
  by (simp add: finish_test_def split: sum.splits prod.splits)

lemma AddHostKey_files:
  assumes "AddHostKey en path host port b fs = (fs', e)"
  shows "q \<noteq> path \<Longrightarrow> files fs' q = files fs q"
    and "\<exists>t. files fs' path = Some (case files fs path of None \<Rightarrow> t | Some old \<Rightarrow> old @ t) \<or> fs' = fs"
  using assms
  by (auto simp: AddHostKey_def Let_def os_open_append_def os_append_string_def
      split: sum.splits option.splits prod.splits if_splits write_fault.splits)


lemma CheckHostKey_Unknown_None:
  "CheckHostKey en path host port fs = Inr (st, None) \<Longrightarrow> missing fs path \<and> st = HostKeyStatusUnknown"
  by (auto simp: CheckHostKey_def Let_def split: if_splits sum.splits kh_verdict.splits)

lemma CheckHostKey_not_Added:
  "CheckHostKey en path host port fs = Inr (st, info) \<Longrightarrow>
    st = HostKeyStatusVerified \<or> st = HostKeyStatusUnknown \<or> st = HostKeyStatusMismatch"
  by (auto simp: CheckHostKey_def Let_def split: if_splits sum.splits kh_verdict.splits)

lemma finish_test_missing:
  "missing fs path \<Longrightarrow> \<not> tr_Success (finish_test en path cfg st info fs)"
  by (auto dest!: finish_test_success simp: missing_def os_stat_def os_read_file_def split: if_splits option.splits)

text \<open>The run of a test: it stops, it adds the key and goes on, or it goes on with a verified key.\<close>

lemma TestConnection_cases:
  assumes run: "TestConnection en cfg fs = (fs', r)" and path: "NewHostKeyVerifier en = Inr path"
  obtains (stopped) "fs' = fs" "\<not> tr_Success r"
  | (verified) info where "fs' = fs"
      "CheckHostKey en path (cc_Host cfg) (default_port (cc_Port cfg)) fs = Inr (HostKeyStatusVerified, info)"
      "r = finish_test en path (cfg\<lparr>cc_Port := default_port (cc_Port cfg)\<rparr>) HostKeyStatusVerified info fs"
  | (unadded) info e where "cc_TrustHostKey cfg" "\<not> tr_Success r"
      "CheckHostKey en path (cc_Host cfg) (default_port (cc_Port cfg)) fs = Inr (HostKeyStatusUnknown, Some info)"
      "AddHostKey en path (cc_Host cfg) (default_port (cc_Port cfg)) (hk_PublicKey info) fs = (fs', Some e)"
  | (added) info where "cc_TrustHostKey cfg"
      "CheckHostKey en path (cc_Host cfg) (default_port (cc_Port cfg)) fs = Inr (HostKeyStatusUnknown, Some info)"
      "AddHostKey en path (cc_Host cfg) (default_port (cc_Port cfg)) (hk_PublicKey info) fs = (fs', None)"
      "r = finish_test en path (cfg\<lparr>cc_Port := default_port (cc_Port cfg)\<rparr>) HostKeyStatusAdded (Some info) fs'"
proof -
  let ?p = "default_port (cc_Port cfg)"
  show thesis
  proof (cases "CheckHostKey en path (cc_Host cfg) ?p fs")
    case (Inl e)
    with run path show thesis by (intro stopped) (auto simp: TestConnection_def Let_def)
  next
    case (Inr sti)
    obtain st info where sti: "sti = (st, info)" by fastforce
    note chk = Inr [unfolded sti]
    consider "st = HostKeyStatusVerified" | "st = HostKeyStatusMismatch"
      | "st = HostKeyStatusUnknown" "\<not> cc_TrustHostKey cfg"
      | "st = HostKeyStatusUnknown" "cc_TrustHostKey cfg" "info = None"
      | i where "st = HostKeyStatusUnknown" "cc_TrustHostKey cfg" "info = Some i"
      using CheckHostKey_not_Added [OF chk] by (cases info) auto
    then show thesis
    proof cases
      case 1
      with run path chk show thesis by (intro verified) (auto simp: TestConnection_def Let_def)
    next
      case 2
      with run path chk show thesis by (intro stopped) (auto simp: TestConnection_def Let_def)
    next
      case 3
      with run path chk show thesis by (intro stopped) (auto simp: TestConnection_def Let_def)
    next
      case 4
      then have "missing fs path" using CheckHostKey_Unknown_None chk by blast
      from 4 run path chk have r: "fs' = fs" "r = finish_test en path (cfg\<lparr>cc_Port := ?p\<rparr>) st info fs"
        by (auto simp: TestConnection_def Let_def)
      show thesis by (rule stopped) (simp_all add: r finish_test_missing [OF \<open>missing fs path\<close>])
    next
      case 5
      obtain fs1 e where add: "AddHostKey en path (cc_Host cfg) ?p (hk_PublicKey i) fs = (fs1, e)" by fastforce
      show thesis
      proof (cases e)
        case None
        with 5 add run path chk show thesis by (intro added) (auto simp: TestConnection_def Let_def)
      next
        case (Some m)
        with 5 add run path chk show thesis by (intro unadded) (auto simp: TestConnection_def Let_def)
      qed
    qed
  qed
qed


text \<open>
  While there is no known_hosts file, no connection test ever succeeds and nothing is ever added, even when
  the user approves the key: the answer has no key to add, and the callback then rejects every
  host.
\<close>

theorem no_known_hosts_no_connection:
  assumes "TestConnection en cfg fs = (fs', r)" and "NewHostKeyVerifier en = Inr path" and "missing fs path"
  shows "fs' = fs \<and> \<not> tr_Success r \<and> tr_HostKeyInfo r = None"
proof -
  have unknown: "CheckHostKey en path (cc_Host cfg) p fs = Inr (HostKeyStatusUnknown, None)" for p
    using assms(3) by (simp add: CheckHostKey_def)
  have info: "tr_HostKeyInfo (finish_test en path c st i fs) = i" for c st i
    by (simp add: finish_test_def split: sum.splits prod.splits)
  have "fst (TestConnection en cfg fs) = fs \<and> \<not> tr_Success (snd (TestConnection en cfg fs))
      \<and> tr_HostKeyInfo (snd (TestConnection en cfg fs)) = None"
    using assms(2) unknown by (simp add: TestConnection_def Let_def info finish_test_missing [OF assms(3)])
  with assms(1) show ?thesis by simp
qed

text \<open>The methods depend on the fields for keys and the agent only.\<close>

lemma test_methods_cong:
  assumes "cc_PrivateKey c = cc_PrivateKey d" "cc_PrivateKeyPath c = cc_PrivateKeyPath d"
    "cc_Passphrase c = cc_Passphrase d" "cc_AgentSocket c = cc_AgentSocket d"
  shows "test_methods en c fs = test_methods en d fs"
proof -
  have "parse_key en c = parse_key en d" using assms(3) by (simp add: parse_key_def fun_eq_iff)
  then have keys: "key_methods en c fs = key_methods en d fs"
    unfolding key_methods_def assms by (rule ssubst) (rule refl)
  show ?thesis unfolding test_methods_def keys assms ..
qed

definition demo_verdict :: "string \<Rightarrow> string \<Rightarrow> string \<Rightarrow> kh_verdict" where
  "demo_verdict content host key = (if contains content (host @ '' '' @ key) then KhOk
     else if contains content host then KhKeyError [''x''] else KhKeyError [])"

definition demo_env :: "(string, string) ssh_env" where
  "demo_env = \<lparr>en_home = Inr ''/h'',
     en_known_hosts = (\<lambda>content. Inr (demo_verdict content)),
     en_line = (\<lambda>h k. h @ '':22 '' @ k), en_Marshal = id, en_Type = (\<lambda>_. ''ssh-ed25519''),
     en_ParsePublicKey = Inr, en_ParsePrivateKey = (\<lambda>b p. Inr b), en_sha256 = id, en_b64 = id,
     en_unb64 = Inr, en_scan = (\<lambda>a. Inr (Some ''K'')), en_present = (\<lambda>a. Inr ''K''),
     en_auth = (\<lambda>a u ms. Inr (''SSH-2.0'', None)), en_agent = (\<lambda>_. True), en_signers = (\<lambda>_. Inr [''S'']),
     en_signer_key = id, en_latency = 3\<rparr>"

definition demo_config :: ConnectionConfig where
  "demo_config = \<lparr>cc_Host = ''h'', cc_Port = 0, cc_User = ''u'', cc_PrivateKey = [], cc_PrivateKeyPath = [],
     cc_Passphrase = [], cc_AgentSocket = ''/a'', cc_KeyFingerprint = [], cc_TrustHostKey = True\<rparr>"

lemma demo_path: "NewHostKeyVerifier demo_env = Inr ''/h/.ssh/known_hosts''"
  by code_simp

lemma no_known_hosts_no_connection_witness:
  "case TestConnection demo_env demo_config (fs_with []) of (fs', r) \<Rightarrow> fs' = fs_with [] \<and> \<not> tr_Success r"
  using no_known_hosts_no_connection [OF surjective_pairing demo_path, of "fs_with []" demo_config]
  by (simp add: missing_def os_stat_def split_beta)


text \<open>
  Trust on first use: when a complete known_hosts file does not have the host, the user approves, and the server presents to
  the connection the key it showed to the probe, the test appends the line of that key, connects
  and reports the key as added, and the next test finds the host verified without being asked.
  The assumptions on the library are that base64 and the key format are read back, and that the
  file with the new line accepts the key.
\<close>

theorem trust_on_first_use:
  fixes en :: "('pk, 'sg) ssh_env" and key :: 'pk and content :: string and fs :: fsys
  assumes path: "NewHostKeyVerifier en = Inr path"
    and content: "os_read_file fs path = Inr content" "\<not> stat_denied fs path" "write_fault_at fs path = WOk"
      "\<not> mkdir_denied fs (path_dir path)"
    and host: "CHR '':'' \<notin> set (cc_Host cfg)" "CHR ''%'' \<notin> set (cc_Host cfg)"
    and trust: "cc_TrustHostKey cfg"
  defines "port \<equiv> default_port (cc_Port cfg)"
  defines "addr \<equiv> dial_addr (cc_Host cfg) port"
  defines "line \<equiv> en_line en (if port \<noteq> 22 then ''['' @ cc_Host cfg @ '']:'' @ itoa port else cc_Host cfg) key"
  defines "fs' \<equiv> set_file path (content @ line @ [newline]) fs"
  assumes server: "en_scan en addr = Inr (Some key)" "en_present en addr = Inr key"
    and unknown: "en_known_hosts en content = Inr cb" "cb addr key = KhKeyError []"
    and formats: "en_unb64 en (en_b64 en (en_Marshal en key)) = Inr (en_Marshal en key)"
      "en_ParsePublicKey en (en_Marshal en key) = Inr key"
    and accepted: "en_known_hosts en (content @ line @ [newline]) = Inr cb'" "cb' addr key = KhOk"
    and login: "test_methods en (cfg\<lparr>cc_Port := port\<rparr>) fs' = Inr ms" "en_auth en addr (cc_User cfg) ms = Inr (version, out)"
  shows "TestConnection en cfg fs = (fs', \<lparr>tr_Success = True, tr_Message = greeting out, tr_ServerVersion = version,
      tr_LatencyMs = en_latency en, tr_HostKeyStatus = HostKeyStatusAdded,
      tr_HostKeyInfo = Some (host_key_info en (cc_Host cfg) port (key, en_Type en key))\<rparr>)
    \<and> TestConnection en (cfg\<lparr>cc_TrustHostKey := False\<rparr>) fs' = (fs', \<lparr>tr_Success = True, tr_Message = greeting out,
      tr_ServerVersion = version, tr_LatencyMs = en_latency en, tr_HostKeyStatus = HostKeyStatusVerified,
      tr_HostKeyInfo = Some (host_key_info en (cc_Host cfg) port (key, en_Type en key))\<rparr>)"
proof -
  have port': "default_port port = port" by (simp add: port_def default_port_def)
  have addr': "JoinHostPort (cc_Host cfg) (itoa port) = addr"
    using host by (simp add: addr_def JoinHostPort_def dial_addr_def)
  have there: "files fs path = Some content" "\<not> read_denied fs path"
    using content(1) by (auto simp: os_read_file_def split: option.splits if_splits)
  have before: "CheckHostKey en path (cc_Host cfg) port fs =
      Inr (HostKeyStatusUnknown, Some (host_key_info en (cc_Host cfg) port (key, en_Type en key)))"
    using there content server(1) unknown
    by (simp add: CheckHostKey_def port' addr' Let_def missing_def os_stat_def load_known_hosts_def scanHostKey_def)
  have read': "os_read_file fs' path = Inr (content @ line @ [newline])"
    using there by (simp add: fs'_def os_read_file_def)
  have present: "\<not> missing fs' path" using content by (simp add: fs'_def missing_def os_stat_def)
  have load': "load_known_hosts en fs' path = Inr cb'"
    by (simp add: load_known_hosts_def read' accepted)
  have added: "AddHostKey en path (cc_Host cfg) port (en_b64 en (en_Marshal en key)) fs = (fs', None)"
    using content there formats
    by (simp add: AddHostKey_def port' Let_def os_mkdir_all_def os_open_append_def os_append_string_def line_def fs'_def)
  have callback: "CreateHostKeyCallback en path False fs' = Inr (\<lambda>h k. kh_error (cb' h k))"
    by (simp add: CreateHostKeyCallback_def present load')
  have finish: "finish_test en path (c\<lparr>cc_Port := port\<rparr>) st info fs' =
      \<lparr>tr_Success = True, tr_Message = greeting out, tr_ServerVersion = version,
       tr_LatencyMs = en_latency en, tr_HostKeyStatus = st, tr_HostKeyInfo = info\<rparr>"
    if "c = cfg \<or> c = cfg\<lparr>cc_TrustHostKey := False\<rparr>" for c st info
  proof -
    have "test_methods en (c\<lparr>cc_Port := port\<rparr>) fs' = Inr ms"
      unfolding login(1) [symmetric] by (rule test_methods_cong) (use that in auto)
    moreover have "cc_Host c = cc_Host cfg" "cc_User c = cc_User cfg" using that by auto
    ultimately show ?thesis
      using server(2) accepted login(2) by (simp add: finish_test_def callback ssh_dial_def addr_def kh_error_def)
  qed
  have after: "CheckHostKey en path (cc_Host cfg) port fs' =
      Inr (HostKeyStatusVerified, Some (host_key_info en (cc_Host cfg) port (key, en_Type en key)))"
    using server(1) accepted by (simp add: CheckHostKey_def port' addr' Let_def present load' scanHostKey_def)
  have "TestConnection en cfg fs = (fs', finish_test en path (cfg\<lparr>cc_Port := port\<rparr>) HostKeyStatusAdded
      (Some (host_key_info en (cc_Host cfg) port (key, en_Type en key))) fs')"
    using path trust before added by (simp add: TestConnection_def Let_def port_def [symmetric] host_key_info_def)
  moreover have "TestConnection en (cfg\<lparr>cc_TrustHostKey := False\<rparr>) fs' =
     (fs', finish_test en path (cfg\<lparr>cc_TrustHostKey := False, cc_Port := port\<rparr>) HostKeyStatusVerified
      (Some (host_key_info en (cc_Host cfg) port (key, en_Type en key))) fs')"
    using path after by (simp add: TestConnection_def Let_def port_def [symmetric])
  ultimately show ?thesis using finish by simp
qed

lemma trust_on_first_use_witness:
  "let fs' = set_file ''/h/.ssh/known_hosts'' (''o:22 L'' @ [newline] @ ''h:22 K'' @ [newline])
        (fs_with [(''/h/.ssh/known_hosts'', ''o:22 L'' @ [newline])])
   in fst (TestConnection demo_env demo_config (fs_with [(''/h/.ssh/known_hosts'', ''o:22 L'' @ [newline])])) = fs'
     \<and> tr_HostKeyStatus (snd (TestConnection demo_env (demo_config\<lparr>cc_TrustHostKey := False\<rparr>) fs')) = HostKeyStatusVerified"
proof -
  let ?fs = "fs_with [(''/h/.ssh/known_hosts'', ''o:22 L'' @ [newline])]"
  have parse: "en_known_hosts demo_env t = Inr (demo_verdict t)" for t by (simp add: demo_env_def)
  have port: "default_port (cc_Port demo_config) = 22" by code_simp
  have methods: "test_methods demo_env (demo_config\<lparr>cc_Port := 22\<rparr>) fs = Inr [PublicKeysCallback (Inr [''S''])]" for fs
    by (simp add: test_methods_def key_methods_def demo_env_def demo_config_def)
  have keys: "cc_Host demo_config = ''h''" "cc_TrustHostKey demo_config"
      "en_scan demo_env x = Inr (Some ''K'')" "en_present demo_env x = Inr ''K''"
      "en_line demo_env ''h'' ''K'' = ''h:22 K''" "en_auth demo_env x y z = Inr (''SSH-2.0'', None)"
      "en_unb64 demo_env s = Inr s" "en_b64 demo_env s = s" "en_ParsePublicKey demo_env s = Inr s" "en_Marshal demo_env s = s"
    for x y z s
    by (simp_all add: demo_env_def demo_config_def)
  have addr: "dial_addr ''h'' 22 = ''h:22''" by code_simp
  have unknown: "demo_verdict (''o:22 L'' @ [newline]) ''h:22'' ''K'' = KhKeyError []"
    and known: "demo_verdict (''o:22 L'' @ [newline] @ ''h:22 K'' @ [newline]) ''h:22'' ''K'' = KhOk" by code_simp+
  show ?thesis
    using trust_on_first_use [OF demo_path, where fs = ?fs and content = "''o:22 L'' @ [newline]" and cfg = demo_config
        and key = "''K''" and cb = "demo_verdict (''o:22 L'' @ [newline])" and ms = "[PublicKeysCallback (Inr [''S''])]" and version = "''SSH-2.0''"
        and out = None and cb' = "demo_verdict (''o:22 L'' @ [newline] @ ''h:22 K'' @ [newline])"] unknown known
    by (simp add: port keys addr methods parse os_read_file_def Let_def)
qed

end
