(* ===== verification/ConnPool.thy ===== *)
theory ConnPool
  imports HostKeys Broadcast
begin

text \<open>
  The connection pool of \<open>remote/connection.go\<close> and its watcher (\<open>remote/watcher.go\<close>).

  Connections are shared objects: the pool's map, the callers and the key watchers hold references
  to them.  The model keeps them in a list, a reference being a position, and the map as an
  association list from keys to references, whose order is the order in which Go happens to visit
  the map.  A session attempt on a connection succeeds when the client is not closed and the peer
  answers (the argument \<open>alive\<close>).  Times are nanoseconds.  Nothing but the pool closes a connection.
\<close>

record Connection =
  cn_ID :: string
  cn_RemoteID :: string
  cn_Host :: string
  cn_Port :: int
  cn_User :: string
  cn_ServerVersion :: string
  cn_ConnectedAt :: int
  cn_LastActivityAt :: int
  cn_KeyFingerprint :: string
  cn_agentSocket :: string
  cn_sftpClient :: bool
  cn_stopKeyCheck :: bool
  cn_closed :: bool

record PoolConfig =
  MaxIdleTime :: int
  MaxConnections :: int
  KeepAliveInterval :: int

record ConnectionPool =
  pl_connections :: "(string \<times> nat) list"
  pl_config :: PoolConfig
  pl_heap :: "Connection list"
  pl_checkers :: "nat list"

text \<open>\<open>pl_checkers\<close> lists the connections whose \<open>watchKeyPresence\<close> goroutine was started.\<close>

definition NewConnectionPool :: "PoolConfig \<Rightarrow> ConnectionPool" where
  "NewConnectionPool config =
     \<lparr>pl_connections = [],
      pl_config = \<lparr>MaxIdleTime = (if MaxIdleTime config = 0 then 600000000000 else MaxIdleTime config),
        MaxConnections = (if MaxConnections config = 0 then 10 else MaxConnections config),
        KeepAliveInterval = (if KeepAliveInterval config = 0 then 30000000000 else KeepAliveInterval config)\<rparr>,
      pl_heap = [], pl_checkers = []\<rparr>"

section \<open>One connection\<close>

definition conn_at :: "ConnectionPool \<Rightarrow> nat \<Rightarrow> Connection" where
  "conn_at p r = pl_heap p ! r"

definition update_conn :: "nat \<Rightarrow> (Connection \<Rightarrow> Connection) \<Rightarrow> ConnectionPool \<Rightarrow> ConnectionPool" where
  "update_conn r f p = p\<lparr>pl_heap := (pl_heap p)[r := f (conn_at p r)]\<rparr>"

definition Close_conn :: "Connection \<Rightarrow> Connection" where
  "Close_conn c = c\<lparr>cn_stopKeyCheck := True, cn_closed := True\<rparr>"

definition isHealthy :: "(nat \<Rightarrow> bool) \<Rightarrow> ConnectionPool \<Rightarrow> nat \<Rightarrow> bool" where
  "isHealthy alive p r \<longleftrightarrow> \<not> cn_closed (conn_at p r) \<and> alive r"

definition touch :: "int \<Rightarrow> Connection \<Rightarrow> Connection" where
  "touch now c = c\<lparr>cn_LastActivityAt := now\<rparr>"

text \<open>
  \<open>Execute\<close>: the activity is recorded before the session is opened.  \<open>run\<close> is what the remote side
  does with the command: the two outputs and the error of \<open>Wait\<close>, or the error of a step.
\<close>

definition Execute ::
    "(nat \<Rightarrow> bool) \<Rightarrow> int \<Rightarrow> (string \<Rightarrow> string + string \<times> string \<times> string option) \<Rightarrow> nat \<Rightarrow> string \<Rightarrow> ConnectionPool
     \<Rightarrow> ConnectionPool \<times> string \<times> string \<times> string option" where
  "Execute alive now run r command p =
     (let p' = update_conn r (touch now) p in
      if \<not> isHealthy alive p r then (p', [], [], Some ''failed to create session'')
      else (case run command of
          Inl e \<Rightarrow> (p', [], [], Some e)
        | Inr (stdout, stderr, e) \<Rightarrow> (p', stdout, stderr, e)))"

definition SFTP :: "(nat \<Rightarrow> string option) \<Rightarrow> nat \<Rightarrow> ConnectionPool \<Rightarrow> ConnectionPool \<times> string option" where
  "SFTP start r p =
     (if cn_sftpClient (conn_at p r) then (p, None)
      else (case start r of
          Some e \<Rightarrow> (p, Some (''failed to create SFTP client: '' @ e))
        | None \<Rightarrow> (update_conn r (\<lambda>c. c\<lparr>cn_sftpClient := True\<rparr>) p, None)))"

text \<open>
  \<open>readAll\<close> on a reader: \<open>rd s\<close> is the chunk that a read in state \<open>s\<close> gives, whether it also reports an
  error (the end of the stream is one), and the next state.  It may never return.
\<close>

partial_function (option) readAll :: "('r \<Rightarrow> string \<times> bool \<times> 'r) \<Rightarrow> 'r \<Rightarrow> string \<Rightarrow> string option" where
  "readAll rd s data =
     (let chunk = fst (rd s); err = fst (snd (rd s)); s' = snd (snd (rd s)) in
      if err then Some (data @ chunk) else readAll rd s' (data @ chunk))"

section \<open>Opening connections\<close>

definition pool_key :: "ConnectionConfig \<Rightarrow> string" where
  "pool_key cfg = cc_User cfg @ ''@'' @ cc_Host cfg @ '':'' @ itoa (cc_Port cfg)"

definition FingerprintSHA256_signer :: "('pk, 'sg) ssh_env \<Rightarrow> 'sg \<Rightarrow> string" where
  "FingerprintSHA256_signer en s = fingerprint en (en_signer_key en s)"

definition filterSignersByFingerprint :: "('pk, 'sg) ssh_env \<Rightarrow> string + 'sg list \<Rightarrow> string \<Rightarrow> string + 'sg list" where
  "filterSignersByFingerprint en answer fp =
     (case answer of
        Inl e \<Rightarrow> Inl e
      | Inr signers \<Rightarrow>
          (case find (\<lambda>s. FingerprintSHA256_signer en s = fp) signers of
             None \<Rightarrow> Inl (''key with fingerprint '' @ fp @ '' not found in agent'')
           | Some s \<Rightarrow> Inr [s]))"

definition dial_key :: "('pk, 'sg) ssh_env \<Rightarrow> ConnectionConfig \<Rightarrow> string \<Rightarrow> string + 'sg auth_method" where
  "dial_key en cfg bytes =
     (case en_ParsePrivateKey en bytes (cc_Passphrase cfg) of
        Inl e \<Rightarrow> Inl (''failed to parse private key: '' @ e)
      | Inr signer \<Rightarrow> Inr (PublicKeys signer))"

definition dial_agent :: "('pk, 'sg) ssh_env \<Rightarrow> ConnectionConfig \<Rightarrow> 'sg auth_method list" where
  "dial_agent en cfg =
     (if cc_AgentSocket cfg \<noteq> [] \<and> en_agent en (cc_AgentSocket cfg) then
        (let answer = en_signers en (cc_AgentSocket cfg) in
         if cc_KeyFingerprint cfg \<noteq> [] then
           [PublicKeysCallback (filterSignersByFingerprint en answer (cc_KeyFingerprint cfg))]
         else [PublicKeysCallback answer])
      else [])"

definition dial_methods :: "('pk, 'sg) ssh_env \<Rightarrow> ConnectionConfig \<Rightarrow> fsys \<Rightarrow> string + 'sg auth_method list" where
  "dial_methods en cfg fs =
     (case (if cc_PrivateKey cfg \<noteq> [] then map_sum id (\<lambda>m. [m]) (dial_key en cfg (cc_PrivateKey cfg)) else Inr []) of
        Inl e \<Rightarrow> Inl e
      | Inr ms1 \<Rightarrow>
          (case (if cc_PrivateKeyPath cfg \<noteq> [] then
                   (case os_read_file fs (cc_PrivateKeyPath cfg) of
                      Inl e \<Rightarrow> Inl (''failed to read private key file: '' @ ioerr_msg e)
                    | Inr bytes \<Rightarrow> map_sum id (\<lambda>m. [m]) (dial_key en cfg bytes))
                 else Inr []) of
             Inl e \<Rightarrow> Inl e
           | Inr ms2 \<Rightarrow>
               (let ms = ms1 @ ms2 @ dial_agent en cfg in
                if ms = [] then Inl ''no authentication methods available - load key into agent or provide key file''
                else Inr ms)))"

text \<open>\<open>dial\<close> accepts every host key (\<open>ssh.InsecureIgnoreHostKey\<close>).  \<open>now\<close> is the clock when it is done.\<close>

definition dial_conn :: "('pk, 'sg) ssh_env \<Rightarrow> ConnectionConfig \<Rightarrow> fsys \<Rightarrow> int \<Rightarrow> string + Connection" where
  "dial_conn en cfg0 fs now =
     (let cfg = cfg0\<lparr>cc_Port := default_port (cc_Port cfg0)\<rparr> in
      case dial_methods en cfg fs of
        Inl e \<Rightarrow> Inl e
      | Inr ms \<Rightarrow>
          (case ssh_dial en (dial_addr (cc_Host cfg) (cc_Port cfg)) (cc_User cfg) ms (\<lambda>hostname key. None) of
             Inl e \<Rightarrow> Inl (''failed to connect: '' @ e)
           | Inr (version, out) \<Rightarrow>
               Inr \<lparr>cn_ID = itoa now, cn_RemoteID = [], cn_Host = cc_Host cfg, cn_Port = cc_Port cfg,
                 cn_User = cc_User cfg, cn_ServerVersion = version, cn_ConnectedAt = now, cn_LastActivityAt = now,
                 cn_KeyFingerprint = cc_KeyFingerprint cfg, cn_agentSocket = cc_AgentSocket cfg,
                 cn_sftpClient = False, cn_stopKeyCheck = False, cn_closed = False\<rparr>))"

section \<open>The operations of the pool\<close>

text \<open>\<open>conn.Close(); delete(p.connections, key)\<close>.\<close>

definition drop_conn :: "string \<Rightarrow> nat \<Rightarrow> ConnectionPool \<Rightarrow> ConnectionPool" where
  "drop_conn key r p =
     (let p' = update_conn r Close_conn p in
      p'\<lparr>pl_connections := filter (\<lambda>kr. fst kr \<noteq> key) (pl_connections p')\<rparr>)"

definition add_conn :: "string \<Rightarrow> Connection \<Rightarrow> ConnectionPool \<Rightarrow> ConnectionPool" where
  "add_conn key c p =
     p\<lparr>pl_connections := (key, length (pl_heap p)) # pl_connections p, pl_heap := pl_heap p @ [c],
       pl_checkers := (if cn_KeyFingerprint c \<noteq> [] \<and> cn_agentSocket c \<noteq> []
         then length (pl_heap p) # pl_checkers p else pl_checkers p)\<rparr>"

definition Connect_new ::
    "('pk, 'sg) ssh_env \<Rightarrow> ConnectionConfig \<Rightarrow> fsys \<Rightarrow> int \<Rightarrow> ConnectionPool \<Rightarrow> ConnectionPool \<times> (string + nat)" where
  "Connect_new en cfg fs now p =
     (if int (length (pl_connections p)) \<ge> MaxConnections (pl_config p) then
        (p, Inl ''connection pool limit reached'')
      else (case dial_conn en cfg fs now of
          Inl e \<Rightarrow> (p, Inl e)
        | Inr c \<Rightarrow> (add_conn (pool_key cfg) c p, Inr (length (pl_heap p)))))"

definition Connect_pool ::
    "('pk, 'sg) ssh_env \<Rightarrow> (nat \<Rightarrow> bool) \<Rightarrow> ConnectionConfig \<Rightarrow> fsys \<Rightarrow> int \<Rightarrow> ConnectionPool
     \<Rightarrow> ConnectionPool \<times> (string + nat)" where
  "Connect_pool en alive cfg fs now p =
     (case map_of (pl_connections p) (pool_key cfg) of
        Some r \<Rightarrow>
          if isHealthy alive p r then (update_conn r (touch now) p, Inr r)
          else Connect_new en cfg fs now (drop_conn (pool_key cfg) r p)
      | None \<Rightarrow> Connect_new en cfg fs now p)"

definition find_conn :: "string \<Rightarrow> ConnectionPool \<Rightarrow> (string \<times> nat) option" where
  "find_conn cid p = find (\<lambda>(k, r). cn_ID (conn_at p r) = cid) (pl_connections p)"

definition Disconnect_pool :: "string \<Rightarrow> ConnectionPool \<Rightarrow> ConnectionPool \<times> string option" where
  "Disconnect_pool cid p =
     (case find_conn cid p of
        Some (k, r) \<Rightarrow> (drop_conn k r p, None)
      | None \<Rightarrow> (p, Some (''connection not found: '' @ cid)))"

definition Get_pool :: "string \<Rightarrow> ConnectionPool \<Rightarrow> string + nat" where
  "Get_pool cid p =
     (case find_conn cid p of Some (k, r) \<Rightarrow> Inr r | None \<Rightarrow> Inl (''connection not found: '' @ cid))"

definition List_pool :: "ConnectionPool \<Rightarrow> nat list" where
  "List_pool p = map snd (pl_connections p)"

text \<open>One tick of \<open>cleanup\<close>.\<close>

definition idle_conn :: "int \<Rightarrow> ConnectionPool \<Rightarrow> nat \<Rightarrow> bool" where
  "idle_conn now p r \<longleftrightarrow> now - cn_LastActivityAt (conn_at p r) > MaxIdleTime (pl_config p)"

definition cleanup :: "int \<Rightarrow> ConnectionPool \<Rightarrow> ConnectionPool" where
  "cleanup now p = fold (\<lambda>(k, r) q. if idle_conn now q r then drop_conn k r q else q) (pl_connections p) p"

definition isKeyInAgent :: "(string \<Rightarrow> string + string list) \<Rightarrow> string \<Rightarrow> string \<Rightarrow> bool" where
  "isKeyInAgent agent_keys agentSocket fp \<longleftrightarrow>
     (if agentSocket = [] \<or> fp = [] then True
      else (case agent_keys agentSocket of Inl e \<Rightarrow> False | Inr fps \<Rightarrow> fp \<in> set fps))"

text \<open>A tick of the goroutine that watches the key of a connection.\<close>

definition watchKeyPresence_tick :: "(string \<Rightarrow> string + string list) \<Rightarrow> nat \<Rightarrow> ConnectionPool \<Rightarrow> ConnectionPool" where
  "watchKeyPresence_tick agent_keys r p =
     (let c = conn_at p r in
      if isKeyInAgent agent_keys (cn_agentSocket c) (cn_KeyFingerprint c) then p
      else fst (Disconnect_pool (cn_ID c) p))"

section \<open>The watcher\<close>

text \<open>
  \<open>connectionsEqual\<close>: \<open>aMap\<close> holds the last connection of each ID; the loop over \<open>b\<close> returns true at the
  first ID it does not know.
\<close>

fun conns_known :: "Connection list \<Rightarrow> Connection list \<Rightarrow> bool" where
  "conns_known a [] = True"
| "conns_known a (c # b) =
     (case map_of (rev (map (\<lambda>x. (cn_ID x, x)) a)) (cn_ID c) of
        None \<Rightarrow> True
      | Some ac \<Rightarrow>
          if cn_Host ac \<noteq> cn_Host c \<or> cn_Port ac \<noteq> cn_Port c \<or> cn_User ac \<noteq> cn_User c
             \<or> cn_ServerVersion ac \<noteq> cn_ServerVersion c
          then False else conns_known a b)"

definition connectionsEqual :: "Connection list \<Rightarrow> Connection list \<Rightarrow> bool" where
  "connectionsEqual a b = (if length a \<noteq> length b then False else conns_known a b)"

text \<open>The loop polls the pools that \<open>states\<close> holds, one per tick.\<close>

definition pollLoop_conns ::
    "ConnectionPool list \<Rightarrow> Connection list phase \<times> (string, Connection list) update hub
     \<Rightarrow> Connection list phase \<times> (string, Connection list) update hub" where
  "pollLoop_conns states st =
     loop_run connectionsEqual (map (\<lambda>p. Inr (map (conn_at p) (List_pool p))) states) st"

section \<open>The invariant of the pool\<close>

text \<open>A connection carries the identity that \<open>dial\<close> gave it.\<close>

definition conn_wf :: "Connection \<Rightarrow> bool" where
  "conn_wf c \<longleftrightarrow> cn_ID c = itoa (cn_ConnectedAt c) \<and> cn_stopKeyCheck c = cn_closed c"

definition key_of_conn :: "string \<Rightarrow> Connection \<Rightarrow> bool" where
  "key_of_conn k c \<longleftrightarrow> (\<exists>port. k = cn_User c @ ''@'' @ cn_Host c @ '':'' @ itoa port \<and> cn_Port c = default_port port)"

definition pool_inv :: "ConnectionPool \<Rightarrow> bool" where
  "pool_inv p \<longleftrightarrow> distinct (map fst (pl_connections p)) \<and> distinct (map snd (pl_connections p))
    \<and> (\<forall>r \<in> set (List_pool p). r < length (pl_heap p))
    \<and> (\<forall>r < length (pl_heap p). cn_closed (conn_at p r) \<longleftrightarrow> r \<notin> set (List_pool p))
    \<and> (\<forall>(k, r) \<in> set (pl_connections p). key_of_conn k (conn_at p r))
    \<and> (\<forall>c \<in> set (pl_heap p). conn_wf c) \<and> distinct (map cn_ConnectedAt (pl_heap p))
    \<and> int (length (pl_connections p)) \<le> max 0 (MaxConnections (pl_config p))
    \<and> (\<forall>r < length (pl_heap p). cn_KeyFingerprint (conn_at p r) \<noteq> [] \<and> cn_agentSocket (conn_at p r) \<noteq> []
        \<longrightarrow> r \<in> set (pl_checkers p))"

lemma pool_update_simps [simp]:
  "pl_connections (update_conn r f p) = pl_connections p"
  "pl_config (update_conn r f p) = pl_config p"
  "pl_checkers (update_conn r f p) = pl_checkers p"
  "pl_heap (update_conn r f p) = (pl_heap p)[r := f (conn_at p r)]"
  "List_pool (update_conn r f p) = List_pool p"
  by (simp_all add: update_conn_def List_pool_def)

lemma conn_at_update [simp]:
  "s < length (pl_heap p) \<Longrightarrow> conn_at (update_conn r f p) s = (if s = r then f (conn_at p r) else conn_at p s)"
  by (simp add: conn_at_def nth_list_update)

lemma pool_inv_new: "pool_inv (NewConnectionPool cfg)"
  by (simp add: pool_inv_def NewConnectionPool_def List_pool_def)

lemma pool_inv_update:
  assumes inv: "pool_inv p" and r: "r < length (pl_heap p)"
    and f: "\<And>c. cn_ID (f c) = cn_ID c" "\<And>c. cn_Host (f c) = cn_Host c" "\<And>c. cn_Port (f c) = cn_Port c"
      "\<And>c. cn_User (f c) = cn_User c" "\<And>c. cn_ConnectedAt (f c) = cn_ConnectedAt c"
      "\<And>c. cn_KeyFingerprint (f c) = cn_KeyFingerprint c" "\<And>c. cn_agentSocket (f c) = cn_agentSocket c"
      "\<And>c. cn_stopKeyCheck (f c) = cn_stopKeyCheck c" "\<And>c. cn_closed (f c) = cn_closed c"
  shows "pool_inv (update_conn r f p)"
proof -
  let ?q = "update_conn r f p"
  have at: "cn_closed (conn_at ?q s) = cn_closed (conn_at p s)" "key_of_conn k (conn_at ?q s) = key_of_conn k (conn_at p s)"
    "cn_KeyFingerprint (conn_at ?q s) = cn_KeyFingerprint (conn_at p s)" "cn_agentSocket (conn_at ?q s) = cn_agentSocket (conn_at p s)"
    if "s < length (pl_heap p)" for s k
    using that f by (simp_all add: key_of_conn_def)
  have wf: "\<forall>c \<in> set (pl_heap ?q). conn_wf c"
  proof
    fix c assume "c \<in> set (pl_heap ?q)"
    then have "c = f (conn_at p r) \<or> c \<in> set (pl_heap p)" using set_update_subset_insert [of "pl_heap p" r] by auto
    moreover have "conn_at p r \<in> set (pl_heap p)" using r by (simp add: conn_at_def)
    ultimately show "conn_wf c" using inv f by (auto simp: pool_inv_def conn_wf_def)
  qed
  have times: "map cn_ConnectedAt (pl_heap ?q) = map cn_ConnectedAt (pl_heap p)"
    using r f by (simp add: map_update conn_at_def list_update_same_conv)
  have refs: "\<And>k s. (k, s) \<in> set (pl_connections p) \<Longrightarrow> s < length (pl_heap p)"
    using inv by (force simp: pool_inv_def List_pool_def)
  show ?thesis
    using inv wf times at refs unfolding pool_inv_def by (simp add: split_beta) force
qed

lemma pool_inv_drop:
  assumes inv: "pool_inv p" and kr: "(k, r) \<in> set (pl_connections p)"
  shows "pool_inv (drop_conn k r p)"
proof -
  let ?q = "drop_conn k r p"
  have r: "r < length (pl_heap p)" using inv kr by (force simp: pool_inv_def List_pool_def)
  have conns: "pl_connections ?q = filter (\<lambda>kr. fst kr \<noteq> k) (pl_connections p)"
    and rest: "pl_config ?q = pl_config p" "pl_checkers ?q = pl_checkers p"
    and heap: "pl_heap ?q = (pl_heap p)[r := Close_conn (conn_at p r)]"
    by (simp_all add: drop_conn_def Let_def)
  have dist: "distinct (map fst (pl_connections p))" "distinct (map snd (pl_connections p))"
    using inv by (auto simp: pool_inv_def)
  have refs: "set (List_pool ?q) = set (List_pool p) - {r}"
  proof -
    have "(k', s) \<in> set (pl_connections p) \<Longrightarrow> k' = k \<longleftrightarrow> s = r" for k' s
      using kr dist by (metis eq_key_imp_eq_value inj_on_def distinct_map prod.inject snd_conv)
    then show ?thesis by (force simp: List_pool_def conns)
  qed
  have at: "conn_at ?q s = (if s = r then Close_conn (conn_at p r) else conn_at p s)" if "s < length (pl_heap p)" for s
    using that by (simp add: conn_at_def heap nth_list_update)
  have wf: "\<forall>c \<in> set (pl_heap ?q). conn_wf c"
  proof
    fix c assume "c \<in> set (pl_heap ?q)"
    then have "c = Close_conn (conn_at p r) \<or> c \<in> set (pl_heap p)"
      using set_update_subset_insert [of "pl_heap p" r] by (auto simp: heap)
    moreover have "conn_at p r \<in> set (pl_heap p)" using r by (simp add: conn_at_def)
    ultimately show "conn_wf c" using inv by (auto simp: pool_inv_def conn_wf_def Close_conn_def)
  qed
  have times: "map cn_ConnectedAt (pl_heap ?q) = map cn_ConnectedAt (pl_heap p)"
    using r by (simp add: map_update conn_at_def list_update_same_conv heap Close_conn_def)
  have len: "length (pl_connections ?q) \<le> length (pl_connections p)" by (simp add: conns)
  have fields: "cn_KeyFingerprint (Close_conn c) = cn_KeyFingerprint c" "cn_agentSocket (Close_conn c) = cn_agentSocket c"
    "cn_closed (Close_conn c)" for c by (simp_all add: Close_conn_def)
  have keys: "\<forall>(k', s) \<in> set (pl_connections ?q). key_of_conn k' (conn_at ?q s)"
  proof clarify
    fix k' s assume ks: "(k', s) \<in> set (pl_connections ?q)"
    then have "s \<in> set (List_pool ?q)" by (force simp: List_pool_def)
    then have "s \<noteq> r" "s < length (pl_heap p)" using refs inv by (auto simp: pool_inv_def)
    then show "key_of_conn k' (conn_at ?q s)" using ks inv at by (auto simp: conns pool_inv_def)
  qed
  show ?thesis
    unfolding pool_inv_def
  proof (intro conjI)
    show "distinct (map fst (pl_connections ?q))" "distinct (map snd (pl_connections ?q))"
      using dist by (auto simp: conns distinct_map inj_on_def)
    show "int (length (pl_connections ?q)) \<le> max 0 (MaxConnections (pl_config ?q))"
      using len inv by (auto simp: pool_inv_def rest)
    show "\<forall>s \<in> set (List_pool ?q). s < length (pl_heap ?q)" using inv by (auto simp: refs heap pool_inv_def)
    show "\<forall>s < length (pl_heap ?q). cn_closed (conn_at ?q s) \<longleftrightarrow> s \<notin> set (List_pool ?q)"
      using inv by (auto simp: refs heap at fields pool_inv_def)
    show "\<forall>s < length (pl_heap ?q). cn_KeyFingerprint (conn_at ?q s) \<noteq> [] \<and> cn_agentSocket (conn_at ?q s) \<noteq> []
        \<longrightarrow> s \<in> set (pl_checkers ?q)"
      using inv by (auto simp: heap rest at fields pool_inv_def)
    show "distinct (map cn_ConnectedAt (pl_heap ?q))" using inv times by (simp add: pool_inv_def)
  qed (use wf keys in auto)
qed

lemma pool_inv_add:
  assumes inv: "pool_inv p" and room: "int (length (pl_connections p)) < MaxConnections (pl_config p)"
    and fresh: "k \<notin> set (map fst (pl_connections p))" "\<forall>c' \<in> set (pl_heap p). cn_ConnectedAt c' < cn_ConnectedAt c"
    and c: "conn_wf c" "key_of_conn k c" "\<not> cn_closed c"
  shows "pool_inv (add_conn k c p)"
proof -
  let ?q = "add_conn k c p"
  have conns: "pl_connections ?q = (k, length (pl_heap p)) # pl_connections p" and heap: "pl_heap ?q = pl_heap p @ [c]"
    and cfg: "pl_config ?q = pl_config p" and mem: "set (pl_checkers p) \<subseteq> set (pl_checkers ?q)"
    and new: "cn_KeyFingerprint c \<noteq> [] \<Longrightarrow> cn_agentSocket c \<noteq> [] \<Longrightarrow> length (pl_heap p) \<in> set (pl_checkers ?q)"
    by (auto simp: add_conn_def)
  have refs: "set (List_pool ?q) = insert (length (pl_heap p)) (set (List_pool p))" by (simp add: List_pool_def conns)
  have at: "conn_at ?q r = (if r = length (pl_heap p) then c else conn_at p r)" if "r < Suc (length (pl_heap p))" for r
    using that by (auto simp: conn_at_def heap nth_append)
  have old: "\<forall>r \<in> set (List_pool p). r < length (pl_heap p)" using inv by (simp add: pool_inv_def)
  show ?thesis
    unfolding pool_inv_def
  proof (intro conjI)
    show "distinct (map fst (pl_connections ?q))" using inv fresh by (simp add: conns pool_inv_def)
    show "distinct (map snd (pl_connections ?q))"
      using inv old by (auto simp: conns pool_inv_def List_pool_def)
    show "int (length (pl_connections ?q)) \<le> max 0 (MaxConnections (pl_config ?q))" using room by (simp add: conns cfg)
    show "\<forall>r \<in> set (List_pool ?q). r < length (pl_heap ?q)" using old by (auto simp: refs heap)
    show "\<forall>r < length (pl_heap ?q). cn_closed (conn_at ?q r) \<longleftrightarrow> r \<notin> set (List_pool ?q)"
      using inv c(3) by (auto simp: refs heap at pool_inv_def less_Suc_eq)
    show "\<forall>(k', r) \<in> set (pl_connections ?q). key_of_conn k' (conn_at ?q r)"
    proof clarify
      fix k' r assume kr: "(k', r) \<in> set (pl_connections ?q)"
      then have "r < Suc (length (pl_heap p))" using old by (force simp: conns List_pool_def)
      moreover have "r \<noteq> length (pl_heap p) \<Longrightarrow> (k', r) \<in> set (pl_connections p)" using kr by (simp add: conns)
      moreover have "r = length (pl_heap p) \<Longrightarrow> k' = k" using kr old by (force simp: conns List_pool_def)
      ultimately show "key_of_conn k' (conn_at ?q r)" using inv c(2) by (auto simp: at pool_inv_def)
    qed
    show "\<forall>c \<in> set (pl_heap ?q). conn_wf c" using inv c(1) by (simp add: heap pool_inv_def)
    show "distinct (map cn_ConnectedAt (pl_heap ?q))" using inv fresh(2) by (auto simp: heap pool_inv_def)
    show "\<forall>r < length (pl_heap ?q). cn_KeyFingerprint (conn_at ?q r) \<noteq> [] \<and> cn_agentSocket (conn_at ?q r) \<noteq> []
        \<longrightarrow> r \<in> set (pl_checkers ?q)"
      using inv mem new by (auto simp: heap at pool_inv_def less_Suc_eq)
  qed
qed

lemma dial_conn_wf:
  assumes "dial_conn en cfg fs now = Inr c"
  shows "conn_wf c" and "key_of_conn (pool_key cfg) c" and "\<not> cn_closed c" and "cn_ConnectedAt c = now"
    and "cn_Host c = cc_Host cfg" and "cn_User c = cc_User cfg" and "cn_Port c = default_port (cc_Port cfg)"
    and "cn_KeyFingerprint c = cc_KeyFingerprint cfg"
  using assms
  by (auto simp: dial_conn_def Let_def conn_wf_def key_of_conn_def pool_key_def split: sum.splits)

definition clock_ok :: "ConnectionPool \<Rightarrow> int \<Rightarrow> bool" where
  "clock_ok p now \<longleftrightarrow> (\<forall>c \<in> set (pl_heap p). cn_ConnectedAt c < now)"

lemma pool_inv_Connect_new:
  assumes inv: "pool_inv p" and fresh: "pool_key cfg \<notin> set (map fst (pl_connections p))" and clock: "clock_ok p now"
  shows "pool_inv (fst (Connect_new en cfg fs now p))"
proof (cases "int (length (pl_connections p)) \<ge> MaxConnections (pl_config p)")
  case True
  then show ?thesis using inv by (simp add: Connect_new_def)
next
  case room: False
  show ?thesis
  proof (cases "dial_conn en cfg fs now")
    case (Inl e)
    then show ?thesis using inv room by (simp add: Connect_new_def)
  next
    case (Inr c)
    note wf = dial_conn_wf [OF Inr]
    have "pool_inv (add_conn (pool_key cfg) c p)"
      by (rule pool_inv_add [OF inv _ fresh]) (use room clock wf in \<open>auto simp: clock_ok_def\<close>)
    then show ?thesis using room Inr by (simp add: Connect_new_def)
  qed
qed

lemma drop_conn_keys: "set (map fst (pl_connections (drop_conn k r p))) = set (map fst (pl_connections p)) - {k}"
  by (auto simp: drop_conn_def Let_def)

lemma drop_conn_times: "r < length (pl_heap p) \<Longrightarrow> cn_ConnectedAt ` set (pl_heap (drop_conn k r p)) \<subseteq> cn_ConnectedAt ` set (pl_heap p)"
  using set_update_subset_insert [of "pl_heap p" r "Close_conn (conn_at p r)"]
  by (force simp: drop_conn_def Let_def Close_conn_def conn_at_def)

lemma clock_ok_drop: "clock_ok p now \<Longrightarrow> r < length (pl_heap p) \<Longrightarrow> clock_ok (drop_conn k r p) now"
  using drop_conn_times [of r p k] by (force simp: clock_ok_def image_subset_iff)

lemma pool_inv_ref: "pool_inv p \<Longrightarrow> (k, r) \<in> set (pl_connections p) \<Longrightarrow> r < length (pl_heap p)"
  by (force simp: pool_inv_def List_pool_def)

lemma pool_inv_touch: "pool_inv p \<Longrightarrow> r < length (pl_heap p) \<Longrightarrow> pool_inv (update_conn r (touch now) p)"
  by (rule pool_inv_update) (simp_all add: touch_def)

lemma pool_inv_Connect:
  assumes inv: "pool_inv p" and clock: "clock_ok p now"
  shows "pool_inv (fst (Connect_pool en alive cfg fs now p))"
proof (cases "map_of (pl_connections p) (pool_key cfg)")
  case None
  then have "pool_key cfg \<notin> set (map fst (pl_connections p))" by (simp add: map_of_eq_None_iff)
  with None show ?thesis using pool_inv_Connect_new [OF inv _ clock] by (simp add: Connect_pool_def)
next
  case (Some r)
  then have kr: "(pool_key cfg, r) \<in> set (pl_connections p)" by (rule map_of_SomeD)
  note r = pool_inv_ref [OF inv kr]
  have "pool_inv (fst (Connect_new en cfg fs now (drop_conn (pool_key cfg) r p)))"
    by (rule pool_inv_Connect_new [OF pool_inv_drop [OF inv kr] _ clock_ok_drop [OF clock r]])
      (simp only: drop_conn_keys, simp)
  with Some show ?thesis using pool_inv_touch [OF inv r] by (simp add: Connect_pool_def)
qed

lemma find_conn_SomeD:
  "find_conn c p = Some (k, r) \<Longrightarrow> (k, r) \<in> set (pl_connections p) \<and> cn_ID (conn_at p r) = c"
  by (auto simp: find_conn_def find_Some_iff in_set_conv_nth intro: nth_mem)

lemma pool_inv_Disconnect: "pool_inv p \<Longrightarrow> pool_inv (fst (Disconnect_pool c p))"
  by (auto simp: Disconnect_pool_def dest!: find_conn_SomeD intro: pool_inv_drop split: option.split)

lemma pool_inv_cleanup:
  assumes "pool_inv p"
  shows "pool_inv (cleanup now p)"
proof -
  have "pool_inv (fold (\<lambda>(k, r) q. if idle_conn now q r then drop_conn k r q else q) xs q)"
    if "pool_inv q" "distinct (map fst xs)" "set xs \<subseteq> set (pl_connections q)" for xs q
    using that
  proof (induction xs arbitrary: q)
    case Nil
    then show ?case by simp
  next
    case (Cons x xs)
    obtain k r where x: "x = (k, r)" by fastforce
    have "set xs \<subseteq> set (pl_connections (drop_conn k r q))"
      using Cons.prems x by (force simp: drop_conn_def Let_def)
    moreover have "pool_inv (drop_conn k r q)" using Cons.prems x by (intro pool_inv_drop) auto
    ultimately show ?case using Cons.IH [of "drop_conn k r q"] Cons.IH [of q] Cons.prems x by simp
  qed
  moreover have "distinct (map fst (pl_connections p))" using assms by (simp add: pool_inv_def)
  ultimately show ?thesis using assms unfolding cleanup_def by blast
qed


section \<open>Runs of the pool\<close>

text \<open>
  The environment is a function of the time: the network and the agent, the files, and which
  connections answer.  Time moves forward between two connections.
\<close>

type_synonym ('pk, 'sg) pool_env = "int \<Rightarrow> ('pk, 'sg) ssh_env \<times> fsys \<times> (nat \<Rightarrow> bool)"

inductive pool_step :: "('pk, 'sg) pool_env \<Rightarrow> ConnectionPool \<Rightarrow> ConnectionPool \<Rightarrow> bool" for env where
  connect: "env now = (en, fs, alive) \<Longrightarrow> clock_ok p now \<Longrightarrow> pool_step env p (fst (Connect_pool en alive cfg fs now p))"
| disconnect: "pool_step env p (fst (Disconnect_pool c p))"
| clean: "pool_step env p (cleanup now p)"
| key_tick: "r \<in> set (pl_checkers p) \<Longrightarrow> pool_step env p (watchKeyPresence_tick agent_keys r p)"
| execute: "r < length (pl_heap p) \<Longrightarrow> pool_step env p (fst (Execute alive now run r command p))"
| sftp: "r < length (pl_heap p) \<Longrightarrow> pool_step env p (fst (SFTP start r p))"
| set_remote: "r < length (pl_heap p) \<Longrightarrow> pool_step env p (update_conn r (\<lambda>c. c\<lparr>cn_RemoteID := i\<rparr>) p)"

inductive pool_reachable :: "('pk, 'sg) pool_env \<Rightarrow> PoolConfig \<Rightarrow> ConnectionPool \<Rightarrow> bool" for env config where
  start: "pool_reachable env config (NewConnectionPool config)"
| step: "pool_reachable env config p \<Longrightarrow> pool_step env p q \<Longrightarrow> pool_reachable env config q"

lemma pool_step_inv: "pool_step env p q \<Longrightarrow> pool_inv p \<Longrightarrow> pool_inv q"
proof (induction rule: pool_step.induct)
  case (connect now en fs alive p cfg)
  then show ?case by (simp add: pool_inv_Connect)
next
  case (disconnect p c)
  then show ?case by (simp add: pool_inv_Disconnect)
next
  case (clean p now)
  then show ?case by (simp add: pool_inv_cleanup)
next
  case (key_tick r p agent_keys)
  then show ?case by (simp add: watchKeyPresence_tick_def Let_def pool_inv_Disconnect)
next
  case (execute r p alive now run command)
  have "fst (Execute alive now run r command p) = update_conn r (touch now) p"
    by (simp add: Execute_def Let_def split: sum.split)
  then show ?case using execute pool_inv_touch by simp
next
  case (sftp r p start)
  have "pool_inv (update_conn r (\<lambda>c. c\<lparr>cn_sftpClient := True\<rparr>) p)"
    by (rule pool_inv_update) (use sftp in simp_all)
  then show ?case using sftp by (simp add: SFTP_def split: option.split)
next
  case (set_remote r p i)
  show ?case by (rule pool_inv_update) (use set_remote in simp_all)
qed

lemma pool_reachable_inv: "pool_reachable env config p \<Longrightarrow> pool_inv p"
  by (induction rule: pool_reachable.induct) (auto intro: pool_inv_new pool_step_inv)

lemma pool_key_ref:
  assumes "pool_inv p" and "(k, r) \<in> set (pl_connections p)" and "(k', s) \<in> set (pl_connections p)"
  shows "k' = k \<longleftrightarrow> s = r"
proof -
  have "distinct (map fst (pl_connections p))" "distinct (map snd (pl_connections p))"
    using assms(1) by (auto simp: pool_inv_def)
  then show ?thesis
    using assms(2,3) by (metis eq_key_imp_eq_value inj_on_def distinct_map prod.inject snd_conv)
qed

lemma pool_inv_ids:
  assumes inv: "pool_inv p" and "r < length (pl_heap p)" "s < length (pl_heap p)" "cn_ID (conn_at p r) = cn_ID (conn_at p s)"
  shows "r = s"
proof -
  have "conn_wf (conn_at p r)" "conn_wf (conn_at p s)"
    using inv assms(2,3) by (auto simp: pool_inv_def conn_at_def)
  then have "cn_ConnectedAt (conn_at p r) = cn_ConnectedAt (conn_at p s)"
    using assms(4) by (simp add: conn_wf_def)
  moreover have "distinct (map cn_ConnectedAt (pl_heap p))" using inv by (simp add: pool_inv_def)
  ultimately show ?thesis
    using assms(2,3) by (metis conn_at_def length_map nth_eq_iff_index_eq nth_map)
qed

lemma find_conn_ref:
  assumes inv: "pool_inv p" and kr: "(k, r) \<in> set (pl_connections p)"
  shows "find_conn (cn_ID (conn_at p r)) p = Some (k, r)"
proof -
  have r: "r < length (pl_heap p)" by (rule pool_inv_ref [OF inv kr])
  have "find_conn (cn_ID (conn_at p r)) p \<noteq> None"
    using kr by (auto simp: find_conn_def find_None_iff split_beta intro!: bexI [of _ "(k, r)"])
  then obtain k' s where f: "find_conn (cn_ID (conn_at p r)) p = Some (k', s)" by auto
  from find_conn_SomeD [OF f] have ks: "(k', s) \<in> set (pl_connections p)" "cn_ID (conn_at p s) = cn_ID (conn_at p r)"
    by auto
  have "s = r" using pool_inv_ids [OF inv _ r ks(2)] pool_inv_ref [OF inv ks(1)] by blast
  moreover have "k' = k"
    using pool_key_ref [OF inv kr ks(1)] \<open>s = r\<close> by simp
  ultimately show ?thesis using f by simp
qed

lemma Get_pool_iff:
  assumes inv: "pool_inv p"
  shows "Get_pool i p = Inr r \<longleftrightarrow> r \<in> set (List_pool p) \<and> cn_ID (conn_at p r) = i"
proof
  assume "Get_pool i p = Inr r"
  then obtain k where "find_conn i p = Some (k, r)" by (auto simp: Get_pool_def split: option.splits)
  then show "r \<in> set (List_pool p) \<and> cn_ID (conn_at p r) = i"
    by (force dest!: find_conn_SomeD simp: List_pool_def)
next
  assume "r \<in> set (List_pool p) \<and> cn_ID (conn_at p r) = i"
  then obtain k where "(k, r) \<in> set (pl_connections p)" "cn_ID (conn_at p r) = i" by (auto simp: List_pool_def)
  then show "Get_pool i p = Inr r" using find_conn_ref [OF inv] by (force simp: Get_pool_def)
qed

text \<open>
  C10. In every reachable state of the pool, whatever the network, the files and the agent do: there are at most
  \<open>MaxConnections\<close> connections, the open ones are exactly the pooled ones (no connection is leaked, none is kept after
  its end), an ID finds the connection that has it and no other, each is filed under the
  user and host it was opened for, and one that was opened with a key of the agent has its key watched.
\<close>

theorem pool_owns_connections:
  assumes "pool_reachable env config p"
  shows "int (length (List_pool p)) \<le> max 0 (MaxConnections (pl_config p))
    \<and> (\<forall>r < length (pl_heap p). \<not> cn_closed (conn_at p r) \<longleftrightarrow> r \<in> set (List_pool p))
    \<and> (\<forall>i r. Get_pool i p = Inr r \<longleftrightarrow> r \<in> set (List_pool p) \<and> cn_ID (conn_at p r) = i)
    \<and> (\<forall>k r. map_of (pl_connections p) k = Some r \<longrightarrow> r < length (pl_heap p) \<and> key_of_conn k (conn_at p r))
    \<and> (\<forall>r \<in> set (List_pool p). cn_KeyFingerprint (conn_at p r) \<noteq> [] \<and> cn_agentSocket (conn_at p r) \<noteq> []
        \<longrightarrow> r \<in> set (pl_checkers p))"
proof -
  have inv: "pool_inv p" by (rule pool_reachable_inv [OF assms])
  show ?thesis
  proof (intro conjI)
    show "\<forall>i r. Get_pool i p = Inr r \<longleftrightarrow> r \<in> set (List_pool p) \<and> cn_ID (conn_at p r) = i"
      using Get_pool_iff [OF inv] by blast
    show "\<forall>k r. map_of (pl_connections p) k = Some r \<longrightarrow> r < length (pl_heap p) \<and> key_of_conn k (conn_at p r)"
      using inv pool_inv_ref [OF inv] by (auto simp: pool_inv_def dest!: map_of_SomeD)
  qed (use inv in \<open>auto simp: pool_inv_def List_pool_def\<close>)
qed

text \<open>Dropping a connection.\<close>

lemma drop_conn_effect:
  assumes inv: "pool_inv p" and kr: "(k, r) \<in> set (pl_connections p)"
  shows "set (List_pool (drop_conn k r p)) = set (List_pool p) - {r}"
    and "s < length (pl_heap p) \<Longrightarrow> s \<noteq> r \<Longrightarrow> conn_at (drop_conn k r p) s = conn_at p s"
    and "cn_closed (conn_at (drop_conn k r p) r)" and "cn_ID (conn_at (drop_conn k r p) r) = cn_ID (conn_at p r)"
    and "length (pl_heap (drop_conn k r p)) = length (pl_heap p)"
proof -
  have r: "r < length (pl_heap p)" by (rule pool_inv_ref [OF inv kr])
  show "set (List_pool (drop_conn k r p)) = set (List_pool p) - {r}"
    using pool_key_ref [OF inv kr] by (force simp: List_pool_def drop_conn_def Let_def)
  show "s < length (pl_heap p) \<Longrightarrow> s \<noteq> r \<Longrightarrow> conn_at (drop_conn k r p) s = conn_at p s"
    by (simp add: drop_conn_def Let_def conn_at_def)
  show "cn_closed (conn_at (drop_conn k r p) r)" "cn_ID (conn_at (drop_conn k r p) r) = cn_ID (conn_at p r)"
    "length (pl_heap (drop_conn k r p)) = length (pl_heap p)"
    using r by (simp_all add: drop_conn_def Let_def conn_at_def Close_conn_def)
qed

text \<open>
  C39. A connection opened with a key of the agent ends when the key is gone: its goroutine is running, and the next tick that finds
  the key missing (or the agent unreachable) closes it and takes it out of the pool, and
  touches no other connection.
\<close>

theorem key_removal_disconnects:
  assumes "pool_reachable env config p" and r: "r \<in> set (List_pool p)"
    and key: "cn_KeyFingerprint (conn_at p r) \<noteq> []" "cn_agentSocket (conn_at p r) \<noteq> []"
    and gone: "\<forall>fps. agent_keys (cn_agentSocket (conn_at p r)) = Inr fps \<longrightarrow> cn_KeyFingerprint (conn_at p r) \<notin> set fps"
  defines "q \<equiv> watchKeyPresence_tick agent_keys r p"
  shows "r \<in> set (pl_checkers p) \<and> cn_closed (conn_at q r) \<and> set (List_pool q) = set (List_pool p) - {r}
    \<and> Get_pool (cn_ID (conn_at p r)) q = Inl (''connection not found: '' @ cn_ID (conn_at p r))
    \<and> (\<forall>s < length (pl_heap p). s \<noteq> r \<longrightarrow> conn_at q s = conn_at p s)"
proof -
  have inv: "pool_inv p" by (rule pool_reachable_inv [OF assms(1)])
  obtain k where kr: "(k, r) \<in> set (pl_connections p)" using r by (auto simp: List_pool_def)
  have "\<not> isKeyInAgent agent_keys (cn_agentSocket (conn_at p r)) (cn_KeyFingerprint (conn_at p r))"
    using key gone by (simp add: isKeyInAgent_def split: sum.split)
  then have q: "q = drop_conn k r p"
    using find_conn_ref [OF inv kr] by (simp add: q_def watchKeyPresence_tick_def Disconnect_pool_def)
  note eff = drop_conn_effect [OF inv kr]
  have invq: "pool_inv q" unfolding q by (rule pool_inv_drop [OF inv kr])
  have "Get_pool (cn_ID (conn_at p r)) q \<noteq> Inr s" for s
  proof
    assume "Get_pool (cn_ID (conn_at p r)) q = Inr s"
    with Get_pool_iff [OF invq] have s: "s \<in> set (List_pool p) - {r}" "cn_ID (conn_at q s) = cn_ID (conn_at p r)"
      by (auto simp: q eff)
    then have "s < length (pl_heap p)" "s \<noteq> r" using inv by (auto simp: pool_inv_def)
    with s(2) eff(2) have "cn_ID (conn_at p s) = cn_ID (conn_at p r)" by (simp add: q)
    then show False
      using pool_inv_ids [OF inv \<open>s < _\<close> pool_inv_ref [OF inv kr]] \<open>s \<noteq> r\<close> by blast
  qed
  then have "Get_pool (cn_ID (conn_at p r)) q = Inl (''connection not found: '' @ cn_ID (conn_at p r))"
    by (cases "find_conn (cn_ID (conn_at p r)) q") (auto simp: Get_pool_def)
  moreover have "r \<in> set (pl_checkers p)"
    using inv key pool_inv_ref [OF inv kr] by (simp add: pool_inv_def)
  ultimately show ?thesis using eff by (simp add: q)
qed

lemma pool_key_inject:
  assumes "u @ ''@'' @ h @ '':'' @ itoa i = u' @ ''@'' @ h' @ '':'' @ itoa j"
    and "CHR ''@'' \<notin> set u" and "CHR ''@'' \<notin> set u'"
  shows "u = u' \<and> h = h' \<and> i = j"
proof -
  have cut: "takeWhile (\<lambda>c. c \<noteq> x) (v @ x # s) = v" "dropWhile (\<lambda>c. c \<noteq> x) (v @ x # s) = x # s"
    if "x \<notin> set v" for x and v s :: string
    using that by (auto simp: takeWhile_tail dropWhile_append3)
  have "u = u'" and rest: "h @ '':'' @ itoa i = h' @ '':'' @ itoa j"
    using cut(1) [of "CHR ''@''" u "h @ '':'' @ itoa i"] cut(1) [of "CHR ''@''" u' "h' @ '':'' @ itoa j"]
      cut(2) [of "CHR ''@''" u "h @ '':'' @ itoa i"] cut(2) [of "CHR ''@''" u' "h' @ '':'' @ itoa j"] assms
    by simp_all
  have "rev (itoa i) = rev (itoa j)" and "rev h = rev h'"
    using arg_cong [OF rest, of rev] cut(1) [of "CHR '':''" "rev (itoa i)" "rev h"]
      cut(1) [of "CHR '':''" "rev (itoa j)" "rev h'"] cut(2) [of "CHR '':''" "rev (itoa i)" "rev h"]
      cut(2) [of "CHR '':''" "rev (itoa j)" "rev h'"]
    by simp_all
  with \<open>u = u'\<close> show ?thesis by simp
qed

lemma dial_conn_fields:
  assumes "dial_conn en cfg fs now = Inr c"
  shows "cn_LastActivityAt c = now"
  using assms by (auto simp: dial_conn_def Let_def split: sum.splits)

lemma Connect_new_cases:
  assumes "Connect_new en cfg fs now p = (q, res)"
  obtains (failed) e where "q = p" "res = Inl e"
  | (dialled) c where "dial_conn en cfg fs now = Inr c" "int (length (pl_connections p)) < MaxConnections (pl_config p)"
      "q = add_conn (pool_key cfg) c p" "res = Inr (length (pl_heap p))"
  using assms by (auto simp: Connect_new_def split: if_splits sum.splits)

lemma add_conn_at: "conn_at (add_conn k c p) (length (pl_heap p)) = c"
  "length (pl_heap p) \<in> set (List_pool (add_conn k c p))"
  "set (List_pool (add_conn k c p)) = insert (length (pl_heap p)) (set (List_pool p))"
  by (simp_all add: conn_at_def add_conn_def List_pool_def)

text \<open>
  Connecting, on every branch: a result is an open pooled connection to the user, host and port asked for, its activity just recorded.
  It is either a pooled connection that still answers, which is handed out again unchanged whatever key the caller asked
  for, or a new one that authenticated with the requested key; a failure adds nothing, and drops at most
  the connection that no longer answered.  (User names contain no @, or the text of the
  pool's key is ambiguous.)
\<close>

theorem connect_outcome:
  assumes reach: "pool_reachable env config p" and clock: "clock_ok p now"
    and run: "Connect_pool en alive cfg fs now p = (q, res)"
    and users: "CHR ''@'' \<notin> set (cc_User cfg)" "\<forall>r \<in> set (List_pool p). CHR ''@'' \<notin> set (cn_User (conn_at p r))"
  shows "case res of
      Inr r \<Rightarrow> r \<in> set (List_pool q) \<and> \<not> cn_closed (conn_at q r) \<and> cn_User (conn_at q r) = cc_User cfg
        \<and> cn_Host (conn_at q r) = cc_Host cfg \<and> cn_Port (conn_at q r) = default_port (cc_Port cfg)
        \<and> cn_LastActivityAt (conn_at q r) = now
        \<and> (r \<in> set (List_pool p) \<and> alive r \<and> q = update_conn r (touch now) p
           \<or> r = length (pl_heap p) \<and> cn_KeyFingerprint (conn_at q r) = cc_KeyFingerprint cfg
             \<and> dial_conn en cfg fs now = Inr (conn_at q r))
    | Inl e \<Rightarrow> q = p \<or> (\<exists>r. map_of (pl_connections p) (pool_key cfg) = Some r \<and> \<not> alive r
        \<and> q = drop_conn (pool_key cfg) r p)"
proof -
  have inv: "pool_inv p" by (rule pool_reachable_inv [OF reach])
  have new: "case res of Inr r \<Rightarrow> r \<in> set (List_pool q) \<and> \<not> cn_closed (conn_at q r) \<and> cn_User (conn_at q r) = cc_User cfg
        \<and> cn_Host (conn_at q r) = cc_Host cfg \<and> cn_Port (conn_at q r) = default_port (cc_Port cfg)
        \<and> cn_LastActivityAt (conn_at q r) = now \<and> r = length (pl_heap p') \<and> cn_KeyFingerprint (conn_at q r) = cc_KeyFingerprint cfg
             \<and> dial_conn en cfg fs now = Inr (conn_at q r)
    | Inl e \<Rightarrow> q = p'"
    if "Connect_new en cfg fs now p' = (q, res)" for p'
    using that
  proof (cases rule: Connect_new_cases)
    case failed
    then show ?thesis by simp
  next
    case (dialled c)
    with dial_conn_wf [OF dialled(1)] dial_conn_fields [OF dialled(1)] show ?thesis by (simp add: add_conn_at)
  qed
  show ?thesis
  proof (cases "map_of (pl_connections p) (pool_key cfg)")
    case None
    then have "Connect_new en cfg fs now p = (q, res)" using run by (simp add: Connect_pool_def)
    from new [OF this] show ?thesis by (cases res) simp_all
  next
    case (Some r)
    have kr: "(pool_key cfg, r) \<in> set (pl_connections p)" using Some by (rule map_of_SomeD)
    have "r \<in> set (List_pool p)" using kr by (force simp: List_pool_def)
    then have r: "r < length (pl_heap p)" "r \<in> set (List_pool p)" "\<not> cn_closed (conn_at p r)"
      using inv by (auto simp: pool_inv_def)
    show ?thesis
    proof (cases "alive r")
      case True
      obtain port where key: "pool_key cfg = cn_User (conn_at p r) @ ''@'' @ cn_Host (conn_at p r) @ '':'' @ itoa port"
          and port: "cn_Port (conn_at p r) = default_port port"
        using inv kr by (auto simp: pool_inv_def key_of_conn_def)
      have same: "cc_User cfg = cn_User (conn_at p r) \<and> cc_Host cfg = cn_Host (conn_at p r) \<and> cc_Port cfg = port"
        using users r(2) key by (intro pool_key_inject) (simp_all add: pool_key_def)
      have out: "q = update_conn r (touch now) p" "res = Inr r"
        using True run Some r(3) by (simp_all add: Connect_pool_def isHealthy_def)
      have "conn_at q r = touch now (conn_at p r)" "List_pool q = List_pool p" using r(1) by (simp_all add: out)
      then show ?thesis unfolding out(2) sum.case using True r(2,3) port same out(1) by (simp add: touch_def)
    next
      case False
      have len: "length (pl_heap (drop_conn (pool_key cfg) r p)) = length (pl_heap p)" by (rule drop_conn_effect [OF inv kr])
      have "Connect_new en cfg fs now (drop_conn (pool_key cfg) r p) = (q, res)"
        using False run Some by (simp add: Connect_pool_def isHealthy_def)
      from new [OF this] show ?thesis using len Some False by (cases res) simp_all
    qed
  qed
qed

text \<open>
  The pool does not look at host keys: whatever key the server presents, and whatever known_hosts says
  about it, the connection is opened all the same and authenticates, although a connection
  test to the same address refuses to.
\<close>

theorem pool_ignores_host_keys:
  assumes "en_present en (dial_addr (cc_Host cfg) (default_port (cc_Port cfg))) = Inr key"
  shows "Connect_pool (en\<lparr>en_present := (\<lambda>_. Inr impostor), en_known_hosts := khs\<rparr>) alive cfg fs now p
    = Connect_pool en alive cfg fs now p"
proof -
  let ?en = "en\<lparr>en_present := (\<lambda>_. Inr impostor), en_known_hosts := khs\<rparr>"
  have key: "dial_key ?en c b = dial_key en c b" for c b by (simp add: dial_key_def)
  have fp: "FingerprintSHA256_signer ?en s = FingerprintSHA256_signer en s" for s
    by (simp add: FingerprintSHA256_signer_def fingerprint_def)
  have filt: "filterSignersByFingerprint ?en a f = filterSignersByFingerprint en a f" for a f
    unfolding filterSignersByFingerprint_def fp ..
  have agent: "dial_agent ?en c = dial_agent en c" for c unfolding dial_agent_def filt by simp
  have methods: "dial_methods ?en c fs = dial_methods en c fs" for c
    unfolding dial_methods_def key agent ..
  have "dial_conn ?en cfg fs now = dial_conn en cfg fs now"
    using assms unfolding dial_conn_def methods
    by (cases "dial_methods en (cfg\<lparr>cc_Port := default_port (cc_Port cfg)\<rparr>) fs") (simp_all add: ssh_dial_def)
  then have "Connect_new ?en cfg fs now p' = Connect_new en cfg fs now p'" for p'
    by (simp add: Connect_new_def)
  then show ?thesis by (simp add: Connect_pool_def split: option.split)
qed


section \<open>Properties of the watcher and of reading\<close>

lemma map_of_rev_distinct: "distinct (map fst xs) \<Longrightarrow> map_of (rev xs) = map_of xs"
  by (rule map_of_inject_set [THEN iffD2]) (simp_all add: rev_map [symmetric])

definition looks_like :: "Connection \<Rightarrow> Connection \<Rightarrow> bool" where
  "looks_like a c \<longleftrightarrow> cn_ID a = cn_ID c \<and> cn_Host a = cn_Host c \<and> cn_Port a = cn_Port c \<and> cn_User a = cn_User c
    \<and> cn_ServerVersion a = cn_ServerVersion c"

lemma conns_known_iff:
  assumes "distinct (map cn_ID a)" and "cn_ID ` set b \<subseteq> cn_ID ` set a"
  shows "conns_known a b \<longleftrightarrow> (\<forall>c \<in> set b. \<exists>ac \<in> set a. looks_like ac c)"
  using assms(2)
proof (induction b)
  case Nil
  then show ?case by simp
next
  case (Cons c b)
  let ?m = "map (\<lambda>x. (cn_ID x, x)) a"
  from Cons.prems obtain ac where ac: "ac \<in> set a" "cn_ID ac = cn_ID c" by auto
  have d: "distinct (map fst ?m)" using assms(1) by (simp add: comp_def)
  have known: "map_of (rev ?m) (cn_ID c) = Some ac"
    unfolding map_of_rev_distinct [OF d] by (rule map_of_is_SomeI [OF d]) (simp add: image_iff, metis ac)
  have "ac' = ac" if "ac' \<in> set a" "cn_ID ac' = cn_ID c" for ac'
    using assms(1) ac that by (auto simp: distinct_map inj_on_def)
  then have "(\<exists>ac' \<in> set a. looks_like ac' c) \<longleftrightarrow> looks_like ac c"
    using ac(1) by (auto simp: looks_like_def)
  moreover have "conns_known a (c # b) \<longleftrightarrow> looks_like ac c \<and> conns_known a b"
    using ac(2) by (simp add: known looks_like_def) blast
  ultimately show ?case using Cons by simp
qed

text \<open>
  The connection watcher. As long as no new connection appears, a change is broadcast exactly when a connection is gone or
  looks different.  But when the first connection listed is new and another one has gone, so that the
  number is the same, the lists count as equal: nothing is broadcast, and the subscribers keep
  a list with a connection that no longer exists.
\<close>

theorem watcher_misses_replacement:
  fixes p q :: ConnectionPool
  assumes ids: "distinct (map cn_ID (map (conn_at p) (List_pool p)))"
  defines "old \<equiv> map (conn_at p) (List_pool p)" and "new \<equiv> map (conn_at q) (List_pool q)"
  shows "(cn_ID ` set new \<subseteq> cn_ID ` set old \<longrightarrow>
      (connectionsEqual old new \<longleftrightarrow> length old = length new \<and> (\<forall>c \<in> set new. \<exists>ac \<in> set old. looks_like ac c)))
    \<and> (length old = length new \<and> new \<noteq> [] \<and> cn_ID (hd new) \<notin> cn_ID ` set old \<longrightarrow>
        pollLoop_conns [p, q] (Starting, b) = (Polling old, Broadcast (UVal old) b))"
proof -
  have replaced: "connectionsEqual old new"
    if len: "length old = length new" and "new \<noteq> []" and unknown: "cn_ID (hd new) \<notin> cn_ID ` set old"
  proof -
    obtain c cs where c: "new = c # cs" using \<open>new \<noteq> []\<close> by (cases new) auto
    have "map_of (rev (map (\<lambda>x. (cn_ID x, x)) old)) (cn_ID c) = None"
      using unknown c by (auto simp: map_of_eq_None_iff)
    then show ?thesis using len c by (simp add: connectionsEqual_def)
  qed
  have "connectionsEqual old new \<longleftrightarrow> length old = length new \<and> conns_known old new"
    by (simp add: connectionsEqual_def)
  then show ?thesis
    using conns_known_iff [of old new] ids replaced
    by (auto simp: old_def [symmetric] new_def [symmetric] pollLoop_conns_def loop_run_def loop_turn_def poll_init_def poll_tick_def)
qed

text \<open>The chunks of the first \<open>n\<close> reads and the state after them.\<close>

fun read_chunks :: "('r \<Rightarrow> string \<times> bool \<times> 'r) \<Rightarrow> nat \<Rightarrow> 'r \<Rightarrow> string" where
  "read_chunks rd 0 s = []"
| "read_chunks rd (Suc n) s = fst (rd s) @ read_chunks rd n (snd (snd (rd s)))"

definition read_fails :: "('r \<Rightarrow> string \<times> bool \<times> 'r) \<Rightarrow> 'r \<Rightarrow> nat \<Rightarrow> bool" where
  "read_fails rd s n \<longleftrightarrow> fst (snd (rd (((\<lambda>s. snd (snd (rd s))) ^^ n) s)))"

lemma readAll_returns:
  assumes "read_fails rd s n" and "\<forall>m < n. \<not> read_fails rd s m"
  shows "readAll rd s data = Some (data @ read_chunks rd (Suc n) s)"
  using assms
proof (induction n arbitrary: s data)
  case 0
  then show ?case by (subst readAll.simps) (simp add: read_fails_def)
next
  case (Suc n)
  let ?s = "snd (snd (rd s))"
  have shift: "read_fails rd ?s m \<longleftrightarrow> read_fails rd s (Suc m)" for m
    by (simp add: read_fails_def funpow_Suc_right del: funpow.simps)
  have "\<not> read_fails rd s 0" using Suc.prems(2) by simp
  then have "readAll rd s data = readAll rd ?s (data @ fst (rd s))"
    by (subst readAll.simps) (simp add: read_fails_def)
  also have "\<dots> = Some ((data @ fst (rd s)) @ read_chunks rd (Suc n) ?s)"
    using Suc.prems by (intro Suc.IH) (auto simp: shift)
  finally show ?case by simp
qed

lemma readAll_SomeD:
  assumes "readAll rd s data = Some out"
  shows "\<exists>n. read_fails rd s n"
proof (rule readAll.raw_induct [where P = "\<lambda>rd s data out. \<exists>n. read_fails rd s n", OF _ assms])
  fix ra and rd :: "'b \<Rightarrow> string \<times> bool \<times> 'b" and s data out
  assume IH: "\<And>rd s data out. ra rd s data = Some out \<Longrightarrow> \<exists>n. read_fails rd s n"
    and step: "(let chunk = fst (rd s); err = fst (snd (rd s)); s' = snd (snd (rd s))
      in if err then Some (data @ chunk) else ra rd s' (data @ chunk)) = Some out"
  show "\<exists>n. read_fails rd s n"
  proof (cases "fst (snd (rd s))")
    case True
    then have "read_fails rd s 0" by (simp add: read_fails_def)
    then show ?thesis ..
  next
    case False
    with step have "ra rd (snd (snd (rd s))) (data @ fst (rd s)) = Some out" by (simp add: Let_def)
    from IH [OF this] obtain n where "read_fails rd (snd (snd (rd s))) n" ..
    then have "read_fails rd s (Suc n)" by (simp add: read_fails_def funpow_Suc_right del: funpow.simps)
    then show ?thesis ..
  qed
qed

text \<open>
  C40. Reading a remote output returns if and only if some read reports an error or the end of the
  stream, and then the result is everything read up to and including the first such read.
\<close>

theorem readAll_terminates:
  "(readAll rd s data \<noteq> None \<longleftrightarrow> (\<exists>n. read_fails rd s n))
    \<and> (\<forall>n. read_fails rd s n \<and> (\<forall>m < n. \<not> read_fails rd s m) \<longrightarrow> readAll rd s data = Some (data @ read_chunks rd (Suc n) s))"
proof (intro conjI allI impI)
  show "readAll rd s data \<noteq> None \<longleftrightarrow> (\<exists>n. read_fails rd s n)"
  proof
    assume "\<exists>n. read_fails rd s n"
    then obtain n where "read_fails rd s n" "\<forall>m < n. \<not> read_fails rd s m"
      by (auto simp only: exists_least_iff [of "read_fails rd s"])
    then show "readAll rd s data \<noteq> None" by (simp add: readAll_returns)
  next
    assume "readAll rd s data \<noteq> None"
    then show "\<exists>n. read_fails rd s n" by (auto dest: readAll_SomeD)
  qed
  show "readAll rd s data = Some (data @ read_chunks rd (Suc n) s)"
    if "read_fails rd s n \<and> (\<forall>m < n. \<not> read_fails rd s m)" for n
    by (rule readAll_returns) (use that in auto)
qed

section \<open>Examples\<close>

definition demo_pool :: ConnectionPool where
  "demo_pool = fst (Connect_pool demo_env (\<lambda>_. True) (demo_config\<lparr>cc_KeyFingerprint := ''SHA256:S''\<rparr>) (fs_with []) 5
     (NewConnectionPool \<lparr>MaxIdleTime = 0, MaxConnections = 0, KeepAliveInterval = 0\<rparr>))"

definition demo_conn :: Connection where
  "demo_conn = \<lparr>cn_ID = ''5'', cn_RemoteID = [], cn_Host = ''h'', cn_Port = 22, cn_User = ''u'',
     cn_ServerVersion = ''SSH-2.0'', cn_ConnectedAt = 5, cn_LastActivityAt = 5, cn_KeyFingerprint = ''SHA256:S'',
     cn_agentSocket = ''/a'', cn_sftpClient = False, cn_stopKeyCheck = False, cn_closed = False\<rparr>"

lemma demo_pool_value:
  "pl_connections demo_pool = [(''u@h:0'', 0)]" "pl_heap demo_pool = [demo_conn]" "pl_checkers demo_pool = [0]"
  "MaxConnections (pl_config demo_pool) = 10"
  by (code_simp)+

lemma demo_pool_reachable:
  "pool_reachable (\<lambda>_. (demo_env, fs_with [], \<lambda>_. True)) \<lparr>MaxIdleTime = 0, MaxConnections = 0, KeepAliveInterval = 0\<rparr> demo_pool"
  unfolding demo_pool_def
  by (rule pool_reachable.step [OF pool_reachable.start pool_step.connect])
    (simp_all add: clock_ok_def NewConnectionPool_def)

lemma pool_owns_connections_witness:
  "Get_pool ''5'' demo_pool = Inr 0 \<and> \<not> cn_closed (conn_at demo_pool 0) \<and> 0 \<in> set (pl_checkers demo_pool)"
  using pool_owns_connections [OF demo_pool_reachable]
  by (simp add: demo_pool_value List_pool_def conn_at_def demo_conn_def)

lemma key_removal_disconnects_witness:
  "cn_closed (conn_at (watchKeyPresence_tick (\<lambda>_. Inr [''SHA256:T'']) 0 demo_pool) 0)
    \<and> List_pool (watchKeyPresence_tick (\<lambda>_. Inr [''SHA256:T'']) 0 demo_pool) = []"
  using key_removal_disconnects [OF demo_pool_reachable, of 0 "\<lambda>_. Inr [''SHA256:T'']"]
  by (simp add: demo_pool_value List_pool_def conn_at_def demo_conn_def)

lemma connect_outcome_witness:
  "case Connect_pool demo_env (\<lambda>_. False) demo_config (fs_with []) 9 demo_pool of
     (q, Inr r) \<Rightarrow> r = 1 \<and> r \<in> set (List_pool q) \<and> cn_Host (conn_at q r) = ''h'' \<and> cn_Port (conn_at q r) = 22
   | (q, Inl e) \<Rightarrow> False"
proof -
  obtain q res where run: "Connect_pool demo_env (\<lambda>_. False) demo_config (fs_with []) 9 demo_pool = (q, res)"
    by fastforce
  have "case snd (Connect_pool demo_env (\<lambda>_. False) demo_config (fs_with []) 9 demo_pool) of Inr r \<Rightarrow> r = 1 | Inl e \<Rightarrow> False"
    by code_simp
  then have res: "res = Inr 1" using run by (cases res) auto
  have "clock_ok demo_pool 9" by (simp add: clock_ok_def demo_pool_value demo_conn_def)
  moreover have cfg: "cc_User demo_config = ''u''" "cc_Host demo_config = ''h''" "default_port (cc_Port demo_config) = 22"
    by (simp_all add: demo_config_def default_port_def)
  moreover have "\<forall>r \<in> set (List_pool demo_pool). CHR ''@'' \<notin> set (cn_User (conn_at demo_pool r))"
    by (simp add: demo_pool_value List_pool_def conn_at_def demo_conn_def)
  ultimately show ?thesis
    using connect_outcome [OF demo_pool_reachable _ run]
    by (simp add: res run demo_pool_value(2))
qed

lemma pool_ignores_host_keys_witness:
  "Connect_pool (demo_env\<lparr>en_present := (\<lambda>_. Inr ''EVIL''), en_known_hosts := (\<lambda>_. Inl ''?'')\<rparr>)
     (\<lambda>_. True) demo_config (fs_with []) 9 demo_pool
   = Connect_pool demo_env (\<lambda>_. True) demo_config (fs_with []) 9 demo_pool"
  by (rule pool_ignores_host_keys [of _ _ "''K''"]) (simp add: demo_env_def)

definition demo_pool2 :: ConnectionPool where
  "demo_pool2 = fst (Connect_pool demo_env (\<lambda>_. True) (demo_config\<lparr>cc_User := ''w''\<rparr>) (fs_with []) 7
     (fst (Disconnect_pool ''5'' demo_pool)))"

lemma watcher_misses_replacement_witness:
  "map (cn_User \<circ> conn_at demo_pool2) (List_pool demo_pool2) = [''w'']
    \<and> pollLoop_conns [demo_pool, demo_pool2] (Starting, New_hub) = (Polling [demo_conn], Broadcast (UVal [demo_conn]) New_hub)"
proof
  have new: "map (cn_ID \<circ> conn_at demo_pool2) (List_pool demo_pool2) = [''7'']" by code_simp
  then obtain c where c: "map (conn_at demo_pool2) (List_pool demo_pool2) = [c]" "cn_ID c = ''7''"
    by (auto simp: map_eq_Cons_conv)
  show "pollLoop_conns [demo_pool, demo_pool2] (Starting, New_hub) = (Polling [demo_conn], Broadcast (UVal [demo_conn]) New_hub)"
  proof -
    have old: "map (conn_at demo_pool) (List_pool demo_pool) = [demo_conn]"
      by (simp add: demo_pool_value List_pool_def conn_at_def)
    show ?thesis
      using watcher_misses_replacement [of demo_pool demo_pool2 New_hub] c(2) unfolding old c(1)
      by (simp add: demo_conn_def)
  qed
  show "map (cn_User \<circ> conn_at demo_pool2) (List_pool demo_pool2) = [''w'']" by code_simp
qed

lemma readAll_terminates_witness:
  "readAll (\<lambda>n. (''ab'', n = 2, Suc n)) (1::nat) ''x'' = Some ''xabab''"
proof -
  let ?rd = "\<lambda>n. (''ab'', n = 2, Suc n)"
  have "read_fails ?rd (1::nat) 1 \<and> (\<forall>m < 1. \<not> read_fails ?rd 1 m)" by (simp add: read_fails_def)
  with readAll_terminates [of ?rd 1 "''x''"] have "readAll ?rd (1::nat) ''x'' = Some (''x'' @ read_chunks ?rd (Suc 1) 1)" by blast
  then show ?thesis by (simp add: eval_nat_numeral)
qed

end
