(* ===== verification/RemoteService.thy ===== *)
theory RemoteService
  imports Grpc Storage ConnPool
begin

text \<open>
  The gRPC adapters of saved remotes, connections and key metadata (\<open>adapter/remote.go\<close> and \<open>adapter/metadata.go\<close>): the
  composition of the metadata store, the connection pool and the connection test.

  The state of the adapter is the store and the pool; a request takes it and returns it new.  The requests run one
  after the other here; in the program those of several clients interleave between calls of the store and the pool.
\<close>

datatype RemoteStatus = REMOTE_STATUS_DISCONNECTED | REMOTE_STATUS_CONNECTED

record Remote =
  re_Id :: string
  re_Name :: string
  re_Host :: string
  re_Port :: int
  re_User :: string
  re_IdentityFile :: string
  re_SshConfigAlias :: string
  re_CreatedAt :: int
  re_LastConnectedAt :: "int option"
  re_Status :: RemoteStatus

record ConnectionMsg =
  cm_Id :: string
  cm_RemoteId :: string
  cm_Host :: string
  cm_Port :: int
  cm_User :: string
  cm_ServerVersion :: string
  cm_ConnectedAt :: int
  cm_LastActivityAt :: int

record RemoteServiceAdapter =
  ra_pool :: ConnectionPool
  ra_store :: Store
  ra_agentSocketPath :: string

text \<open>The fields of \<open>AddRemoteRequest\<close> and, with an identifier, of \<open>UpdateRemoteRequest\<close>.\<close>

record remote_request =
  rq_Name :: string
  rq_Host :: string
  rq_Port :: int
  rq_User :: string
  rq_IdentityFile :: string
  rq_SshConfigAlias :: string

definition storageRemoteToProto :: "RemoteServer \<Rightarrow> Remote" where
  "storageRemoteToProto r =
     \<lparr>re_Id = ID r, re_Name = Name r, re_Host = Host r, re_Port = to_int32 (Port r), re_User = User r,
      re_IdentityFile = IdentityFile r, re_SshConfigAlias = SSHConfigAlias r, re_CreatedAt = unix_time (CreatedAt r),
      re_LastConnectedAt = (if LastConnectedAt r > 0 then Some (unix_time (LastConnectedAt r)) else None),
      re_Status = REMOTE_STATUS_DISCONNECTED\<rparr>"

definition toProtoConnection :: "Connection \<Rightarrow> ConnectionMsg" where
  "toProtoConnection c =
     \<lparr>cm_Id = cn_ID c, cm_RemoteId = cn_RemoteID c, cm_Host = cn_Host c, cm_Port = to_int32 (cn_Port c),
      cm_User = cn_User c, cm_ServerVersion = cn_ServerVersion c, cm_ConnectedAt = cn_ConnectedAt c,
      cm_LastActivityAt = cn_LastActivityAt c\<rparr>"

section \<open>Saved remotes\<close>

definition connected_ids :: "ConnectionPool \<Rightarrow> string list" where
  "connected_ids p = map (\<lambda>r. cn_RemoteID (conn_at p r)) (List_pool p)"

definition remote_shown :: "ConnectionPool \<Rightarrow> RemoteServer \<Rightarrow> Remote" where
  "remote_shown p r =
     (if ID r \<in> set (connected_ids p) then (storageRemoteToProto r)\<lparr>re_Status := REMOTE_STATUS_CONNECTED\<rparr>
      else storageRemoteToProto r)"

text \<open>\<open>None\<close> is the panic of the store on an entry \<open>null\<close> of a damaged file.\<close>

definition ListRemotes :: "RemoteServiceAdapter \<Rightarrow> Remote list option" where
  "ListRemotes a = map_option (map (remote_shown (ra_pool a))) (ListRemoteServers (ra_store a))"

definition GetRemote :: "string \<Rightarrow> RemoteServiceAdapter \<Rightarrow> Remote rpc" where
  "GetRemote i a =
     (if i = [] then Inl (InvalidArgument, ''id is required'')
      else (case GetRemoteServer (ra_store a) i of
          None \<Rightarrow> Inl (NotFound, ''remote not found: '' @ i)
        | Some r \<Rightarrow> Inr (remote_shown (ra_pool a) r)))"

definition remote_port :: "int \<Rightarrow> int" where
  "remote_port port = (if port = 0 then 22 else port)"

definition AddRemote ::
    "string \<Rightarrow> int \<Rightarrow> remote_request \<Rightarrow> RemoteServiceAdapter \<Rightarrow> fsys \<Rightarrow> RemoteServiceAdapter \<times> fsys \<times> Remote rpc" where
  "AddRemote uuid now req a fs =
     (if rq_Host req = [] then (a, fs, Inl (InvalidArgument, ''host is required''))
      else if rq_User req = [] then (a, fs, Inl (InvalidArgument, ''user is required''))
      else (let r = \<lparr>ID = uuid, Name = rq_Name req, Host = rq_Host req, Port = remote_port (rq_Port req), User = rq_User req,
                     IdentityFile = rq_IdentityFile req, SSHConfigAlias = rq_SshConfigAlias req, CreatedAt = now, LastConnectedAt = 0\<rparr>;
                (s, fs1, e) = AddRemoteServer (Some r) (ra_store a) fs in
            (a\<lparr>ra_store := s\<rparr>, fs1,
             case e of Some msg \<Rightarrow> Inl (Internal, ''failed to save remote: '' @ msg) | None \<Rightarrow> Inr (storageRemoteToProto r))))"

definition UpdateRemote ::
    "string \<Rightarrow> remote_request \<Rightarrow> RemoteServiceAdapter \<Rightarrow> fsys \<Rightarrow> RemoteServiceAdapter \<times> fsys \<times> Remote rpc" where
  "UpdateRemote i req a fs =
     (if i = [] then (a, fs, Inl (InvalidArgument, ''id is required''))
      else (case GetRemoteServer (ra_store a) i of
          None \<Rightarrow> (a, fs, Inl (NotFound, ''remote not found: '' @ i))
        | Some existing \<Rightarrow>
            (let r = \<lparr>ID = i, Name = rq_Name req, Host = rq_Host req, Port = remote_port (rq_Port req), User = rq_User req,
                      IdentityFile = rq_IdentityFile req, SSHConfigAlias = rq_SshConfigAlias req, CreatedAt = CreatedAt existing,
                      LastConnectedAt = LastConnectedAt existing\<rparr>;
                 (s, fs1, e) = UpdateRemoteServer (Some r) (ra_store a) fs in
             (a\<lparr>ra_store := s\<rparr>, fs1,
              case e of Some msg \<Rightarrow> Inl (Internal, ''failed to update remote: '' @ msg) | None \<Rightarrow> Inr (storageRemoteToProto r)))))"

definition DeleteRemote :: "string \<Rightarrow> RemoteServiceAdapter \<Rightarrow> fsys \<Rightarrow> RemoteServiceAdapter \<times> fsys \<times> unit rpc" where
  "DeleteRemote i a fs =
     (if i = [] then (a, fs, Inl (InvalidArgument, ''id is required''))
      else (case DeleteRemoteServer i (ra_store a) fs of
          (s, fs1, Some msg) \<Rightarrow> (a\<lparr>ra_store := s\<rparr>, fs1, Inl (Internal, ''failed to delete remote: '' @ msg))
        | (s, fs1, None) \<Rightarrow> (a\<lparr>ra_store := s\<rparr>, fs1, Inr ())))"

section \<open>Testing a connection\<close>

record test_request =
  tq_Host :: string
  tq_Port :: int
  tq_User :: string
  tq_IdentityFile :: string
  tq_Passphrase :: string
  tq_TrustHostKey :: bool

datatype HostKeyStatusMsg =
    HOST_KEY_STATUS_UNSPECIFIED | HOST_KEY_STATUS_VERIFIED | HOST_KEY_STATUS_UNKNOWN | HOST_KEY_STATUS_MISMATCH
  | HOST_KEY_STATUS_ADDED

definition toProtoHostKeyStatus :: "HostKeyStatus \<Rightarrow> HostKeyStatusMsg" where
  "toProtoHostKeyStatus s =
     (case s of HostKeyStatusVerified \<Rightarrow> HOST_KEY_STATUS_VERIFIED | HostKeyStatusUnknown \<Rightarrow> HOST_KEY_STATUS_UNKNOWN
      | HostKeyStatusMismatch \<Rightarrow> HOST_KEY_STATUS_MISMATCH | HostKeyStatusAdded \<Rightarrow> HOST_KEY_STATUS_ADDED
      | HostKeyStatusUnspecified \<Rightarrow> HOST_KEY_STATUS_UNSPECIFIED)"

record test_response =
  ts_Success :: bool
  ts_Message :: string
  ts_ServerVersion :: string
  ts_LatencyMs :: int
  ts_HostKeyStatus :: HostKeyStatusMsg
  ts_HostKeyInfo :: "HostKeyInfo option"

definition test_config :: "test_request \<Rightarrow> ConnectionConfig" where
  "test_config req =
     \<lparr>cc_Host = tq_Host req, cc_Port = remote_port (tq_Port req), cc_User = tq_User req, cc_PrivateKey = [],
      cc_PrivateKeyPath = tq_IdentityFile req, cc_Passphrase = tq_Passphrase req, cc_AgentSocket = [],
      cc_KeyFingerprint = [], cc_TrustHostKey = tq_TrustHostKey req\<rparr>"

definition TestRemoteConnection :: "('pk, 'sg) ssh_env \<Rightarrow> test_request \<Rightarrow> fsys \<Rightarrow> fsys \<times> test_response" where
  "TestRemoteConnection en req fs =
     (case TestConnection en (test_config req) fs of (fs1, result) \<Rightarrow>
        (fs1, \<lparr>ts_Success = tr_Success result, ts_Message = tr_Message result, ts_ServerVersion = tr_ServerVersion result,
           ts_LatencyMs = to_int32 (tr_LatencyMs result), ts_HostKeyStatus = toProtoHostKeyStatus (tr_HostKeyStatus result),
           ts_HostKeyInfo = map_option (\<lambda>i. i\<lparr>hk_Port := to_int32 (hk_Port i)\<rparr>) (tr_HostKeyInfo result)\<rparr>))"

section \<open>Connections\<close>

record connect_request =
  cq_RemoteId :: string
  cq_KeyFingerprint :: string
  cq_Passphrase :: string

definition connect_config :: "RemoteServiceAdapter \<Rightarrow> connect_request \<Rightarrow> RemoteServer \<Rightarrow> ConnectionConfig" where
  "connect_config a req r =
     \<lparr>cc_Host = Host r, cc_Port = Port r, cc_User = User r, cc_PrivateKey = [], cc_PrivateKeyPath = IdentityFile r,
      cc_Passphrase = cq_Passphrase req, cc_AgentSocket = ra_agentSocketPath a, cc_KeyFingerprint = cq_KeyFingerprint req,
      cc_TrustHostKey = False\<rparr>"

text \<open>The clock is read for the connection and for the store; the store's error is ignored, its panic is not.\<close>

definition Connect_rs ::
    "('pk, 'sg) ssh_env \<Rightarrow> (nat \<Rightarrow> bool) \<Rightarrow> int \<Rightarrow> int \<Rightarrow> connect_request \<Rightarrow> RemoteServiceAdapter \<Rightarrow> fsys
     \<Rightarrow> (RemoteServiceAdapter \<times> fsys \<times> ConnectionMsg rpc) option" where
  "Connect_rs en alive now now_s req a fs =
     (if cq_RemoteId req = [] then Some (a, fs, Inl (InvalidArgument, ''remote_id is required''))
      else (case GetRemoteServer (ra_store a) (cq_RemoteId req) of
          None \<Rightarrow> Some (a, fs, Inl (NotFound, ''remote not found: '' @ cq_RemoteId req))
        | Some r \<Rightarrow>
            (case Connect_pool en alive (connect_config a req r) fs now (ra_pool a) of
               (p1, Inl e) \<Rightarrow> Some (a\<lparr>ra_pool := p1\<rparr>, fs, Inl (Internal, ''failed to connect: '' @ e))
             | (p1, Inr ref) \<Rightarrow>
                 map_option (\<lambda>(s, fs1, _).
                   let p2 = update_conn ref (\<lambda>c. c\<lparr>cn_RemoteID := ID r\<rparr>) p1 in
                   (a\<lparr>ra_pool := p2, ra_store := s\<rparr>, fs1, Inr (toProtoConnection (conn_at p2 ref))))
                 (UpdateRemoteServerLastConnected (ID r) now_s (ra_store a) fs))))"

definition Disconnect_rs :: "string \<Rightarrow> RemoteServiceAdapter \<Rightarrow> RemoteServiceAdapter \<times> unit rpc" where
  "Disconnect_rs cid a =
     (case Disconnect_pool cid (ra_pool a) of
        (p, Some e) \<Rightarrow> (a\<lparr>ra_pool := p\<rparr>, Inl (NotFound, ''failed to disconnect: '' @ e))
      | (p, None) \<Rightarrow> (a\<lparr>ra_pool := p\<rparr>, Inr ()))"

definition ListConnections :: "RemoteServiceAdapter \<Rightarrow> ConnectionMsg list" where
  "ListConnections a = map (\<lambda>r. toProtoConnection (conn_at (ra_pool a) r)) (List_pool (ra_pool a))"

definition WatchConnections ::
    "((string, Connection list) update \<times> string option) list \<Rightarrow> ConnectionMsg list list \<times> (grpc_code \<times> string) option" where
  "WatchConnections updates = send_updates ''failed to watch connections'' (map toProtoConnection) updates"

text \<open>The error of a command is only told by the exit code.\<close>

definition ExecuteCommand ::
    "(nat \<Rightarrow> bool) \<Rightarrow> int \<Rightarrow> (string \<Rightarrow> string + string \<times> string \<times> string option) \<Rightarrow> string \<Rightarrow> string \<Rightarrow> RemoteServiceAdapter
     \<Rightarrow> RemoteServiceAdapter \<times> (int \<times> string \<times> string) rpc" where
  "ExecuteCommand alive now run cid command a =
     (case Get_pool cid (ra_pool a) of
        Inl e \<Rightarrow> (a, Inl (NotFound, ''connection not found: '' @ e))
      | Inr ref \<Rightarrow>
          (case Execute alive now run ref command (ra_pool a) of (p, stdout, stderr, e) \<Rightarrow>
             (a\<lparr>ra_pool := p\<rparr>, Inr (if e \<noteq> None then 1 else 0, stdout, stderr))))"

section \<open>Key metadata\<close>

text \<open>The message has the fields of the stored record, the port as a 32-bit integer.\<close>

definition toProtoKeyMetadata :: "KeyMetadata \<Rightarrow> KeyMetadata" where
  "toProtoKeyMetadata m = m\<lparr>VerifiedPort := to_int32 (VerifiedPort m)\<rparr>"

definition fromProtoKeyMetadata :: "KeyMetadata \<Rightarrow> KeyMetadata" where
  "fromProtoKeyMetadata m = m"

definition GetKeyMetadata_ms :: "string \<Rightarrow> Store \<Rightarrow> KeyMetadata rpc" where
  "GetKeyMetadata_ms path s =
     (if path = [] then Inl (InvalidArgument, ''key_path is required'')
      else (case GetKeyMetadata s path of
          None \<Rightarrow> Inl (NotFound, ''no metadata found for key: '' @ path)
        | Some m \<Rightarrow> Inr (toProtoKeyMetadata m)))"

definition SetKeyMetadata_ms :: "KeyMetadata option \<Rightarrow> Store \<Rightarrow> fsys \<Rightarrow> Store \<times> fsys \<times> unit rpc" where
  "SetKeyMetadata_ms req s fs =
     (case req of
        None \<Rightarrow> (s, fs, Inl (InvalidArgument, ''metadata is required''))
      | Some m \<Rightarrow>
          (let meta = fromProtoKeyMetadata m in
           if KeyPath meta = [] then (s, fs, Inl (InvalidArgument, ''key_path is required''))
           else (case SetKeyMetadata (Some meta) s fs of
               (s1, fs1, Some e) \<Rightarrow> (s1, fs1, Inl (Internal, ''failed to store metadata: '' @ e))
             | (s1, fs1, None) \<Rightarrow> (s1, fs1, Inr ()))))"

definition DeleteKeyMetadata_ms :: "string \<Rightarrow> Store \<Rightarrow> fsys \<Rightarrow> Store \<times> fsys \<times> unit rpc" where
  "DeleteKeyMetadata_ms path s fs =
     (if path = [] then (s, fs, Inl (InvalidArgument, ''key_path is required''))
      else (case DeleteKeyMetadata path s fs of
          (s1, fs1, Some e) \<Rightarrow> (s1, fs1, Inl (Internal, ''failed to delete metadata: '' @ e))
        | (s1, fs1, None) \<Rightarrow> (s1, fs1, Inr ())))"

definition ListKeyMetadata_ms :: "Store \<Rightarrow> KeyMetadata list option" where
  "ListKeyMetadata_ms s = map_option (map toProtoKeyMetadata) (ListKeyMetadata s)"

section \<open>The pool behind the service\<close>

lemma Connect_pool_ok:
  assumes inv: "pool_inv p" and run: "Connect_pool en alive cfg fs now p = (q, Inr r)"
  shows "map_of (pl_connections q) (pool_key cfg) = Some r"
    and "\<forall>s \<in> set (List_pool q) - {r}. s \<in> set (List_pool p) \<and> conn_at q s = conn_at p s"
    and "r < length (pl_heap q)"
proof -
  let ?ok = "\<lambda>q p. map_of (pl_connections q) (pool_key cfg) = Some r \<and> r < length (pl_heap q)
    \<and> (\<forall>s \<in> set (List_pool q) - {r}. s \<in> set (List_pool p) \<and> conn_at q s = conn_at p s)"
  have new: "?ok q p'" if n: "Connect_new en cfg fs now p' = (q, Inr r)" and l: "\<forall>s \<in> set (List_pool p'). s < length (pl_heap p')" for p'
    using n
  proof (cases rule: Connect_new_cases)
    case (dialled c)
    then show ?thesis using l by (auto simp: add_conn_def List_pool_def conn_at_def nth_append)
  qed simp
  have len: "\<forall>s \<in> set (List_pool p). s < length (pl_heap p)" using inv by (simp add: pool_inv_def)
  have "?ok q p"
  proof (cases "map_of (pl_connections p) (pool_key cfg)")
    case None
    then show ?thesis using new [of p] run len by (simp add: Connect_pool_def)
  next
    case (Some s)
    then have ks: "(pool_key cfg, s) \<in> set (pl_connections p)" by (rule map_of_SomeD)
    have s: "s < length (pl_heap p)" using pool_inv_ref [OF inv ks] .
    show ?thesis
    proof (cases "isHealthy alive p s")
      case True
      then have "q = update_conn s (touch now) p" "r = s" using run Some by (auto simp: Connect_pool_def)
      then show ?thesis using Some s len by auto
    next
      case False
      let ?p = "drop_conn (pool_key cfg) s p"
      have run': "Connect_new en cfg fs now ?p = (q, Inr r)" using run Some False by (simp add: Connect_pool_def)
      have keep: "set (List_pool ?p) \<subseteq> set (List_pool p) - {s}" "length (pl_heap ?p) = length (pl_heap p)"
        "\<forall>t \<in> set (List_pool ?p). conn_at ?p t = conn_at p t"
        using drop_conn_effect [OF inv ks] len by auto
      then have "?ok q ?p" using new [OF run'] len by auto
      then show ?thesis using keep by auto
    qed
  qed
  then show "map_of (pl_connections q) (pool_key cfg) = Some r" "r < length (pl_heap q)"
    "\<forall>s \<in> set (List_pool q) - {r}. s \<in> set (List_pool p) \<and> conn_at q s = conn_at p s" by blast+
qed

text \<open>
  The service as a transition system: its requests, and whatever the pool does on its own (the removal of idle connections,
  the watch on the agent's keys).  \<open>env\<close> gives the network, the peers and the files that the pool sees at a time.
\<close>

inductive rs_step :: "('pk, 'sg) pool_env \<Rightarrow> RemoteServiceAdapter \<times> fsys \<Rightarrow> RemoteServiceAdapter \<times> fsys \<Rightarrow> bool" for env where
  add: "AddRemote uuid now req a fs = (a', fs', res) \<Longrightarrow> rs_step env (a, fs) (a', fs')"
| update: "UpdateRemote i req a fs = (a', fs', res) \<Longrightarrow> rs_step env (a, fs) (a', fs')"
| delete: "DeleteRemote i a fs = (a', fs', res) \<Longrightarrow> rs_step env (a, fs) (a', fs')"
| connect: "env now = (en, fs0, alive) \<Longrightarrow> clock_ok (ra_pool a) now \<Longrightarrow>
    Connect_rs en alive now now_s creq a fs = Some (a', fs', cres) \<Longrightarrow> rs_step env (a, fs) (a', fs')"
| disconnect: "Disconnect_rs cid a = (a', dres) \<Longrightarrow> rs_step env (a, fs) (a', fs)"
| execute: "ExecuteCommand alive now run cid command a = (a', eres) \<Longrightarrow> rs_step env (a, fs) (a', fs)"
| pool: "pool_step env (ra_pool a) p \<Longrightarrow> rs_step env (a, fs) (a\<lparr>ra_pool := p\<rparr>, fs)"

inductive rs_reachable :: "('pk, 'sg) pool_env \<Rightarrow> RemoteServiceAdapter \<times> fsys \<Rightarrow> bool" for env where
  start: "ra_pool a = NewConnectionPool config \<Longrightarrow> rs_reachable env (a, fs)"
| step: "rs_reachable env st \<Longrightarrow> rs_step env st st' \<Longrightarrow> rs_reachable env st'"

lemma pool_inv_label: "pool_inv p \<Longrightarrow> r < length (pl_heap p) \<Longrightarrow> pool_inv (update_conn r (\<lambda>c. c\<lparr>cn_RemoteID := i\<rparr>) p)"
  by (rule pool_inv_update) simp_all

text \<open>The branches of a connection request.\<close>

lemma Connect_rs_cases:
  assumes "Connect_rs en alive now now_s req a fs = Some (a', fs', res)"
  obtains (refused) e where "cq_RemoteId req = [] \<or> GetRemoteServer (ra_store a) (cq_RemoteId req) = None"
      "a' = a" "fs' = fs" "res = Inl e"
  | (failed) r p e where "GetRemoteServer (ra_store a) (cq_RemoteId req) = Some r"
      "Connect_pool en alive (connect_config a req r) fs now (ra_pool a) = (p, Inl e)" "a' = a\<lparr>ra_pool := p\<rparr>"
      "res = Inl (Internal, ''failed to connect: '' @ e)" "fs' = fs"
  | (connected) r p ref s e where "GetRemoteServer (ra_store a) (cq_RemoteId req) = Some r"
      "Connect_pool en alive (connect_config a req r) fs now (ra_pool a) = (p, Inr ref)"
      "UpdateRemoteServerLastConnected (ID r) now_s (ra_store a) fs = Some (s, fs', e)"
      "a' = a\<lparr>ra_pool := update_conn ref (\<lambda>c. c\<lparr>cn_RemoteID := ID r\<rparr>) p, ra_store := s\<rparr>"
      "res = Inr (toProtoConnection (conn_at (update_conn ref (\<lambda>c. c\<lparr>cn_RemoteID := ID r\<rparr>) p) ref))"
proof (cases "cq_RemoteId req = [] \<or> GetRemoteServer (ra_store a) (cq_RemoteId req) = None")
  case True
  then have "a' = a \<and> fs' = fs \<and> (\<exists>e. res = Inl e)" using assms unfolding Connect_rs_def
    by (cases "cq_RemoteId req = []") auto
  with True show ?thesis using refused by blast
next
  case False
  then obtain r where r: "cq_RemoteId req \<noteq> []" "GetRemoteServer (ra_store a) (cq_RemoteId req) = Some r" by auto
  obtain p pres where p: "Connect_pool en alive (connect_config a req r) fs now (ra_pool a) = (p, pres)" by fastforce
  show ?thesis
  proof (cases pres)
    case (Inl e)
    with p have p': "Connect_pool en alive (connect_config a req r) fs now (ra_pool a) = (p, Inl e)" by simp
    have "Connect_rs en alive now now_s req a fs = Some (a\<lparr>ra_pool := p\<rparr>, fs, Inl (Internal, ''failed to connect: '' @ e))"
      unfolding Connect_rs_def using r p' by simp
    with assms have e: "a' = a\<lparr>ra_pool := p\<rparr>" "res = Inl (Internal, ''failed to connect: '' @ e)" "fs' = fs" by simp_all
    show ?thesis by (rule failed [OF r(2) p' e])
  next
    case (Inr ref)
    show ?thesis
    proof (cases "UpdateRemoteServerLastConnected (ID r) now_s (ra_store a) fs")
      case None
      then show ?thesis using assms r p Inr by (simp add: Connect_rs_def)
    next
      case (Some u)
      obtain s f e where u: "u = (s, f, e)" by (cases u)
      from p Inr have p': "Connect_pool en alive (connect_config a req r) fs now (ra_pool a) = (p, Inr ref)" by simp
      from Some u have u': "UpdateRemoteServerLastConnected (ID r) now_s (ra_store a) fs = Some (s, f, e)" by simp
      let ?p = "update_conn ref (\<lambda>c. c\<lparr>cn_RemoteID := ID r\<rparr>) p"
      have "Connect_rs en alive now now_s req a fs = Some (a\<lparr>ra_pool := ?p, ra_store := s\<rparr>, f, Inr (toProtoConnection (conn_at ?p ref)))"
        unfolding Connect_rs_def using r p' u' by (simp add: Let_def)
      with assms have e: "a' = a\<lparr>ra_pool := ?p, ra_store := s\<rparr>" "f = fs'" "res = Inr (toProtoConnection (conn_at ?p ref))"
        by simp_all
      show ?thesis by (rule connected [OF r(2) p' u' [unfolded e(2)] e(1,3)])
    qed
  qed
qed

lemma Get_pool_ref: "Get_pool i p = Inr r \<Longrightarrow> r \<in> set (List_pool p)"
  by (force simp: Get_pool_def List_pool_def dest!: find_conn_SomeD split: option.splits)

lemma Execute_pool: "fst (Execute alive now run r command p) = update_conn r (touch now) p"
  by (simp add: Execute_def Let_def split: sum.split)

lemma rs_step_inv:
  assumes "rs_step env st st'" and "pool_inv (ra_pool (fst st))"
  shows "pool_inv (ra_pool (fst st'))"
  using assms
proof (induction rule: rs_step.induct)
  case (connect now en fs0 alive a now_s creq fs a' fs' cres)
  then have inv: "pool_inv (ra_pool a)" by simp
  from connect(3) show ?case
  proof (cases rule: Connect_rs_cases)
    case refused
    then show ?thesis using inv by simp
  next
    case (failed r p e)
    then show ?thesis using pool_inv_Connect [OF inv connect(2), of en alive "connect_config a creq r" fs] by simp
  next
    case (connected r p ref s e)
    have "pool_inv p" using pool_inv_Connect [OF inv connect(2), of en alive "connect_config a creq r" fs] connected by simp
    then show ?thesis using Connect_pool_ok(3) [OF inv connected(2)] connected(4) by (simp add: pool_inv_label)
  qed
next
  case (disconnect cid a a' dres fs)
  then have "ra_pool a' = fst (Disconnect_pool cid (ra_pool a))" by (auto simp: Disconnect_rs_def split: prod.splits option.splits)
  then show ?case using disconnect by (simp add: pool_inv_Disconnect)
next
  case (execute alive now run cid command a a' eres fs)
  then have inv: "pool_inv (ra_pool a)" by simp
  show ?case
  proof (cases "Get_pool cid (ra_pool a)")
    case (Inl e)
    then show ?thesis using execute inv by (simp add: ExecuteCommand_def)
  next
    case (Inr r)
    have "r < length (pl_heap (ra_pool a))" using Get_pool_ref [OF Inr] inv by (simp add: pool_inv_def)
    moreover have "ra_pool a' = update_conn r (touch now) (ra_pool a)"
      using execute(1) Inr Execute_pool [of alive now run r command "ra_pool a"] by (auto simp: ExecuteCommand_def split: prod.splits)
    ultimately show ?thesis using inv by (simp add: pool_inv_touch)
  qed
next
  case (pool a p fs)
  then show ?case using pool_step_inv by simp
qed (auto simp: AddRemote_def UpdateRemote_def DeleteRemote_def Let_def split: if_splits option.splits prod.splits)

lemma rs_reachable_inv: "rs_reachable env st \<Longrightarrow> pool_inv (ra_pool (fst st))"
  by (induction rule: rs_reachable.induct) (auto intro: pool_inv_new rs_step_inv)

text \<open>
  C11. In every reachable state of the service, the remotes shown as connected, one by one or in the list, are exactly those whose
  identifier an open connection carries.
\<close>

theorem connected_status_true:
  assumes "rs_reachable env (a, fs)"
    and "GetRemote i a = Inr m \<or> (\<exists>ms. ListRemotes a = Some ms \<and> m \<in> set ms)"
  shows "re_Status m = REMOTE_STATUS_CONNECTED \<longleftrightarrow> (\<exists>c \<in> set (pl_heap (ra_pool a)). \<not> cn_closed c \<and> cn_RemoteID c = re_Id m)"
proof -
  let ?p = "ra_pool a"
  have inv: "pool_inv ?p" using rs_reachable_inv [OF assms(1)] by simp
  obtain r where "m = remote_shown ?p r"
    using assms(2) by (auto simp: GetRemote_def ListRemotes_def split: if_splits option.splits)
  then have m: "re_Status m = REMOTE_STATUS_CONNECTED \<longleftrightarrow> re_Id m \<in> set (connected_ids ?p)"
    by (simp add: remote_shown_def storageRemoteToProto_def)
  have "re_Id m \<in> set (connected_ids ?p) \<longleftrightarrow> (\<exists>r \<in> set (List_pool ?p). cn_RemoteID (conn_at ?p r) = re_Id m)"
    unfolding connected_ids_def set_map image_iff by metis
  also have "\<dots> \<longleftrightarrow> (\<exists>r < length (pl_heap ?p). \<not> cn_closed (conn_at ?p r) \<and> cn_RemoteID (conn_at ?p r) = re_Id m)"
    using inv by (auto simp: pool_inv_def)
  also have "\<dots> \<longleftrightarrow> (\<exists>c \<in> set (pl_heap ?p). \<not> cn_closed c \<and> cn_RemoteID c = re_Id m)"
    unfolding conn_at_def by (metis in_set_conv_nth)
  finally show ?thesis using m by simp
qed

lemma touch_get:
  assumes "UpdateRemoteServerLastConnected k t s fs = Some (s', fs', e)"
  shows "i \<noteq> k \<Longrightarrow> GetRemoteServer s' i = GetRemoteServer s i"
    and "GetRemoteServer s' k = map_option (\<lambda>r. r\<lparr>LastConnectedAt := t\<rparr>) (GetRemoteServer s k)"
  using assms
  by (auto simp: UpdateRemoteServerLastConnected_def GetRemoteServer_def set_remote_def update_conv' Let_def split: option.splits)

lemma status_of_remote:
  assumes "GetRemote i a = Inr m" and "GetRemoteServer (ra_store a) i = Some r"
  shows "re_Status m = REMOTE_STATUS_CONNECTED \<longleftrightarrow> (\<exists>s \<in> set (List_pool (ra_pool a)). cn_RemoteID (conn_at (ra_pool a) s) = ID r)"
proof -
  have "re_Status m = REMOTE_STATUS_CONNECTED \<longleftrightarrow> ID r \<in> set (connected_ids (ra_pool a))"
    using assms by (auto simp: GetRemote_def remote_shown_def storageRemoteToProto_def split: if_splits)
  then show ?thesis unfolding connected_ids_def set_map image_iff by metis
qed

text \<open>
  Two saved remotes with the same user, host and port share one connection.  While the connection of the first is
  alive, a request to connect to the second succeeds whatever key and passphrase it names: the answer is the connection
  of the first, under the second's identifier.  The first is no longer shown as connected, and ending the second's
  connection ends the first's.
\<close>

theorem remotes_share_connection:
  assumes reach: "rs_reachable env (a, fs)" and clock: "clock_ok (ra_pool a) now"
    and r1: "GetRemoteServer (ra_store a) (cq_RemoteId q1) = Some r1" "ID r1 = cq_RemoteId q1"
    and r2: "GetRemoteServer (ra_store a) (cq_RemoteId q2) = Some r2" "ID r2 = cq_RemoteId q2"
    and same: "cq_RemoteId q2 \<noteq> []" "cq_RemoteId q1 \<noteq> cq_RemoteId q2" "Host r1 = Host r2" "Port r1 = Port r2" "User r1 = User r2"
    and idle: "cq_RemoteId q1 \<notin> set (connected_ids (ra_pool a))"
    and first: "Connect_rs en alive now now_s q1 a fs = Some (a1, fs1, Inr c1)"
    and second: "Connect_rs en' (\<lambda>_. True) now' now_s' q2 a1 fs1 = Some (a2, fs2, res)"
  shows "\<exists>c2. res = Inr c2 \<and> cm_Id c2 = cm_Id c1 \<and> cm_RemoteId c1 = cq_RemoteId q1 \<and> cm_RemoteId c2 = cq_RemoteId q2
    \<and> length (ListConnections a2) = length (ListConnections a1)
    \<and> (\<forall>m. GetRemote (cq_RemoteId q1) a1 = Inr m \<longrightarrow> re_Status m = REMOTE_STATUS_CONNECTED)
    \<and> (\<forall>m. GetRemote (cq_RemoteId q1) a2 = Inr m \<longrightarrow> re_Status m = REMOTE_STATUS_DISCONNECTED)
    \<and> (\<forall>m. GetRemote (cq_RemoteId q2) a2 = Inr m \<longrightarrow> re_Status m = REMOTE_STATUS_CONNECTED)"
proof -
  have inv: "pool_inv (ra_pool a)" using rs_reachable_inv [OF reach] by simp
  from first obtain p ref s e where p: "Connect_pool en alive (connect_config a q1 r1) fs now (ra_pool a) = (p, Inr ref)"
      and s: "UpdateRemoteServerLastConnected (ID r1) now_s (ra_store a) fs = Some (s, fs1, e)"
      and a1: "a1 = a\<lparr>ra_pool := update_conn ref (\<lambda>c. c\<lparr>cn_RemoteID := ID r1\<rparr>) p, ra_store := s\<rparr>"
      and c1: "c1 = toProtoConnection (conn_at (update_conn ref (\<lambda>c. c\<lparr>cn_RemoteID := ID r1\<rparr>) p) ref)"
    by (cases rule: Connect_rs_cases) (use r1 in auto)
  note ok = Connect_pool_ok [OF inv p]
  have invp: "pool_inv p" using pool_inv_Connect [OF inv clock, of en alive "connect_config a q1 r1" fs] p by simp
  let ?p1 = "update_conn ref (\<lambda>c. c\<lparr>cn_RemoteID := ID r1\<rparr>) p"
  have inref: "ref \<in> set (List_pool p)" using map_of_SomeD [OF ok(1)] by (force simp: List_pool_def)
  have open1: "\<not> cn_closed (conn_at ?p1 ref)" using invp inref ok(3) by (simp add: pool_inv_def)
  have r2': "GetRemoteServer (ra_store a1) (cq_RemoteId q2) = Some r2" using touch_get(1) [OF s] same(2) r1(2) r2(1) by (simp add: a1)
  have key: "pool_key (connect_config a1 q2 r2) = pool_key (connect_config a q1 r1)"
    using same by (simp add: pool_key_def connect_config_def)
  have hit: "Connect_pool en' (\<lambda>_. True) (connect_config a1 q2 r2) fs1 now' (ra_pool a1) = (update_conn ref (touch now') ?p1, Inr ref)"
  proof -
    have "ra_pool a1 = ?p1" by (simp add: a1)
    then show ?thesis unfolding Connect_pool_def key using ok(1) open1 by (simp add: isHealthy_def)
  qed
  let ?p2 = "update_conn ref (\<lambda>c. c\<lparr>cn_RemoteID := ID r2\<rparr>) (update_conn ref (touch now') ?p1)"
  from second obtain s2 where a2: "a2 = a1\<lparr>ra_pool := ?p2, ra_store := s2\<rparr>" "res = Inr (toProtoConnection (conn_at ?p2 ref))"
      and s2: "\<exists>e. UpdateRemoteServerLastConnected (ID r2) now_s' (ra_store a1) fs1 = Some (s2, fs2, e)"
    by (cases rule: Connect_rs_cases) (use r2' hit same in \<open>auto simp: Connect_rs_def r2(2) [symmetric]\<close>)
  have r1': "GetRemoteServer (ra_store a1) (cq_RemoteId q1) = Some (r1\<lparr>LastConnectedAt := now_s\<rparr>)"
    using touch_get(2) [OF s] r1 by (simp add: a1)
  have r1'': "GetRemoteServer (ra_store a2) (cq_RemoteId q1) = Some (r1\<lparr>LastConnectedAt := now_s\<rparr>)"
    using touch_get(1) s2 r1' same(2) r2(2) by (fastforce simp: a2)
  have r2'': "GetRemoteServer (ra_store a2) (cq_RemoteId q2) = Some (r2\<lparr>LastConnectedAt := now_s'\<rparr>)"
    using touch_get(2) s2 r2' r2(2) by (fastforce simp: a2)
  have at2: "conn_at ?p2 t = (if t = ref then (touch now' ((conn_at p ref)\<lparr>cn_RemoteID := ID r1\<rparr>))\<lparr>cn_RemoteID := ID r2\<rparr> else conn_at p t)"
    if "t < length (pl_heap p)" for t using that by simp
  have lt: "t < length (pl_heap p)" if "t \<in> set (List_pool p)" for t using that invp by (simp add: pool_inv_def)
  have gone: "cn_RemoteID (conn_at ?p2 t) \<noteq> ID r1" if t: "t \<in> set (List_pool p)" for t
  proof (cases "t = ref")
    case True
    then show ?thesis using at2 [OF ok(3)] same(2) r1(2) r2(2) by simp
  next
    case False
    then have "t \<in> set (List_pool (ra_pool a))" "conn_at p t = conn_at (ra_pool a) t" using ok(2) t by auto
    then have "cn_RemoteID (conn_at p t) \<noteq> cq_RemoteId q1" using idle by (force simp: connected_ids_def)
    then show ?thesis using at2 [OF lt [OF t]] False r1(2) by simp
  qed
  have l1: "cn_RemoteID (conn_at ?p1 ref) = ID r1" using ok(3) by simp
  have l2: "cn_RemoteID (conn_at ?p2 ref) = ID r2" using at2 [OF ok(3)] by simp
  have m1: "re_Status m = REMOTE_STATUS_CONNECTED" if "GetRemote (cq_RemoteId q1) a1 = Inr m" for m
    using status_of_remote [OF that r1'] inref l1 by (simp add: a1) blast
  have m2: "re_Status m = REMOTE_STATUS_DISCONNECTED" if "GetRemote (cq_RemoteId q1) a2 = Inr m" for m
    using status_of_remote [OF that r1''] gone by (cases "re_Status m") (auto simp: a2(1))
  have m3: "re_Status m = REMOTE_STATUS_CONNECTED" if "GetRemote (cq_RemoteId q2) a2 = Inr m" for m
    using status_of_remote [OF that r2''] inref l2 by (simp add: a2(1) a1) blast
  have c2: "cm_Id (toProtoConnection (conn_at ?p2 ref)) = cm_Id c1" "cm_RemoteId c1 = cq_RemoteId q1"
      "cm_RemoteId (toProtoConnection (conn_at ?p2 ref)) = cq_RemoteId q2"
    using ok(3) r1(2) r2(2) by (simp_all add: c1 toProtoConnection_def touch_def)
  have "length (ListConnections a2) = length (ListConnections a1)" by (simp add: ListConnections_def a1 a2(1))
  then show ?thesis using a2(2) c2 m1 m2 m3 by blast
qed

section \<open>Saved remotes\<close>

definition request_shown :: "string \<Rightarrow> int \<Rightarrow> remote_request \<Rightarrow> Remote" where
  "request_shown uuid now req =
     \<lparr>re_Id = uuid, re_Name = rq_Name req, re_Host = rq_Host req, re_Port = remote_port (rq_Port req), re_User = rq_User req,
      re_IdentityFile = rq_IdentityFile req, re_SshConfigAlias = rq_SshConfigAlias req, re_CreatedAt = unix_time now,
      re_LastConnectedAt = None, re_Status = REMOTE_STATUS_DISCONNECTED\<rparr>"

definition request_stored :: "string \<Rightarrow> int \<Rightarrow> remote_request \<Rightarrow> RemoteServer" where
  "request_stored uuid now req = \<lparr>ID = uuid, Name = rq_Name req, Host = rq_Host req, Port = remote_port (rq_Port req),
     User = rq_User req, IdentityFile = rq_IdentityFile req, SSHConfigAlias = rq_SshConfigAlias req, CreatedAt = now, LastConnectedAt = 0\<rparr>"

lemma request_shown_stored: "int32 (rq_Port req) \<Longrightarrow> storageRemoteToProto (request_stored uuid now req) = request_shown uuid now req"
proof -
  assume "int32 (rq_Port req)"
  then have "int32 (remote_port (rq_Port req))" by (simp add: remote_port_def int32_def)
  then show ?thesis by (simp add: storageRemoteToProto_def request_stored_def request_shown_def)
qed

lemma AddRemote_given:
  assumes "AddRemote uuid now req a fs = (a1, fs1, res)" and "\<And>msg. res \<noteq> Inl (InvalidArgument, msg)"
  shows "rq_Host req \<noteq> []" and "rq_User req \<noteq> []"
proof -
  show "rq_Host req \<noteq> []" using assms(1) assms(2) [of "''host is required''"] by (auto simp: AddRemote_def)
  then show "rq_User req \<noteq> []" using assms(1) assms(2) [of "''user is required''"] by (auto simp: AddRemote_def)
qed

lemma AddRemote_run:
  assumes "AddRemote uuid now req a fs = (a1, fs1, res)" and "rq_Host req \<noteq> []" and "rq_User req \<noteq> []"
  obtains s e where "run_op (OpAdd (Some (request_stored uuid now req))) (ra_store a) fs = Some (s, fs1, e)"
    "a1 = a\<lparr>ra_store := s\<rparr>"
    "res = (case e of Some msg \<Rightarrow> Inl (Internal, ''failed to save remote: '' @ msg) | None \<Rightarrow> Inr (storageRemoteToProto (request_stored uuid now req)))"
proof -
  obtain s f e where r: "AddRemoteServer (Some (request_stored uuid now req)) (ra_store a) fs = (s, f, e)" by (cases "AddRemoteServer (Some (request_stored uuid now req)) (ra_store a) fs")
  have "AddRemote uuid now req a fs = (a\<lparr>ra_store := s\<rparr>, f,
      case e of Some msg \<Rightarrow> Inl (Internal, ''failed to save remote: '' @ msg) | None \<Rightarrow> Inr (storageRemoteToProto (request_stored uuid now req)))"
    using assms(2,3) r by (simp add: AddRemote_def request_stored_def [symmetric] Let_def)
  with assms(1) have "a1 = a\<lparr>ra_store := s\<rparr>" "fs1 = f"
     "res = (case e of Some msg \<Rightarrow> Inl (Internal, ''failed to save remote: '' @ msg) | None \<Rightarrow> Inr (storageRemoteToProto (request_stored uuid now req)))"
    by simp_all
  then show ?thesis using that r by simp
qed

lemma add_get:
  assumes "run_op (OpAdd (Some r)) s fs = Some (s1, fs1, e)" and "ID r \<noteq> []"
  shows "GetRemoteServer s1 i = (if i = ID r then Some r else GetRemoteServer s i)"
  using assms by (auto simp: AddRemoteServer_def Let_def put_remote_def GetRemoteServer_def update_conv')

text \<open>
  A remote that was added with success is answered under its identifier with the fields of the request (the port 22 for none) and
  leaves every other remote as it was; after a restart of the daemon every remote is answered as before it; and once it is
  deleted with success it is not found.
\<close>

theorem saved_remote_served:
  assumes add: "AddRemote uuid now req a fs = (a1, fs1, Inr m)" and port: "int32 (rq_Port req)" and time: "int64 now"
    and ok: "data_ok (sdata (ra_store a))" "metaFile (ra_store a) = meta_path (dataDir (ra_store a))"
    and fs: "\<not> read_denied fs (metaFile (ra_store a))" "\<not> mkdir_denied fs (dataDir (ra_store a))"
  shows "m = request_shown uuid now req
    \<and> GetRemote uuid a1 = Inr (if uuid \<in> set (connected_ids (ra_pool a)) then m\<lparr>re_Status := REMOTE_STATUS_CONNECTED\<rparr> else m)
    \<and> (\<forall>i. i \<noteq> uuid \<longrightarrow> GetRemote i a1 = GetRemote i a)
    \<and> (\<exists>s2. restart (dataDir (ra_store a)) fs1 = Inr s2 \<and> (\<forall>i. GetRemote i (a1\<lparr>ra_store := s2\<rparr>) = GetRemote i a1))
    \<and> (\<forall>a2 fs2. DeleteRemote uuid a1 fs1 = (a2, fs2, Inr ()) \<longrightarrow> GetRemote uuid a2 = Inl (NotFound, ''remote not found: '' @ uuid))"
proof -
  let ?r = "request_stored uuid now req"
  have given: "rq_Host req \<noteq> []" "rq_User req \<noteq> []" using AddRemote_given [OF add] by simp_all
  obtain s e where run: "run_op (OpAdd (Some ?r)) (ra_store a) fs = Some (s, fs1, e)" and a1: "a1 = a\<lparr>ra_store := s\<rparr>"
      and res: "Inr m = (case e of Some msg \<Rightarrow> Inl (Internal, ''failed to save remote: '' @ msg) | None \<Rightarrow> Inr (storageRemoteToProto ?r))"
    using add given by (rule AddRemote_run)
  from res have e: "e = None" and m: "m = request_shown uuid now req"
    by (auto simp: request_shown_stored [OF port] split: option.splits)
  have id: "ID ?r = uuid" by (simp add: request_stored_def)
  have "uuid \<noteq> []" using run e id by (auto simp: AddRemoteServer_def)
  then have get: "GetRemoteServer s i = (if i = uuid then Some ?r else GetRemoteServer (ra_store a) i)" for i
    using add_get [OF run] id by simp
  have "op_ok (OpAdd (Some ?r))"
    using port time by (simp add: op_ok_def remote_ok_def request_stored_def int64_def remote_port_def int32_def)
  then have "data_ok (sdata s)" using run_op_ok [OF run ok(1)] by simp
  then obtain s2 where s2: "restart (dataDir (ra_store a)) fs1 = Inr s2" "same_content s2 s"
    using restart_encoded [of fs1 "dataDir (ra_store a)" s] run_op_saved [OF run [unfolded e]] ok(2) fs by auto
  have "GetRemote i (a1\<lparr>ra_store := s2\<rparr>) = GetRemote i a1" for i
    using same_content_get [OF s2(2)] by (simp add: GetRemote_def a1 split: option.split)
  moreover have "GetRemote uuid a1 = Inr (if uuid \<in> set (connected_ids (ra_pool a)) then m\<lparr>re_Status := REMOTE_STATUS_CONNECTED\<rparr> else m)"
    using \<open>uuid \<noteq> []\<close> get id by (simp add: GetRemote_def a1 remote_shown_def m request_shown_stored [OF port])
  moreover have "GetRemote i a1 = GetRemote i a" if "i \<noteq> uuid" for i using that get by (simp add: GetRemote_def a1 split: option.split)
  moreover have "GetRemote uuid a2 = Inl (NotFound, ''remote not found: '' @ uuid)" if "DeleteRemote uuid a1 fs1 = (a2, fs2, Inr ())" for a2 fs2
    using that \<open>uuid \<noteq> []\<close>
    by (auto simp: DeleteRemote_def DeleteRemoteServer_def Let_def GetRemote_def GetRemoteServer_def del_remote_def
        delete_conv' split: prod.splits option.splits)
  ultimately show ?thesis using m s2(1) by blast
qed

text \<open>A request whose write fails reports an error, and the remote is there all the same until the daemon stops.\<close>

lemma failed_add_is_served:
  assumes "AddRemote uuid now req a fs = (a1, fs1, Inl (Internal, e))" and "uuid \<noteq> []"
  shows "\<exists>m. GetRemote uuid a1 = Inr m \<and> re_Host m = rq_Host req"
proof -
  have given: "rq_Host req \<noteq> []" "rq_User req \<noteq> []" using AddRemote_given [OF assms(1)] by simp_all
  obtain s e where run: "run_op (OpAdd (Some (request_stored uuid now req))) (ra_store a) fs = Some (s, fs1, e)" and a1: "a1 = a\<lparr>ra_store := s\<rparr>"
    using assms(1) given by (rule AddRemote_run)
  from add_get [OF run, of uuid] assms(2) show ?thesis
    by (simp add: request_stored_def GetRemote_def a1 remote_shown_def storageRemoteToProto_def)
qed

section \<open>Examples\<close>

definition demo_remote :: "string \<Rightarrow> RemoteServer" where
  "demo_remote i = \<lparr>ID = i, Name = i, Host = ''h'', Port = 22, User = ''u'', IdentityFile = [], SSHConfigAlias = [],
     CreatedAt = 1, LastConnectedAt = 0\<rparr>"

definition demo_store :: Store where
  "demo_store = \<lparr>dataDir = ''/d'', metaFile = meta_path ''/d'',
     sdata = fresh_data\<lparr>remote_servers := [(''a'', Some (demo_remote ''a'')), (''b'', Some (demo_remote ''b''))]\<rparr>\<rparr>"

definition demo_service :: RemoteServiceAdapter where
  "demo_service = \<lparr>ra_pool = NewConnectionPool \<lparr>MaxIdleTime = 0, MaxConnections = 0, KeepAliveInterval = 0\<rparr>,
     ra_store = demo_store, ra_agentSocketPath = ''/a''\<rparr>"

definition demo_connect :: "string \<Rightarrow> string \<Rightarrow> connect_request" where
  "demo_connect i key = \<lparr>cq_RemoteId = i, cq_KeyFingerprint = key, cq_Passphrase = []\<rparr>"

lemma demo_service_reachable: "rs_reachable env (demo_service, fs)"
  by (rule rs_reachable.start) (simp add: demo_service_def)

lemma demo_first:
  "case Connect_rs demo_env (\<lambda>_. True) 5 2 (demo_connect ''a'' ''SHA256:S'') demo_service (fs_with []) of
     Some (a1, fs1, Inr c) \<Rightarrow> cm_Id c = ''5'' | _ \<Rightarrow> False"
  by code_simp

lemma remotes_share_connection_witness:
  "\<exists>a1 fs1 c1 a2 fs2 c2. Connect_rs demo_env (\<lambda>_. True) 5 2 (demo_connect ''a'' ''SHA256:S'') demo_service (fs_with []) = Some (a1, fs1, Inr c1)
    \<and> Connect_rs demo_env (\<lambda>_. True) 9 3 (demo_connect ''b'' ''SHA256:none'') a1 fs1 = Some (a2, fs2, Inr c2)
    \<and> cm_Id c2 = cm_Id c1 \<and> cm_RemoteId c2 = ''b''"
proof -
  obtain a1 fs1 c1 where first: "Connect_rs demo_env (\<lambda>_. True) 5 2 (demo_connect ''a'' ''SHA256:S'') demo_service (fs_with []) = Some (a1, fs1, Inr c1)"
  proof (cases "Connect_rs demo_env (\<lambda>_. True) 5 2 (demo_connect ''a'' ''SHA256:S'') demo_service (fs_with [])")
    case None
    then show ?thesis using demo_first by simp
  next
    case (Some out)
    obtain a1 fs1 r where "out = (a1, fs1, r)" by (cases out)
    then show ?thesis using demo_first Some that by (cases r) simp_all
  qed
  have "Connect_rs demo_env (\<lambda>_. True) 9 3 (demo_connect ''b'' ''SHA256:none'') a1 fs1 \<noteq> None"
  proof -
    have "case Connect_rs demo_env (\<lambda>_. True) 5 2 (demo_connect ''a'' ''SHA256:S'') demo_service (fs_with []) of
       Some (a1, fs1, _) \<Rightarrow> Connect_rs demo_env (\<lambda>_. True) 9 3 (demo_connect ''b'' ''SHA256:none'') a1 fs1 \<noteq> None | None \<Rightarrow> False"
      by code_simp
    then show ?thesis by (simp add: first)
  qed
  then obtain a2 fs2 res where second: "Connect_rs demo_env (\<lambda>_. True) 9 3 (demo_connect ''b'' ''SHA256:none'') a1 fs1 = Some (a2, fs2, res)"
    by auto
  have get: "GetRemoteServer (ra_store demo_service) ''a'' = Some (demo_remote ''a'')" "GetRemoteServer (ra_store demo_service) ''b'' = Some (demo_remote ''b'')"
    by (simp_all add: demo_service_def demo_store_def GetRemoteServer_def)
  have ids: "cq_RemoteId (demo_connect i k) = i" "ID (demo_remote i) = i" for i k by (simp_all add: demo_connect_def demo_remote_def)
  have clock: "clock_ok (ra_pool demo_service) 5" "''a'' \<notin> set (connected_ids (ra_pool demo_service))"
    by (simp_all add: clock_ok_def demo_service_def NewConnectionPool_def connected_ids_def List_pool_def)
  have "\<exists>c2. res = Inr c2 \<and> cm_Id c2 = cm_Id c1 \<and> cm_RemoteId c1 = ''a'' \<and> cm_RemoteId c2 = ''b''"
    using remotes_share_connection [OF demo_service_reachable clock(1) _ _ _ _ _ _ _ _ _ _ first second,
        of "demo_remote ''a''" "demo_remote ''b''"] get ids clock(2)
    by (auto simp: demo_remote_def)
  then have "\<exists>c2. res = Inr c2 \<and> cm_Id c2 = cm_Id c1 \<and> cm_RemoteId c2 = ''b''" by blast
  with first second show ?thesis by blast
qed

lemma connected_status_true_witness:
  "\<exists>m. GetRemote ''a'' demo_service = Inr m \<and> re_Status m = REMOTE_STATUS_DISCONNECTED"
proof -
  obtain m where m: "GetRemote ''a'' demo_service = Inr m" by (simp add: GetRemote_def GetRemoteServer_def demo_service_def demo_store_def)
  have "re_Status m = REMOTE_STATUS_CONNECTED \<longleftrightarrow> (\<exists>c \<in> set (pl_heap (ra_pool demo_service)). \<not> cn_closed c \<and> cn_RemoteID c = re_Id m)"
    by (rule connected_status_true [OF demo_service_reachable [of undefined]]) (use m in blast)
  then show ?thesis using m by (cases "re_Status m") (simp_all add: demo_service_def NewConnectionPool_def)
qed

definition demo_request :: remote_request where
  "demo_request = \<lparr>rq_Name = ''n'', rq_Host = ''h'', rq_Port = 0, rq_User = ''u'', rq_IdentityFile = [], rq_SshConfigAlias = []\<rparr>"

lemma saved_remote_served_witness:
  "\<exists>a1 fs1 m. AddRemote ''c'' 7 demo_request demo_service (fs_with []) = (a1, fs1, Inr m) \<and> GetRemote ''c'' a1 = Inr m \<and> re_Port m = 22"
proof -
  obtain a1 fs1 m where add: "AddRemote ''c'' 7 demo_request demo_service (fs_with []) = (a1, fs1, Inr m)"
    by (simp add: AddRemote_def demo_request_def AddRemoteServer_def Let_def save_def os_write_file_def os_rename_def demo_service_def demo_store_def)
  have ok: "int32 (rq_Port demo_request)" "int64 7" "data_ok (sdata (ra_store demo_service))"
    by (simp_all add: demo_request_def int32_def int64_def demo_service_def demo_store_def data_ok_def entries_ok_def fresh_data_def
        remote_ok_def demo_remote_def)
  have "m = request_shown ''c'' 7 demo_request
    \<and> GetRemote ''c'' a1 = Inr (if ''c'' \<in> set (connected_ids (ra_pool demo_service)) then m\<lparr>re_Status := REMOTE_STATUS_CONNECTED\<rparr> else m)"
    using saved_remote_served [OF add ok] by (simp add: demo_service_def demo_store_def)
  moreover have "connected_ids (ra_pool demo_service) = []"
    by (simp add: connected_ids_def List_pool_def demo_service_def NewConnectionPool_def)
  ultimately show ?thesis using add by (simp add: request_shown_def demo_request_def remote_port_def)
qed

end
