(* ===== verification/KeyServices.thy ===== *)
theory KeyServices
  imports Grpc Keys AgentService AuthorizedKeys ConnPool
begin

text \<open>
  The gRPC adapters of keys and of the agent (\<open>adapter/keys.go\<close> and \<open>adapter/agent.go\<close>), on the models of the key
  service, the managed agent and its client, and the connection pool.

  \<open>PushKeyToRemote\<close> runs a shell script on the remote side: \<open>push_script\<close> is its text, and \<open>pushed\<close> what its
  commands do to the remote file.
\<close>

section \<open>Keys\<close>

datatype KeyTypeMsg =
    KEY_TYPE_UNSPECIFIED | KEY_TYPE_RSA | KEY_TYPE_ED25519 | KEY_TYPE_ECDSA | KEY_TYPE_ED25519_SK | KEY_TYPE_ECDSA_SK

definition toProtoKeyType :: "KeyType \<Rightarrow> KeyTypeMsg" where
  "toProtoKeyType t =
     (if t = KeyTypeRSA then KEY_TYPE_RSA else if t = KeyTypeED25519 then KEY_TYPE_ED25519
      else if t = KeyTypeECDSA then KEY_TYPE_ECDSA else if t = KeyTypeED25519SK then KEY_TYPE_ED25519_SK
      else if t = KeyTypeECDSASK then KEY_TYPE_ECDSA_SK else KEY_TYPE_UNSPECIFIED)"

definition fromProtoKeyType :: "KeyTypeMsg \<Rightarrow> KeyType" where
  "fromProtoKeyType t =
     (case t of KEY_TYPE_RSA \<Rightarrow> KeyTypeRSA | KEY_TYPE_ED25519 \<Rightarrow> KeyTypeED25519 | KEY_TYPE_ECDSA \<Rightarrow> KeyTypeECDSA
      | KEY_TYPE_ED25519_SK \<Rightarrow> KeyTypeED25519SK | KEY_TYPE_ECDSA_SK \<Rightarrow> KeyTypeECDSASK
      | KEY_TYPE_UNSPECIFIED \<Rightarrow> KeyTypeED25519)"

record SSHKey =
  sk_Id :: string
  sk_Name :: string
  sk_PrivateKeyPath :: string
  sk_PublicKeyPath :: string
  sk_Type :: KeyTypeMsg
  sk_Bits :: int
  sk_Comment :: string
  sk_FingerprintSha256 :: string
  sk_PublicKey :: string
  sk_HasPassphrase :: bool
  sk_InAgent :: bool
  sk_CreatedAt :: "int option"
  sk_ModifiedAt :: "int option"

definition toProtoKey :: "Key \<Rightarrow> SSHKey" where
  "toProtoKey k =
     \<lparr>sk_Id = key_ID k, sk_Name = key_Name k, sk_PrivateKeyPath = key_PrivateKeyPath k, sk_PublicKeyPath = key_PublicKeyPath k,
      sk_Type = toProtoKeyType (key_Type k), sk_Bits = to_int32 (key_Bits k), sk_Comment = key_Comment k,
      sk_FingerprintSha256 = key_FingerprintSHA256 k, sk_PublicKey = key_PublicKey k, sk_HasPassphrase = key_HasPassphrase k,
      sk_InAgent = key_InAgent k, sk_CreatedAt = key_CreatedAt k, sk_ModifiedAt = key_ModifiedAt k\<rparr>"

text \<open>In the results, \<open>None\<close> is a panic of the detection of encrypted keys.\<close>

definition ListKeys_ka ::
    "('priv, 'pk) key_lib \<Rightarrow> (string \<Rightarrow> int) \<Rightarrow> 'st keyService \<Rightarrow> treefs \<Rightarrow> 'st \<Rightarrow> SSHKey list rpc option" where
  "ListKeys_ka kl mtime s t st =
     map_option (\<lambda>r. case r of
         Inl e \<Rightarrow> Inl (Internal, ''failed to list keys: '' @ e)
       | Inr ks \<Rightarrow> Inr (map toProtoKey ks)) (List_keys kl mtime s t st)"

definition GetKey_ka ::
    "('priv, 'pk) key_lib \<Rightarrow> (string \<Rightarrow> int) \<Rightarrow> 'st keyService \<Rightarrow> string \<Rightarrow> treefs \<Rightarrow> 'st \<Rightarrow> SSHKey rpc option" where
  "GetKey_ka kl mtime s i t st =
     map_option (\<lambda>r. case r of
         Inl e \<Rightarrow> Inl (NotFound, ''key not found: '' @ e)
       | Inr k \<Rightarrow> Inr (toProtoKey k)) (load_key kl mtime s i t st)"

record generate_request =
  gq_Name :: string
  gq_Type :: KeyTypeMsg
  gq_Bits :: int
  gq_Comment :: string
  gq_Passphrase :: string

definition GenerateKey_ka ::
    "('priv, 'pk) key_lib \<Rightarrow> (string \<Rightarrow> int) \<Rightarrow> 'st keyService \<Rightarrow> generate_request \<Rightarrow> treefs \<Rightarrow> 'st \<Rightarrow> treefs \<times> SSHKey rpc option" where
  "GenerateKey_ka kl mtime s req t st =
     (let opts = \<lparr>go_Name = gq_Name req, go_Type = fromProtoKeyType (gq_Type req), go_Bits = gq_Bits req,
                  go_Comment = gq_Comment req, go_Passphrase = gq_Passphrase req\<rparr> in
      case Generate kl mtime s opts t st of (t1, r) \<Rightarrow>
        (t1, map_option (\<lambda>r. case r of
            Inl e \<Rightarrow> Inl (Internal, ''failed to generate key: '' @ e)
          | Inr k \<Rightarrow> Inr (toProtoKey k)) r))"

definition DeleteKey_ka ::
    "('priv, 'pk) key_lib \<Rightarrow> 'st keyService \<Rightarrow> string \<Rightarrow> treefs \<Rightarrow> 'st \<Rightarrow> treefs \<times> 'st \<times> unit rpc" where
  "DeleteKey_ka kl s i t st =
     (case Delete_key kl s i t st of
        (t1, st1, Some e) \<Rightarrow> (t1, st1, Inl (Internal, ''failed to delete key: '' @ e))
      | (t1, st1, None) \<Rightarrow> (t1, st1, Inr ()))"

definition GetFingerprint_ka :: "('priv, 'pk) key_lib \<Rightarrow> 'st keyService \<Rightarrow> string \<Rightarrow> bool \<Rightarrow> treefs \<Rightarrow> string rpc" where
  "GetFingerprint_ka kl s i md5 t =
     (case Fingerprint_ks kl s i (if md5 then ''md5'' else ''sha256'') t of
        Inl e \<Rightarrow> Inl (Internal, ''failed to get fingerprint: '' @ e)
      | Inr fp \<Rightarrow> Inr fp)"

definition ChangePassphrase_ka ::
    "('priv, 'pk) key_lib \<Rightarrow> 'st keyService \<Rightarrow> string \<Rightarrow> string \<Rightarrow> string \<Rightarrow> treefs \<Rightarrow> treefs \<times> unit rpc" where
  "ChangePassphrase_ka kl s i old new t =
     (case ChangePassphrase kl s i old new t of
        (t1, Some e) \<Rightarrow> (t1, Inl (Internal, ''failed to change passphrase: '' @ e))
      | (t1, None) \<Rightarrow> (t1, Inr ()))"

definition WatchKeys :: "((string, Key list) update \<times> string option) list \<Rightarrow> SSHKey list list \<times> (grpc_code \<times> string) option" where
  "WatchKeys updates = send_updates ''watch error'' (map toProtoKey) updates"

section \<open>Pushing a key\<close>

abbreviation single_quote :: char where "single_quote \<equiv> CHR 0x27"
abbreviation double_quote :: char where "double_quote \<equiv> CHR 0x22"

definition findConnectionByRemoteID :: "string \<Rightarrow> ConnectionPool option \<Rightarrow> nat option" where
  "findConnectionByRemoteID remoteID pool =
     (case pool of None \<Rightarrow> None | Some p \<Rightarrow> find (\<lambda>r. cn_RemoteID (conn_at p r) = remoteID) (List_pool p))"

definition getPublicKeyByFingerprint ::
    "('priv, 'pk) key_lib \<Rightarrow> (string \<Rightarrow> int) \<Rightarrow> 'st keyService \<Rightarrow> string \<Rightarrow> treefs \<Rightarrow> 'st \<Rightarrow> (string + string) option" where
  "getPublicKeyByFingerprint kl mtime s fp t st =
     map_option (\<lambda>r. case r of
         Inl e \<Rightarrow> Inl (''failed to list keys: '' @ e)
       | Inr ks \<Rightarrow>
           (case find (\<lambda>k. trim_prefix fp ''SHA256:'' = trim_prefix (key_FingerprintSHA256 k) ''SHA256:'') ks of
              Some k \<Rightarrow> Inr (key_PublicKey k)
            | None \<Rightarrow> Inl (''key with fingerprint '' @ fp @ '' not found''))) (List_keys kl mtime s t st)"

definition escape_quotes :: "string \<Rightarrow> string" where
  "escape_quotes s =
     concat (map (\<lambda>c. if c = single_quote
       then [single_quote, double_quote, single_quote, double_quote, single_quote] else [c]) s)"

definition push_script :: "string \<Rightarrow> string" where
  \<open>push_script publicKey =
     join [newline] [[],
       ''mkdir -p ~/.ssh && chmod 700 ~/.ssh'',
       ''touch ~/.ssh/authorized_keys && chmod 600 ~/.ssh/authorized_keys'',
       ''KEY='' @ single_quote # trim_space (escape_quotes (trim_space publicKey @ [newline])) @ [single_quote],
       ''if grep -qF "$KEY" ~/.ssh/authorized_keys 2>/dev/null; then'',
       ''    echo "Key already exists in authorized_keys"'',
       ''else'',
       ''    printf '%s' "$KEY" >> ~/.ssh/authorized_keys'',
       ''    echo "Key added to authorized_keys"'',
       ''fi'', []]\<close>

text \<open>What the commands of the script do with the remote file, for a \<open>key\<close>, the value of \<open>$KEY\<close>, of one line.\<close>

definition pushed :: "string \<Rightarrow> string \<Rightarrow> string" where
  "pushed key content = (if contains content key then content else content @ key)"

definition PushKeyToRemote ::
    "('priv, 'pk) key_lib \<Rightarrow> (string \<Rightarrow> int) \<Rightarrow> (nat \<Rightarrow> bool) \<Rightarrow> int \<Rightarrow> (string \<Rightarrow> string + string \<times> string \<times> string option)
     \<Rightarrow> 'st keyService \<Rightarrow> string \<Rightarrow> string \<Rightarrow> treefs \<Rightarrow> 'st \<Rightarrow> ConnectionPool option
     \<Rightarrow> ConnectionPool option \<times> (bool \<times> string) rpc option" where
  "PushKeyToRemote kl mtime alive now run s keyId remoteId t st pool =
     (if keyId = [] then (pool, Some (Inl (InvalidArgument, ''key_id is required'')))
      else if remoteId = [] then (pool, Some (Inl (InvalidArgument, ''remote_id is required'')))
      else (case findConnectionByRemoteID remoteId pool of
          None \<Rightarrow> (pool, Some (Inl (FailedPrecondition, ''no active connection to remote '' @ remoteId)))
        | Some ref \<Rightarrow>
            (case getPublicKeyByFingerprint kl mtime s keyId t st of
               None \<Rightarrow> (pool, None)
             | Some (Inl e) \<Rightarrow> (pool, Some (Inl (NotFound, ''key not found: '' @ e)))
             | Some (Inr publicKey) \<Rightarrow>
                 (case Execute alive now run ref (push_script publicKey) (the pool) of
                    (p1, stdout, stderr, Some e) \<Rightarrow>
                      (Some p1, Some (Inr (False, ''failed to push key: '' @ (if stderr = [] then e else stderr))))
                  | (p1, stdout, stderr, None) \<Rightarrow>
                      (Some p1, Some (Inr (True,
                         if contains (trim_space stdout) ''Key already exists'' then ''Key already exists in authorized_keys''
                         else ''Key added to authorized_keys'')))))))"

section \<open>The agent\<close>

definition GetAgentStatus :: "('st, 'priv) agent_client \<Rightarrow> sockets \<Rightarrow> agentService \<Rightarrow> 'st \<Rightarrow> AgentStatus" where
  "GetAgentStatus cl so s st = Status_svc cl so s st"

definition toProtoAgentKey :: "AgentKey \<Rightarrow> AgentKey" where
  "toProtoAgentKey k = k\<lparr>ak_Bits := to_int32 (ak_Bits k), ak_LifetimeSeconds := to_int32 (ak_LifetimeSeconds k)\<rparr>"

definition ListAgentKeys ::
    "(string \<Rightarrow> string) \<Rightarrow> ('st, 'priv) agent_client \<Rightarrow> sockets \<Rightarrow> agentService \<Rightarrow> 'st \<Rightarrow> AgentKey list rpc" where
  "ListAgentKeys h cl so s st =
     (case ListKeys_svc h cl so s st of
        Inl e \<Rightarrow> Inl (Internal, ''failed to list agent keys: '' @ e)
      | Inr ks \<Rightarrow> Inr (map toProtoAgentKey ks))"

text \<open>\<open>uint32(lifetime.GetSeconds())\<close>: the 64-bit seconds of the request, cut to 32 bits.\<close>

definition lifetime_secs :: "int option \<Rightarrow> 32 word" where
  "lifetime_secs lifetime = (case lifetime of None \<Rightarrow> 0 | Some secs \<Rightarrow> word_of_int secs)"

record add_key_request =
  aq_KeyPath :: string
  aq_Passphrase :: string
  aq_Confirm :: bool
  aq_Lifetime :: "int option"

definition AddKeyToAgent ::
    "('priv, 'pk2) key_lib \<Rightarrow> ('priv, 'sg, 'pk, 'sig) crypto \<Rightarrow> (agent_err \<Rightarrow> string) \<Rightarrow> int \<Rightarrow> add_key_request \<Rightarrow> treefs
     \<Rightarrow> 'sg managedAgent \<Rightarrow> 'sg managedAgent \<times> unit rpc" where
  "AddKeyToAgent kl cr msg now req t m =
     (case t_read_file (aq_KeyPath req) t of
        Inl e \<Rightarrow> (m, Inl (NotFound, ''failed to read key file: '' @ ioerr_msg e))
      | Inr keyData \<Rightarrow>
          (case (if aq_Passphrase req \<noteq> [] then kl_parse_encrypted kl keyData (aq_Passphrase req) else kl_parse kl keyData) of
             Inl e \<Rightarrow> (m, Inl (InvalidArgument, ''failed to parse private key: '' @ e))
           | Inr privateKey \<Rightarrow>
               (case AddKeyDirect cr now privateKey (aq_KeyPath req) (lifetime_secs (aq_Lifetime req)) (aq_Confirm req) m of
                  (m1, Some e) \<Rightarrow> (m1, Inl (Internal, ''failed to add key to agent: '' @ msg e))
                | (m1, None) \<Rightarrow> (m1, Inr ()))))"

text \<open>The requests that only call the agent's client.\<close>

definition agent_call :: "string \<Rightarrow> 'st \<times> string option \<Rightarrow> 'st \<times> unit rpc" where
  "agent_call what r = (case r of (st, Some e) \<Rightarrow> (st, Inl (Internal, what @ '': '' @ e)) | (st, None) \<Rightarrow> (st, Inr ()))"

definition RemoveKeyFromAgent ::
    "(string \<Rightarrow> string) \<Rightarrow> ('st, 'priv) agent_client \<Rightarrow> sockets \<Rightarrow> agentService \<Rightarrow> string \<Rightarrow> 'st \<Rightarrow> 'st \<times> unit rpc" where
  "RemoveKeyFromAgent h cl so s fp st = agent_call ''failed to remove key from agent'' (RemoveKeyByFingerprint_svc h cl so s fp st)"

definition RemoveAllKeysFromAgent :: "('st, 'priv) agent_client \<Rightarrow> sockets \<Rightarrow> agentService \<Rightarrow> 'st \<Rightarrow> 'st \<times> unit rpc" where
  "RemoveAllKeysFromAgent cl so s st = agent_call ''failed to remove all keys from agent'' (RemoveAll_svc cl so s st)"

definition LockAgent :: "('st, 'priv) agent_client \<Rightarrow> sockets \<Rightarrow> agentService \<Rightarrow> string \<Rightarrow> 'st \<Rightarrow> 'st \<times> unit rpc" where
  "LockAgent cl so s pass st = agent_call ''failed to lock agent'' (Lock_svc cl so s pass st)"

definition UnlockAgent :: "('st, 'priv) agent_client \<Rightarrow> sockets \<Rightarrow> agentService \<Rightarrow> string \<Rightarrow> 'st \<Rightarrow> 'st \<times> unit rpc" where
  "UnlockAgent cl so s pass st = agent_call ''failed to unlock agent'' (Unlock_svc cl so s pass st)"

definition WatchAgent ::
    "((string, AgentUpdate) update \<times> string option) list
     \<Rightarrow> (bool \<times> string \<times> bool \<times> AgentKey list) list \<times> (grpc_code \<times> string) option" where
  "WatchAgent updates = send_updates ''watch error'' (\<lambda>u.
     (as_Running (au_Status u), as_SocketPath (au_Status u), as_IsLocked (au_Status u), map toProtoAgentKey (au_Keys u))) updates"

section \<open>Lifetimes of requests\<close>

lemma AddKeyToAgent_ok:
  assumes "AddKeyToAgent kl cr msg now req t m = (m', Inr ())"
  obtains priv s where "NewSignerFromKey cr priv = Some s" "\<not> ag_locked m"
    "m' = fst (Add_agent cr now priv (aq_KeyPath req) (lifetime_secs (aq_Lifetime req)) (aq_Confirm req) m)"
proof -
  obtain priv where "Add_agent cr now priv (aq_KeyPath req) (lifetime_secs (aq_Lifetime req)) (aq_Confirm req) m = (m', None)"
    using assms by (auto simp: AddKeyToAgent_def AddKeyDirect_def split: sum.splits prod.splits option.splits)
  then show ?thesis using that [of priv] by (auto simp: Add_agent_def split: if_splits option.splits)
qed

text \<open>
  The lifetime of a key that a client adds, in seconds, is cut to 32 bits: an expiry sweep drops the key if and only if the rest
  modulo 2^32 is positive and has passed, and drops no key that it would not have dropped without it.  A
  lifetime of a multiple of 2^32 seconds is none: the key stays for good.
\<close>

theorem requested_lifetime:
  assumes inv: "agent_inv cr m" and add: "AddKeyToAgent kl cr msg t0 req t m = (m', Inr ())"
    and life: "aq_Lifetime req = Some secs" and now: "t0 \<le> now" "now - t0 < 2 ^ 63"
  shows "\<exists>fp k. map_of (ag_keys m') fp = Some k \<and> mk_comment k = aq_KeyPath req \<and> mk_confirm k = aq_Confirm req
    \<and> (map_of (ag_keys (expireKeys now m')) fp = None \<longleftrightarrow> 0 < secs mod 2 ^ 32 \<and> now - t0 > 10 ^ 9 * (secs mod 2 ^ 32))
    \<and> (\<forall>fp'. fp' \<noteq> fp \<longrightarrow> map_of (ag_keys (expireKeys now m')) fp' = map_of (ag_keys (expireKeys now m)) fp')
    \<and> (secs = 4294967296 \<longrightarrow> map_of (ag_keys (expireKeys now m')) fp = Some k)"
proof -
  obtain priv s where s: "NewSignerFromKey cr priv = Some s" "\<not> ag_locked m"
    and m': "m' = fst (Add_agent cr t0 priv (aq_KeyPath req) (lifetime_secs (Some secs)) (aq_Confirm req) m)"
    using AddKeyToAgent_ok [OF add] life by metis
  let ?fp = "FingerprintSHA256 cr (PublicKey_of cr s)"
  let ?k = "\<lparr>mk_signer = s, mk_comment = aq_KeyPath req, mk_addedAt = t0,
     mk_lifetime = lifetime_duration (lifetime_secs (Some secs)), mk_confirm = aq_Confirm req\<rparr>"
  have keys: "map_of (ag_keys m') = (map_of (ag_keys m))(?fp \<mapsto> ?k)"
    using s by (simp add: m' Add_agent_def Let_def update_conv' notify_def)
  have inv': "agent_inv cr m'"
    using agent_inv_serve [OF inv, of t0 "RAdd priv (aq_KeyPath req) (lifetime_secs (Some secs)) (aq_Confirm req)"]
    by (simp add: serve_def m')
  have u: "uint (lifetime_secs (Some secs)) = secs mod 2 ^ 32" by (simp add: lifetime_secs_def uint_word_of_int)
  have exp: "key_expired now ?k \<longleftrightarrow> 0 < secs mod 2 ^ 32 \<and> now - t0 > 10 ^ 9 * (secs mod 2 ^ 32)"
    unfolding key_expired_added u ..
  have sweep: "map_of (ag_keys (expireKeys now m')) ?fp = (if key_expired now ?k then None else Some ?k)"
    by (simp add: map_of_expireKeys [OF inv'] keys live_keys_def)
  have others: "map_of (ag_keys (expireKeys now m')) fp' = map_of (ag_keys (expireKeys now m)) fp'" if "fp' \<noteq> ?fp" for fp'
    using that by (simp add: map_of_expireKeys [OF inv'] map_of_expireKeys [OF inv] keys live_keys_def)
  have k: "map_of (ag_keys m') ?fp = Some ?k" "mk_comment ?k = aq_KeyPath req" "mk_confirm ?k = aq_Confirm req" by (simp_all add: keys)
  have gone: "map_of (ag_keys (expireKeys now m')) ?fp = None \<longleftrightarrow> 0 < secs mod 2 ^ 32 \<and> now - t0 > 10 ^ 9 * (secs mod 2 ^ 32)"
    unfolding sweep exp [symmetric] by simp
  have stays: "map_of (ag_keys (expireKeys now m')) ?fp = Some ?k" if "secs = 4294967296"
  proof -
    have "secs mod 2 ^ 32 = 0" using that by simp
    then show ?thesis unfolding sweep exp by simp
  qed
  show ?thesis by (intro exI [of _ ?fp] exI [of _ ?k] conjI allI impI k gone others stays)
qed

definition demo_add :: add_key_request where
  "demo_add = \<lparr>aq_KeyPath = ''/s/id'', aq_Passphrase = [], aq_Confirm = False, aq_Lifetime = Some 4294967296\<rparr>"

definition demo_parse :: "(string, string) key_lib" where
  "demo_parse = \<lparr>kl_ed25519 = Inl [], kl_ecdsa_p256 = Inl [], kl_rsa = (\<lambda>_. Inl []), kl_marshal = (\<lambda>_ _. Inl []),
     kl_marshal_encrypted = (\<lambda>_ _ _. Inl []), kl_parse = Inr, kl_parse_encrypted = (\<lambda>_ _. Inl []), kl_public = (\<lambda>_. Inl []),
     kl_authorized_line = id, kl_parse_authorized = (\<lambda>_. Inl []), kl_fp_sha256 = id, kl_fp_md5 = id, kl_type = id, kl_crypto = (\<lambda>_. None)\<rparr>"

lemma requested_lifetime_witness:
  "\<exists>m' fp k. AddKeyToAgent demo_parse demo_crypto (\<lambda>_. []) 0 demo_add demo_pair (NewManagedAgent ''/s'') = (m', Inr ())
    \<and> map_of (ag_keys (expireKeys 1000000000000 m')) fp = Some k"
proof -
  have "snd (AddKeyToAgent demo_parse demo_crypto (\<lambda>_. []) 0 demo_add demo_pair (NewManagedAgent ''/s'')) = Inr ()"
    by (simp add: AddKeyToAgent_def demo_pair_def demo_tree_def t_read_file_def look_def demo_add_def demo_parse_def AddKeyDirect_def
        Add_agent_def NewManagedAgent_def demo_crypto_def Let_def)
  then obtain m' where add: "AddKeyToAgent demo_parse demo_crypto (\<lambda>_. []) 0 demo_add demo_pair (NewManagedAgent ''/s'') = (m', Inr ())"
    by (metis prod.collapse)
  have "aq_Lifetime demo_add = Some 4294967296" by (simp add: demo_add_def)
  from requested_lifetime [OF agent_inv_new add this, of 1000000000000] add show ?thesis by auto
qed

section \<open>The script\<close>

definition quoted_key :: "string \<Rightarrow> string" where
  "quoted_key publicKey = single_quote # escape_quotes (trim_space publicKey) @ [single_quote]"

lemma escape_quotes_simps [simp]:
  "escape_quotes [] = []"
  "escape_quotes (c # s) = (if c = single_quote then [single_quote, double_quote, single_quote, double_quote, single_quote] else [c]) @ escape_quotes s"
  "escape_quotes (s @ t) = escape_quotes s @ escape_quotes t"
  by (simp_all add: escape_quotes_def)

lemma escape_quotes_not_Nil: "s \<noteq> [] \<Longrightarrow> escape_quotes s \<noteq> []"
  by (cases s) auto

lemma hd_escape_quotes: "s \<noteq> [] \<Longrightarrow> hd (escape_quotes s) = hd s"
  by (cases s) auto

lemma last_escape_quotes: "s \<noteq> [] \<Longrightarrow> last (escape_quotes s) = last s"
  by (induction s rule: rev_induct) auto

lemma trim_escaped: "trim_space (escape_quotes (trim_space s @ [newline])) = escape_quotes (trim_space s)"
proof -
  let ?t = "trim_space s"
  have "trim_space (escape_quotes ?t @ [newline]) = trim_space (escape_quotes ?t)"
    by (rule trim_space_snoc_space) (simp add: is_space_def)
  also have "\<dots> = escape_quotes ?t"
  proof (cases "?t = []")
    case False
    then have "\<not> is_space (hd ?t)" "\<not> is_space (last ?t)" using trim_space_ends by blast+
    then show ?thesis
      using False by (intro trim_space_id) (simp_all add: hd_escape_quotes last_escape_quotes escape_quotes_not_Nil)
  qed simp
  finally show ?thesis by simp
qed

definition before_key :: string where
  \<open>before_key = newline # ''mkdir -p ~/.ssh && chmod 700 ~/.ssh'' @ newline #
     ''touch ~/.ssh/authorized_keys && chmod 600 ~/.ssh/authorized_keys'' @ newline # ''KEY=''\<close>

definition after_key :: string where
  \<open>after_key = newline # ''if grep -qF "$KEY" ~/.ssh/authorized_keys 2>/dev/null; then'' @ newline #
     ''    echo "Key already exists in authorized_keys"'' @ newline # ''else'' @ newline #
     ''    printf '%s' "$KEY" >> ~/.ssh/authorized_keys'' @ newline # ''    echo "Key added to authorized_keys"'' @ newline #
     ''fi'' @ [newline]\<close>

lemma push_script_parts: "push_script k = before_key @ quoted_key k @ after_key"
  by (simp add: push_script_def before_key_def after_key_def quoted_key_def trim_escaped [simplified])

lemma quoted_word:
  assumes empty: "word [] []"
    and single: "\<And>s t v. single_quote \<notin> set s \<Longrightarrow> word t v \<Longrightarrow> word (single_quote # s @ single_quote # t) (s @ v)"
    and double: "\<And>t v. word t v \<Longrightarrow> word (double_quote # single_quote # double_quote # t) (single_quote # v)"
  shows "single_quote \<notin> set p \<Longrightarrow> word (single_quote # p @ escape_quotes s @ [single_quote]) (p @ s)"
proof (induction s arbitrary: p)
  case Nil
  then show ?case using single [OF Nil empty] by simp
next
  case (Cons c s)
  show ?case
  proof (cases "c = single_quote")
    case True
    have "word (single_quote # escape_quotes s @ [single_quote]) s" using Cons.IH [of "[]"] by simp
    from single [OF Cons.prems double [OF this]] show ?thesis using True by simp
  next
    case False
    then have "single_quote \<notin> set (p @ [c])" using Cons.prems by simp
    from Cons.IH [OF this] show ?thesis using False by simp
  qed
qed

text \<open>
  C24. Whatever the public key file has in it, the script assigns exactly its trimmed text to the variable and the rest of the
  script is the same for every key: \<open>word\<close> is any relation between a text and the word that a shell reads from it which honours
  the documented rules for single quotes and for a single quote in double quotes.
\<close>

theorem pushed_key_quoted:
  assumes "word [] []"
    and "\<And>s t v. single_quote \<notin> set s \<Longrightarrow> word t v \<Longrightarrow> word (single_quote # s @ single_quote # t) (s @ v)"
    and "\<And>t v. word t v \<Longrightarrow> word (double_quote # single_quote # double_quote # t) (single_quote # v)"
  shows "push_script k = before_key @ quoted_key k @ after_key \<and> word (quoted_key k) (trim_space k)"
proof
  have none: "single_quote \<notin> set []" by simp
  have "word (single_quote # [] @ escape_quotes (trim_space k) @ [single_quote]) ([] @ trim_space k)"
    using quoted_word [where word = word and p = "[]" and s = "trim_space k", OF assms none] .
  then show "word (quoted_key k) (trim_space k)" by (simp add: quoted_key_def)
qed (rule push_script_parts)

text \<open>The words of a POSIX shell, of the three kinds of text that the script uses.\<close>

inductive posix_word :: "string \<Rightarrow> string \<Rightarrow> bool" where
  "posix_word [] []"
| "single_quote \<notin> set s \<Longrightarrow> posix_word t v \<Longrightarrow> posix_word (single_quote # s @ single_quote # t) (s @ v)"
| "posix_word t v \<Longrightarrow> posix_word (double_quote # single_quote # double_quote # t) (single_quote # v)"

lemma pushed_key_quoted_witness: "posix_word (quoted_key ''k o'h'') ''k o'h''"
proof -
  have "trim_space ''k o'h'' = ''k o'h''" by code_simp
  then show ?thesis using pushed_key_quoted [of posix_word "''k o'h''"] posix_word.intros by metis
qed

text \<open>
  Two keys pushed to a remote account without keys end up in one line: the variable has no line feed and
  \<open>printf '%s'\<close> adds none, so the second key is glued to the first, and the file lists at most one key.
\<close>

theorem second_key_glued:
  assumes "trim_space k1 \<noteq> []" and "newline \<notin> set (trim_space k1)" and "newline \<notin> set (trim_space k2)"
    and "\<not> contains (trim_space k1) (trim_space k2)"
  shows "pushed (trim_space k2) (pushed (trim_space k1) []) = trim_space k1 @ trim_space k2
    \<and> raw_lines (pushed (trim_space k2) (pushed (trim_space k1) [])) = [trim_space k1 @ trim_space k2]
    \<and> length (file_entries parseLine_ak (pushed (trim_space k2) (pushed (trim_space k1) []))) \<le> 1"
proof -
  have "\<not> contains [] (trim_space k1)" using assms(1) by (simp add: contains_def)
  then have p: "pushed (trim_space k2) (pushed (trim_space k1) []) = trim_space k1 @ trim_space k2"
    using assms(4) by (simp add: pushed_def)
  have "newline \<notin> set (trim_space k1 @ trim_space k2)" using assms(2,3) by simp
  then have raw: "raw_lines (trim_space k1 @ trim_space k2) = [trim_space k1 @ trim_space k2]"
    using assms(1) by (simp add: raw_lines_def split_on_none)
  then have "length (scan_lines (trim_space k1 @ trim_space k2)) \<le> 1"
    by (simp add: scan_lines_def)
  moreover have "length (parse_numbered parseLine_ak n ls) \<le> length ls" for n ls
    by (induction ls arbitrary: n) (auto simp: Let_def le_SucI split: option.split)
  ultimately have "length (file_entries parseLine_ak (trim_space k1 @ trim_space k2)) \<le> 1"
    unfolding file_entries_def by (metis le_trans)
  with p raw show ?thesis by simp
qed

lemma second_key_glued_witness: "pushed ''ssh-rsa BB b'' (pushed ''ssh-rsa AA a'' []) = ''ssh-rsa AA assh-rsa BB b''"
proof -
  have t: "trim_space ''ssh-rsa AA a'' = ''ssh-rsa AA a''" "trim_space ''ssh-rsa BB b'' = ''ssh-rsa BB b''"
    "\<not> contains ''ssh-rsa AA a'' ''ssh-rsa BB b''" by code_simp+
  show ?thesis using second_key_glued [of "''ssh-rsa AA a''" "''ssh-rsa BB b''", unfolded t] t(3) by simp
qed

end
