(* ===== verification/HostsService.thy ===== *)
theory HostsService
  imports Grpc KnownHosts
begin

text \<open>
  The gRPC adapter of the hosts files (\<open>adapter/hosts.go\<close>), on the models of \<open>known_hosts\<close> and \<open>authorized_keys\<close>.

  A request names an authorized key by the identifier of a listing, which is a line number; the theorems say what becomes of the
  keys that a client added, or selected in one listing.  \<open>Lookup\<close> never fails in the core.
\<close>

section \<open>Known hosts\<close>

record KnownHostMsg =
  hm_Id :: string
  hm_Hostnames :: "string list"
  hm_KeyType :: string
  hm_Fingerprint :: string
  hm_PublicKey :: string
  hm_IsHashed :: bool
  hm_IsRevoked :: bool
  hm_IsCertAuthority :: bool
  hm_LineNumber :: int

definition toProtoKnownHost :: "KnownHost \<Rightarrow> KnownHostMsg" where
  "toProtoKnownHost h =
     \<lparr>hm_Id = kh_ID h, hm_Hostnames = kh_Hostnames h, hm_KeyType = kh_KeyType h, hm_Fingerprint = kh_Fingerprint h,
      hm_PublicKey = kh_PublicKey h, hm_IsHashed = kh_IsHashed h, hm_IsRevoked = kh_IsRevoked h,
      hm_IsCertAuthority = kh_IsCertAuth h, hm_LineNumber = to_int32 (int (kh_LineNumber h))\<rparr>"

definition WatchKnownHosts ::
    "((string, KnownHost list) update \<times> string option) list \<Rightarrow> KnownHostMsg list list \<times> (grpc_code \<times> string) option" where
  "WatchKnownHosts updates = send_updates ''watch error'' (map toProtoKnownHost) updates"

definition ListKnownHosts :: "string \<Rightarrow> fsys \<Rightarrow> KnownHostMsg list rpc" where
  "ListKnownHosts path fs =
     (case List_kh path fs of
        (_, Some e) \<Rightarrow> Inl (Internal, ''failed to list known hosts: '' @ e)
      | (hosts, None) \<Rightarrow> Inr (map toProtoKnownHost hosts))"

definition request_host :: "string \<Rightarrow> int \<Rightarrow> string" where
  "request_host hostname port =
     (if port \<noteq> 0 \<and> port \<noteq> 22 then ''['' @ hostname @ '']:'' @ itoa port else hostname)"

definition GetKnownHost :: "fsys runner \<Rightarrow> string \<Rightarrow> string \<Rightarrow> int \<Rightarrow> fsys \<Rightarrow> fsys \<times> KnownHostMsg list rpc" where
  "GetKnownHost run path hostname port fs =
     (case Lookup_kh run path (request_host hostname port) fs of (fs1, hosts) \<Rightarrow> (fs1, Inr (map toProtoKnownHost hosts)))"

definition RemoveKnownHost :: "fsys runner \<Rightarrow> string \<Rightarrow> string \<Rightarrow> int \<Rightarrow> fsys \<Rightarrow> fsys \<times> unit rpc" where
  "RemoveKnownHost run path hostname port fs =
     (case Remove_kh run path (request_host hostname port) fs of
        (fs1, Some e) \<Rightarrow> (fs1, Inl (Internal, ''failed to remove known host: '' @ e))
      | (fs1, None) \<Rightarrow> (fs1, Inr ()))"

definition HashKnownHosts :: "fsys runner \<Rightarrow> string \<Rightarrow> fsys \<Rightarrow> fsys \<times> unit rpc" where
  "HashKnownHosts run path fs =
     (case Hash_kh run path fs of
        (fs1, Some e) \<Rightarrow> (fs1, Inl (Internal, ''failed to hash known_hosts: '' @ e))
      | (fs1, None) \<Rightarrow> (fs1, Inr ()))"

definition ScanHostKeys_hs ::
    "fsys runner \<Rightarrow> (nat \<Rightarrow> string option) \<Rightarrow> string \<Rightarrow> int \<Rightarrow> int \<Rightarrow> fsys \<Rightarrow> fsys \<times> ScannedKey list rpc" where
  "ScanHostKeys_hs run tmps hostname port timeout fs =
     (if hostname = [] then (fs, Inl (InvalidArgument, ''hostname is required''))
      else (case ScanHostKeys run tmps hostname port timeout fs of
          (fs1, Inl e) \<Rightarrow> (fs1, Inl (Internal, ''failed to scan host keys: '' @ e))
        | (fs1, Inr ks) \<Rightarrow> (fs1, Inr (map (\<lambda>k. k\<lparr>sk_Port := to_int32 (sk_Port k)\<rparr>) ks))))"

record add_host_request =
  hq_Hostname :: string
  hq_Port :: int
  hq_KeyType :: string
  hq_PublicKey :: string
  hq_HashHostname :: bool

definition AddKnownHost ::
    "fsys runner \<Rightarrow> string option \<Rightarrow> string \<Rightarrow> add_host_request \<Rightarrow> fsys \<Rightarrow> fsys \<times> KnownHostMsg rpc" where
  "AddKnownHost run tmp path req fs =
     (if hq_Hostname req = [] then (fs, Inl (InvalidArgument, ''hostname is required''))
      else if hq_KeyType req = [] then (fs, Inl (InvalidArgument, ''key_type is required''))
      else if hq_PublicKey req = [] then (fs, Inl (InvalidArgument, ''public_key is required''))
      else (case Add_kh run tmp path (hq_Hostname req) (hq_Port req) (hq_KeyType req) (hq_PublicKey req) (hq_HashHostname req) fs of
          (fs1, Inl e) \<Rightarrow> (fs1, Inl (Internal, ''failed to add known host: '' @ e))
        | (fs1, Inr h) \<Rightarrow> (fs1, Inr (toProtoKnownHost h))))"

section \<open>Authorized keys\<close>

record AuthorizedKeyMsg =
  am_Id :: string
  am_KeyType :: string
  am_Fingerprint :: string
  am_Comment :: string
  am_PublicKey :: string
  am_Options :: "string list"
  am_LineNumber :: int

definition toProtoAuthorizedKey :: "AuthorizedKey \<Rightarrow> AuthorizedKeyMsg" where
  "toProtoAuthorizedKey k =
     \<lparr>am_Id = ak_ID k, am_KeyType = ak_KeyType k, am_Fingerprint = ak_FP k, am_Comment = ak_Comm k,
      am_PublicKey = ak_PublicKey k, am_Options = ak_Options k, am_LineNumber = to_int32 (int (ak_LineNumber k))\<rparr>"

definition WatchAuthorizedKeys ::
    "((string, AuthorizedKey list) update \<times> string option) list \<Rightarrow> AuthorizedKeyMsg list list \<times> (grpc_code \<times> string) option" where
  "WatchAuthorizedKeys updates = send_updates ''watch error'' (map toProtoAuthorizedKey) updates"

definition ListAuthorizedKeys :: "string \<Rightarrow> fsys \<Rightarrow> AuthorizedKeyMsg list rpc" where
  "ListAuthorizedKeys path fs =
     (case List_ak path fs of
        (_, Some e) \<Rightarrow> Inl (Internal, ''failed to list authorized keys: '' @ e)
      | (keys, None) \<Rightarrow> Inr (map toProtoAuthorizedKey keys))"

definition AddAuthorizedKey :: "string \<Rightarrow> string \<Rightarrow> string list \<Rightarrow> fsys \<Rightarrow> fsys \<times> AuthorizedKeyMsg rpc" where
  "AddAuthorizedKey path publicKey options fs =
     (case Add_ak path publicKey options fs of
        (fs1, Some e) \<Rightarrow> (fs1, Inl (Internal, ''failed to add authorized key: '' @ e))
      | (fs1, None) \<Rightarrow>
          (fs1, case List_ak path fs1 of
             (_, Some e) \<Rightarrow> Inl (Internal, ''failed to get added key: '' @ e)
           | (keys, None) \<Rightarrow>
               if keys = [] then Inl (Internal, ''no keys found after adding'') else Inr (toProtoAuthorizedKey (last keys))))"

text \<open>Lines are numbered from 1, so a negative number is, like 0, that of no line.\<close>

definition UpdateAuthorizedKey :: "string \<Rightarrow> string \<Rightarrow> string list \<Rightarrow> fsys \<Rightarrow> fsys \<times> AuthorizedKeyMsg rpc" where
  "UpdateAuthorizedKey path keyId options fs =
     (case atoi keyId of
        (_, Some _) \<Rightarrow> (fs, Inl (InvalidArgument, ''invalid key_id: must be a line number''))
      | (lineNumber, None) \<Rightarrow>
          (case Update_ak path (nat lineNumber) options fs of
             (fs1, Some e) \<Rightarrow> (fs1, Inl (Internal, ''failed to update authorized key: '' @ e))
           | (fs1, None) \<Rightarrow>
               (fs1, case List_ak path fs1 of
                  (_, Some e) \<Rightarrow> Inl (Internal, ''failed to get updated key: '' @ e)
                | (keys, None) \<Rightarrow>
                    (case find (\<lambda>k. int (ak_LineNumber k) = lineNumber) keys of
                       Some k \<Rightarrow> Inr (toProtoAuthorizedKey k)
                     | None \<Rightarrow> Inl (NotFound, ''key not found after update'')))))"

definition RemoveAuthorizedKey :: "string \<Rightarrow> string \<Rightarrow> fsys \<Rightarrow> fsys \<times> unit rpc" where
  "RemoveAuthorizedKey path keyId fs =
     (case atoi keyId of
        (_, Some _) \<Rightarrow> (fs, Inl (InvalidArgument, ''invalid key_id: must be a line number''))
      | (lineNumber, None) \<Rightarrow>
          (case Remove_ak path (nat lineNumber) fs of
             (fs1, Some e) \<Rightarrow> (fs1, Inl (Internal, ''failed to remove authorized key: '' @ e))
           | (fs1, None) \<Rightarrow> (fs1, Inr ())))"

section \<open>Keys named by their line\<close>

definition drop_nth :: "nat \<Rightarrow> 'a list \<Rightarrow> 'a list" where
  "drop_nth i xs = take i xs @ drop (Suc i) xs"

lemma filter_renumbered:
  "s \<le> n \<Longrightarrow> map ak_PublicKey (filter (\<lambda>k. ak_LineNumber k \<noteq> n) (map2 renumber_ak [s..<s + length ks] ks)) =
     drop_nth (n - s) (map ak_PublicKey ks)"
proof (induction ks arbitrary: s)
  case (Cons k ks)
  have up: "[s..<s + length (k # ks)] = s # [Suc s..<Suc s + length ks]" by (simp add: upt_conv_Cons del: upt_Suc)
  show ?case
  proof (cases "s = n")
    case True
    have "ak_LineNumber e \<noteq> n" if "e \<in> set (map2 renumber_ak [Suc s..<Suc s + length ks] ks)" for e
      using that True by (auto simp: renumber_ak_def simp del: upt_Suc dest!: set_zip_leftD)
    then have "filter (\<lambda>k. ak_LineNumber k \<noteq> n) (map2 renumber_ak [Suc s..<Suc s + length ks] ks) =
        map2 renumber_ak [Suc s..<Suc s + length ks] ks" by (simp add: filter_id_conv)
    moreover have "map ak_PublicKey (map2 renumber_ak [Suc s..<Suc s + length ks] ks) = map ak_PublicKey ks"
      by (rule nth_equalityI) (simp_all add: renumber_ak_def del: upt_Suc)
    ultimately show ?thesis unfolding up using True by (simp add: drop_nth_def renumber_ak_def del: upt_Suc)
  next
    case False
    then have "Suc s \<le> n" using Cons.prems by simp
    moreover have "n - s = Suc (n - Suc s)" using \<open>Suc s \<le> n\<close> by simp
    ultimately show ?thesis unfolding up using False Cons.IH [OF \<open>Suc s \<le> n\<close>]
      by (simp add: drop_nth_def renumber_ak_def del: upt_Suc)
  qed
qed (simp add: drop_nth_def)

lemma filter_nth:
  "distinct (map f xs) \<Longrightarrow> i < length xs \<Longrightarrow> filter (\<lambda>x. f x \<noteq> f (xs ! i)) xs = drop_nth i xs"
proof (induction xs arbitrary: i)
  case (Cons x xs)
  show ?case
  proof (cases i)
    case 0
    have "\<And>y. y \<in> set xs \<Longrightarrow> f y \<noteq> f x" using Cons.prems(1) by (auto simp: image_iff)
    then have "filter (\<lambda>y. f y \<noteq> f x) xs = xs" by (simp add: filter_id_conv)
    then show ?thesis using 0 by (simp add: drop_nth_def)
  next
    case (Suc j)
    then have "f x \<noteq> f (xs ! j)" using Cons.prems by force
    then show ?thesis using Suc Cons by (simp add: drop_nth_def)
  qed
qed simp

lemma sorted_from_1:
  assumes "sorted_wrt (<) (xs :: nat list)" and "\<forall>x \<in> set xs. 1 \<le> x"
  shows "j < length xs \<Longrightarrow> Suc j \<le> xs ! j"
proof (induction j)
  case 0
  then show ?case using assms(2) by (simp add: Suc_leI)
next
  case (Suc j)
  then have "xs ! j < xs ! Suc j" using assms(1) by (simp add: sorted_wrt_nth_less)
  with Suc show ?case by simp
qed

lemma listed_numbers:
  assumes "List_ak path fs = (keys, None)"
  shows "sorted_wrt (<) (map ak_LineNumber keys)" and "k \<in> set keys \<Longrightarrow> 1 \<le> ak_LineNumber k \<and> ak_ID k = nat_str (ak_LineNumber k)"
proof -
  obtain ls where keys: "keys = parse_numbered parseLine_ak 0 ls"
  proof (cases "files fs path = None \<or> read_denied fs path")
    case True
    then have "keys = parse_numbered parseLine_ak 0 []"
      using assms by (auto simp: List_ak_def os_read_file_def split: if_splits option.splits)
    then show ?thesis using that by blast
  next
    case False
    then obtain d where "keys = file_entries parseLine_ak d"
      using assms by (auto simp: List_ak_def os_read_file_def split: if_splits)
    then show ?thesis using that by (simp add: file_entries_def)
  qed
  show "sorted_wrt (<) (map ak_LineNumber keys)" using ak.entry_numbers [of 0 ls] keys by blast
  show "1 \<le> ak_LineNumber k \<and> ak_ID k = nat_str (ak_LineNumber k)" if "k \<in> set keys"
    using ak.entry_numbers [of 0 ls] that keys by (fastforce dest: parseLine_ak_shape(7))
qed

lemma listed_number_least:
  assumes "List_ak path fs = (keys, None)" and "j < length keys"
  shows "Suc j \<le> ak_LineNumber (keys ! j)"
  using sorted_from_1 [OF listed_numbers(1) [OF assms(1)], of j] listed_numbers(2) [OF assms(1)] assms(2)
  by (auto simp: nth_map)

lemma write_lines_denied: "write_lines path ls fs = (fs', None) \<Longrightarrow> read_denied fs' = read_denied fs"
  by (auto simp: write_lines_def os_write_file_def Let_def split: write_fault.splits if_splits)

lemma Add_ak_denied: "Add_ak path key opts fs = (fs', None) \<Longrightarrow> read_denied fs' = read_denied fs"
  by (auto simp: Add_ak_def Let_def dest: append_to_file_content(2) split: option.splits prod.splits bool.splits)

lemma find_renumbered:
  "s \<le> n \<Longrightarrow> find (\<lambda>k. int (ak_LineNumber k) = int n) (map2 renumber_ak [s..<s + length ks] ks) =
     (if n < s + length ks then Some (map2 renumber_ak [s..<s + length ks] ks ! (n - s)) else None)"
proof (induction ks arbitrary: s)
  case (Cons k ks)
  have up: "[s..<s + length (k # ks)] = s # [Suc s..<Suc s + length ks]" by (simp add: upt_conv_Cons del: upt_Suc)
  show ?case
  proof (cases "s = n")
    case False
    then have "Suc s \<le> n" using Cons.prems by simp
    moreover have "n - s = Suc (n - Suc s)" using \<open>Suc s \<le> n\<close> by simp
    ultimately show ?thesis unfolding up using False Cons.IH [OF \<open>Suc s \<le> n\<close>]
      by (simp add: renumber_ak_def del: upt_Suc)
  next
    case True
    then show ?thesis unfolding up by (simp add: renumber_ak_def del: upt_Suc)
  qed
qed simp

lemma atoi_nat_str:
  assumes "n < 2 ^ 63"
  shows "atoi (nat_str n) = (int n, None)"
proof -
  have "- 9223372036854775808 \<le> int n" "int n \<le> 9223372036854775807" using assms by simp_all
  from atoi_itoa [OF this] show ?thesis unfolding itoa_def by simp
qed

lemma RemoveAuthorizedKey_number:
  assumes "RemoveAuthorizedKey path (nat_str n) fs = (fs', Inr ())" and "n < 2 ^ 63"
  shows "Remove_ak path n fs = (fs', None)"
  using assms atoi_nat_str [OF assms(2)] by (auto simp: RemoveAuthorizedKey_def split: prod.splits option.splits)

lemma Remove_ak_ok:
  assumes "List_ak path fs = (keys, None)" and "write_fault_at fs path = WOk"
  shows "Remove_ak path n fs = (set_file path (unlines (map ak_PublicKey (filter (\<lambda>k. ak_LineNumber k \<noteq> n) keys))) fs, None)"
  using assms by (simp add: Remove_ak_def write_lines_unlines os_write_file_def)

lemma Remove_ak_listed:
  "\<not> read_denied fs path \<Longrightarrow> List_ak path fs = (keys, None) \<Longrightarrow> Remove_ak path n fs = (fs', None) \<Longrightarrow>
   \<exists>ks. List_ak path fs' = (ks, None)"
  using authorized_keys_remove by (metis (no_types, lifting))

lemma Remove_ak_denied:
  assumes "Remove_ak path n fs = (fs', None)"
  shows "read_denied fs' = read_denied fs"
  using assms write_lines_denied by (auto simp: Remove_ak_def split: prod.splits option.splits)


lemma numbered_keys: "map ak_PublicKey (map2 renumber_ak [1..<Suc (length ks)] ks) = map ak_PublicKey ks"
  by (rule nth_equalityI) (simp_all add: renumber_ak_def del: upt_Suc)

lemma scan_key_lines_from:
  "k \<in> set (snd (scan_key_lines run tmps port ls fs)) \<Longrightarrow> sk_Port k = port \<and>
   (\<exists>l \<in> set ls. trim_space l \<noteq> [] \<and> \<not> has_prefix (trim_space l) ''#'' \<and> sk_Hostname k = hd (str_fields (trim_space l)))"
proof (induction run tmps port ls fs rule: scan_key_lines.induct)
  case (2 run tmps port l ls fs)
  show ?case
  proof (cases "trim_space l = [] \<or> has_prefix (trim_space l) ''#'' \<or> length (str_fields (trim_space l)) < 3")
    case True
    with 2 show ?thesis by (auto simp: Let_def)
  next
    case False
    then have "str_fields (trim_space l) ! 0 = hd (str_fields (trim_space l))" by (intro hd_conv_nth [symmetric]) auto
    with 2 False show ?thesis by (auto simp: Let_def split: prod.splits)
  qed
qed simp

text \<open>
  Identifiers go stale: when a client removes two keys that it selected in one listing, in their order, the second request
  succeeds as well but does not remove the second key, which can still log in; where it stood in a file of keys only, it is the key
  after it that is gone.
\<close>

theorem stale_key_id:
  assumes read: "\<not> read_denied fs path" and before: "List_ak path fs = (keys, None)"
    and ij: "i < j" "j < length keys" and range: "ak_LineNumber (keys ! j) < 2 ^ 63"
    and first: "RemoveAuthorizedKey path (ak_ID (keys ! i)) fs = (fs1, Inr ())"
    and second: "RemoveAuthorizedKey path (ak_ID (keys ! j)) fs1 = (fs2, Inr ())"
  shows "map ak_PublicKey (fst (List_ak path fs2)) =
      drop_nth (ak_LineNumber (keys ! j) - 1) (drop_nth i (map ak_PublicKey keys)) \<and>
    ak_PublicKey (keys ! j) \<in> set (map ak_PublicKey (fst (List_ak path fs2)))"
proof -
  let ?n = "\<lambda>i. ak_LineNumber (keys ! i)" and ?kept = "drop_nth i keys"
  have sorted: "sorted_wrt (<) (map ak_LineNumber keys)" using listed_numbers(1) [OF before] .
  then have "?n i < ?n j" using ij by (auto simp: sorted_wrt_iff_nth_less)
  then have small: "?n i < 2 ^ 63" using range by linarith
  have ids: "ak_ID (keys ! i) = nat_str (?n i)" "ak_ID (keys ! j) = nat_str (?n j)"
    using listed_numbers(2) [OF before] ij by simp_all
  have r1: "Remove_ak path (?n i) fs = (fs1, None)" and r2: "Remove_ak path (?n j) fs1 = (fs2, None)"
    using RemoveAuthorizedKey_number first second small range ids by metis+
  have "distinct (map ak_LineNumber keys)" using sorted strict_sorted_iff by blast
  then have kept: "filter (\<lambda>k. ak_LineNumber k \<noteq> ?n i) keys = ?kept" using ij by (intro filter_nth) simp_all
  have mid: "List_ak path fs1 = (map2 renumber_ak [1..<Suc (length ?kept)] ?kept, None)"
    using authorized_keys_remove [OF read before r1] by (simp add: Let_def kept del: upt_Suc)
  have read1: "\<not> read_denied fs1 path" using read Remove_ak_denied [OF r1] by simp
  let ?rest = "filter (\<lambda>k. ak_LineNumber k \<noteq> ?n j) (map2 renumber_ak [1..<Suc (length ?kept)] ?kept)"
  have "List_ak path fs2 = (map2 renumber_ak [1..<Suc (length ?rest)] ?rest, None)"
    using authorized_keys_remove [OF read1 mid r2] by (simp add: Let_def del: upt_Suc)
  then have "map ak_PublicKey (fst (List_ak path fs2)) = map ak_PublicKey ?rest"
    using numbered_keys [of ?rest] by simp
  also have "\<dots> = drop_nth (?n j - 1) (map ak_PublicKey ?kept)"
    using filter_renumbered [of 1 "?n j" ?kept] listed_number_least [OF before ij(2)] by simp
  finally have after: "map ak_PublicKey (fst (List_ak path fs2)) = drop_nth (?n j - 1) (map ak_PublicKey ?kept)" .
  have pos: "?kept ! (j - 1) = keys ! j" "j - 1 < length ?kept" "j - 1 < ?n j - 1"
    using ij listed_number_least [OF before ij(2)] by (simp_all add: drop_nth_def nth_append min_def)
  then have "keys ! j \<in> set (take (?n j - 1) ?kept)"
    by (metis in_set_conv_nth length_take min_less_iff_conj nth_take)
  then have "ak_PublicKey (keys ! j) \<in> set (drop_nth (?n j - 1) (map ak_PublicKey ?kept))"
    by (auto simp: drop_nth_def take_map)
  with after show ?thesis by (simp add: drop_nth_def take_map drop_map)
qed


definition three_keys :: string where
  "three_keys = ''ssh-rsa AAAA bob'' @ newline # ''ssh-rsa BBBB eve'' @ newline # ''ssh-rsa CCCC joe'' @ [newline]"

lemma stale_key_id_witness:
  "map ak_PublicKey (fst (List_ak ''/k'' (fst (RemoveAuthorizedKey ''/k'' ''2''
      (fst (RemoveAuthorizedKey ''/k'' ''1'' (fs_with [(''/k'', three_keys)]))))))) = [''ssh-rsa BBBB eve'']"
proof -
  let ?fs = "fs_with [(''/k'', three_keys)]"
  let ?keys = "[new_entry 1 [] [''ssh-rsa'', ''AAAA'', ''bob''], new_entry 2 [] [''ssh-rsa'', ''BBBB'', ''eve''],
     new_entry 3 [] [''ssh-rsa'', ''CCCC'', ''joe'']]"
  have entries: "file_entries parseLine_ak three_keys = ?keys" and long: "\<not> scan_too_long three_keys"
    by code_simp+
  then have before: "List_ak ''/k'' ?fs = (?keys, None)" by (simp add: List_ak_def os_read_file_def)
  have ids: "ak_ID (?keys ! 0) = ''1''" "ak_ID (?keys ! 1) = ''2''" "ak_LineNumber (?keys ! 1) = 2"
    and digits: "itoa 1 = ''1''" "itoa 2 = ''2''" by code_simp+
  have nums: "atoi ''1'' = (1, None)" "atoi ''2'' = (2, None)"
    using atoi_itoa [of 1] atoi_itoa [of 2] unfolding digits by simp_all
  note remove1 = Remove_ak_ok [OF before, of 1, simplified fs_with_simps, OF refl]
  obtain fs1 where r1: "Remove_ak ''/k'' 1 ?fs = (fs1, None)" "write_fault_at fs1 ''/k'' = WOk"
    using remove1 by (simp add: set_file_def del: filter.simps)
  obtain ks where "List_ak ''/k'' fs1 = (ks, None)"
    using Remove_ak_listed [OF fs_with_simps(3) before r1(1)] by blast
  from Remove_ak_ok [OF this r1(2), of 2] obtain fs2 where r2: "Remove_ak ''/k'' 2 fs1 = (fs2, None)" by blast
  have q: "RemoveAuthorizedKey ''/k'' ''1'' ?fs = (fs1, Inr ())" "RemoveAuthorizedKey ''/k'' ''2'' fs1 = (fs2, Inr ())"
    using r1 r2 nums by (simp_all add: RemoveAuthorizedKey_def)
  have len: "(0::nat) < 1" "1 < length ?keys" and small: "ak_LineNumber (?keys ! 1) < 2 ^ 63" using ids by simp_all
  have "map ak_PublicKey (fst (List_ak ''/k'' fs2)) = drop_nth (2 - 1) (drop_nth 0 (map ak_PublicKey ?keys))"
    using conjunct1 [OF stale_key_id [OF fs_with_simps(3) before len small, unfolded ids, OF q]] .
  also have "\<dots> = [''ssh-rsa BBBB eve'']" by code_simp
  finally show ?thesis unfolding q(1) fst_conv q(2) .
qed





text \<open>
  Updating the options by the identifier of a listing rewrites the file without its comments, and the answer is looked up under
  the old number in the new file: it describes the right key only if no comment or other line came before the key; otherwise it
  shows a later key, or says that there is none, though the update has been made.
\<close>

theorem update_answer:
  assumes read: "\<not> read_denied fs path" and before: "List_ak path fs = (keys, None)" and i: "i < length keys"
    and range: "ak_LineNumber (keys ! i) < 2 ^ 63" and opts: "auth_options opts"
    and target: "(ak_Options (keys ! i) = [] \<longrightarrow> key_type_field (hd (str_fields (ak_PublicKey (keys ! i))))) \<and>
      (opts = [] \<longrightarrow> key_type_field (ak_KeyType (keys ! i))) \<and>
      hd (ak_KeyType (keys ! i)) \<noteq> CHR ''#'' \<and> short_line (updated_line opts (keys ! i))"
    and writable: "write_fault_at fs path = WOk"
    and request: "UpdateAuthorizedKey path (ak_ID (keys ! i)) opts fs = (fs1, r)"
  shows "(let n = ak_LineNumber (keys ! i); new = (keys ! i)\<lparr>ak_Options := opts, ak_PublicKey := updated_line opts (keys ! i)\<rparr> in
    List_ak path fs1 = (map2 renumber_ak [1..<Suc (length keys)] (keys[i := new]), None) \<and>
    r = (if n = Suc i then Inr (toProtoAuthorizedKey new)
         else if n \<le> length keys then Inr (toProtoAuthorizedKey (renumber_ak n (keys ! (n - 1))))
         else Inl (NotFound, ''key not found after update'')))"
proof -
  let ?n = "ak_LineNumber (keys ! i)" and ?new = "(keys ! i)\<lparr>ak_Options := opts, ak_PublicKey := updated_line opts (keys ! i)\<rparr>"
  let ?all = "map2 renumber_ak [1..<Suc (length keys)] (keys[i := ?new])"
  have sorted: "sorted_wrt (<) (map ak_LineNumber keys)" using listed_numbers(1) [OF before] .
  then have distinct: "distinct (map ak_LineNumber keys)" using strict_sorted_iff by blast
  then have only: "ak_LineNumber (keys ! j) = ?n \<longleftrightarrow> j = i" if "j < length keys" for j
    using that i by (auto simp: distinct_conv_nth)
  have id: "ak_ID (keys ! i) = nat_str ?n" using listed_numbers(2) [OF before] i by simp
  obtain fs' where update: "Update_ak path ?n opts fs = (fs', None)"
    using before writable by (simp add: Update_ak_def write_lines_unlines os_write_file_def)
  have "\<forall>k \<in> set keys. ak_LineNumber k = ?n \<longrightarrow>
      (ak_Options k = [] \<longrightarrow> key_type_field (hd (str_fields (ak_PublicKey k)))) \<and>
      (opts = [] \<longrightarrow> key_type_field (ak_KeyType k)) \<and> hd (ak_KeyType k) \<noteq> CHR ''#'' \<and> short_line (updated_line opts k)"
    using only target by (auto simp: in_set_conv_nth)
  note after = authorized_keys_update [OF read before opts update this]
  also have "map2 (\<lambda>i k. renumber_ak i (if ak_LineNumber k = ?n then k\<lparr>ak_Options := opts, ak_PublicKey := updated_line opts k\<rparr> else k))
      [1..<Suc (length keys)] keys = ?all"
    by (rule nth_equalityI) (simp_all add: only nth_list_update del: upt_Suc)
  finally have listed: "List_ak path fs' = (?all, None)" .
  have "find (\<lambda>k. int (ak_LineNumber k) = int ?n) ?all = (if ?n \<le> length keys then Some (?all ! (?n - 1)) else None)"
    using find_renumbered [of 1 ?n "keys[i := ?new]"] listed_number_least [OF before i] by (simp del: upt_Suc)
  also have "\<dots> = (if ?n \<le> length keys then Some (renumber_ak ?n (keys[i := ?new] ! (?n - 1))) else None)"
    using listed_number_least [OF before i] by (simp del: upt_Suc)
  finally have found: "find (\<lambda>k. int (ak_LineNumber k) = int ?n) ?all =
      (if ?n \<le> length keys then Some (renumber_ak ?n (keys[i := ?new] ! (?n - 1))) else None)" .
  have same: "renumber_ak ?n ?new = ?new" using id by (simp add: renumber_ak_def)
  have "UpdateAuthorizedKey path (nat_str ?n) opts fs = (fs', case find (\<lambda>k. int (ak_LineNumber k) = int ?n) ?all of
      Some k \<Rightarrow> Inr (toProtoAuthorizedKey k) | None \<Rightarrow> Inl (NotFound, ''key not found after update''))"
    using atoi_nat_str [OF range] update listed by (simp add: UpdateAuthorizedKey_def del: upt_Suc)
  then have "fs1 = fs'" and "r = (case find (\<lambda>k. int (ak_LineNumber k) = int ?n) ?all of
      Some k \<Rightarrow> Inr (toProtoAuthorizedKey k) | None \<Rightarrow> Inl (NotFound, ''key not found after update''))"
    using request id by (auto simp del: upt_Suc)
  then show ?thesis
    using listed same i listed_number_least [OF before i] unfolding found Let_def by (auto simp del: upt_Suc)
qed

text \<open>
  A key scanned on a port other than 22 is saved under a name that ssh never looks up when it is added with the fields of the
  scan: \<open>ssh-keyscan\<close> prints the name as \<open>[host]:port\<close> already, and adding it puts the brackets and the port around it again.
\<close>

theorem scanned_key_brackets:
  assumes port: "0 < port" "port \<noteq> 22" "int32 port"
    and keyscan: "\<And>opts fs0 fs' printed l. run ''ssh-keyscan'' (opts @ [''-p'', itoa port, hostname]) fs0 = (fs', printed, None) \<Longrightarrow>
      l \<in> set (split_on newline printed) \<Longrightarrow>
      trim_space l = [] \<or> has_prefix (trim_space l) ''#'' \<or> hd (str_fields (trim_space l)) = ''['' @ hostname @ '']:'' @ itoa port"
    and scan: "ScanHostKeys_hs run tmps hostname port timeout fs = (fs1, Inr ks)" and k: "k \<in> set ks"
    and add: "AddKnownHost run tmp path \<lparr>hq_Hostname = sk_Hostname k, hq_Port = sk_Port k, hq_KeyType = sk_KeyType k,
        hq_PublicKey = sk_PublicKey k, hq_HashHostname = False\<rparr> fs1 = (fs2, Inr h)"
  shows "content_of fs2 path = content_of fs1 path @ ''[['' @ hostname @ '']:'' @ itoa port @ '']:'' @ itoa port @ '' '' @
      sk_KeyType k @ '' '' @ sk_PublicKey k @ [newline]
    \<and> request_host hostname port \<noteq> ''[['' @ hostname @ '']:'' @ itoa port @ '']:'' @ itoa port"
proof -
  obtain ks0 where s: "snd (ScanHostKeys run tmps hostname port timeout fs) = Inr ks0"
    "ks = map (\<lambda>k. k\<lparr>sk_Port := to_int32 (sk_Port k)\<rparr>) ks0"
    using scan by (auto simp: ScanHostKeys_hs_def split: prod.splits sum.splits if_splits)
  obtain k0 where k0: "k0 \<in> set ks0" "k = k0\<lparr>sk_Port := to_int32 (sk_Port k0)\<rparr>" using k s(2) by auto
  let ?opts = "[''-T'', itoa (if timeout \<le> 0 then 10 else timeout)]"
  obtain fs' printed where r: "run ''ssh-keyscan'' (?opts @ [''-p'', itoa port, hostname]) fs = (fs', printed, None)"
    "ks0 = snd (scan_key_lines run tmps port (split_on newline printed) fs')"
    using s(1) port by (auto simp: ScanHostKeys_def Let_def split: prod.splits option.splits)
  from scan_key_lines_from [of k0 run tmps port "split_on newline printed" fs'] k0(1) r(2)
  obtain l where l: "sk_Port k0 = port" "l \<in> set (split_on newline printed)" "trim_space l \<noteq> []" "\<not> has_prefix (trim_space l) ''#''"
    "sk_Hostname k0 = hd (str_fields (trim_space l))" by blast
  then have host: "sk_Hostname k = ''['' @ hostname @ '']:'' @ itoa port" "sk_Port k = port"
    using keyscan [OF r(1) l(2)] k0(2) port(3) by simp_all
  let ?line = "host_entry (sk_Hostname k) port @ '' '' @ sk_KeyType k @ '' '' @ sk_PublicKey k @ [newline]"
  have "append_to_file path ?line fs1 = (fs2, None)"
    using add host(2)
    by (auto simp: AddKnownHost_def Add_kh_def append_known_host_def Let_def split: if_splits prod.splits sum.splits option.splits bool.splits)
  from append_to_file_content(1) [OF this] have "content_of fs2 path = content_of fs1 path @ ?line"
    by (simp add: content_of_def)
  moreover have "host_entry (sk_Hostname k) port = ''[['' @ hostname @ '']:'' @ itoa port @ '']:'' @ itoa port"
    using host(1) port by (simp add: host_entry_def)
  moreover have "length (request_host hostname port) < length (''[['' @ hostname @ '']:'' @ itoa port @ '']:'' @ itoa port)"
    using port by (simp add: request_host_def)
  ultimately show ?thesis by auto
qed

text \<open>A \<open>ssh-keyscan\<close> that finds one key on port 2222 of the host \<open>h\<close>.\<close>

definition demo_keyscan :: "fsys runner" where
  "demo_keyscan name args fs = (fs, ''[h]:2222 ssh-rsa AAAA'', None)"

lemma scanned_key_brackets_witness:
  "content_of (fst (AddKnownHost demo_keyscan None ''/k'' \<lparr>hq_Hostname = ''[h]:2222'', hq_Port = 2222, hq_KeyType = ''ssh-rsa'',
     hq_PublicKey = ''AAAA'', hq_HashHostname = False\<rparr> (fs_with []))) ''/k'' = ''[[h]:2222]:2222 ssh-rsa AAAA'' @ [newline]"
proof -
  let ?k = "\<lparr>sk_Hostname = ''[h]:2222'', sk_Port = 2222, sk_KeyType = ''ssh-rsa'', sk_PublicKey = ''AAAA'', sk_Fingerprint = []\<rparr>"
  let ?q = "\<lparr>hq_Hostname = sk_Hostname ?k, hq_Port = sk_Port ?k, hq_KeyType = sk_KeyType ?k, hq_PublicKey = sk_PublicKey ?k,
      hq_HashHostname = False\<rparr>"
  have num: "itoa 2222 = ''2222''" "int32 2222" by code_simp+
  have line: "split_on newline ''[h]:2222 ssh-rsa AAAA'' = [''[h]:2222 ssh-rsa AAAA'']"
    "trim_space ''[h]:2222 ssh-rsa AAAA'' = ''[h]:2222 ssh-rsa AAAA''"
    "str_fields ''[h]:2222 ssh-rsa AAAA'' = [''[h]:2222'', ''ssh-rsa'', ''AAAA'']" by code_simp+
  have scan: "ScanHostKeys_hs demo_keyscan (\<lambda>_. None) ''h'' 2222 0 (fs_with []) = (fs_with [], Inr [?k])"
    by (simp add: ScanHostKeys_hs_def ScanHostKeys_def demo_keyscan_def Let_def line calculateFingerprint_def num(2))
  obtain fs2 h where add: "AddKnownHost demo_keyscan None ''/k'' ?q (fs_with []) = (fs2, Inr h)"
    by (simp add: AddKnownHost_def Add_kh_def append_known_host_def os_mkdir_all_def append_to_file_def os_open_append_def
        os_append_string_def Let_def)
  have "content_of fs2 ''/k'' = content_of (fs_with []) ''/k'' @ ''[['' @ ''h'' @ '']:'' @ itoa 2222 @ '']:'' @ itoa 2222 @ '' '' @
      sk_KeyType ?k @ '' '' @ sk_PublicKey ?k @ [newline]"
    using scanned_key_brackets [OF _ _ num(2) _ scan _ add] by (simp add: demo_keyscan_def line num(1))
  with add show ?thesis by (simp add: num(1) content_of_def)
qed

end
