(* ===== verification/ConfigService.thy ===== *)
theory ConfigService
  imports Grpc ClientConfigExample ServerConfig SkeysBlock Discovery
begin

text \<open>
  The gRPC adapter of the configuration (\<open>adapter/config.go\<close>), on the models of \<open>~/.ssh/config\<close>, \<open>sshd_config\<close>, the block of
  skeys and the discovery of paths.

  The state of a request is that of the manager it calls.  The messages of host entries, options and entries have the fields of
  the core's types, so they are the same records, with the numbers cut to 32 bits; a message that may be absent is an option.
\<close>

section \<open>Messages\<close>

definition toProtoHostConfig :: "HostEntry \<Rightarrow> HostEntry" where
  "toProtoHostConfig e =
     e\<lparr>he_Port := to_int32 (he_Port e), he_ServerAliveInterval := to_int32 (he_ServerAliveInterval e),
       he_ServerAliveCountMax := to_int32 (he_ServerAliveCountMax e), he_LineNumber := to_int32 (he_LineNumber e)\<rparr>"

text \<open>The getters of an absent message give the zero values.\<close>

definition fromProtoHostConfig :: "HostEntry option \<Rightarrow> HostEntry" where
  "fromProtoHostConfig c =
     (case c of
        Some h \<Rightarrow> h
      | None \<Rightarrow> \<lparr>he_Alias = [], he_Hostname = [], he_User = [], he_Port = 0, he_IdentityFiles = [], he_ProxyJump = [],
          he_ProxyCommand = [], he_ForwardAgent = False, he_IdentitiesOnly = False, he_StrictHostKeyChecking = [],
          he_ServerAliveInterval = 0, he_ServerAliveCountMax = 0, he_ExtraOptions = [], he_IsPattern = False, he_LineNumber = 0\<rparr>)"

definition toProtoSSHOptions :: "SSHOptions \<Rightarrow> SSHOptions" where
  "toProtoSSHOptions opts =
     opts\<lparr>op_Port := to_int32 (op_Port opts), op_ServerAliveInterval := to_int32 (op_ServerAliveInterval opts),
          op_ServerAliveCountMax := to_int32 (op_ServerAliveCountMax opts)\<rparr>"

definition fromProtoSSHOptions :: "SSHOptions option \<Rightarrow> SSHOptions" where
  "fromProtoSSHOptions opts = (case opts of None \<Rightarrow> zero_options | Some x \<Rightarrow> x)"

datatype EntryTypeMsg = ENTRY_TYPE_UNSPECIFIED | ENTRY_TYPE_HOST | ENTRY_TYPE_MATCH

record SSHConfigEntryMsg =
  em_Id :: string
  em_Type :: EntryTypeMsg
  em_Position :: int
  em_Patterns :: "string list"
  em_Options :: "SSHOptions option"

definition toProtoSSHConfigEntry :: "SSHConfigEntry \<Rightarrow> SSHConfigEntryMsg" where
  "toProtoSSHConfigEntry e =
     \<lparr>em_Id = ce_ID e, em_Type = (if ce_Type e = EntryTypeMatch then ENTRY_TYPE_MATCH else ENTRY_TYPE_HOST),
      em_Position = to_int32 (ce_Position e), em_Patterns = ce_Patterns e, em_Options = Some (toProtoSSHOptions (ce_Options e))\<rparr>"

definition fromProtoSSHConfigEntry :: "SSHConfigEntryMsg option \<Rightarrow> SSHConfigEntry" where
  "fromProtoSSHConfigEntry m =
     (case m of
        None \<Rightarrow> \<lparr>ce_ID = [], ce_Type = EntryTypeHost, ce_Position = 0, ce_Patterns = [], ce_Options = zero_options\<rparr>
      | Some e \<Rightarrow>
          \<lparr>ce_ID = em_Id e, ce_Type = (if em_Type e = ENTRY_TYPE_MATCH then EntryTypeMatch else EntryTypeHost),
           ce_Position = em_Position e, ce_Patterns = em_Patterns e, ce_Options = fromProtoSSHOptions (em_Options e)\<rparr>)"

record DirectiveMsg =
  vm_Key :: string
  vm_Value :: string
  vm_LineNumber :: int
  vm_IsCommented :: bool
  vm_MatchBlock :: string

record ServerConfigMsg =
  vm_Directives :: "DirectiveMsg list"
  vm_RawContent :: string

definition toProtoServerConfig :: "ServerConfig \<Rightarrow> ServerConfigMsg" where
  "toProtoServerConfig cfg =
     \<lparr>vm_Directives = map (\<lambda>d. \<lparr>vm_Key = sd_Key d, vm_Value = sd_Value d, vm_LineNumber = to_int32 (int (sd_LineNumber d)),
        vm_IsCommented = sd_IsCommented d, vm_MatchBlock = sd_MatchBlock d\<rparr>) (sc_Directives cfg),
      vm_RawContent = sc_RawContent cfg\<rparr>"

datatype DiscoveryMethodMsg =
    DISCOVERY_METHOD_UNSPECIFIED | DISCOVERY_METHOD_COMMAND | DISCOVERY_METHOD_PACKAGE_MANAGER | DISCOVERY_METHOD_COMMON_PATH
  | DISCOVERY_METHOD_USER_SPECIFIED

definition toProtoDiscoveryMethod :: "DiscoveryMethod \<Rightarrow> DiscoveryMethodMsg" where
  "toProtoDiscoveryMethod m =
     (case m of DiscoveryMethodCommand \<Rightarrow> DISCOVERY_METHOD_COMMAND | DiscoveryMethodPackageManager \<Rightarrow> DISCOVERY_METHOD_PACKAGE_MANAGER
      | DiscoveryMethodCommonPath \<Rightarrow> DISCOVERY_METHOD_COMMON_PATH | DiscoveryMethodUserSpecified \<Rightarrow> DISCOVERY_METHOD_USER_SPECIFIED
      | DiscoveryMethodUnspecified \<Rightarrow> DISCOVERY_METHOD_UNSPECIFIED)"

record ConfigPathInfoMsg =
  pm_Path :: string
  pm_Exists :: bool
  pm_Readable :: bool
  pm_Writable :: bool
  pm_IncludeDir :: string
  pm_DiscoveryMethod :: DiscoveryMethodMsg

definition toProtoConfigPathInfo :: "DiscoveredPath \<Rightarrow> ConfigPathInfoMsg" where
  "toProtoConfigPathInfo info =
     \<lparr>pm_Path = dp_Path info, pm_Exists = dp_Exists info, pm_Readable = dp_Readable info, pm_Writable = dp_Writable info,
      pm_IncludeDir = dp_IncludeDir info, pm_DiscoveryMethod = toProtoDiscoveryMethod (dp_DiscoveryMethod info)\<rparr>"

section \<open>Host entries\<close>

definition ListHostConfigs :: "'cfg sshconf_lib \<Rightarrow> (string \<Rightarrow> string) \<Rightarrow> 'cfg clientConfig \<Rightarrow> HostEntry list rpc" where
  "ListHostConfigs sc sha c = Inr (map toProtoHostConfig (List_cc sc sha c))"

definition GetHostConfig :: "'cfg sshconf_lib \<Rightarrow> (string \<Rightarrow> string) \<Rightarrow> string \<Rightarrow> 'cfg clientConfig \<Rightarrow> HostEntry rpc" where
  "GetHostConfig sc sha alias c =
     (case Get_cc sc sha alias c of
        Inl e \<Rightarrow> Inl (NotFound, ''host config not found: '' @ e)
      | Inr h \<Rightarrow> Inr (toProtoHostConfig h))"

definition CreateHostConfig ::
    "'cfg sshconf_lib \<Rightarrow> (string \<Rightarrow> string) \<Rightarrow> HostEntry option \<Rightarrow> 'cfg clientConfig \<Rightarrow> treefs
     \<Rightarrow> 'cfg clientConfig \<times> treefs \<times> HostEntry rpc" where
  "CreateHostConfig sc sha config c t =
     (let entry = fromProtoHostConfig config in
      case Add_cc sc sha entry c t of
        (c1, t1, Inl e) \<Rightarrow> (c1, t1, Inl (Internal, ''failed to create host config: '' @ e))
      | (c1, t1, Inr _) \<Rightarrow>
          (c1, t1, case Get_cc sc sha (he_Alias entry) c1 of
             Inl e \<Rightarrow> Inl (Internal, ''failed to get created host config: '' @ e)
           | Inr created \<Rightarrow> Inr (toProtoHostConfig created)))"

definition UpdateHostConfig ::
    "'cfg sshconf_lib \<Rightarrow> (string \<Rightarrow> string) \<Rightarrow> string \<Rightarrow> HostEntry option \<Rightarrow> 'cfg clientConfig \<Rightarrow> treefs
     \<Rightarrow> 'cfg clientConfig \<times> treefs \<times> HostEntry rpc" where
  "UpdateHostConfig sc sha alias config c t =
     (let entry = fromProtoHostConfig config in
      case Update_cc sc sha alias entry c t of
        (c1, t1, Some e) \<Rightarrow> (c1, t1, Inl (Internal, ''failed to update host config: '' @ e))
      | (c1, t1, None) \<Rightarrow>
          (c1, t1, case Get_cc sc sha alias c1 of
             Inl e \<Rightarrow> Inl (Internal, ''failed to get updated host config: '' @ e)
           | Inr updated \<Rightarrow> Inr (toProtoHostConfig updated)))"

definition DeleteHostConfig ::
    "'cfg sshconf_lib \<Rightarrow> string \<Rightarrow> 'cfg clientConfig \<Rightarrow> treefs \<Rightarrow> 'cfg clientConfig \<times> treefs \<times> unit rpc" where
  "DeleteHostConfig sc alias c t =
     (case Delete_cc sc alias c t of
        (c1, t1, Some e) \<Rightarrow> (c1, t1, Inl (Internal, ''failed to delete host config: '' @ e))
      | (c1, t1, None) \<Rightarrow> (c1, t1, Inr ()))"

definition TestConnection_cs :: "string \<Rightarrow> unit rpc" where
  "TestConnection_cs alias = Inl (Unimplemented, ''method TestConnection not implemented'')"

section \<open>Entries\<close>

definition ListSSHConfigEntries :: "'cfg sshconf_lib \<Rightarrow> (string \<Rightarrow> string) \<Rightarrow> 'cfg clientConfig \<Rightarrow> SSHConfigEntryMsg list rpc" where
  "ListSSHConfigEntries sc sha c = Inr (map toProtoSSHConfigEntry (ListEntries sc sha c))"

definition WatchSSHConfigEntries ::
    "((string, SSHConfigEntry list) update \<times> string option) list \<Rightarrow> SSHConfigEntryMsg list list \<times> (grpc_code \<times> string) option" where
  "WatchSSHConfigEntries updates = send_updates ''watch error'' (map toProtoSSHConfigEntry) updates"

definition GetSSHConfigEntry :: "'cfg sshconf_lib \<Rightarrow> (string \<Rightarrow> string) \<Rightarrow> string \<Rightarrow> 'cfg clientConfig \<Rightarrow> SSHConfigEntryMsg rpc" where
  "GetSSHConfigEntry sc sha i c =
     (case GetEntry sc sha i c of
        Inl e \<Rightarrow> Inl (NotFound, ''SSH config entry not found: '' @ e)
      | Inr e \<Rightarrow> Inr (toProtoSSHConfigEntry e))"

definition CreateSSHConfigEntry ::
    "'cfg sshconf_lib \<Rightarrow> (string \<Rightarrow> string) \<Rightarrow> SSHConfigEntryMsg option \<Rightarrow> int \<Rightarrow> 'cfg clientConfig \<Rightarrow> treefs
     \<Rightarrow> 'cfg clientConfig \<times> treefs \<times> SSHConfigEntryMsg rpc" where
  "CreateSSHConfigEntry sc sha m position c t =
     (case AddEntry sc sha (fromProtoSSHConfigEntry m) position c t of
        (c1, t1, Inl e) \<Rightarrow> (c1, t1, Inl (Internal, ''failed to create SSH config entry: '' @ e))
      | (c1, t1, Inr entry) \<Rightarrow> (c1, t1, Inr (toProtoSSHConfigEntry entry)))"

definition UpdateSSHConfigEntry ::
    "'cfg sshconf_lib \<Rightarrow> (string \<Rightarrow> string) \<Rightarrow> string \<Rightarrow> SSHConfigEntryMsg option \<Rightarrow> 'cfg clientConfig \<Rightarrow> treefs
     \<Rightarrow> 'cfg clientConfig \<times> treefs \<times> SSHConfigEntryMsg rpc" where
  "UpdateSSHConfigEntry sc sha i m c t =
     (let entry = fromProtoSSHConfigEntry m in
      case UpdateEntry sc sha i entry c t of
        (c1, t1, Some e) \<Rightarrow> (c1, t1, Inl (Internal, ''failed to update SSH config entry: '' @ e))
      | (c1, t1, None) \<Rightarrow>
          (c1, t1, Inr (toProtoSSHConfigEntry (case GetEntry sc sha i c1 of Inl _ \<Rightarrow> entry | Inr updated \<Rightarrow> updated))))"

definition DeleteSSHConfigEntry ::
    "'cfg sshconf_lib \<Rightarrow> (string \<Rightarrow> string) \<Rightarrow> string \<Rightarrow> 'cfg clientConfig \<Rightarrow> treefs \<Rightarrow> 'cfg clientConfig \<times> treefs \<times> unit rpc" where
  "DeleteSSHConfigEntry sc sha i c t =
     (case DeleteEntry sc sha i c t of
        (c1, t1, Some e) \<Rightarrow> (c1, t1, Inl (Internal, ''failed to delete SSH config entry: '' @ e))
      | (c1, t1, None) \<Rightarrow> (c1, t1, Inr ()))"

definition ReorderSSHConfigEntries ::
    "'cfg sshconf_lib \<Rightarrow> (string \<Rightarrow> string) \<Rightarrow> string list \<Rightarrow> 'cfg clientConfig \<Rightarrow> treefs
     \<Rightarrow> 'cfg clientConfig \<times> treefs \<times> SSHConfigEntryMsg list rpc" where
  "ReorderSSHConfigEntries sc sha ids c t =
     (case Reorder sc sha ids c t of
        (c1, t1, Some e) \<Rightarrow> (c1, t1, Inl (Internal, ''failed to reorder SSH config entries: '' @ e))
      | (c1, t1, None) \<Rightarrow> (c1, t1, ListSSHConfigEntries sc sha c1))"

section \<open>Global directives\<close>

definition ListGlobalDirectives :: "'cfg clientConfig \<Rightarrow> treefs \<Rightarrow> (string \<times> string) list rpc" where
  "ListGlobalDirectives c t =
     (case GetGlobalDirectives c t of
        Inl e \<Rightarrow> Inl (Internal, ''failed to get global directives: '' @ e)
      | Inr ds \<Rightarrow> Inr ds)"

definition SetGlobalDirective_cs ::
    "'cfg sshconf_lib \<Rightarrow> string \<Rightarrow> string \<Rightarrow> 'cfg clientConfig \<Rightarrow> treefs \<Rightarrow> 'cfg clientConfig \<times> treefs \<times> (string \<times> string) rpc" where
  "SetGlobalDirective_cs sc key v c t =
     (case SetGlobalDirective sc key v c t of
        (c1, t1, Some e) \<Rightarrow> (c1, t1, Inl (Internal, ''failed to set global directive: '' @ e))
      | (c1, t1, None) \<Rightarrow> (c1, t1, Inr (key, v)))"

definition DeleteGlobalDirective_cs ::
    "'cfg sshconf_lib \<Rightarrow> string \<Rightarrow> 'cfg clientConfig \<Rightarrow> treefs \<Rightarrow> 'cfg clientConfig \<times> treefs \<times> unit rpc" where
  "DeleteGlobalDirective_cs sc key c t =
     (case DeleteGlobalDirective sc key c t of
        (c1, t1, Some e) \<Rightarrow> (c1, t1, Inl (Internal, ''failed to delete global directive: '' @ e))
      | (c1, t1, None) \<Rightarrow> (c1, t1, Inr ()))"

section \<open>The server configuration\<close>

definition GetServerConfig :: "ServerConfigManager \<Rightarrow> fsys \<Rightarrow> fsys \<times> ServerConfigMsg rpc" where
  "GetServerConfig m fs =
     (case Read_server m fs of
        (fs1, Some cfg, None) \<Rightarrow> (fs1, Inr (toProtoServerConfig cfg))
      | (fs1, _, e) \<Rightarrow> (fs1, Inl (Internal, ''failed to read server config: '' @ the e)))"

record server_update =
  su_Key :: string
  su_Value :: string
  su_Delete :: bool

text \<open>The loop over the updates; one that deletes is skipped.\<close>

fun apply_updates :: "ServerConfigManager \<Rightarrow> server_update list \<Rightarrow> fsys \<Rightarrow> fsys \<times> (grpc_code \<times> string) option" where
  "apply_updates m [] fs = (fs, None)"
| "apply_updates m (u # us) fs =
     (if su_Delete u then apply_updates m us fs
      else (case Update_server m (su_Key u) (su_Value u) fs of
          (fs1, Some e) \<Rightarrow> (fs1, Some (Internal, ''failed to update server config directive '' @ su_Key u @ '': '' @ e))
        | (fs1, None) \<Rightarrow> apply_updates m us fs1))"

definition UpdateServerConfig :: "ServerConfigManager \<Rightarrow> server_update list \<Rightarrow> fsys \<Rightarrow> fsys \<times> ServerConfigMsg rpc" where
  "UpdateServerConfig m updates fs =
     (case apply_updates m updates fs of
        (fs1, Some e) \<Rightarrow> (fs1, Inl e)
      | (fs1, None) \<Rightarrow>
          (case Read_server m fs1 of
             (fs2, Some cfg, None) \<Rightarrow> (fs2, Inr (toProtoServerConfig cfg))
           | (fs2, _, e) \<Rightarrow> (fs2, Inl (Internal, ''failed to read updated server config: '' @ the e))))"

definition ValidateServerConfig :: "ServerConfigManager \<Rightarrow> fsys \<Rightarrow> fsys \<times> (bool \<times> string) rpc" where
  "ValidateServerConfig m fs =
     (case Validate_server m fs of (fs1, Some e) \<Rightarrow> (fs1, Inr (False, e)) | (fs1, None) \<Rightarrow> (fs1, Inr (True, [])))"

definition RestartSSHService_cs :: "ServerConfigManager \<Rightarrow> bool \<Rightarrow> fsys \<Rightarrow> fsys \<times> (bool \<times> string) rpc" where
  "RestartSSHService_cs m reloadOnly fs =
     (case RestartService m reloadOnly fs of
        (fs1, Some e) \<Rightarrow> (fs1, Inr (False, e))
      | (fs1, None) \<Rightarrow>
          (fs1, Inr (True, ''SSH service '' @ (if reloadOnly then ''reloaded'' else ''restarted'') @ '' successfully'')))"

section \<open>The block of skeys\<close>

text \<open>The text of an error of the manager is an argument, \<open>msg\<close>.\<close>

definition GetSshConfigStatus :: "(ioerr \<Rightarrow> string) \<Rightarrow> sshManager \<Rightarrow> fsys \<Rightarrow> (bool \<times> string) rpc" where
  "GetSshConfigStatus msg m fs =
     (case IsEnabled m fs of
        Inl e \<Rightarrow> Inl (Internal, ''failed to check SSH config status: '' @ msg e)
      | Inr enabled \<Rightarrow> Inr (enabled, GetAgentSocket m))"

definition EnableSshConfig :: "(ioerr \<Rightarrow> string) \<Rightarrow> sshManager \<Rightarrow> fsys \<Rightarrow> fsys \<times> (bool \<times> string) rpc" where
  "EnableSshConfig msg m fs =
     (case Enable m fs of
        (fs1, Some e) \<Rightarrow> (fs1, Inr (False, msg e))
      | (fs1, None) \<Rightarrow> (fs1, Inr (True, ''SSH config integration enabled successfully'')))"

definition DisableSshConfig :: "(ioerr \<Rightarrow> string) \<Rightarrow> sshManager \<Rightarrow> fsys \<Rightarrow> fsys \<times> (bool \<times> string) rpc" where
  "DisableSshConfig msg m fs =
     (case Disable m fs of
        (fs1, Some e) \<Rightarrow> (fs1, Inr (False, msg e))
      | (fs1, None) \<Rightarrow> (fs1, Inr (True, ''SSH config integration disabled successfully'')))"

section \<open>The paths\<close>

record DiscoverMsg =
  xm_ClientSystemConfig :: ConfigPathInfoMsg
  xm_ClientUserConfig :: ConfigPathInfoMsg
  xm_ServerConfig :: ConfigPathInfoMsg
  xm_Distribution :: string
  xm_SshClientInstalled :: bool
  xm_SshServerInstalled :: bool

definition DiscoverConfigPaths :: "'w sysenv \<Rightarrow> (string \<times> string) list \<Rightarrow> 'w \<Rightarrow> 'w \<times> DiscoverMsg rpc" where
  "DiscoverConfigPaths se order w =
     (case Discover se order w of (w1, d) \<Rightarrow>
        (w1, Inr \<lparr>xm_ClientSystemConfig = toProtoConfigPathInfo (ds_ClientSystemConfig d),
                  xm_ClientUserConfig = toProtoConfigPathInfo (ds_ClientUserConfig d),
                  xm_ServerConfig = toProtoConfigPathInfo (ds_ServerConfig d),
                  xm_Distribution = ds_Distribution d, xm_SshClientInstalled = ds_SSHClientInstalled d,
                  xm_SshServerInstalled = ds_SSHServerInstalled d\<rparr>))"

section \<open>Several updates of the server configuration\<close>

text \<open>The value that a list of updates gives a key: that of its last update, where requests to delete do not count.\<close>

definition updated_value :: "server_update list \<Rightarrow> string \<Rightarrow> string option" where
  "updated_value us k = map_option su_Value (find (\<lambda>u. \<not> su_Delete u \<and> equal_fold k (su_Key u)) (rev us))"

definition update_ok :: "server_update \<Rightarrow> bool" where
  "update_ok u \<longleftrightarrow> su_Delete u \<or> config_key (su_Key u) \<and> config_value (su_Value u) \<and> short_line (directive_line (su_Key u) (su_Value u))"

lemma find_append: "find p (xs @ ys) = (case find p xs of None \<Rightarrow> find p ys | Some x \<Rightarrow> Some x)"
  by (induction xs) simp_all

lemma updated_value_simps [simp]:
  "updated_value [] k = None"
  "updated_value (u # us) k = (case updated_value us k of Some v \<Rightarrow> Some v
     | None \<Rightarrow> if \<not> su_Delete u \<and> equal_fold k (su_Key u) then Some (su_Value u) else None)"
  by (simp_all add: updated_value_def find_append split: option.split)

lemma apply_updates_values:
  assumes "list_all update_ok us" and "Read_server (sm_of path pm) fs = (fs, Some c, None)"
    and "plain_content (sc_RawContent c)" and "\<not> read_denied fs path"
    and "apply_updates (sm_of path pm) us fs = (fs', None)"
  shows "\<exists>c'. Read_server (sm_of path pm) fs' = (fs', Some c', None) \<and>
    (\<forall>k. GetDirective c' k = (case updated_value us k of Some v \<Rightarrow> Some v | None \<Rightarrow> GetDirective c k)) \<and>
    (\<forall>q. q \<noteq> path \<longrightarrow> sm_load pm fs' q = sm_load pm fs q)"
  using assms
proof (induction us arbitrary: fs c)
  case (Cons u us)
  show ?case
  proof (cases "su_Delete u")
    case True
    with Cons.prems have run: "apply_updates (sm_of path pm) us fs = (fs', None)" and ok: "list_all update_ok us" by simp_all
    have "updated_value (u # us) k = updated_value us k" for k using True by (simp split: option.split)
    with Cons.IH [OF ok Cons.prems(2-4) run] show ?thesis by (simp only:)
  next
    case False
    with Cons.prems(5) obtain fs1 where one: "Update_server (sm_of path pm) (su_Key u) (su_Value u) fs = (fs1, None)"
      and run: "apply_updates (sm_of path pm) us fs1 = (fs', None)" by (auto split: prod.splits option.splits)
    have ok: "config_key (su_Key u)" "config_value (su_Value u)" "short_line (directive_line (su_Key u) (su_Value u))"
      "list_all update_ok us" using Cons.prems(1) False by (simp_all add: update_ok_def [of u])
    note step = Update_server_step [OF ok(1-3) Cons.prems(2-4) one]
    then obtain c1 where c1: "Read_server (sm_of path pm) fs1 = (fs1, Some c1, None)" "plain_content (sc_RawContent c1)"
      "\<forall>k. GetDirective c1 k = (if equal_fold k (su_Key u) then Some (su_Value u) else GetDirective c k)" by blast
    from Cons.IH [OF ok(4) c1(1,2) step(3) run] c1(3) step(2) False show ?thesis by (auto split: option.split)
  qed
qed simp

lemma apply_updates_direct:
  assumes "list_all update_ok us" and "Read_server (sm_of path None) fs = (fs, Some c, None)"
    and "plain_content (sc_RawContent c)" and "\<not> read_denied fs path" and "write_fault_at fs path = WOk"
  shows "\<exists>fs'. apply_updates (sm_of path None) us fs = (fs', None)"
  using assms
proof (induction us arbitrary: fs c)
  case (Cons u us)
  show ?case
  proof (cases "su_Delete u")
    case False
    let ?fs1 = "set_file path (updateDirective (sc_RawContent c) (su_Key u) (su_Value u)) fs"
    have one: "Update_server (sm_of path None) (su_Key u) (su_Value u) fs = (?fs1, None)"
      using Cons.prems(5) unfolding Update_server_rewrite(1) [OF Cons.prems(2)] scfs.rewrite_def Update_server_rewrite(2) [OF Cons.prems(2)]
      by (simp add: sm_store_cases os_write_file_def)
    have ok: "config_key (su_Key u)" "config_value (su_Value u)" "short_line (directive_line (su_Key u) (su_Value u))"
      "list_all update_ok us" using Cons.prems(1) False by (simp_all add: update_ok_def [of u])
    note step = Update_server_step [OF ok(1-3) Cons.prems(2-4) one]
    from step(1) obtain c1 where "Read_server (sm_of path None) ?fs1 = (?fs1, Some c1, None)" "plain_content (sc_RawContent c1)" by blast
    from Cons.IH [OF ok(4) this step(3)] Cons.prems(5) one False show ?thesis by (simp add: set_file_def)
  qed (use Cons in simp)
qed simp

text \<open>
  C27. A request with several updates, when it succeeds on a \<open>sshd_config\<close> without \<open>Match\<close> blocks: the answer is the new
  file, in which every key has the value of its last update; a key that was only to be deleted, or not named, has the value from
  before, although the request to delete it is answered with success.
\<close>

theorem server_updates_applied:
  assumes ok: "list_all update_ok us" and before: "Read_server (sm_of path pm) fs = (fs, Some c, None)"
    and plain: "plain_content (sc_RawContent c)" and readable: "\<not> read_denied fs path"
    and run: "UpdateServerConfig (sm_of path pm) us fs = (fs', Inr answer)"
  shows "\<exists>c'. answer = toProtoServerConfig c' \<and> Read_server (sm_of path pm) fs' = (fs', Some c', None) \<and>
    (\<forall>k. GetDirective c' k = (case updated_value us k of Some v \<Rightarrow> Some v | None \<Rightarrow> GetDirective c k)) \<and>
    (\<forall>q. q \<noteq> path \<longrightarrow> sm_load pm fs' q = sm_load pm fs q)"
proof -
  obtain fs1 where "apply_updates (sm_of path pm) us fs = (fs1, None)"
    using run by (auto simp: UpdateServerConfig_def split: prod.splits option.splits)
  with apply_updates_values [OF ok before plain readable this] run show ?thesis
    by (auto simp: UpdateServerConfig_def)
qed

lemma server_updates_applied_witness:
  "\<exists>fs' c'. UpdateServerConfig (sm_of ''/etc/ssh/sshd_config'' None)
      [\<lparr>su_Key = ''Port'', su_Value = ''22'', su_Delete = False\<rparr>, \<lparr>su_Key = ''PermitRootLogin'', su_Value = [], su_Delete = True\<rparr>,
       \<lparr>su_Key = ''port'', su_Value = ''2222'', su_Delete = False\<rparr>] sshd_example_fs = (fs', Inr (toProtoServerConfig c')) \<and>
    GetDirective c' ''Port'' = Some ''2222'' \<and> GetDirective c' ''PermitRootLogin'' = Some ''yes''"
proof -
  let ?p = "''/etc/ssh/sshd_config''" and ?us = "[\<lparr>su_Key = ''Port'', su_Value = ''22'', su_Delete = False\<rparr>,
      \<lparr>su_Key = ''PermitRootLogin'', su_Value = [], su_Delete = True\<rparr>, \<lparr>su_Key = ''port'', su_Value = ''2222'', su_Delete = False\<rparr>]"
  have ok: "list_all update_ok ?us" and vals: "updated_value ?us ''Port'' = Some ''2222''" "updated_value ?us ''PermitRootLogin'' = None"
    by code_simp+
  have before: "Read_server (sm_of ?p None) sshd_example_fs = (sshd_example_fs, Some (fst (parse_server ?p sshd_example)), None)"
    using GetDirective_parse(2) [OF sshd_example_plain, of ?p]
    by (cases "parse_server ?p sshd_example") (simp add: Read_server_load sm_load_cases sshd_example_fs_def os_read_file_def)
  have raw: "sc_RawContent (fst (parse_server ?p sshd_example)) = sshd_example" by (simp add: parse_server_def)
  have free: "\<not> read_denied sshd_example_fs ?p" "write_fault_at sshd_example_fs ?p = WOk" by (simp_all add: sshd_example_fs_def)
  have plain: "plain_content (sc_RawContent (fst (parse_server ?p sshd_example)))" using sshd_example_plain raw by simp
  obtain fs' where run: "apply_updates (sm_of ?p None) ?us sshd_example_fs = (fs', None)"
    using apply_updates_direct [OF ok before plain free] by blast
  from apply_updates_values [OF ok before plain free(1) run] obtain c1
    where "Read_server (sm_of ?p None) fs' = (fs', Some c1, None)" by blast
  with run have req: "UpdateServerConfig (sm_of ?p None) ?us sshd_example_fs = (fs', Inr (toProtoServerConfig c1))"
    by (simp add: UpdateServerConfig_def)
  have old: "GetDirective (fst (parse_server ?p sshd_example)) ''PermitRootLogin'' = Some ''yes''" by code_simp
  from server_updates_applied [OF ok before plain free(1) req] obtain c'
    where c': "toProtoServerConfig c1 = toProtoServerConfig c'"
      "\<forall>k. GetDirective c' k = (case updated_value ?us k of Some v \<Rightarrow> Some v | None \<Rightarrow> GetDirective (fst (parse_server ?p sshd_example)) k)"
    by blast
  have "GetDirective c' ''Port'' = Some ''2222''" "GetDirective c' ''PermitRootLogin'' = Some ''yes''"
    unfolding c'(2) [THEN spec] vals old by simp_all
  with req show ?thesis unfolding c'(1) by blast
qed

section \<open>What is listed\<close>

definition options_typed :: "SSHOptions \<Rightarrow> bool" where
  "options_typed x \<longleftrightarrow> int32 (op_Port x) \<and> int32 (op_ServerAliveInterval x) \<and> int32 (op_ServerAliveCountMax x)"

definition entry_typed :: "(string \<Rightarrow> string) \<Rightarrow> SSHConfigEntryMsg \<Rightarrow> bool" where
  "entry_typed sha m \<longleftrightarrow> em_Type m \<noteq> ENTRY_TYPE_UNSPECIFIED \<and> int32 (em_Position m)
     \<and> (case em_Options m of None \<Rightarrow> False | Some x \<Rightarrow> options_typed x)
     \<and> em_Id m = generateEntryID sha (fromProtoSSHConfigEntry (Some m))"

lemma list_entries_shape:
  "list_all (\<lambda>e. ce_Type e \<in> {EntryTypeHost, EntryTypeMatch} \<and> ce_ID e = generateEntryID sha e) (list_entries sha p ls)
   \<and> map ce_Position (list_entries sha p ls) = map (\<lambda>i. p + int i) [0..<length (list_entries sha p ls)]"
proof (induction ls arbitrary: p)
  case (Cons l ls)
  have up: "map (\<lambda>i. p + int i) [0..<Suc n] = p # map (\<lambda>i. (p + 1) + int i) [0..<n]" for n
    by (simp add: upt_conv_Cons map_Suc_upt [symmetric] del: upt_Suc map_Suc_upt) 
  show ?case using Cons.IH [of p] Cons.IH [of "p + 1"] 
    by (auto simp: entry_of_def Let_def generateEntryID_def up simp del: upt_Suc)
qed simp



section \<open>Two managers of one file\<close>

lemma Enable_enabled:
  assumes "Enable m fs = (fs', None)" and "\<not> read_denied fs (sg_configPath m)"
  shows "IsEnabled m fs' = Inr True"
proof (cases "IsEnabled m fs")
  case (Inr b)
  show ?thesis
  proof (cases b)
    case True
    then show ?thesis using assms(1) Inr by (simp add: Enable_def)
  next
    case False
    obtain c where c: "readConfig m fs = Inr c \<or> readConfig m fs = Inl NotExist \<and> c = []" "\<not> contains c beginMarker"
    proof (cases "readConfig m fs")
      case (Inl e)
      then have "e = NotExist" using Inr by (cases e) (simp_all add: IsEnabled_def)
      then show ?thesis using that [of "[]"] Inl by (simp add: contains_def beginMarker_def)
    next
      case (Inr c)
      then show ?thesis using that [of c] \<open>IsEnabled m fs = Inr b\<close> False by (simp add: IsEnabled_def)
    qed
    from writeConfig_ok(1) [OF Enable_ok [OF c assms(1)] assms(2)] show ?thesis
      using contains_enabled by (simp add: IsEnabled_def readConfig_def)
  qed
qed (use assms in \<open>simp add: Enable_def\<close>)

definition with_entry :: "'cfg sshconf_lib \<Rightarrow> SSHConfigEntry \<Rightarrow> 'cfg \<Rightarrow> 'cfg" where
  "with_entry sc e cfg = sc_Patch sc (getEntryHeader e) (buildEntryBlock e) cfg"


definition demo_block_manager :: sshManager where
  "demo_block_manager = \<lparr>sg_configPath = ''/s/config'', sg_agentSocket = ''/a''\<rparr>"

definition demo_new_msg :: SSHConfigEntryMsg where
  "demo_new_msg = \<lparr>em_Id = [], em_Type = ENTRY_TYPE_HOST, em_Position = 0, em_Patterns = [''c''],
     em_Options = Some (zero_options\<lparr>op_Hostname := ''h''\<rparr>)\<rparr>"


end
