(* ===== verification/SystemService.thy ===== *)
theory SystemService
  imports Grpc SystemStatus
begin

text \<open>
  The gRPC adapters of the system (\<open>adapter/system.go\<close>) and of the version (\<open>adapter/version.go\<close>).

  \<open>time_text\<close> formats a time; a start time that is not known is shown as the empty text.  The messages of clients, servers and
  networks have the fields of the core's types.  The core's calls that cannot fail have no error branch here.
\<close>

section \<open>Messages\<close>

datatype ServiceStateMsg =
    SERVICE_STATE_UNSPECIFIED | SERVICE_STATE_RUNNING | SERVICE_STATE_STOPPED | SERVICE_STATE_FAILED | SERVICE_STATE_NOT_FOUND
  | SERVICE_STATE_UNKNOWN

record ServiceStatusMsg =
  zs_State :: ServiceStateMsg
  zs_Enabled :: bool
  zs_ActiveState :: string
  zs_SubState :: string
  zs_LoadState :: string
  zs_Pid :: int
  zs_StartedAt :: string
  zs_ServiceName :: string

definition toProtoServiceStatus :: "(int \<Rightarrow> string) \<Rightarrow> ServiceStatus \<Rightarrow> ServiceStatusMsg" where
  "toProtoServiceStatus time_text s =
     (let state = (case ss_State s of
          ServiceStateRunning \<Rightarrow> SERVICE_STATE_RUNNING | ServiceStateStopped \<Rightarrow> SERVICE_STATE_STOPPED
        | ServiceStateFailed \<Rightarrow> SERVICE_STATE_FAILED | ServiceStateNotFound \<Rightarrow> SERVICE_STATE_NOT_FOUND
        | ServiceStateUnknown \<Rightarrow> SERVICE_STATE_UNKNOWN | ServiceStateUnspecified \<Rightarrow> SERVICE_STATE_UNSPECIFIED);
          startedAt = (case ss_StartedAt s of None \<Rightarrow> [] | Some i \<Rightarrow> time_text i) in
      \<lparr>zs_State = state, zs_Enabled = ss_Enabled s, zs_ActiveState = ss_ActiveState s, zs_SubState = ss_SubState s,
       zs_LoadState = ss_LoadState s, zs_Pid = ss_PID s, zs_StartedAt = startedAt, zs_ServiceName = ss_ServiceName s\<rparr>)"

definition toProtoSystemConfigPathInfo :: "ConfigPathInfo \<Rightarrow> ConfigPathInfo" where
  "toProtoSystemConfigPathInfo info =
     \<lparr>cp_Path = cp_Path info, cp_Exists = cp_Exists info, cp_Readable = cp_Readable info, cp_Writable = cp_Writable info,
      cp_IncludeDir = cp_IncludeDir info\<rparr>"

definition toProtoSSHClientStatus :: "SSHClientStatus \<Rightarrow> SSHClientStatus" where
  "toProtoSSHClientStatus s =
     \<lparr>cs_Installed = cs_Installed s, cs_Version = cs_Version s, cs_BinaryPath = cs_BinaryPath s,
      cs_SystemConfig = toProtoSystemConfigPathInfo (cs_SystemConfig s), cs_UserConfig = toProtoSystemConfigPathInfo (cs_UserConfig s)\<rparr>"

record SSHServerStatusMsg =
  zv_Installed :: bool
  zv_Version :: string
  zv_BinaryPath :: string
  zv_Service :: ServiceStatusMsg
  zv_Config :: ConfigPathInfo

definition toProtoSSHServerStatus :: "(int \<Rightarrow> string) \<Rightarrow> SSHServerStatus \<Rightarrow> SSHServerStatusMsg" where
  "toProtoSSHServerStatus time_text s =
     \<lparr>zv_Installed = sv_Installed s, zv_Version = sv_Version s, zv_BinaryPath = sv_BinaryPath s,
      zv_Service = toProtoServiceStatus time_text (sv_Service s), zv_Config = toProtoSystemConfigPathInfo (sv_Config s)\<rparr>"

definition toProtoNetworkInfo :: "NetworkInfo option \<Rightarrow> NetworkInfo option" where
  "toProtoNetworkInfo n =
     (case n of
        None \<Rightarrow> None
      | Some x \<Rightarrow> Some \<lparr>ni_Hostname = ni_Hostname x, ni_IPAddresses = ni_IPAddresses x, ni_SSHPort = to_int32 (ni_SSHPort x)\<rparr>)"

datatype FirewallTypeMsg =
    FIREWALL_TYPE_UNSPECIFIED | FIREWALL_TYPE_UFW | FIREWALL_TYPE_FIREWALLD | FIREWALL_TYPE_IPTABLES | FIREWALL_TYPE_NONE

record FirewallStatusMsg =
  zf_Type :: FirewallTypeMsg
  zf_Active :: bool
  zf_SshAllowed :: bool
  zf_StatusText :: string

definition toProtoFirewallStatus :: "FirewallStatus option \<Rightarrow> FirewallStatusMsg option" where
  "toProtoFirewallStatus f =
     (case f of
        None \<Rightarrow> None
      | Some x \<Rightarrow>
          (let fwType = (case fw_Type x of
               FirewallTypeUFW \<Rightarrow> FIREWALL_TYPE_UFW | FirewallTypeFirewalld \<Rightarrow> FIREWALL_TYPE_FIREWALLD
             | FirewallTypeIPTables \<Rightarrow> FIREWALL_TYPE_IPTABLES | FirewallTypeNone \<Rightarrow> FIREWALL_TYPE_NONE
             | FirewallTypeUnspecified \<Rightarrow> FIREWALL_TYPE_UNSPECIFIED) in
           Some \<lparr>zf_Type = fwType, zf_Active = fw_Active x, zf_SshAllowed = fw_SSHAllowed x, zf_StatusText = fw_StatusText x\<rparr>))"

record SSHStatusMsg =
  zt_Distribution :: string
  zt_DistributionVersion :: string
  zt_Client :: SSHClientStatus
  zt_Server :: SSHServerStatusMsg
  zt_Network :: "NetworkInfo option"
  zt_Firewall :: "FirewallStatusMsg option"

definition toProtoSSHStatus :: "(int \<Rightarrow> string) \<Rightarrow> SSHStatus \<Rightarrow> SSHStatusMsg" where
  "toProtoSSHStatus time_text s =
     \<lparr>zt_Distribution = st_Distribution s, zt_DistributionVersion = st_DistributionVersion s,
      zt_Client = toProtoSSHClientStatus (st_Client s), zt_Server = toProtoSSHServerStatus time_text (st_Server s),
      zt_Network = toProtoNetworkInfo (Some (st_Network s)), zt_Firewall = toProtoFirewallStatus (Some (st_Firewall s))\<rparr>"

section \<open>Requests\<close>

definition WatchSSHStatus ::
    "(int \<Rightarrow> string) \<Rightarrow> ((string, SSHStatus) update \<times> string option) list \<Rightarrow> SSHStatusMsg list \<times> (grpc_code \<times> string) option" where
  "WatchSSHStatus time_text updates = send_updates ''watch error'' (toProtoSSHStatus time_text) updates"

definition GetSSHStatus_ss :: "(int \<Rightarrow> string) \<Rightarrow> 'w sysenv \<Rightarrow> 'w \<Rightarrow> 'w \<times> SSHStatusMsg rpc" where
  "GetSSHStatus_ss time_text se w = (case GetSSHStatus se w of (w1, s) \<Rightarrow> (w1, Inr (toProtoSSHStatus time_text s)))"

definition GetSSHServiceStatus_ss :: "(int \<Rightarrow> string) \<Rightarrow> 'w sysenv \<Rightarrow> 'w \<Rightarrow> 'w \<times> ServiceStatusMsg rpc" where
  "GetSSHServiceStatus_ss time_text se w =
     (case GetSSHServiceStatus se w of (w1, s) \<Rightarrow> (w1, Inr (toProtoServiceStatus time_text s)))"

text \<open>A request to control the service is always answered; a failure is told in the message.\<close>

record control_answer =
  xa_Success :: bool
  xa_Message :: string
  xa_Status :: "ServiceStatusMsg option"

definition control_response :: "(int \<Rightarrow> string) \<Rightarrow> string \<Rightarrow> 'w \<times> (string + ServiceStatus) \<Rightarrow> 'w \<times> control_answer rpc" where
  "control_response time_text done_text r =
     (case r of
        (w1, Inl e) \<Rightarrow> (w1, Inr \<lparr>xa_Success = False, xa_Message = e, xa_Status = None\<rparr>)
      | (w1, Inr s) \<Rightarrow>
          (w1, Inr \<lparr>xa_Success = True, xa_Message = done_text, xa_Status = Some (toProtoServiceStatus time_text s)\<rparr>))"

definition StartSSHService_ss :: "(int \<Rightarrow> string) \<Rightarrow> 'w sysenv \<Rightarrow> SystemManager \<Rightarrow> 'w \<Rightarrow> 'w \<times> control_answer rpc" where
  "StartSSHService_ss time_text se m w =
     control_response time_text ''SSH service started successfully'' (StartSSHService se m w)"

definition StopSSHService_ss :: "(int \<Rightarrow> string) \<Rightarrow> 'w sysenv \<Rightarrow> SystemManager \<Rightarrow> 'w \<Rightarrow> 'w \<times> control_answer rpc" where
  "StopSSHService_ss time_text se m w =
     control_response time_text ''SSH service stopped successfully'' (StopSSHService se m w)"

definition RestartSSHServiceWithStatus :: "(int \<Rightarrow> string) \<Rightarrow> 'w sysenv \<Rightarrow> SystemManager \<Rightarrow> 'w \<Rightarrow> 'w \<times> control_answer rpc" where
  "RestartSSHServiceWithStatus time_text se m w =
     control_response time_text ''SSH service restarted successfully'' (RestartSSHService se m w)"

definition ReloadSSHService_ss :: "(int \<Rightarrow> string) \<Rightarrow> 'w sysenv \<Rightarrow> SystemManager \<Rightarrow> 'w \<Rightarrow> 'w \<times> control_answer rpc" where
  "ReloadSSHService_ss time_text se m w =
     control_response time_text ''SSH service configuration reloaded successfully'' (ReloadSSHService se m w)"

definition EnableSSHService_ss :: "(int \<Rightarrow> string) \<Rightarrow> 'w sysenv \<Rightarrow> SystemManager \<Rightarrow> 'w \<Rightarrow> 'w \<times> control_answer rpc" where
  "EnableSSHService_ss time_text se m w =
     control_response time_text ''SSH service enabled for auto-start'' (EnableSSHService se m w)"

definition DisableSSHService_ss :: "(int \<Rightarrow> string) \<Rightarrow> 'w sysenv \<Rightarrow> SystemManager \<Rightarrow> 'w \<Rightarrow> 'w \<times> control_answer rpc" where
  "DisableSSHService_ss time_text se m w =
     control_response time_text ''SSH service disabled from auto-start'' (DisableSSHService se m w)"

datatype SSHComponentMsg = SSH_COMPONENT_UNSPECIFIED | SSH_COMPONENT_CLIENT | SSH_COMPONENT_SERVER

record InstallInstructionsMsg =
  xi_Distribution :: string
  xi_Component :: SSHComponentMsg
  xi_PackageName :: string
  xi_InstallCommand :: string
  xi_DocumentationUrl :: string
  xi_Steps :: "string list"

definition GetInstallInstructions_ss :: "'w sysenv \<Rightarrow> SSHComponentMsg \<Rightarrow> 'w \<Rightarrow> InstallInstructionsMsg rpc" where
  "GetInstallInstructions_ss se component w =
     (let i = GetInstallInstructions se (if component = SSH_COMPONENT_SERVER then ''server'' else ''client'') w in
      Inr \<lparr>xi_Distribution = in_Distribution i, xi_Component = component, xi_PackageName = in_PackageName i,
           xi_InstallCommand = in_InstallCommand i, xi_DocumentationUrl = in_DocumentationURL i, xi_Steps = in_Steps i\<rparr>)"

section \<open>The version\<close>

text \<open>The variables of \<open>skeys-core/version.go\<close> as the source has them; the linker may replace them.\<close>

definition core_Version :: string where "core_Version = ''0.0.1''"
definition core_Commit :: string where "core_Commit = ''unknown''"

record VersionServiceAdapter =
  va_version :: string
  va_commit :: string

record VersionInfo =
  vi_DaemonVersion :: string
  vi_DaemonCommit :: string
  vi_GoVersion :: string
  vi_CoreVersion :: string
  vi_CoreCommit :: string

definition NewVersionServiceAdapter :: "string \<Rightarrow> string \<Rightarrow> VersionServiceAdapter" where
  "NewVersionServiceAdapter ver commit = \<lparr>va_version = ver, va_commit = commit\<rparr>"

definition GetVersion :: "string \<Rightarrow> VersionServiceAdapter \<Rightarrow> VersionInfo rpc" where
  "GetVersion goVersion a =
     Inr \<lparr>vi_DaemonVersion = va_version a, vi_DaemonCommit = va_commit a, vi_GoVersion = goVersion,
          vi_CoreVersion = core_Version, vi_CoreCommit = core_Commit\<rparr>"

end
