(* ===== verification/UpdateService.thy ===== *)
theory UpdateService
  imports Grpc UpdateManager
begin

text \<open>
  The gRPC adapter of the updater (\<open>adapter/update.go\<close>).

  The errors of the manager are passed on as they are, so their code is \<open>CodeUnknown\<close>.  A result \<open>None\<close> is a panic: \<open>CheckForUpdates\<close> reads the
  tag of the update in the manager's status without asking whether there is one.
\<close>

record UpdateServiceAdapter =
  ua_manager :: Manager
  ua_configDir :: string

definition NewUpdateServiceAdapter :: "string \<Rightarrow> string \<Rightarrow> UpdateServiceAdapter" where
  "NewUpdateServiceAdapter homeDir current =
     (let installDir = path_join [homeDir, ''.local'', ''share'', ''skeys'']; cacheDir = path_join [homeDir, ''.cache'', ''skeys''];
          configDir = path_join [homeDir, ''.config'', ''skeys''] in
      \<lparr>ua_manager = NewManager_upd current installDir cacheDir, ua_configDir = configDir\<rparr>)"

record UpdateInfo =
  ui_UpdateAvailable :: bool
  ui_CurrentVersion :: string
  ui_LatestVersion :: string
  ui_ReleaseUrl :: string
  ui_ReleaseNotes :: string
  ui_DownloadSize :: int
  ui_PublishedAt :: "int option"
  ui_Prerelease :: bool

definition no_update :: UpdateInfo where
  "no_update = \<lparr>ui_UpdateAvailable = False, ui_CurrentVersion = [], ui_LatestVersion = [], ui_ReleaseUrl = [], ui_ReleaseNotes = [],
     ui_DownloadSize = 0, ui_PublishedAt = None, ui_Prerelease = False\<rparr>"

definition download_size :: "ReleaseInfo \<Rightarrow> int" where
  "download_size release =
     (case find (\<lambda>a. asset_Name a = ''skeys-'' @ TagName release @ ''-linux-x64.tar.gz'') (Assets release) of
        None \<Rightarrow> 0 | Some a \<Rightarrow> asset_Size a)"

definition update_info :: "string \<Rightarrow> ReleaseInfo \<Rightarrow> UpdateInfo" where
  "update_info current release =
     \<lparr>ui_UpdateAvailable = True, ui_CurrentVersion = current, ui_LatestVersion = TagName release, ui_ReleaseUrl = HTMLURL release,
      ui_ReleaseNotes = rel_Body release, ui_DownloadSize = download_size release, ui_PublishedAt = Some (PublishedAt release),
      ui_Prerelease = Prerelease release\<rparr>"

definition CheckForUpdates_us ::
    "http \<Rightarrow> (string \<Rightarrow> int option) \<Rightarrow> int \<Rightarrow> fsys \<Rightarrow> UpdateServiceAdapter \<Rightarrow> UpdateServiceAdapter \<times> UpdateInfo rpc option" where
  "CheckForUpdates_us http rfc3339 now fs a =
     (let settings = fst (LoadSettings (ua_configDir a) fs) in
      case CheckForUpdates http rfc3339 now (IncludePrereleases settings) (IncludePatches settings) (ua_manager a) of (m1, r) \<Rightarrow>
        (a\<lparr>ua_manager := m1\<rparr>,
         case r of
           Inl e \<Rightarrow> Some (Inl (CodeUnknown, e))
         | Inr None \<Rightarrow> Some (Inr no_update)
         | Inr (Some release) \<Rightarrow>
             (case AvailableUpdate (GetStatus_upd m1) of
                None \<Rightarrow> None
              | Some u \<Rightarrow> Some (Inr (update_info (TagName u) release)))))"

datatype DownloadStateMsg =
    DOWNLOAD_STATE_UNSPECIFIED | DOWNLOAD_STATE_STARTING | DOWNLOAD_STATE_DOWNLOADING | DOWNLOAD_STATE_VERIFYING
  | DOWNLOAD_STATE_COMPLETED | DOWNLOAD_STATE_ERROR

definition convertDownloadState :: "DownloadState \<Rightarrow> DownloadStateMsg" where
  "convertDownloadState state =
     (case state of DownloadStarting \<Rightarrow> DOWNLOAD_STATE_STARTING | DownloadDownloading \<Rightarrow> DOWNLOAD_STATE_DOWNLOADING
      | DownloadVerifying \<Rightarrow> DOWNLOAD_STATE_VERIFYING | DownloadCompleted \<Rightarrow> DOWNLOAD_STATE_COMPLETED
      | DownloadError \<Rightarrow> DOWNLOAD_STATE_ERROR)"

record DownloadProgressMsg =
  dm_State :: DownloadStateMsg
  dm_BytesDownloaded :: int
  dm_TotalBytes :: int
  dm_BytesPerSecond :: int
  dm_Error :: string
  dm_DownloadedPath :: string

definition progress_msg :: "Progress \<Rightarrow> DownloadProgressMsg" where
  "progress_msg p =
     \<lparr>dm_State = convertDownloadState (prog_State p), dm_BytesDownloaded = BytesDownloaded p, dm_TotalBytes = TotalBytes p,
      dm_BytesPerSecond = BytesPerSecond p, dm_Error = prog_Error p, dm_DownloadedPath = DownloadedPath p\<rparr>"

text \<open>The messages of the stream; a failed send is ignored.\<close>

definition DownloadUpdate_us ::
    "http \<Rightarrow> (int \<Rightarrow> int) \<Rightarrow> (string \<Rightarrow> string) \<Rightarrow> UpdateServiceAdapter \<Rightarrow> treefs
     \<Rightarrow> UpdateServiceAdapter \<times> treefs \<times> DownloadProgressMsg list \<times> (grpc_code \<times> string) option" where
  "DownloadUpdate_us http speed sha a t =
     (case AvailableUpdate (GetStatus_upd (ua_manager a)) of
        None \<Rightarrow> (a, t, [], None)
      | Some release \<Rightarrow>
          (case DownloadUpdate http speed sha release (ua_manager a) t of (m1, t1, ps, r) \<Rightarrow>
             (a\<lparr>ua_manager := m1\<rparr>, t1, map progress_msg ps, case r of Inl e \<Rightarrow> Some (CodeUnknown, e) | Inr _ \<Rightarrow> None)))"

record apply_answer =
  xp_Success :: bool
  xp_Error :: string
  xp_RestartRequired :: bool

definition ApplyUpdate_us ::
    "untar \<Rightarrow> string \<Rightarrow> bool \<Rightarrow> UpdateServiceAdapter \<Rightarrow> treefs \<Rightarrow> UpdateServiceAdapter \<times> treefs \<times> apply_answer rpc" where
  "ApplyUpdate_us untar tarballPath force a t =
     (case ApplyUpdate untar tarballPath force (ua_manager a) t of
        (m1, t1, Some e) \<Rightarrow> (a\<lparr>ua_manager := m1\<rparr>, t1, Inr \<lparr>xp_Success = False, xp_Error = e, xp_RestartRequired = False\<rparr>)
      | (m1, t1, None) \<Rightarrow> (a\<lparr>ua_manager := m1\<rparr>, t1, Inr \<lparr>xp_Success = True, xp_Error = [], xp_RestartRequired = True\<rparr>))"

text \<open>The message of the settings has their fields, the interval in 32 bits.\<close>

definition GetUpdateSettings :: "UpdateServiceAdapter \<Rightarrow> fsys \<Rightarrow> Settings rpc" where
  "GetUpdateSettings a fs =
     (case LoadSettings (ua_configDir a) fs of
        (_, Some e) \<Rightarrow> Inl (CodeUnknown, e)
      | (s, None) \<Rightarrow> Inr (s\<lparr>CheckIntervalHours := to_int32 (CheckIntervalHours s)\<rparr>))"

definition SetUpdateSettings :: "Settings \<Rightarrow> UpdateServiceAdapter \<Rightarrow> fsys \<Rightarrow> fsys \<times> Settings rpc" where
  "SetUpdateSettings req a fs =
     (case SaveSettings (ua_configDir a) req fs of
        (fs1, Some e) \<Rightarrow> (fs1, Inl (CodeUnknown, e))
      | (fs1, None) \<Rightarrow> (fs1, Inr req))"

datatype UpdateStateMsg =
    UPDATE_STATE_UNSPECIFIED | UPDATE_STATE_IDLE | UPDATE_STATE_CHECKING | UPDATE_STATE_UPDATE_AVAILABLE | UPDATE_STATE_DOWNLOADING
  | UPDATE_STATE_READY_TO_APPLY | UPDATE_STATE_APPLYING | UPDATE_STATE_ERROR

definition convertUpdateState :: "State \<Rightarrow> UpdateStateMsg" where
  "convertUpdateState state =
     (case state of StateIdle \<Rightarrow> UPDATE_STATE_IDLE | StateChecking \<Rightarrow> UPDATE_STATE_CHECKING
      | StateUpdateAvailable \<Rightarrow> UPDATE_STATE_UPDATE_AVAILABLE | StateDownloading \<Rightarrow> UPDATE_STATE_DOWNLOADING
      | StateReadyToApply \<Rightarrow> UPDATE_STATE_READY_TO_APPLY | StateApplying \<Rightarrow> UPDATE_STATE_APPLYING | StateError \<Rightarrow> UPDATE_STATE_ERROR)"

record UpdateStatusMsg =
  um_State :: UpdateStateMsg
  um_AvailableUpdate :: "UpdateInfo option"
  um_DownloadProgress :: "DownloadProgressMsg option"
  um_LastCheck :: "int option"
  um_Error :: string

definition GetUpdateStatus :: "UpdateServiceAdapter \<Rightarrow> UpdateStatusMsg rpc" where
  "GetUpdateStatus a =
     (let s = GetStatus_upd (ua_manager a) in
      Inr \<lparr>um_State = convertUpdateState (st_State s), um_AvailableUpdate = map_option (update_info []) (AvailableUpdate s),
           um_DownloadProgress = map_option progress_msg (DownloadProgress s), um_LastCheck = LastCheck s, um_Error = st_Error s\<rparr>)"

section \<open>Answers\<close>


text \<open>
  C31. Settings that a client saved are answered to the next client, and the next check for updates, also after a restart of the
  daemon, follows them.
\<close>

theorem settings_served:
  assumes range: "int32 (CheckIntervalHours req)" and read: "\<not> read_denied fs (settings_path (ua_configDir a))"
    and save: "SetUpdateSettings req a fs = (fs', Inr answer)" and same: "ua_configDir a' = ua_configDir a"
  shows "answer = req \<and> GetUpdateSettings a' fs' = Inr req \<and>
    fst (CheckForUpdates_us http rfc3339 now fs' a') =
      a'\<lparr>ua_manager := fst (CheckForUpdates http rfc3339 now (IncludePrereleases req) (IncludePatches req) (ua_manager a'))\<rparr>"
proof -
  have ok: "SaveSettings (ua_configDir a) req fs = (fs', None)" "answer = req"
    using save by (auto simp: SetUpdateSettings_def split: prod.splits option.splits)
  then have "\<not> mkdir_denied fs (ua_configDir a)" by (auto simp: SaveSettings_def os_mkdir_all_def split: if_splits)
  moreover have "int64 (CheckIntervalHours req)" using range by (simp add: int32_def int64_def)
  ultimately have "LoadSettings (ua_configDir a) fs' = (req, None)"
    using settings_roundtrip [of req fs "ua_configDir a"] read ok(1) by simp
  with ok(2) same range show ?thesis
    by (simp add: GetUpdateSettings_def CheckForUpdates_us_def Let_def split: prod.split)
qed

lemma settings_served_witness:
  "(let a = NewUpdateServiceAdapter ''/h'' ''1.0.0''; req = DefaultSettings\<lparr>CheckIntervalHours := 6\<rparr>
    in GetUpdateSettings a (fst (SetUpdateSettings req a (fs_with []))) = Inr req)"
proof -
  let ?a = "NewUpdateServiceAdapter ''/h'' ''1.0.0''" and ?req = "DefaultSettings\<lparr>CheckIntervalHours := 6\<rparr>"
  obtain fs' where save: "SetUpdateSettings ?req ?a (fs_with []) = (fs', Inr ?req)"
    by (simp add: SetUpdateSettings_def SaveSettings_def os_mkdir_all_def os_write_file_def)
  have "int32 (CheckIntervalHours ?req)" by (simp add: int32_def)
  from settings_served [OF this fs_with_simps(3) save refl] save show ?thesis by (simp add: Let_def)
qed

end
