(* ===== verification/KeysWatch.thy ===== *)
theory KeysWatch
  imports KeyServices
begin

text \<open>
  The watcher of the keys (\<open>keys/watcher.go\<close>): the loop over the events of the file system and of the agent, with the timer that
  gathers rapid changes, and what a client of \<open>WatchKeys\<close> gets from it.

  Times are in milliseconds.  A run is a list of events with their times; before an event is handled, the timer fires if it
  is due, with the listing of the moment it was set for: \<open>list i\<close> is what \<open>List\<close> answers at the time \<open>i\<close>.  The timer's
  function runs on a goroutine of its own; here it is done before the next event.
\<close>

section \<open>The loop\<close>

record keys_loop =
  lp_hub :: "(string, Key list) update hub"
  lp_prev :: "Key list"
  lp_timer :: "nat option"
  lp_agent :: bool
  lp_ended :: bool

definition debounceDelay :: nat where "debounceDelay = 100"

datatype watch_event =
    EvDone | EvFile string | EvFilesClosed | EvAgent | EvAgentClosed | EvError string | EvErrorsClosed

text \<open>The start of \<open>watchLoop\<close>: the errors of the two calls of \<open>fsnotify\<close>, whether there is an agent, the first listing.\<close>

definition watch_start ::
    "string option \<Rightarrow> string option \<Rightarrow> bool \<Rightarrow> string + Key list \<Rightarrow> (string, Key list) update hub \<Rightarrow> keys_loop" where
  "watch_start new_err add_err agent listed b =
     (let loop = \<lparr>lp_hub = b, lp_prev = [], lp_timer = None, lp_agent = False, lp_ended = True\<rparr> in
      case new_err of
        Some e \<Rightarrow> loop\<lparr>lp_hub := Broadcast (UErr e) b\<rparr>
      | None \<Rightarrow>
          (case add_err of
             Some e \<Rightarrow> loop\<lparr>lp_hub := Broadcast (UErr e) b\<rparr>
           | None \<Rightarrow>
               (case listed of
                  Inl e \<Rightarrow> loop\<lparr>lp_hub := Broadcast (UErr e) b\<rparr>
                | Inr keys \<Rightarrow>
                    loop\<lparr>lp_hub := Broadcast (UVal keys) b, lp_prev := keys, lp_agent := agent, lp_ended := False\<rparr>)))"

definition fire_due :: "(nat \<Rightarrow> string + Key list) \<Rightarrow> nat \<Rightarrow> keys_loop \<Rightarrow> keys_loop" where
  "fire_due list now s =
     (case lp_timer s of
        None \<Rightarrow> s
      | Some due \<Rightarrow>
          if now < due then s
          else (case sendUpdate (list due) (lp_prev s, lp_hub s) of
            (prev, b) \<Rightarrow> s\<lparr>lp_prev := prev, lp_hub := b, lp_timer := None\<rparr>))"

definition handle_event :: "nat \<Rightarrow> watch_event \<Rightarrow> keys_loop \<Rightarrow> keys_loop" where
  "handle_event now ev s =
     (if lp_ended s then s
      else (case ev of
          EvDone \<Rightarrow> s\<lparr>lp_ended := True\<rparr>
        | EvFilesClosed \<Rightarrow> s\<lparr>lp_ended := True\<rparr>
        | EvFile event_name \<Rightarrow> if event_wakes event_name then s\<lparr>lp_timer := Some (now + debounceDelay)\<rparr> else s
        | EvAgentClosed \<Rightarrow> s\<lparr>lp_agent := False\<rparr>
        | EvAgent \<Rightarrow> if lp_agent s then s\<lparr>lp_timer := Some (now + debounceDelay)\<rparr> else s
        | EvErrorsClosed \<Rightarrow> s\<lparr>lp_ended := True\<rparr>
        | EvError e \<Rightarrow> s))"

definition watch_turn :: "(nat \<Rightarrow> string + Key list) \<Rightarrow> nat \<times> watch_event \<Rightarrow> keys_loop \<Rightarrow> keys_loop" where
  "watch_turn list e s = (case e of (now, ev) \<Rightarrow> handle_event now ev (fire_due list now s))"

definition watch_run :: "(nat \<Rightarrow> string + Key list) \<Rightarrow> (nat \<times> watch_event) list \<Rightarrow> keys_loop \<Rightarrow> keys_loop" where
  "watch_run list es s = fold (watch_turn list) es s"

section \<open>Gathering events\<close>

definition wakes :: "keys_loop \<Rightarrow> watch_event \<Rightarrow> bool" where
  "wakes s ev \<longleftrightarrow> (case ev of EvFile event_name \<Rightarrow> event_wakes event_name | EvAgent \<Rightarrow> lp_agent s | _ \<Rightarrow> False)"

fun burst :: "nat \<Rightarrow> nat list \<Rightarrow> bool" where
  "burst t [] \<longleftrightarrow> True"
| "burst t (u # us) \<longleftrightarrow> t \<le> u \<and> u < t + debounceDelay \<and> burst u us"

lemma wake_turn:
  assumes "\<not> lp_ended s" and "wakes s ev" and "case lp_timer s of None \<Rightarrow> True | Some due \<Rightarrow> now < due"
  shows "watch_turn list (now, ev) s = s\<lparr>lp_timer := Some (now + debounceDelay)\<rparr>"
  using assms by (auto simp: watch_turn_def fire_due_def handle_event_def wakes_def split: option.splits watch_event.splits)

lemma burst_run:
  assumes "\<not> lp_ended s" and "lp_timer s = Some (t + debounceDelay)" and "burst t (map fst es)" and "list_all (\<lambda>e. wakes s (snd e)) es"
  shows "watch_run list es s = s\<lparr>lp_timer := Some (last (t # map fst es) + debounceDelay)\<rparr>"
  using assms
proof (induction es arbitrary: s t)
  case (Cons e es)
  obtain u ev where e: "e = (u, ev)" by (cases e)
  let ?s = "s\<lparr>lp_timer := Some (u + debounceDelay)\<rparr>"
  have one: "watch_turn list e s = ?s" unfolding e using Cons.prems e by (intro wake_turn) auto
  have "wakes ?s = wakes s" by (rule ext) (simp add: wakes_def split: watch_event.split)
  then have "watch_run list es ?s = ?s\<lparr>lp_timer := Some (last (u # map fst es) + debounceDelay)\<rparr>"
    using Cons.prems e by (intro Cons.IH) auto
  then show ?case using one e by (simp add: watch_run_def)
qed (simp add: watch_run_def)

text \<open>
  Rapid changes are gathered: after a burst of events, each less than 100 ms after the one before, keys are listed exactly
  once, 100 ms after the last event, and nothing was sent before; the update is then the current listing or its error.
\<close>

theorem burst_lists_once:
  assumes "\<not> lp_ended s" and "lp_timer s = None" and "wakes s ev" and "list_all (\<lambda>e. wakes s (snd e)) es"
    and "burst t (map fst es)" and "now = last (t # map fst es) + debounceDelay"
  shows "lp_hub (watch_run list ((t, ev) # es) s) = lp_hub s \<and>
    (case sendUpdate (list now) (lp_prev s, lp_hub s) of (prev, b) \<Rightarrow>
       fire_due list now (watch_run list ((t, ev) # es) s) = s\<lparr>lp_prev := prev, lp_hub := b, lp_timer := None\<rparr>)"
proof -
  let ?s = "s\<lparr>lp_timer := Some (t + debounceDelay)\<rparr>"
  have first: "watch_turn list (t, ev) s = ?s" using assms(1-3) by (intro wake_turn) auto
  have "wakes ?s = wakes s" by (rule ext) (simp add: wakes_def split: watch_event.split)
  then have "watch_run list es ?s = ?s\<lparr>lp_timer := Some now\<rparr>"
    using burst_run [of ?s t es list] assms by simp
  then have run: "watch_run list ((t, ev) # es) s = s\<lparr>lp_timer := Some now\<rparr>"
    using first by (simp add: watch_run_def)
  show ?thesis unfolding run by (simp add: fire_due_def split: prod.split)
qed

definition demo_loop :: keys_loop where
  "demo_loop = watch_start None None True (Inr []) New_hub"

lemma demo_loop_fields:
  "\<not> lp_ended demo_loop" "lp_timer demo_loop = None" "lp_agent demo_loop" "lp_prev demo_loop = []"
  by (simp_all add: demo_loop_def watch_start_def Let_def)

lemma burst_lists_once_witness:
  "lp_hub (watch_run (\<lambda>i. Inl ''e'') [(10, EvAgent), (60, EvAgent), (159, EvAgent)] demo_loop) = lp_hub demo_loop \<and>
   lp_hub (fire_due (\<lambda>i. Inl ''e'') 259 (watch_run (\<lambda>i. Inl ''e'') [(10, EvAgent), (60, EvAgent), (159, EvAgent)] demo_loop))
     = Broadcast (UErr ''e'') (lp_hub demo_loop)"
proof -
  have "wakes demo_loop EvAgent" "list_all (\<lambda>e. wakes demo_loop (snd e)) [(60, EvAgent), (159, EvAgent)]"
    "burst 10 (map fst [(60::nat, EvAgent), (159, EvAgent)])"
    "(259::nat) = last (10 # map fst [(60, EvAgent), (159, EvAgent)]) + debounceDelay"
    by (simp_all add: wakes_def demo_loop_fields debounceDelay_def)
  from burst_lists_once [OF demo_loop_fields(1,2) this, of "\<lambda>i. Inl ''e''"] show ?thesis
    by (simp add: sendUpdate_def)
qed

section \<open>An error that stays\<close>

text \<open>The cached update and the listed keys, while listings keep answering the same keys.\<close>

lemma same_listing_fire:
  assumes "\<And>i. due < i \<Longrightarrow> list i = Inr (lp_prev s)" and "case lp_timer s of None \<Rightarrow> True | Some d \<Rightarrow> due < d"
  shows "fire_due list now s = s \<or> fire_due list now s = s\<lparr>lp_timer := None\<rparr>"
proof (cases "lp_timer s")
  case (Some d)
  then have "list d = Inr (lp_prev s)" using assms by simp
  then show ?thesis using Some by (simp add: fire_due_def sendUpdate_def entries_equal_iff)
qed (simp add: fire_due_def)

lemma handle_event_timer:
  "handle_event now ev s = s\<lparr>lp_timer := lp_timer (handle_event now ev s), lp_agent := lp_agent (handle_event now ev s),
     lp_ended := lp_ended (handle_event now ev s)\<rparr>"
  "lp_timer (handle_event now ev s) = lp_timer s \<or> lp_timer (handle_event now ev s) = Some (now + debounceDelay)"
  by (cases ev; simp add: handle_event_def)+

lemma same_listing_turn:
  assumes "\<And>i. due < i \<Longrightarrow> list i = Inr (lp_prev s)" and "case lp_timer s of None \<Rightarrow> True | Some d \<Rightarrow> due < d" and "due \<le> now"
  shows "lp_hub (watch_turn list (now, ev) s) = lp_hub s \<and> lp_prev (watch_turn list (now, ev) s) = lp_prev s
    \<and> (case lp_timer (watch_turn list (now, ev) s) of None \<Rightarrow> True | Some d \<Rightarrow> due < d)"
proof -
  let ?f = "fire_due list now s"
  have f: "lp_hub ?f = lp_hub s" "lp_prev ?f = lp_prev s" "case lp_timer ?f of None \<Rightarrow> True | Some d \<Rightarrow> due < d"
    using same_listing_fire [where list = list and s = s and due = due and now = now, OF assms(1,2)] assms(2) by auto
  have "lp_hub (handle_event now ev ?f) = lp_hub ?f" "lp_prev (handle_event now ev ?f) = lp_prev ?f"
    by (subst handle_event_timer(1), simp)+
  then show ?thesis using f handle_event_timer(2) [of now ev ?f] assms(3)
    by (auto simp: watch_turn_def debounceDelay_def)
qed

lemma same_listing_run:
  assumes "\<And>i. due < i \<Longrightarrow> list i = Inr (lp_prev s)" and "case lp_timer s of None \<Rightarrow> True | Some d \<Rightarrow> due < d"
    and "list_all (\<lambda>e. due \<le> fst e) es"
  shows "lp_hub (watch_run list es s) = lp_hub s"
  using assms
proof (induction es arbitrary: s)
  case (Cons e es)
  obtain now ev where e: "e = (now, ev)" by (cases e)
  let ?s = "watch_turn list e s"
  have turn: "lp_hub ?s = lp_hub s" "lp_prev ?s = lp_prev s" "case lp_timer ?s of None \<Rightarrow> True | Some d \<Rightarrow> due < d"
    using same_listing_turn [where list = list and s = s and due = due and now = now and ev = ev, OF Cons.prems(1,2)] Cons.prems(3) unfolding e by simp_all
  have "lp_hub (watch_run list es ?s) = lp_hub ?s"
    using Cons.prems turn by (intro Cons.IH) simp_all
  then show ?case using turn(1) by (simp add: watch_run_def)
qed (simp add: watch_run_def)

lemma Subscribe_cached:
  assumes "hub_lastValue b = Some v"
  shows "chan_of (snd (Subscribe True b)) (fst (Subscribe True b)) = Some v"
  using assms by (simp add: Subscribe_def subscribe_register_def Let_def subscribe_replay_def try_send_def chan_of_def)

text \<open>
  C23. One listing that fails is remembered: as long as the keys are afterwards as they were before it, no event, however many
  there are, replaces the error in the cache, and every stream that is opened then starts with that old error and ends with it,
  without having sent the keys.
\<close>

theorem keys_error_sticks:
  assumes "lp_timer s = Some due" and "list due = Inl e" and "\<And>i. due < i \<Longrightarrow> list i = Inr (lp_prev s)"
    and "due \<le> now" and "list_all (\<lambda>e. due \<le> fst e) es"
  shows "case Subscribe True (lp_hub (watch_run list ((now, ev) # es) s)) of (ch, b) \<Rightarrow>
    chan_of b ch = Some (UErr e) \<and> WatchKeys ((UErr e, sent) # updates) = ([], Some (Internal, ''watch error: '' @ e))"
proof -
  let ?s = "s\<lparr>lp_hub := Broadcast (UErr e) (lp_hub s), lp_timer := None\<rparr>"
  have fired: "fire_due list now s = ?s" using assms(1,2,4) by (simp add: fire_due_def sendUpdate_def)
  have "watch_turn list (now, ev) s = watch_turn list (now, ev) ?s"
    unfolding watch_turn_def by (simp add: fired) (simp add: fire_due_def)
  then have "watch_run list ((now, ev) # es) s = watch_run list ((now, ev) # es) ?s" by (simp add: watch_run_def)
  moreover have "lp_hub (watch_run list ((now, ev) # es) ?s) = lp_hub ?s"
    using assms by (intro same_listing_run [where due = due]) simp_all
  ultimately have "lp_hub (watch_run list ((now, ev) # es) s) = Broadcast (UErr e) (lp_hub s)" by simp
  then show ?thesis using Subscribe_cached [OF Broadcast_lastValue, of "UErr e" "lp_hub s"]
    by (simp add: WatchKeys_def split_beta)
qed

lemma keys_error_sticks_witness:
  "chan_of (snd (Subscribe True (lp_hub (watch_run (\<lambda>i. if i = 200 then Inl ''e'' else Inr [])
     [(201, EvAgent), (500, EvAgent), (900, EvAgent)] (watch_turn (\<lambda>_. Inr []) (100, EvAgent) demo_loop))))) 0 = Some (UErr ''e'')"
proof -
  let ?s = "watch_turn (\<lambda>_. Inr []) (100, EvAgent) demo_loop" and ?l = "\<lambda>i. if i = (200::nat) then Inl ''e'' else Inr []"
  let ?es = "[(500, EvAgent), (900, EvAgent)]"
  let ?b = "lp_hub (watch_run ?l ((201, EvAgent) # ?es) ?s)"
  have s: "?s = demo_loop\<lparr>lp_timer := Some 200\<rparr>"
    using wake_turn [OF demo_loop_fields(1), of EvAgent 100] by (simp add: demo_loop_fields wakes_def debounceDelay_def)
  have "chan_of (snd (Subscribe True ?b)) (fst (Subscribe True ?b)) = Some (UErr ''e'')"
    using keys_error_sticks [where s = ?s and list = ?l and due = 200 and e = "''e''" and now = 201 and es = ?es]
    by (simp add: s demo_loop_fields split_beta)
  moreover have "?b = Broadcast (UErr ''e'') (Broadcast (UVal []) New_hub)"
    by (simp add: watch_run_def watch_turn_def fire_due_def handle_event_def demo_loop_def watch_start_def Let_def
        debounceDelay_def sendUpdate_def)
  then have "fst (Subscribe True ?b) = 0" by (simp add: Subscribe_def subscribe_register_def Let_def Broadcast_def New_hub_def)
  ultimately show ?thesis by simp
qed

end
