(* ===== verification/Relay.thy ===== *)
theory Relay
  imports Broadcast "HOL-Library.Sublist"
begin

text \<open>
  The \<open>Watch\<close> methods of the managers and services (\<open>config/watcher.go\<close>, \<open>hosts/watcher.go\<close>, \<open>keys/watcher.go\<close>,
  \<open>remote/watcher.go\<close>, \<open>system/watcher.go\<close>): a goroutine that copies the subscription of a client to the channel the client reads, until the
  client's context is done.  It is a step relation over the hub, the relay, its client and everything else that uses the hub.

  \<open>rl_since\<close> is not in the code: it records the value that was cached at the subscription and all values broadcast since.
\<close>

section \<open>The relay\<close>

datatype 'a relay_phase = Registering "'a option" | Waiting | Sending 'a | Returned

record 'a relay =
  rl_subCh :: nat
  rl_phase :: "'a relay_phase"
  rl_outCh :: "'a chan"
  rl_cancelled :: bool
  rl_panicked :: bool
  rl_got :: "'a list"
  rl_since :: "'a list"

type_synonym 'a relay_sys = "'a hub_sys \<times> 'a relay"

abbreviation listed :: "'a option \<Rightarrow> 'a list" where
  "listed v \<equiv> (case v of None \<Rightarrow> [] | Some x \<Rightarrow> [x])"

text \<open>\<open>Watch\<close>, up to the unlock in \<open>Subscribe\<close>; nobody but this call knows the new channel.\<close>

definition Watch_begin :: "'a hub_sys \<Rightarrow> 'a relay_sys" where
  "Watch_begin hs =
     (case hs of (b, ps) \<Rightarrow>
      case subscribe_register b of (subCh, lastVal, b') \<Rightarrow>
        ((b', replay_due True subCh lastVal @ ps),
         \<lparr>rl_subCh = subCh, rl_phase = Registering lastVal, rl_outCh = \<lparr>chan_buf = None, chan_closed = False\<rparr>,
          rl_cancelled = False, rl_panicked = False, rl_got = [], rl_since = listed lastVal\<rparr>))"

text \<open>The deferred calls of the goroutine, in their order: \<open>unsubscribe(subCh)\<close>, then \<open>close(outCh)\<close>.\<close>

definition relay_return :: "'a relay_sys \<Rightarrow> 'a relay_sys" where
  "relay_return s =
     (case s of ((b, ps), r) \<Rightarrow>
        ((Unsubscribe (rl_subCh r) b, ps),
         r\<lparr>rl_phase := Returned, rl_panicked := rl_panicked r \<or> chan_closed (rl_outCh r), rl_outCh := (rl_outCh r)\<lparr>chan_closed := True\<rparr>\<rparr>))"

definition relay_send :: "'a \<Rightarrow> 'a relay \<Rightarrow> 'a relay" where
  "relay_send update r =
     (if chan_closed (rl_outCh r) then r\<lparr>rl_panicked := True\<rparr>
      else r\<lparr>rl_phase := Waiting, rl_outCh := (rl_outCh r)\<lparr>chan_buf := Some update\<rparr>\<rparr>)"

definition closed_chan :: "'a hub \<Rightarrow> nat \<Rightarrow> bool" where
  "closed_chan b ch = (case hub_chans b ch of None \<Rightarrow> False | Some c \<Rightarrow> chan_closed c)"

lemma closed_not_open: "open_chan b ch \<Longrightarrow> \<not> closed_chan b ch"
  by (auto simp: open_chan_def closed_chan_def)

text \<open>What the goroutine can do next: the ready cases of the \<open>select\<close> where it stands.  Go takes any of them.\<close>

definition relay_ready :: "'a relay_sys \<Rightarrow> 'a relay_sys list" where
  "relay_ready s =
     (case s of ((b, ps), r) \<Rightarrow>
      let ctx_done = (if rl_cancelled r then [relay_return s] else []); subCh = rl_subCh r in
      (case rl_phase r of
         Registering lastVal \<Rightarrow>
           [((subscribe_replay True subCh lastVal b, fold remove1 (replay_due True subCh lastVal) ps), r\<lparr>rl_phase := Waiting\<rparr>)]
       | Waiting \<Rightarrow> ctx_done @
           (case chan_of b subCh of
              Some update \<Rightarrow> [((snd (recv_chan subCh b), ps), r\<lparr>rl_phase := Sending update\<rparr>)]
            | None \<Rightarrow> if closed_chan b subCh then [relay_return s] else [])
       | Sending update \<Rightarrow>
           (if chan_buf (rl_outCh r) = None \<or> chan_closed (rl_outCh r) then [((b, ps), relay_send update r)] else []) @ ctx_done
       | Returned \<Rightarrow> []))"

definition client_read :: "'a relay \<Rightarrow> 'a relay" where
  "client_read r =
     r\<lparr>rl_got := rl_got r @ listed (chan_buf (rl_outCh r)), rl_outCh := (rl_outCh r)\<lparr>chan_buf := None\<rparr>\<rparr>"

inductive relay_step :: "'a relay_sys \<Rightarrow> 'a relay_sys \<Rightarrow> bool" where
  goroutine: "s' \<in> set (relay_ready s) \<Longrightarrow> relay_step s s'"
| read: "relay_step (hs, r) (hs, client_read r)"
| cancel: "relay_step (hs, r) (hs, r\<lparr>rl_cancelled := True\<rparr>)"
| broadcast: "relay_step ((b, ps), r) ((Broadcast v b, ps), r\<lparr>rl_since := rl_since r @ [v]\<rparr>)"
| other_subscribe: "subscribe_register b = (ch, lastVal, b') \<Longrightarrow> relay_step ((b, ps), r) ((b', replay_due replay ch lastVal @ ps), r)"
| other_replay: "(ch, v) \<in> set ps \<Longrightarrow> ch \<noteq> rl_subCh r \<Longrightarrow>
    relay_step ((b, ps), r) ((subscribe_replay True ch (Some v) b, remove1 (ch, v) ps), r)"
| other_unsubscribe: "ch \<notin> fst ` set ps \<Longrightarrow> ch \<noteq> rl_subCh r \<Longrightarrow> relay_step ((b, ps), r) ((Unsubscribe ch b, ps), r)"
| other_receive: "ch \<noteq> rl_subCh r \<Longrightarrow> relay_step ((b, ps), r) ((snd (recv_chan ch b), ps), r)"

inductive relay_reachable :: "'a relay_sys \<Rightarrow> bool" where
  start: "hub_reachable False hs \<Longrightarrow> relay_reachable (Watch_begin hs)"
| step: "relay_reachable s \<Longrightarrow> relay_step s t \<Longrightarrow> relay_reachable t"

section \<open>The invariant\<close>

definition held :: "'a relay_phase \<Rightarrow> 'a list" where
  "held p = (case p of Sending update \<Rightarrow> [update] | _ \<Rightarrow> [])"

text \<open>What is on its way to the client, oldest first.\<close>

definition pipeline :: "'a relay_sys \<Rightarrow> 'a list" where
  "pipeline s = (case s of ((b, ps), r) \<Rightarrow> listed (chan_buf (rl_outCh r)) @ held (rl_phase r) @ listed (chan_of b (rl_subCh r)))"

definition phase_ok :: "'a relay_sys \<Rightarrow> bool" where
  "phase_ok s \<longleftrightarrow> (case s of ((b, ps), r) \<Rightarrow>
     (case rl_phase r of
        Registering lastVal \<Rightarrow>
          filter (\<lambda>p. fst p = rl_subCh r) ps = replay_due True (rl_subCh r) lastVal \<and> rl_got r = []
          \<and> chan_buf (rl_outCh r) = None \<and> (chan_of b (rl_subCh r) = None \<longrightarrow> rl_since r = listed lastVal)
      | _ \<Rightarrow> filter (\<lambda>p. fst p = rl_subCh r) ps = []))"

definition relay_inv :: "'a relay_sys \<Rightarrow> bool" where
  "relay_inv s \<longleftrightarrow> (case s of ((b, ps), r) \<Rightarrow>
     hub_inv (b, ps) \<and> rl_subCh r \<in> dom (hub_chans b) \<and> phase_ok s
     \<and> (rl_subCh r \<in> set (hub_subscribers b) \<longleftrightarrow> rl_phase r \<noteq> Returned)
     \<and> (chan_closed (rl_outCh r) \<longleftrightarrow> rl_phase r = Returned) \<and> \<not> rl_panicked r
     \<and> subseq (rl_got r @ pipeline s) (rl_since r))"

lemma chan_of_Broadcast:
  assumes "hub_inv (b, ps)"
  shows "chan_of (Broadcast v b) ch =
    (if ch \<in> set (hub_subscribers b) then (case chan_of b ch of None \<Rightarrow> Some v | Some w \<Rightarrow> Some w) else chan_of b ch)"
proof -
  let ?b = "b\<lparr>hub_lastValue := Some v\<rparr>"
  have same: "open_chan ?b d \<longleftrightarrow> open_chan b d" "chan_of ?b d = chan_of b d" for d by (simp_all add: open_chan_def chan_of_def)
  show ?thesis
  proof (cases "ch \<in> set (hub_subscribers b)")
    case True
    then have "chan_of (Broadcast v b) ch = (case chan_of ?b ch of None \<Rightarrow> Some v | Some w \<Rightarrow> Some w)"
      unfolding Broadcast_def using assms same by (intro fold_try_send_chan) (simp_all add: hub_inv_def)
    then show ?thesis using True same by simp
  next
    case False
    then have "hub_chans (Broadcast v b) ch = hub_chans ?b ch" unfolding Broadcast_def by (rule fold_try_send_other)
    then show ?thesis using False by (simp add: chan_of_def)
  qed
qed

lemma Broadcast_fields [hub_simps]:
  "hub_subscribers (Broadcast v b) = hub_subscribers b" "dom (hub_chans (Broadcast v b)) = dom (hub_chans b)"
  by (simp_all add: Broadcast_def hub_simps)

lemma chan_of_other:
  assumes "d \<noteq> ch"
  shows "chan_of (try_send v ch b) d = chan_of b d" "chan_of (snd (recv_chan ch b)) d = chan_of b d"
    "chan_of (Unsubscribe ch b) d = chan_of b d"
  using assms by (auto simp: chan_of_def hub_simps recv_chan_def Unsubscribe_def close_chan_def split: option.splits)

lemma chan_of_Unsubscribe: "chan_of (Unsubscribe ch b) d = chan_of b d"
  by (cases "d = ch") (auto simp: chan_of_def Unsubscribe_def close_chan_def split: option.splits)

lemma chan_of_recv: "chan_of (snd (recv_chan ch b)) ch = None"
  by (auto simp: chan_of_def recv_chan_def split: option.splits)

lemma Unsubscribe_fields [hub_simps]:
  "set (hub_subscribers (Unsubscribe ch b)) = (if distinct (hub_subscribers b) then set (hub_subscribers b) - {ch}
     else set (hub_subscribers (Unsubscribe ch b)))"
  "dom (hub_chans (Unsubscribe ch b)) = dom (hub_chans b)"
  by (auto simp: Unsubscribe_def hub_simps)

lemma pending_removed:
  "filter (\<lambda>p. fst p = ch) ps = [(ch, v)] \<Longrightarrow> filter (\<lambda>p. fst p = ch) (remove1 (ch, v) ps) = []"
  by (simp add: filter_remove1)

lemma pending_other:
  "d \<noteq> ch \<Longrightarrow> filter (\<lambda>p. fst p = ch) (remove1 (d, v) ps) = filter (\<lambda>p. fst p = ch) ps"
  by (simp add: remove1_filter_not filter_remove1 remove1_idem)

lemma subseq_grow: "subseq xs ys \<Longrightarrow> subseq (xs @ [v]) (ys @ [v])"
  by simp

section \<open>The invariant is kept\<close>

lemma inv_begin:
  assumes "hub_inv hs"
  shows "relay_inv (Watch_begin hs)"
proof -
  obtain b ps where hs: "hs = (b, ps)" by (cases hs)
  let ?ch = "hub_next b"
  have inv: "hub_inv (b, ps)" using assms hs by simp
  then have new: "?ch \<notin> dom (hub_chans b)" by (auto simp: hub_inv_def)
  then have "\<not> open_chan b ?ch" by (auto simp: open_chan_def)
  then have nosub: "?ch \<notin> set (hub_subscribers b)" using inv by (simp add: hub_inv_def)
  then have none: "filter (\<lambda>p. fst p = ?ch) ps = []" using inv by (auto simp: hub_inv_def filter_empty_conv)
  obtain ch lv b' where reg: "subscribe_register b = (ch, lv, b')" by (cases "subscribe_register b")
  have ch: "ch = ?ch" "chan_of b' ch = None" "ch \<in> dom (hub_chans b')" "ch \<in> set (hub_subscribers b')"
    using reg by (auto simp: subscribe_register_def Let_def chan_of_def)
  have "hub_inv (b', replay_due True ch lv @ ps)" by (rule hub_inv_register [OF inv reg])
  moreover have "filter (\<lambda>p. fst p = ch) (replay_due True ch lv @ ps) = replay_due True ch lv"
    using none ch(1) by (simp add: replay_due_def split: option.split)
  ultimately show ?thesis using ch
    by (simp add: relay_inv_def Watch_begin_def hs reg phase_ok_def pipeline_def held_def)
qed

lemma inv_read: "relay_inv (hs, r) \<Longrightarrow> relay_inv (hs, client_read r)"
  by (cases hs) (auto simp: relay_inv_def client_read_def phase_ok_def pipeline_def split: relay_phase.splits)

lemma inv_cancel: "relay_inv (hs, r) \<Longrightarrow> relay_inv (hs, r\<lparr>rl_cancelled := True\<rparr>)"
  by (cases hs) (auto simp: relay_inv_def phase_ok_def pipeline_def split: relay_phase.splits)

lemma inv_broadcast:
  assumes "relay_inv ((b, ps), r)"
  shows "relay_inv ((Broadcast v b, ps), r\<lparr>rl_since := rl_since r @ [v]\<rparr>)"
proof -
  have inv: "hub_inv (b, ps)" using assms by (simp add: relay_inv_def)
  have sub: "subseq (rl_got r @ pipeline ((b, ps), r)) (rl_since r)" using assms by (simp add: relay_inv_def)
  then have "subseq (rl_got r @ pipeline ((Broadcast v b, ps), r\<lparr>rl_since := rl_since r @ [v]\<rparr>)) (rl_since r @ [v])"
    using subseq_grow [OF sub, of v] subseq_rev_drop_many [OF sub, of "[v]"]
    by (cases "chan_of b (rl_subCh r)") (simp_all add: pipeline_def chan_of_Broadcast [OF inv])
  moreover have "phase_ok ((Broadcast v b, ps), r\<lparr>rl_since := rl_since r @ [v]\<rparr>)"
    using assms by (auto simp: relay_inv_def phase_ok_def chan_of_Broadcast [OF inv] split: relay_phase.splits option.splits)
  ultimately show ?thesis using assms hub_inv_broadcast [OF inv, of v]
    by (auto simp: relay_inv_def hub_simps)
qed

text \<open>The calls of others leave the relay's channel alone.\<close>

lemma inv_others:
  assumes "relay_inv ((b, ps), r)" and "hub_inv (b', ps')"
    and "chan_of b' (rl_subCh r) = chan_of b (rl_subCh r)" and "rl_subCh r \<in> dom (hub_chans b')"
    and "rl_subCh r \<in> set (hub_subscribers b') \<longleftrightarrow> rl_subCh r \<in> set (hub_subscribers b)"
    and "filter (\<lambda>p. fst p = rl_subCh r) ps' = filter (\<lambda>p. fst p = rl_subCh r) ps"
  shows "relay_inv ((b', ps'), r)"
  using assms by (auto simp: relay_inv_def phase_ok_def pipeline_def split: relay_phase.splits)

lemma inv_subscribe:
  assumes inv: "relay_inv ((b, ps), r)" and reg: "subscribe_register b = (ch, lastVal, b')"
  shows "relay_inv ((b', replay_due replay ch lastVal @ ps), r)"
proof -
  have h: "hub_inv (b, ps)" and dom: "rl_subCh r \<in> dom (hub_chans b)" using inv by (simp_all add: relay_inv_def)
  then have "rl_subCh r \<noteq> hub_next b" by (auto simp: hub_inv_def)
  with reg dom show ?thesis
    by (intro inv_others [OF inv hub_inv_register [OF h reg]])
      (auto simp: subscribe_register_def Let_def chan_of_def replay_due_def split: option.split)
qed

lemma inv_replay:
  assumes inv: "relay_inv ((b, ps), r)" and pend: "(ch, v) \<in> set ps" and ch: "ch \<noteq> rl_subCh r"
  shows "relay_inv ((subscribe_replay True ch (Some v) b, remove1 (ch, v) ps), r)"
proof -
  have h: "hub_inv (b, ps)" and dom: "rl_subCh r \<in> dom (hub_chans b)" using inv by (simp_all add: relay_inv_def)
  have "hub_inv (subscribe_replay True ch (Some v) b, remove1 (ch, v) ps)"
    by (rule hub_inv_step [OF hub_step.replay [OF pend] h])
  with dom ch show ?thesis
    by (intro inv_others [OF inv]) (simp_all add: subscribe_replay_def chan_of_other hub_simps pending_other)
qed

lemma inv_unsubscribe:
  assumes inv: "relay_inv ((b, ps), r)" and pend: "ch \<notin> fst ` set ps" and ch: "ch \<noteq> rl_subCh r"
  shows "relay_inv ((Unsubscribe ch b, ps), r)"
proof -
  have h: "hub_inv (b, ps)" and dom: "rl_subCh r \<in> dom (hub_chans b)" using inv by (simp_all add: relay_inv_def)
  have "distinct (hub_subscribers b)" using h by (simp add: hub_inv_def)
  with dom ch show ?thesis
    by (intro inv_others [OF inv hub_inv_unsubscribe [OF h pend]]) (auto simp: chan_of_Unsubscribe hub_simps)
qed

lemma inv_receive:
  assumes inv: "relay_inv ((b, ps), r)" and ch: "ch \<noteq> rl_subCh r"
  shows "relay_inv ((snd (recv_chan ch b), ps), r)"
proof -
  have h: "hub_inv (b, ps)" and dom: "rl_subCh r \<in> dom (hub_chans b)" using inv by (simp_all add: relay_inv_def)
  with ch show ?thesis
    by (intro inv_others [OF inv hub_inv_receive [OF h]]) (simp_all add: chan_of_other hub_simps)
qed

lemma inv_registered:
  assumes inv: "relay_inv ((b, ps), r)" and reg: "rl_phase r = Registering lastVal"
  shows "relay_inv ((subscribe_replay True (rl_subCh r) lastVal b, fold remove1 (replay_due True (rl_subCh r) lastVal) ps), r\<lparr>rl_phase := Waiting\<rparr>)"
proof (cases lastVal)
  case None
  then show ?thesis using inv reg
    by (auto simp: relay_inv_def phase_ok_def pipeline_def held_def subscribe_replay_def replay_due_def)
next
  case (Some v)
  let ?ch = "rl_subCh r"
  let ?b = "try_send v ?ch b" and ?ps = "remove1 (?ch, v) ps"
  have h: "hub_inv (b, ps)" and sub: "?ch \<in> set (hub_subscribers b)" and pend: "filter (\<lambda>p. fst p = ?ch) ps = [(?ch, v)]"
    using inv reg Some by (simp_all add: relay_inv_def phase_ok_def replay_due_def)
  from pend have pending: "(?ch, v) \<in> set ps" by (metis filter_is_subset list.set_intros(1) subsetD)
  then have h': "hub_inv (?b, ?ps)"
    using hub_inv_step [OF hub_step.replay [OF pending] h] by (simp add: subscribe_replay_def)
  have "open_chan b ?ch" using h sub by (simp add: hub_inv_def)
  then have c: "chan_of ?b ?ch = (case chan_of b ?ch of None \<Rightarrow> Some v | Some w \<Rightarrow> Some w)" by (rule try_send_open)
  have "filter (\<lambda>p. fst p = ?ch) ?ps = []" by (rule pending_removed [OF pend])
  moreover have "subseq (rl_got r @ pipeline ((?b, ?ps), r\<lparr>rl_phase := Waiting\<rparr>)) (rl_since r)"
    using inv reg Some c by (cases "chan_of b ?ch") (auto simp: relay_inv_def phase_ok_def pipeline_def held_def)
  ultimately show ?thesis using inv reg Some h'
    by (simp add: relay_inv_def phase_ok_def subscribe_replay_def replay_due_def hub_simps)
qed

lemma subseq_without_middle: "subseq (xs @ ys @ zs) ws \<Longrightarrow> subseq (xs @ zs) ws"
  by (meson list_emb_append_mono subseq_order.order_refl subseq_order.trans subseq_drop_many)

lemma inv_return:
  assumes inv: "relay_inv ((b, ps), r)" and ph: "rl_phase r = Waiting \<or> (\<exists>u. rl_phase r = Sending u)"
  shows "relay_inv (relay_return ((b, ps), r))"
proof -
  let ?ch = "rl_subCh r" and ?r = "r\<lparr>rl_phase := Returned, rl_outCh := (rl_outCh r)\<lparr>chan_closed := True\<rparr>\<rparr>"
  have h: "hub_inv (b, ps)" and pend: "filter (\<lambda>p. fst p = ?ch) ps = []" and closed: "\<not> chan_closed (rl_outCh r)" "\<not> rl_panicked r"
    using inv ph by (auto simp: relay_inv_def phase_ok_def)
  have none: "?ch \<notin> fst ` set ps" using pend by (auto simp: filter_empty_conv)
  have d: "distinct (hub_subscribers b)" using h by (simp add: hub_inv_def)
  have "subseq ((rl_got r @ listed (chan_buf (rl_outCh r))) @ held (rl_phase r) @ listed (chan_of b ?ch)) (rl_since r)"
    using inv by (simp add: relay_inv_def pipeline_def)
  from subseq_without_middle [OF this]
  have "subseq (rl_got r @ pipeline ((Unsubscribe ?ch b, ps), ?r)) (rl_since r)"
    by (simp add: pipeline_def held_def chan_of_Unsubscribe)
  moreover have "relay_return ((b, ps), r) = ((Unsubscribe ?ch b, ps), ?r)"
    using closed by (simp add: relay_return_def)
  ultimately show ?thesis using inv hub_inv_unsubscribe [OF h none] d pend closed
    by (simp add: relay_inv_def phase_ok_def hub_simps)
qed

lemma inv_take:
  assumes inv: "relay_inv ((b, ps), r)" and ph: "rl_phase r = Waiting" and u: "chan_of b (rl_subCh r) = Some u"
  shows "relay_inv ((snd (recv_chan (rl_subCh r) b), ps), r\<lparr>rl_phase := Sending u\<rparr>)"
proof -
  have h: "hub_inv (b, ps)" using inv by (simp add: relay_inv_def)
  show ?thesis using inv ph u hub_inv_receive [OF h, of "rl_subCh r"]
    by (simp add: relay_inv_def phase_ok_def pipeline_def held_def chan_of_recv hub_simps)
qed

lemma inv_send:
  assumes inv: "relay_inv ((b, ps), r)" and ph: "rl_phase r = Sending u"
    and "chan_buf (rl_outCh r) = None \<or> chan_closed (rl_outCh r)"
  shows "relay_inv ((b, ps), relay_send u r)"
  using assms by (auto simp: relay_inv_def phase_ok_def pipeline_def held_def relay_send_def)

lemma inv_goroutine: "s' \<in> set (relay_ready s) \<Longrightarrow> relay_inv s \<Longrightarrow> relay_inv s'"
proof -
  assume ready: "s' \<in> set (relay_ready s)" and inv: "relay_inv s"
  obtain b ps r where s: "s = ((b, ps), r)" by (metis surj_pair)
  have open_sub: "open_chan b (rl_subCh r)" if "rl_phase r \<noteq> Returned"
    using inv that by (simp add: s relay_inv_def hub_inv_def)
  show ?thesis
  proof (cases "rl_phase r")
    case (Registering lastVal)
    then have "s' = ((subscribe_replay True (rl_subCh r) lastVal b, fold remove1 (replay_due True (rl_subCh r) lastVal) ps), r\<lparr>rl_phase := Waiting\<rparr>)"
      using ready by (simp add: s relay_ready_def Let_def)
    with inv_registered [of b ps r lastVal] inv Registering show ?thesis by (simp add: s)
  next
    case Waiting
    with ready inv open_sub show ?thesis
      by (auto simp: s relay_ready_def Let_def inv_return inv_take closed_not_open split: option.splits if_splits)
  next
    case (Sending u)
    with ready inv show ?thesis
      by (auto simp: s relay_ready_def Let_def inv_return inv_send split: if_splits)
  next
    case Returned
    with ready show ?thesis by (simp add: s relay_ready_def Let_def)
  qed
qed

lemma relay_inv_step: "relay_step s t \<Longrightarrow> relay_inv s \<Longrightarrow> relay_inv t"
  by (induction rule: relay_step.induct)
    (blast intro: inv_goroutine inv_read inv_cancel inv_broadcast inv_subscribe inv_replay inv_unsubscribe inv_receive)+

lemma relay_inv_reachable: "relay_reachable s \<Longrightarrow> relay_inv s"
  by (induction rule: relay_reachable.induct) (blast intro: inv_begin hub_inv_reachable relay_inv_step)+

section \<open>What a client gets\<close>

text \<open>
  C20. However the steps of a \<open>Watch\<close>, of its client, of the broadcasts and of all other subscribers interleave: the client gets
  updates only in the order in which they were broadcast, each at most as often as it was broadcast; nothing is sent on or
  closed twice on a closed channel; and once the goroutine has returned its subscription is removed and closed and the client's channel is
  closed, which they are not before.
\<close>

theorem relay_in_order:
  assumes "relay_reachable ((b, ps), r)"
  shows "subseq (rl_got r) (rl_since r) \<and> \<not> hub_panicked b \<and> \<not> rl_panicked r \<and>
    (if rl_phase r = Returned
     then chan_closed (rl_outCh r) \<and> rl_subCh r \<notin> set (hub_subscribers b) \<and> \<not> open_chan b (rl_subCh r)
     else \<not> chan_closed (rl_outCh r) \<and> rl_subCh r \<in> set (hub_subscribers b) \<and> open_chan b (rl_subCh r))"
proof -
  have inv: "relay_inv ((b, ps), r)" by (rule relay_inv_reachable [OF assms])
  then have "hub_inv (b, ps)" by (simp add: relay_inv_def)
  moreover have "subseq (rl_got r @ pipeline ((b, ps), r)) (rl_since r)" using inv by (simp add: relay_inv_def)
  then have "subseq (rl_got r) (rl_since r)" by (metis append_Nil2 subseq_without_middle)
  ultimately show ?thesis using inv by (auto simp: relay_inv_def hub_inv_def)
qed

section \<open>A client that reads\<close>

text \<open>One round of a client that reads all the time: it reads, then the goroutine takes a step, if it can.\<close>

definition reading_round :: "'a relay_sys \<Rightarrow> 'a relay_sys" where
  "reading_round s =
     (case s of (hs, r) \<Rightarrow>
      let s1 = (hs, client_read r) in
      case relay_ready s1 of [] \<Rightarrow> s1 | t # _ \<Rightarrow> t)"

lemma reading_reachable: "relay_reachable s \<Longrightarrow> relay_reachable (reading_round s)"
proof -
  assume reach: "relay_reachable s"
  obtain hs r where s: "s = (hs, r)" by (cases s)
  have "relay_reachable (hs, client_read r)" using reach s relay_reachable.step relay_step.read by blast
  then show ?thesis
    by (cases "relay_ready (hs, client_read r)")
      (auto simp: s reading_round_def intro: relay_reachable.step [OF _ relay_step.goroutine])
qed

lemma reading_rounds_reachable: "relay_reachable s \<Longrightarrow> relay_reachable ((reading_round ^^ n) s)"
  by (induction n) (auto intro: reading_reachable)

definition serving :: "'a relay_sys \<Rightarrow> bool" where
  "serving s \<longleftrightarrow> (case s of ((b, ps), r) \<Rightarrow>
     \<not> rl_cancelled r \<and> (rl_phase r = Waiting \<or> held (rl_phase r) \<noteq> []) \<and> open_chan b (rl_subCh r) \<and> \<not> chan_closed (rl_outCh r))"

text \<open>The rounds on the three places where an update can be.\<close>

lemma reading_Sending:
  assumes "serving ((b, ps), r)" and "rl_phase r = Sending u"
  shows "reading_round ((b, ps), r) =
    ((b, ps), r\<lparr>rl_phase := Waiting, rl_outCh := (rl_outCh r)\<lparr>chan_buf := Some u\<rparr>, rl_got := rl_got r @ listed (chan_buf (rl_outCh r))\<rparr>)"
  using assms by (simp add: serving_def reading_round_def Let_def client_read_def relay_ready_def relay_send_def)

lemma reading_take:
  assumes "serving ((b, ps), r)" and "rl_phase r = Waiting" and "chan_of b (rl_subCh r) = Some u"
  shows "reading_round ((b, ps), r) =
    ((snd (recv_chan (rl_subCh r) b), ps),
     r\<lparr>rl_phase := Sending u, rl_outCh := (rl_outCh r)\<lparr>chan_buf := None\<rparr>, rl_got := rl_got r @ listed (chan_buf (rl_outCh r))\<rparr>)"
  using assms by (simp add: serving_def reading_round_def Let_def client_read_def relay_ready_def)

lemma reading_idle:
  assumes "serving ((b, ps), r)" and "rl_phase r = Waiting" and "chan_of b (rl_subCh r) = None"
  shows "reading_round ((b, ps), r) = ((b, ps), client_read r)"
  using assms by (simp add: serving_def reading_round_def Let_def client_read_def relay_ready_def closed_not_open)

text \<open>What is left to do: three moves for an update in the subscription, two for the held one, one for the buffered one.\<close>

definition moves :: "'a relay_sys \<Rightarrow> nat" where
  "moves s = (case s of ((b, ps), r) \<Rightarrow>
     3 * length (listed (chan_of b (rl_subCh r))) + 2 * length (held (rl_phase r)) + length (listed (chan_buf (rl_outCh r))))"

lemma moves_le: "moves s \<le> 6"
  by (auto simp: moves_def held_def split: prod.split option.split relay_phase.split)

lemma moves_0: "moves s = 0 \<Longrightarrow> pipeline s = []"
  by (auto simp: moves_def pipeline_def split: prod.splits option.splits)

definition got :: "'a relay_sys \<Rightarrow> 'a list" where "got s = rl_got (snd s)"

lemma reading_progress:
  assumes "serving s"
  shows "serving (reading_round s) \<and> got (reading_round s) @ pipeline (reading_round s) = got s @ pipeline s
    \<and> moves (reading_round s) \<le> moves s - 1 \<and> hub_lastValue (fst (fst (reading_round s))) = hub_lastValue (fst (fst s))"
proof -
  obtain b ps r where s: "s = ((b, ps), r)" by (metis surj_pair)
  have last: "hub_lastValue (snd (recv_chan ch b)) = hub_lastValue b" for ch by (simp add: recv_chan_def split: option.split)
  consider (Sending) u where "rl_phase r = Sending u"
    | (take) u where "rl_phase r = Waiting" "chan_of b (rl_subCh r) = Some u"
    | (idle) "rl_phase r = Waiting" "chan_of b (rl_subCh r) = None"
    using assms by (auto simp: s serving_def held_def split: relay_phase.splits)
  then show ?thesis
  proof cases
    case Sending
    then show ?thesis using assms unfolding s reading_Sending [OF assms [unfolded s] Sending]
      by (auto simp: serving_def pipeline_def held_def moves_def got_def split: option.split)
  next
    case take
    then show ?thesis using assms unfolding s reading_take [OF assms [unfolded s] take]
      by (auto simp: serving_def pipeline_def held_def moves_def got_def chan_of_recv hub_simps last split: option.split)
  next
    case idle
    then show ?thesis using assms unfolding s reading_idle [OF assms [unfolded s] idle]
      by (auto simp: serving_def pipeline_def held_def moves_def got_def client_read_def split: option.split)
  qed
qed

lemma reading_rounds:
  assumes "serving s"
  shows "serving ((reading_round ^^ n) s) \<and> got ((reading_round ^^ n) s) @ pipeline ((reading_round ^^ n) s) = got s @ pipeline s
    \<and> moves ((reading_round ^^ n) s) \<le> moves s - n \<and> hub_lastValue (fst (fst ((reading_round ^^ n) s))) = hub_lastValue (fst (fst s))"
proof (induction n)
  case (Suc n)
  then show ?case using reading_progress [of "(reading_round ^^ n) s"] by auto
qed (use assms in simp)

text \<open>
  C21. What a broadcast is to a client that then reads on: it gets all updates that were on their way, in order, and after
  them the new one if its subscription had room.  Otherwise the new update is lost for good: the client has read everything there
  is, the goroutine waits, and what the client got last is not the current value that every new subscriber gets.
\<close>

theorem delivered_or_lost:
  assumes "relay_reachable ((b, ps), r)" and "rl_phase r = Waiting \<or> (\<exists>u. rl_phase r = Sending u)" and "\<not> rl_cancelled r"
  shows "let t = (reading_round ^^ 6) ((Broadcast v b, ps), r\<lparr>rl_since := rl_since r @ [v]\<rparr>) in
    relay_reachable t \<and> pipeline t = [] \<and> hub_lastValue (fst (fst t)) = Some v \<and>
    got t = rl_got r @ pipeline ((b, ps), r) @ (if chan_of b (rl_subCh r) = None then [v] else [])"
proof -
  let ?s = "((Broadcast v b, ps), r\<lparr>rl_since := rl_since r @ [v]\<rparr>)"
  let ?t = "(reading_round ^^ 6) ?s"
  have reach: "relay_reachable ?s" by (rule relay_reachable.step [OF assms(1) relay_step.broadcast])
  have inv: "relay_inv ((b, ps), r)" and inv': "relay_inv ?s" using assms(1) reach by (blast intro: relay_inv_reachable)+
  then have h: "hub_inv (b, ps)" and h': "hub_inv (Broadcast v b, ps)" and sub: "rl_subCh r \<in> set (hub_subscribers b)"
    and closed: "\<not> chan_closed (rl_outCh r)"
    using assms(2) by (auto simp: relay_inv_def)
  have "open_chan (Broadcast v b) (rl_subCh r)" using h' sub by (simp add: hub_inv_def hub_simps)
  then have serving: "serving ?s" using assms(2,3) closed by (auto simp: serving_def held_def)
  have "pipeline ?s = pipeline ((b, ps), r) @ (if chan_of b (rl_subCh r) = None then [v] else [])"
    using sub by (simp add: pipeline_def chan_of_Broadcast [OF h] split: option.split)
  moreover have "pipeline ?t = []" using reading_rounds [OF serving, of 6] moves_le [of ?s] by (intro moves_0) linarith
  moreover have "got ?t @ pipeline ?t = got ?s @ pipeline ?s" using reading_rounds [OF serving, of 6] by blast
  moreover have "hub_lastValue (fst (fst ?t)) = Some v" using reading_rounds [OF serving, of 6] by simp
  ultimately show ?thesis using reading_rounds_reachable [OF reach, of 6] by (simp add: Let_def got_def)
qed

text \<open>A client that does not read while four updates come.\<close>

definition goes :: "'a relay_sys \<Rightarrow> 'a relay_sys" where
  "goes s = (case relay_ready s of [] \<Rightarrow> s | t # _ \<Rightarrow> t)"

definition publish :: "'a \<Rightarrow> 'a relay_sys \<Rightarrow> 'a relay_sys" where
  "publish v s = (case s of ((b, ps), r) \<Rightarrow> ((Broadcast v b, ps), r\<lparr>rl_since := rl_since r @ [v]\<rparr>))"

lemma goes_reachable: "relay_reachable s \<Longrightarrow> relay_reachable (goes s)"
  by (cases "relay_ready s") (simp_all add: goes_def relay_reachable.step [OF _ relay_step.goroutine])

lemma publish_reachable: "relay_reachable s \<Longrightarrow> relay_reachable (publish v s)"
  by (cases s) (auto simp: publish_def intro: relay_reachable.step relay_step.broadcast)

definition not_read :: "nat relay_sys" where
  "not_read = publish 3 (goes (publish 2 (goes (goes (publish 1 (goes (Watch_begin (New_hub, []))))))))"

lemma not_read_reachable: "relay_reachable not_read"
  unfolding not_read_def by (intro publish_reachable goes_reachable relay_reachable.start hub_reachable.start)

lemma not_read_state:
  "case not_read of ((b, ps), r) \<Rightarrow> rl_phase r = Sending 2 \<and> \<not> rl_cancelled r \<and> rl_got r = [] \<and> rl_subCh r = 0
     \<and> chan_of b 0 = Some 3 \<and> pipeline ((b, ps), r) = [1, 2, 3]"
  by code_simp

lemma relay_in_order_witness:
  "case not_read of ((b, ps), r) \<Rightarrow> open_chan b (rl_subCh r) \<and> subseq (rl_got r) (rl_since r)"
proof -
  obtain b ps r where s: "not_read = ((b, ps), r)" by (metis surj_pair)
  have "rl_phase r = Sending 2" using not_read_state by (simp add: s)
  then show ?thesis using relay_in_order [OF not_read_reachable [unfolded s]] by (simp add: s)
qed

lemma delivered_or_lost_witness:
  "\<exists>t. relay_reachable t \<and> pipeline t = [] \<and> got t = [1, 2, 3] \<and> hub_lastValue (fst (fst t)) = Some (4 :: nat)"
proof -
  obtain b ps r where s: "not_read = ((b, ps), r)" by (metis surj_pair)
  have "rl_phase r = Sending 2" "\<not> rl_cancelled r" "rl_got r = []" "rl_subCh r = 0" "chan_of b 0 = Some 3"
    "pipeline ((b, ps), r) = [1, 2, 3]"
    using not_read_state by (simp_all add: s)
  then show ?thesis using delivered_or_lost [OF not_read_reachable [unfolded s], of 4]
    by (intro exI [of _ "(reading_round ^^ 6) ((Broadcast 4 b, ps), r\<lparr>rl_since := rl_since r @ [4]\<rparr>)"]) (simp add: Let_def)
qed

end
