(* ===== verification/AgentLifecycle.thy ===== *)
theory AgentLifecycle
  imports ManagedAgent
begin

text \<open>
  The goroutines of the managed agent (\<open>agent/server.go\<close>): \<open>Start\<close>, \<open>acceptLoop\<close>, \<open>handleConnection\<close>, \<open>expiryLoop\<close> and
  \<open>Stop\<close>, which waits for all of them, as a step relation around the requests of \<open>ManagedAgent\<close>.  A connection is a number; the client ends it,
  and nothing in the code does.
\<close>

section \<open>The goroutines\<close>

datatype stop_phase = NotStopping | StopClosed | StopWaiting | StopReturned

record 'sg agent_life =
  al_agent :: "'sg managedAgent"
  al_accepting :: bool
  al_expiring :: bool
  al_conns :: "nat list"
  al_wg :: nat
  al_listener :: bool
  al_stop :: stop_phase
  al_socket :: bool
  al_panicked :: bool

definition not_started :: "'sg managedAgent \<Rightarrow> 'sg agent_life" where
  "not_started m = \<lparr>al_agent = m, al_accepting = False, al_expiring = False, al_conns = [], al_wg = 0, al_listener = False,
     al_stop = NotStopping, al_socket = False, al_panicked = False\<rparr>"

text \<open>\<open>Start\<close>, with the two goroutines that it starts.  A listener that is closed removes its socket.\<close>

definition Start_life :: "bool \<Rightarrow> bool \<Rightarrow> bool \<Rightarrow> 'sg agent_life \<Rightarrow> 'sg agent_life \<times> agent_err option" where
  "Start_life remove_ok listen_ok chmod_ok s =
     (case Start_agent remove_ok listen_ok chmod_ok (al_agent s) of
        (m, Some e) \<Rightarrow> (s\<lparr>al_agent := m, al_socket := (if remove_ok then False else al_socket s)\<rparr>, Some e)
      | (m, None) \<Rightarrow>
          (s\<lparr>al_agent := m, al_listener := True, al_socket := True, al_accepting := True, al_expiring := True,
             al_wg := al_wg s + 2\<rparr>, None))"

text \<open>\<open>stopChan\<close> is closed.\<close>

definition stopping :: "'sg agent_life \<Rightarrow> bool" where "stopping s \<longleftrightarrow> ag_stopped (al_agent s)"

text \<open>\<open>wg.Done()\<close> panics below zero.\<close>

definition wg_done :: "'sg agent_life \<Rightarrow> 'sg agent_life" where
  "wg_done s = (if al_wg s = 0 then s\<lparr>al_panicked := True\<rparr> else s\<lparr>al_wg := al_wg s - 1\<rparr>)"

text \<open>\<open>acceptLoop\<close>: a connection, or the error of \<open>Accept\<close>, which ends the loop only when the agent is stopping.\<close>

definition accept_conn :: "nat \<Rightarrow> 'sg agent_life \<Rightarrow> 'sg agent_life" where
  "accept_conn c s = s\<lparr>al_wg := Suc (al_wg s), al_conns := c # al_conns s\<rparr>"

definition accept_error :: "'sg agent_life \<Rightarrow> 'sg agent_life" where
  "accept_error s = (if stopping s then wg_done (s\<lparr>al_accepting := False\<rparr>) else s)"

text \<open>\<open>handleConnection\<close> returns: \<open>ServeAgent\<close> has read the end of the connection.\<close>

definition conn_ends :: "nat \<Rightarrow> 'sg agent_life \<Rightarrow> 'sg agent_life" where
  "conn_ends c s = wg_done (s\<lparr>al_conns := remove1 c (al_conns s)\<rparr>)"

text \<open>\<open>expiryLoop\<close>: a tick, or the end.\<close>

definition expiry_tick :: "int \<Rightarrow> 'sg agent_life \<Rightarrow> 'sg agent_life" where
  "expiry_tick now s = s\<lparr>al_agent := expireKeys now (al_agent s)\<rparr>"

definition expiry_ends :: "'sg agent_life \<Rightarrow> 'sg agent_life" where
  "expiry_ends s = wg_done (s\<lparr>al_expiring := False\<rparr>)"

text \<open>\<open>Stop\<close> in three steps: \<open>close(stopChan)\<close>; the listener; and, when \<open>wg.Wait\<close> returns, the socket.\<close>

definition stop_closes :: "'sg agent_life \<Rightarrow> 'sg agent_life" where
  "stop_closes s =
     (case Stop_agent (al_agent s) of
        None \<Rightarrow> s\<lparr>al_panicked := True\<rparr>
      | Some m \<Rightarrow> s\<lparr>al_agent := m, al_stop := StopClosed\<rparr>)"

definition stop_listener :: "'sg agent_life \<Rightarrow> 'sg agent_life" where
  "stop_listener s =
     (if ag_listening (al_agent s) then s\<lparr>al_listener := False, al_socket := False, al_stop := StopWaiting\<rparr>
      else s\<lparr>al_stop := StopWaiting\<rparr>)"

definition stop_returns :: "'sg agent_life \<Rightarrow> 'sg agent_life" where
  "stop_returns s = s\<lparr>al_socket := False, al_stop := StopReturned\<rparr>"

text \<open>The flag says whether clients end their connections.\<close>

inductive life_step ::
    "('priv, 'sg, 'pk, 'sig) crypto \<Rightarrow> bool \<Rightarrow> 'sg agent_life \<Rightarrow> 'sg agent_life \<Rightarrow> bool" for cr hup where
  accept: "al_accepting s \<Longrightarrow> al_listener s \<Longrightarrow> c \<notin> set (al_conns s) \<Longrightarrow> life_step cr hup s (accept_conn c s)"
| fails: "al_accepting s \<Longrightarrow> life_step cr hup s (accept_error s)"
| request: "c \<in> set (al_conns s) \<Longrightarrow> life_step cr hup s (s\<lparr>al_agent := fst (serve cr now r (al_agent s))\<rparr>)"
| hangup: "hup \<Longrightarrow> c \<in> set (al_conns s) \<Longrightarrow> life_step cr hup s (conn_ends c s)"
| tick: "al_expiring s \<Longrightarrow> life_step cr hup s (expiry_tick now s)"
| expiry_return: "al_expiring s \<Longrightarrow> stopping s \<Longrightarrow> life_step cr hup s (expiry_ends s)"
| stop: "al_stop s = NotStopping \<Longrightarrow> life_step cr hup s (stop_closes s)"
| listener: "al_stop s = StopClosed \<Longrightarrow> life_step cr hup s (stop_listener s)"
| returns: "al_stop s = StopWaiting \<Longrightarrow> al_wg s = 0 \<Longrightarrow> life_step cr hup s (stop_returns s)"

inductive life_run ::
    "('priv, 'sg, 'pk, 'sig) crypto \<Rightarrow> bool \<Rightarrow> 'sg agent_life \<Rightarrow> 'sg agent_life \<Rightarrow> bool" for cr hup where
  none: "life_run cr hup s s"
| more: "life_run cr hup s t \<Longrightarrow> life_step cr hup t u \<Longrightarrow> life_run cr hup s u"

text \<open>A run from a new agent whose \<open>Start\<close> has succeeded.\<close>

definition started :: "string \<Rightarrow> 'sg agent_life" where
  "started path = fst (Start_life True True True (not_started (NewManagedAgent path)))"

section \<open>The invariant\<close>

definition life_inv :: "('priv, 'sg, 'pk, 'sig) crypto \<Rightarrow> 'sg agent_life \<Rightarrow> bool" where
  "life_inv cr s \<longleftrightarrow>
     agent_inv cr (al_agent s) \<and> \<not> al_panicked s \<and> distinct (al_conns s)
     \<and> al_wg s = (if al_accepting s then 1 else 0) + (if al_expiring s then 1 else 0) + length (al_conns s)
     \<and> (stopping s \<longleftrightarrow> al_stop s \<noteq> NotStopping) \<and> ag_listening (al_agent s)
     \<and> (al_stop s = StopReturned \<longrightarrow> al_wg s = 0 \<and> \<not> al_socket s)
     \<and> (al_stop s \<in> {StopWaiting, StopReturned} \<longrightarrow> \<not> al_listener s)"

lemma started_inv: "life_inv cr (started path)"
  using agent_inv_new [of cr path]
  by (simp add: life_inv_def started_def Start_life_def not_started_def Start_agent_def NewManagedAgent_def stopping_def agent_inv_def)

lemma expire_flags [simp]:
  "ag_listening (expireKeys now m) = ag_listening m" "ag_stopped (expireKeys now m) = ag_stopped m"
  by (simp_all add: expireKeys_def Let_def notify_def)

lemma serve_flags [simp]:
  "ag_listening (fst (serve cr now r m)) = ag_listening m" "ag_stopped (fst (serve cr now r m)) = ag_stopped m"
  by (cases r; simp add: serve_def agent_ops Let_def notify_def split: option.split)+

lemma agent_inv_stopped [simp]: "agent_inv cr (m\<lparr>ag_stopped := b\<rparr>) \<longleftrightarrow> agent_inv cr m"
  by (simp add: agent_inv_def)

lemmas life_ops = life_inv_def stopping_def accept_conn_def accept_error_def expiry_tick_def expiry_ends_def wg_done_def
  stop_closes_def stop_listener_def stop_returns_def Stop_agent_def

lemma life_inv_step: "life_step cr hup s t \<Longrightarrow> life_inv cr s \<Longrightarrow> life_inv cr t"
proof (induction rule: life_step.induct)
  case (hangup c s)
  then have "0 < length (al_conns s)" "length (remove1 c (al_conns s)) = length (al_conns s) - 1"
    by (auto simp: length_remove1)
  with hangup show ?case by (auto simp: life_inv_def conn_ends_def wg_done_def stopping_def)
next
  case (fails s)
  then show ?case by (cases "stopping s") (auto simp: life_ops)
next
  case (request c s now r)
  then show ?case by (auto simp: life_inv_def stopping_def agent_inv_serve)
next
  case (tick s now)
  then show ?case by (auto simp: life_ops agent_inv_expire)
qed (auto simp: life_ops)

lemma life_inv_run: "life_run cr hup s t \<Longrightarrow> life_inv cr s \<Longrightarrow> life_inv cr t"
  by (induction rule: life_run.induct) (auto intro: life_inv_step)

section \<open>Stopping\<close>

lemma stopped_inv: "life_inv cr s \<Longrightarrow> al_stop s = StopReturned \<Longrightarrow> \<not> al_accepting s \<and> \<not> al_expiring s \<and> al_conns s = []"
  by (auto simp: life_inv_def split: if_splits)

lemma stopped_step: "life_step cr hup s t \<Longrightarrow> life_inv cr s \<Longrightarrow> al_stop s = StopReturned \<Longrightarrow> False"
  by (drule (1) stopped_inv) (erule life_step.cases; simp)


lemmas started_simps = started_def Start_life_def Start_agent_def not_started_def NewManagedAgent_def


lemma life_run_trans: "life_run cr hup t u \<Longrightarrow> life_run cr hup s t \<Longrightarrow> life_run cr hup s u"
  by (induction rule: life_run.induct) (auto intro: life_run.more)

text \<open>Without a client that hangs up, connections stay.\<close>

lemma conns_stay_step: "life_step cr False s t \<Longrightarrow> set (al_conns s) \<subseteq> set (al_conns t)"
  by (erule life_step.cases) (auto simp: life_ops split: option.split)

lemma conns_stay: "life_run cr False s t \<Longrightarrow> set (al_conns s) \<subseteq> set (al_conns t)"
proof (induction rule: life_run.induct)
  case (more s t u)
  then show ?case using conns_stay_step [of cr t u] by blast
qed simp

text \<open>The loops end by themselves.\<close>

lemma expiry_out:
  assumes "life_inv cr s" and "al_stop s = StopWaiting"
  shows "\<exists>t. life_run cr hup s t \<and> \<not> al_expiring t \<and> al_conns t = al_conns s \<and> al_stop t = StopWaiting"
proof (cases "al_expiring s")
  case True
  then have "life_step cr hup s (expiry_ends s)" using assms by (intro life_step.expiry_return) (simp_all add: life_inv_def)
  then show ?thesis using assms by (intro exI [of _ "expiry_ends s"]) (auto simp: life_ops intro: life_run.intros)
qed (use assms in \<open>auto intro: life_run.none\<close>)

lemma accept_out:
  assumes "life_inv cr s" and "al_stop s = StopWaiting" and "\<not> al_expiring s"
  shows "\<exists>t. life_run cr hup s t \<and> \<not> al_expiring t \<and> \<not> al_accepting t \<and> al_conns t = al_conns s \<and> al_stop t = StopWaiting"
proof (cases "al_accepting s")
  case True
  then have "life_step cr hup s (accept_error s)" by (rule life_step.fails)
  then show ?thesis using assms by (intro exI [of _ "accept_error s"]) (auto simp: life_ops intro: life_run.intros)
qed (use assms in \<open>auto intro: life_run.none\<close>)

lemma stop_from_waiting:
  assumes inv: "life_inv cr s" and "al_stop s = StopWaiting" and "al_conns s = []"
  shows "\<exists>t. life_run cr hup s t \<and> al_stop t = StopReturned"
proof -
  obtain t where t: "life_run cr hup s t" "\<not> al_expiring t" "al_conns t = []" "al_stop t = StopWaiting"
    using expiry_out [OF inv assms(2)] assms(3) by metis
  have "life_inv cr t" by (rule life_inv_run [OF t(1) inv])
  from accept_out [OF this t(4,2)] t(3) obtain u where u: "life_run cr hup t u" "\<not> al_expiring u" "\<not> al_accepting u"
    "al_conns u = []" "al_stop u = StopWaiting" by metis
  have run: "life_run cr hup s u" by (rule life_run_trans [OF u(1) t(1)])
  have "al_wg u = 0" using life_inv_run [OF run inv] u by (simp add: life_inv_def)
  then have "life_step cr hup u (stop_returns u)" by (rule life_step.returns [OF u(5)])
  then show ?thesis using life_run.more [OF run] by (intro exI [of _ "stop_returns u"]) (simp add: stop_returns_def)
qed

lemma stop_from_start:
  assumes inv: "life_inv cr s" and "al_stop s = NotStopping" and "al_conns s = []"
  shows "\<exists>t. life_run cr hup s t \<and> al_stop t = StopReturned"
proof -
  let ?t = "stop_listener (stop_closes s)"
  have "life_step cr hup s (stop_closes s)" by (rule life_step.stop [OF assms(2)])
  moreover have "life_step cr hup (stop_closes s) ?t" using inv assms(2) by (intro life_step.listener) (simp add: life_ops)
  ultimately have run: "life_run cr hup s ?t" by (rule life_run.none [THEN life_run.more, THEN life_run.more])
  have "life_inv cr ?t" by (rule life_inv_run [OF run inv])
  moreover have "al_stop ?t = StopWaiting" "al_conns ?t = []" using inv assms by (simp_all add: life_ops)
  ultimately show ?thesis using stop_from_waiting life_run_trans [OF _ run] by metis
qed

text \<open>
  \<open>Stop\<close> depends on the clients: once it waits, it can return without a client that hangs up if and only if no connection is
  open.  A client that keeps its connection therefore keeps \<open>Stop\<close> waiting for ever, and is still served.
\<close>

theorem stop_waits_for_clients:
  assumes "life_run cr hup (started path) s" and "al_stop s = StopWaiting"
  shows "((\<exists>t. life_run cr False s t \<and> al_stop t = StopReturned) \<longleftrightarrow> al_conns s = [])
    \<and> list_all (\<lambda>c. \<forall>now r. life_step cr False s (s\<lparr>al_agent := fst (serve cr now r (al_agent s))\<rparr>)) (al_conns s)"
proof
  have inv: "life_inv cr s" by (rule life_inv_run [OF assms(1) started_inv])
  show "(\<exists>t. life_run cr False s t \<and> al_stop t = StopReturned) \<longleftrightarrow> al_conns s = []"
  proof
    assume "\<exists>t. life_run cr False s t \<and> al_stop t = StopReturned"
    then obtain t where t: "life_run cr False s t" "al_stop t = StopReturned" by blast
    then have "al_conns t = []" using stopped_inv life_inv_run [OF t(1) inv] by blast
    then show "al_conns s = []" using conns_stay [OF t(1)] by simp
  qed (rule stop_from_waiting [OF inv assms(2)])
  show "list_all (\<lambda>c. \<forall>now r. life_step cr False s (s\<lparr>al_agent := fst (serve cr now r (al_agent s))\<rparr>)) (al_conns s)"
    by (auto simp: list_all_iff intro: life_step.request)
qed

lemma stop_waits_for_clients_witness:
  "\<exists>s :: string agent_life. life_run demo_crypto True (started ''/s'') s \<and> al_stop s = StopWaiting
     \<and> (\<nexists>t. life_run demo_crypto False s t \<and> al_stop t = StopReturned)"
proof -
  let ?a = "accept_conn 7 (started ''/s'') :: string agent_life"
  let ?c = "stop_listener (stop_closes ?a)"
  have s1: "life_step demo_crypto True (started ''/s'') ?a" by (rule life_step.accept) (simp_all add: started_simps)
  have s2: "life_step demo_crypto True ?a (stop_closes ?a)" by (rule life_step.stop) (simp add: life_ops started_simps)
  have s3: "life_step demo_crypto True (stop_closes ?a) ?c" by (rule life_step.listener) (simp add: life_ops started_simps)
  have run: "life_run demo_crypto True (started ''/s'') ?c" by (rule life_run.none [THEN life_run.more, OF s1, THEN life_run.more, OF s2, THEN life_run.more, OF s3])
  have "al_stop ?c = StopWaiting" "al_conns ?c = [7]" by (simp_all add: life_ops started_simps)
  with stop_waits_for_clients [OF run] run show ?thesis by (intro exI [of _ ?c]) simp
qed

end
