(* ===== verification/DaemonServer.thy ===== *)
theory DaemonServer
  imports AgentLifecycle KeyServices HostsService ConfigService RemoteService SystemService UpdateService
begin

text \<open>
  The daemon: how \<open>internal/server/server.go\<close> puts the services together on one agent, how it stops them, and how \<open>main.go\<close>
  prepares its socket.

  The components keep their own models of the file system, so \<open>New_server\<close> takes the tree of the keys and of the client
  configuration, and the flat files of the store.  \<open>home\<close> is the answer of \<open>os.UserHomeDir\<close>, \<open>getenv\<close> that of \<open>os.Getenv\<close>.
\<close>

section \<open>Putting the services together\<close>

definition getManagedAgentSocketPath :: "(string \<Rightarrow> string) \<Rightarrow> string" where
  "getManagedAgentSocketPath getenv =
     (if getenv ''SKEYS_AGENT_SOCKET'' \<noteq> [] then getenv ''SKEYS_AGENT_SOCKET''
      else if getenv ''XDG_RUNTIME_DIR'' \<noteq> [] then path_join [getenv ''XDG_RUNTIME_DIR'', ''skeys'', ''skeys-agent.sock'']
      else ''/tmp/skeys-agent.sock'')"

record ('st, 'cfg) Server =
  sv_version :: string
  sv_commit :: string
  sv_keyService :: "'st keyService"
  sv_clientConfig :: "'cfg clientConfig"
  sv_serverConfig :: ServerConfigManager
  sv_knownHosts :: string
  sv_authorizedKeys :: string
  sv_agentService :: agentService
  sv_sshConfigMgr :: sshManager
  sv_remoteAdapter :: RemoteServiceAdapter
  sv_versionAdapter :: VersionServiceAdapter
  sv_updateAdapter :: UpdateServiceAdapter

text \<open>\<open>NewRemoteServiceAdapter\<close>; the pool and the store are shared with the key and metadata adapters.\<close>

definition NewRemoteServiceAdapter :: "ConnectionPool \<Rightarrow> Store \<Rightarrow> string \<Rightarrow> RemoteServiceAdapter" where
  "NewRemoteServiceAdapter pool store sock = \<lparr>ra_pool = pool, ra_store = store, ra_agentSocketPath = sock\<rparr>"

text \<open>The agent service as the checker of the keys service.\<close>

definition service_checker ::
    "(string \<Rightarrow> string) \<Rightarrow> ('st, 'priv) agent_client \<Rightarrow> sockets \<Rightarrow> agentService \<Rightarrow> 'st agentChecker" where
  "service_checker h cl so s =
     \<lparr>chk_list = ListLoadedFingerprints h cl so s, chk_remove = RemoveKeyByFingerprint_svc h cl so s\<rparr>"

definition in_home :: "string + string \<Rightarrow> (string \<Rightarrow> 'a) \<Rightarrow> string + 'a" where
  "in_home home f = (case home of Inl e \<Rightarrow> Inl (''failed to get home directory: '' @ e) | Inr homeDir \<Rightarrow> Inr (f homeDir))"

text \<open>The constructors behind the agent, in their order; each may end \<open>New\<close> with its error.\<close>

definition New_services ::
    "(string \<Rightarrow> string) \<Rightarrow> ('st, 'priv) agent_client \<Rightarrow> sockets \<Rightarrow> 'cfg sshconf_lib \<Rightarrow> string + string \<Rightarrow> nat \<Rightarrow> string \<Rightarrow> string
     \<Rightarrow> string \<Rightarrow> treefs \<Rightarrow> fsys \<Rightarrow> treefs \<times> (string + ('st, 'cfg) Server)" where
  "New_services h cl so sc home uid ver commit agentSocketPath t fs =
     (let agentService = NewService agentSocketPath (Some NewSubscriptions) in
      case NewService_keys home None (Some (service_checker h cl so agentService)) t of
        (t1, Inl e) \<Rightarrow> (t1, Inl e)
      | (t1, Inr keyService) \<Rightarrow>
     (case NewClientConfig sc home None t1 of
        Inl e \<Rightarrow> (t1, Inl e)
      | Inr clientConfig \<Rightarrow>
     (case (in_home home NewKnownHostsManager, in_home home NewAuthorizedKeysManager) of
        (Inl e, _) \<Rightarrow> (t1, Inl e)
      | (Inr knownHosts, Inl e) \<Rightarrow> (t1, Inl e)
      | (Inr knownHosts, Inr authorizedKeys) \<Rightarrow>
     (case NewStore home [WithLogger] fs of
        Inl e \<Rightarrow> (t1, Inl e)
      | Inr metadataStore \<Rightarrow>
     (case in_home home (\<lambda>homeDir. (NewManager homeDir uid)\<lparr>sg_agentSocket := agentSocketPath\<rparr>) of
        Inl e \<Rightarrow> (t1, Inl e)
      | Inr sshConfigMgr \<Rightarrow>
          (t1, Inr \<lparr>sv_version = ver, sv_commit = commit, sv_keyService = keyService, sv_clientConfig = clientConfig,
             sv_serverConfig = NewServerConfigManager None, sv_knownHosts = knownHosts, sv_authorizedKeys = authorizedKeys,
             sv_agentService = agentService, sv_sshConfigMgr = sshConfigMgr,
             sv_remoteAdapter = NewRemoteServiceAdapter
               (NewConnectionPool \<lparr>MaxIdleTime = 0, MaxConnections = 0, KeepAliveInterval = 0\<rparr>) metadataStore agentSocketPath,
             sv_versionAdapter = NewVersionServiceAdapter ver commit,
             sv_updateAdapter = NewUpdateServiceAdapter (case home of Inl _ \<Rightarrow> [] | Inr homeDir \<Rightarrow> homeDir) ver\<rparr>))))))"

text \<open>\<open>New\<close>: the agent is started first.  The three answers are those of the calls of its \<open>Start\<close>.\<close>

definition New_server ::
    "(string \<Rightarrow> string) \<Rightarrow> ('st, 'priv) agent_client \<Rightarrow> sockets \<Rightarrow> 'cfg sshconf_lib \<Rightarrow> (agent_err \<Rightarrow> string) \<Rightarrow> bool \<times> bool \<times> bool
     \<Rightarrow> (string \<Rightarrow> string) \<Rightarrow> string + string \<Rightarrow> nat \<Rightarrow> string \<Rightarrow> string \<Rightarrow> treefs \<Rightarrow> fsys
     \<Rightarrow> 'sg agent_life \<times> treefs \<times> (string + ('st, 'cfg) Server)" where
  "New_server h cl so sc msg oks getenv home uid ver commit t fs =
     (let agentSocketPath = getManagedAgentSocketPath getenv in
      case oks of (remove_ok, listen_ok, chmod_ok) \<Rightarrow>
      (case Start_life remove_ok listen_ok chmod_ok (not_started (NewManagedAgent agentSocketPath)) of
         (life, Some e) \<Rightarrow> (life, t, Inl (msg e))
       | (life, None) \<Rightarrow> (life, New_services h cl so sc home uid ver commit agentSocketPath t fs)))"

definition ManagedAgentSocketPath :: "'sg agent_life option \<Rightarrow> string" where
  "ManagedAgentSocketPath agent = (case agent of None \<Rightarrow> [] | Some life \<Rightarrow> ag_socketPath (al_agent life))"

section \<open>One agent for all\<close>


definition empty_tree :: treefs where
  "empty_tree = \<lparr>nodes = [], refuse = (\<lambda>_. False), spare = (\<lambda>_. False), short = (\<lambda>_. 0)\<rparr>"

definition home_tree :: treefs where
  "home_tree = empty_tree\<lparr>nodes := [(''/h'', Dir), (''/h/.ssh'', Dir)]\<rparr>"

lemma demo_paths:
  "path_join [''/h'', ''.ssh''] = ''/h/.ssh''" "path_join [''/h'', ''.ssh'', ''config''] = ''/h/.ssh/config''"
  "dir_chain ''/h/.ssh'' = [''/h'', ''/h/.ssh'']"
  by code_simp+

lemma demo_key_service:
  "NewService_keys (Inr ''/h'') None chk empty_tree = (home_tree, Inr \<lparr>ks_sshDir = ''/h/.ssh'', ks_agentChecker = chk\<rparr>)"
  by (simp add: NewService_keys_def demo_paths t_mkdir_all_def home_tree_def empty_tree_def look_def)

lemma demo_client_config:
  "NewClientConfig demo_sshconf (Inr ''/h'') None home_tree = Inr \<lparr>cc_path = ''/h/.ssh/config'', cc_config = sc_ParseConfig demo_sshconf []\<rparr>"
  by (simp add: NewClientConfig_def demo_paths load_cc_def t_stat_def home_tree_def empty_tree_def look_def)

lemma demo_new_store: "\<exists>st. NewStore (Inr ''/h'') [WithLogger] (fs_with []) = Inr st"
  by (auto simp: NewStore_def Let_def apply_option_def os_mkdir_all_def split: prod.split option.split)

lemma demo_services:
  "\<exists>sv. snd (New_services h cl so demo_sshconf (Inr ''/h'') 1000 ''1'' ''c'' sock empty_tree (fs_with [])) = Inr sv"
  unfolding New_services_def Let_def demo_key_service prod.case sum.case demo_client_config
  using demo_new_store by (auto simp: in_home_def)


lemma New_server_life:
  "fst (New_server h cl so sc msg (True, True, True) getenv home uid ver commit t fs) = started (getManagedAgentSocketPath getenv)"
  by (auto simp: New_server_def started_def Start_life_def Start_agent_def Let_def)

text \<open>
  A constructor that fails leaves the agent running: \<open>New\<close> returns the error and no server, so nobody can stop the agent,
  while its socket is there and its two goroutines run.
\<close>

theorem failed_new_leaves_agent:
  assumes "New_server h cl so sc msg (True, True, True) getenv home uid ver commit t fs = (life, t', Inl e)"
  shows "al_socket life \<and> al_accepting life \<and> al_expiring life \<and> \<not> stopping life"
proof -
  have "life = started (getManagedAgentSocketPath getenv)"
    using New_server_life [of h cl so sc msg getenv home uid ver commit t fs] assms by (metis fst_conv)
  then show ?thesis by (simp add: started_simps stopping_def)
qed

section \<open>Stopping\<close>

text \<open>
  \<open>Stop\<close>: \<open>GracefulStop\<close> of gRPC takes no new requests and returns when all that are running have ended, then the agent is
  stopped.  \<open>ds_streams\<close> are the requests that run, such as the streams of the \<open>Watch\<close> methods; a stream ends when its client leaves
  it.
\<close>

datatype server_phase = Serving | Draining | StoppingAgent | ServerStopped

record 'sg daemon_state =
  ds_streams :: "nat list"
  ds_phase :: server_phase
  ds_agent :: "'sg agent_life"

definition Stop_begin :: "'sg daemon_state \<Rightarrow> 'sg daemon_state" where "Stop_begin s = s\<lparr>ds_phase := Draining\<rparr>"

definition GracefulStop_returns :: "'sg daemon_state \<Rightarrow> 'sg daemon_state" where
  "GracefulStop_returns s = s\<lparr>ds_phase := StoppingAgent\<rparr>"

inductive daemon_step :: "('priv, 'sg, 'pk, 'sig) crypto \<Rightarrow> bool \<Rightarrow> 'sg daemon_state \<Rightarrow> 'sg daemon_state \<Rightarrow> bool" for cr leave where
  stream: "ds_phase s = Serving \<Longrightarrow> daemon_step cr leave s (s\<lparr>ds_streams := c # ds_streams s\<rparr>)"
| stream_ends: "leave \<Longrightarrow> c \<in> set (ds_streams s) \<Longrightarrow> daemon_step cr leave s (s\<lparr>ds_streams := remove1 c (ds_streams s)\<rparr>)"
| agent: "life_step cr leave (ds_agent s) a \<Longrightarrow> al_stop a = al_stop (ds_agent s) \<or> ds_phase s = StoppingAgent \<Longrightarrow>
    daemon_step cr leave s (s\<lparr>ds_agent := a\<rparr>)"
| stop: "ds_phase s = Serving \<Longrightarrow> daemon_step cr leave s (Stop_begin s)"
| drained: "ds_phase s = Draining \<Longrightarrow> ds_streams s = [] \<Longrightarrow> daemon_step cr leave s (GracefulStop_returns s)"
| stopped: "ds_phase s = StoppingAgent \<Longrightarrow> al_stop (ds_agent s) = StopReturned \<Longrightarrow>
    daemon_step cr leave s (s\<lparr>ds_phase := ServerStopped\<rparr>)"

inductive daemon_run :: "('priv, 'sg, 'pk, 'sig) crypto \<Rightarrow> bool \<Rightarrow> 'sg daemon_state \<Rightarrow> 'sg daemon_state \<Rightarrow> bool" for cr leave where
  none: "daemon_run cr leave s s"
| more: "daemon_run cr leave s t \<Longrightarrow> daemon_step cr leave t u \<Longrightarrow> daemon_run cr leave s u"

definition daemon_started :: "string \<Rightarrow> 'sg daemon_state" where
  "daemon_started path = \<lparr>ds_streams = [], ds_phase = Serving, ds_agent = started path\<rparr>"

lemma daemon_run_trans: "daemon_run cr leave t u \<Longrightarrow> daemon_run cr leave s t \<Longrightarrow> daemon_run cr leave s u"
  by (induction rule: daemon_run.induct) (auto intro: daemon_run.more)

definition daemon_inv :: "('priv, 'sg, 'pk, 'sig) crypto \<Rightarrow> 'sg daemon_state \<Rightarrow> bool" where
  "daemon_inv cr s \<longleftrightarrow> life_inv cr (ds_agent s)
     \<and> (ds_phase s \<in> {Serving, Draining} \<longrightarrow> al_stop (ds_agent s) = NotStopping)
     \<and> (ds_phase s \<in> {StoppingAgent, ServerStopped} \<longrightarrow> ds_streams s = [])
     \<and> (ds_phase s = ServerStopped \<longrightarrow> al_stop (ds_agent s) = StopReturned)"

lemma daemon_inv_step: "daemon_step cr leave s t \<Longrightarrow> daemon_inv cr s \<Longrightarrow> daemon_inv cr t"
proof (induction rule: daemon_step.induct)
  case (agent s a)
  then have "life_inv cr a" using life_inv_step by (auto simp: daemon_inv_def)
  then show ?case using agent stopped_step [OF agent(1)] by (cases "ds_phase s") (auto simp: daemon_inv_def)
qed (auto simp: daemon_inv_def Stop_begin_def GracefulStop_returns_def)

lemma daemon_inv_run: "daemon_run cr leave s t \<Longrightarrow> daemon_inv cr s \<Longrightarrow> daemon_inv cr t"
  by (induction rule: daemon_run.induct) (auto intro: daemon_inv_step)

lemma daemon_inv_started: "daemon_inv cr (daemon_started path)"
  using started_inv [of cr path] by (simp add: daemon_inv_def daemon_started_def) (simp add: started_simps)

text \<open>Nobody leaves: what is open stays open.\<close>

lemma nobody_leaves:
  "daemon_run cr False s t \<Longrightarrow> set (ds_streams s) \<subseteq> set (ds_streams t) \<and> set (al_conns (ds_agent s)) \<subseteq> set (al_conns (ds_agent t))"
proof (induction rule: daemon_run.induct)
  case (more s t u)
  from more(2) have "set (ds_streams t) \<subseteq> set (ds_streams u) \<and> set (al_conns (ds_agent t)) \<subseteq> set (al_conns (ds_agent u))"
    by cases (auto simp: Stop_begin_def GracefulStop_returns_def dest!: conns_stay_step)
  with more(3) show ?case by blast
qed simp

text \<open>The agent's own steps while the server waits for it.\<close>

lemma lift_agent:
  "life_run cr leave a b \<Longrightarrow> ds_phase s = StoppingAgent \<Longrightarrow> ds_agent s = a \<Longrightarrow> daemon_run cr leave s (s\<lparr>ds_agent := b\<rparr>)"
proof (induction rule: life_run.induct)
  case (none a)
  then have "s\<lparr>ds_agent := a\<rparr> = s" by (cases s) simp
  then show ?case using daemon_run.none [of cr leave s] by simp
next
  case (more a b c)
  then have "daemon_step cr leave (s\<lparr>ds_agent := b\<rparr>) (s\<lparr>ds_agent := b\<rparr>\<lparr>ds_agent := c\<rparr>)" by (intro daemon_step.agent) simp_all
  with more show ?case using daemon_run.more by fastforce
qed



section \<open>The socket of the daemon\<close>

text \<open>
  \<open>net.Listen\<close> on a path: the new socket gets the mode \<open>bound\<close>, which is 0777 without the bits of the umask; a path that is
  taken is refused.
\<close>

definition listen_unix :: "int \<Rightarrow> string \<Rightarrow> treefs \<Rightarrow> treefs \<times> string option" where
  "listen_unix bound p t =
     (if \<not> parents_ok t p then (t, Some ''no such file or directory'')
      else if refuse t (CCreate p) then (t, Some ''permission denied'')
      else if look t p \<noteq> None then (t, Some ''address already in use'')
      else (set_node p (File [] bound) t, None))"

text \<open>\<open>main\<close>, between the options and the signals: the states of the tree after each call, with the fatal message if there is one.\<close>

datatype main_outcome = PrintedVersion string | Fatal string | Listening

definition main_socket :: "int \<Rightarrow> string \<Rightarrow> treefs \<Rightarrow> treefs \<times> main_outcome" where
  "main_socket bound socketPath t =
     (case t_remove_all socketPath t of
        (t1, Some e) \<Rightarrow> (t1, Fatal ''failed to remove existing socket'')
      | (t1, None) \<Rightarrow>
     (case listen_unix bound socketPath t1 of
        (t2, Some e) \<Rightarrow> (t2, Fatal ''cannot start server'')
      | (t2, None) \<Rightarrow>
     (case t_chmod socketPath 384 t2 of
        (t3, Some e) \<Rightarrow> (t3, Fatal ''failed to set socket permissions'')
      | (t3, None) \<Rightarrow> (t3, Listening))))"

definition main_daemon ::
    "bool \<Rightarrow> string \<Rightarrow> string \<Rightarrow> (treefs \<Rightarrow> treefs \<times> (string + ('st, 'cfg) Server)) \<Rightarrow> int \<Rightarrow> string \<Rightarrow> treefs \<Rightarrow> treefs \<times> main_outcome"
where
  "main_daemon showVersion ver commit new bound socketPath t =
     (if showVersion then (t, PrintedVersion (''skeys-daemon '' @ ver @ '' (commit: '' @ commit @ '')''))
      else (case new t of
        (t1, Inl e) \<Rightarrow> (t1, Fatal ''failed to create server'')
      | (t1, Inr srv) \<Rightarrow> main_socket bound socketPath t1))"

text \<open>
  When the daemon listens, its socket is open to the owner alone, whatever the umask; and what was at that path before is
  gone: of a directory that was named by mistake nothing is left, while everything outside the path is as the services left it.
\<close>

theorem listening_socket:
  assumes "main_daemon False ver commit new bound socketPath t = (t', Listening)"
  shows "\<exists>t1 srv. new t = (t1, Inr srv) \<and>
    (\<forall>q. look t' q = (if q = socketPath then Some (File [] 384) else if inside socketPath q then None else look t1 q))"
proof -
  obtain t1 srv where new: "new t = (t1, Inr srv)" and main: "main_socket bound socketPath t1 = (t', Listening)"
    using assms by (auto simp: main_daemon_def split: prod.splits sum.splits)
  from main have "look t' q = (if q = socketPath then Some (File [] 384) else if inside socketPath q then None else look t1 q)" for q
    by (auto simp: main_socket_def t_remove_all_def listen_unix_def t_chmod_def within_def split: if_splits)
  then show ?thesis using new by blast
qed

definition demo_server :: "(unit, unit) Server" where
  "demo_server =
     \<lparr>sv_version = ''1'', sv_commit = ''c'', sv_keyService = \<lparr>ks_sshDir = ''/s'', ks_agentChecker = None\<rparr>,
      sv_clientConfig = \<lparr>cc_path = ''/s/config'', cc_config = ()\<rparr>, sv_serverConfig = NewServerConfigManager None,
      sv_knownHosts = ''/s/known_hosts'', sv_authorizedKeys = ''/s/authorized_keys'', sv_agentService = NewService ''/a'' None,
      sv_sshConfigMgr = NewManager ''/s'' 1000,
      sv_remoteAdapter = NewRemoteServiceAdapter (NewConnectionPool \<lparr>MaxIdleTime = 0, MaxConnections = 0, KeepAliveInterval = 0\<rparr>)
        \<lparr>dataDir = ''/d'', metaFile = ''/d/m'', sdata = zero_store\<rparr> ''/a'',
      sv_versionAdapter = NewVersionServiceAdapter ''1'' ''c'', sv_updateAdapter = NewUpdateServiceAdapter ''/h'' ''1''\<rparr>"

definition mistaken_tree :: treefs where
  "mistaken_tree = \<lparr>nodes = [(''/s'', Dir), (''/s/id'', File ''key'' 384)], refuse = (\<lambda>_. False), spare = (\<lambda>_. False), short = (\<lambda>_. 0)\<rparr>"

lemma listening_socket_witness:
  "look mistaken_tree ''/s/id'' = Some (File ''key'' 384)
    \<and> look (fst (main_daemon False ''1'' ''c'' (\<lambda>t. (t, Inr demo_server)) 493 ''/s'' mistaken_tree)) ''/s/id'' = None
    \<and> look (fst (main_daemon False ''1'' ''c'' (\<lambda>t. (t, Inr demo_server)) 493 ''/s'' mistaken_tree)) ''/s'' = Some (File [] 384)"
proof -
  have ins: "inside ''/s'' ''/s/id''" by code_simp
  have parents: "parents_ok t ''/s''" for t by code_simp
  have "snd (main_daemon False ''1'' ''c'' (\<lambda>t. (t, Inr demo_server)) 493 ''/s'' mistaken_tree) = Listening"
    by (simp add: main_daemon_def main_socket_def t_remove_all_def listen_unix_def t_chmod_def mistaken_tree_def parents within_def)
  then obtain t' where run: "main_daemon False ''1'' ''c'' (\<lambda>t. (t, Inr demo_server)) 493 ''/s'' mistaken_tree = (t', Listening)"
    by (metis prod.collapse)
  have before: "look mistaken_tree ''/s/id'' = Some (File ''key'' 384)" by (simp add: mistaken_tree_def look_def)
  have "look t' ''/s/id'' = None" "look t' ''/s'' = Some (File [] 384)" using listening_socket [OF run] ins by auto
  then show ?thesis unfolding run fst_conv using before by blast
qed

end
