(* ===== verification/ConfigWatch.thy ===== *)
theory ConfigWatch
  imports ClientConfigExample Broadcast
begin

text \<open>
  The watcher of the ssh client's configuration (\<open>config/watcher.go\<close>) beside the requests on it: every tick reloads the shared
  configuration from its file, and nothing locks it, so a tick may come between the two halves of a request, the change in
  memory and the save.
\<close>

section \<open>The watcher\<close>

record 'cfg config_sys =
  cs_client :: "'cfg clientConfig"
  cs_tree :: treefs
  cs_prev :: "SSHConfigEntry list"
  cs_hub :: "(string, SSHConfigEntry list) update hub"

text \<open>The first listing is that of the configuration in memory; it does not fail.\<close>

definition poll_config_start :: "'cfg sshconf_lib \<Rightarrow> (string \<Rightarrow> string) \<Rightarrow> 'cfg config_sys \<Rightarrow> 'cfg config_sys" where
  "poll_config_start sc sha s =
     (let entries = ListEntries sc sha (cs_client s) in
      s\<lparr>cs_hub := Broadcast (UVal entries) (cs_hub s), cs_prev := entries\<rparr>)"

definition sshConfigEntriesEqual :: "SSHConfigEntry list \<Rightarrow> SSHConfigEntry list \<Rightarrow> bool" where
  "sshConfigEntriesEqual a b = entries_equal a b"

text \<open>A tick.\<close>

definition poll_config :: "'cfg sshconf_lib \<Rightarrow> (string \<Rightarrow> string) \<Rightarrow> 'cfg config_sys \<Rightarrow> 'cfg config_sys" where
  "poll_config sc sha s =
     (case load_cc sc (cc_path (cs_client s)) (cs_tree s) of
        Inl e \<Rightarrow> s
      | Inr cfg \<Rightarrow>
          (let c = (cs_client s)\<lparr>cc_config := cfg\<rparr>; currentEntries = ListEntries sc sha c in
           if \<not> sshConfigEntriesEqual (cs_prev s) currentEntries
           then s\<lparr>cs_client := c, cs_hub := Broadcast (UVal currentEntries) (cs_hub s), cs_prev := currentEntries\<rparr>
           else s\<lparr>cs_client := c\<rparr>))"

section \<open>A request in two halves\<close>

text \<open>\<open>AddEntry\<close> up to \<open>Patch\<close>, and from \<open>save\<close> on.\<close>

definition add_patch ::
    "'cfg sshconf_lib \<Rightarrow> (string \<Rightarrow> string) \<Rightarrow> SSHConfigEntry \<Rightarrow> 'cfg config_sys \<Rightarrow> 'cfg config_sys \<times> string option" where
  "add_patch sc sha entry s =
     (let c = cs_client s in
      case duplicate_pattern (ListEntries sc sha c) entry of
        Some p \<Rightarrow> (s, Some (''host pattern already exists: '' @ p))
      | None \<Rightarrow>
          (s\<lparr>cs_client := c\<lparr>cc_config := sc_Patch sc (getEntryHeader entry) (buildEntryBlock entry) (cc_config c)\<rparr>\<rparr>, None))"

definition add_save ::
    "'cfg sshconf_lib \<Rightarrow> (string \<Rightarrow> string) \<Rightarrow> SSHConfigEntry \<Rightarrow> 'cfg config_sys \<Rightarrow> 'cfg config_sys \<times> (string + SSHConfigEntry)" where
  "add_save sc sha entry s =
     (case save_cc sc (cs_client s) (cs_tree s) of
        (t1, Some e) \<Rightarrow> (s\<lparr>cs_tree := t1\<rparr>, Inl e)
      | (t1, None) \<Rightarrow> (s\<lparr>cs_tree := t1\<rparr>, Inr (entry\<lparr>ce_ID := generateEntryID sha entry\<rparr>)))"

lemma add_halves:
  "AddEntry sc sha entry position (cs_client s) (cs_tree s) =
    (case add_patch sc sha entry s of
       (s1, Some e) \<Rightarrow> (cs_client s1, cs_tree s1, Inl e)
     | (s1, None) \<Rightarrow> (case add_save sc sha entry s1 of (s2, r) \<Rightarrow> (cs_client s2, cs_tree s2, r)))"
  by (simp add: AddEntry_def add_patch_def add_save_def Let_def split: option.split prod.split)

section \<open>What a tick does\<close>

lemma load_file:
  assumes "sshconf_files sc render" and "look t p = Some (File text m)" and "\<not> refuse t (CStat p)" and "\<not> refuse t (CRead p)"
  shows "load_cc sc p t = Inr (sc_ParseConfig sc text)"
  using assms by (simp add: load_cc_def sshconf_files_def t_stat_def t_read_file_def)

text \<open>After a tick that could read the file, the requests and the streams see the file, whatever was in memory.\<close>

lemma tick_reads_file:
  assumes "sshconf_files sc render" and "look (cs_tree s) (cc_path (cs_client s)) = Some (File text m)"
    and "\<not> refuse (cs_tree s) (CStat (cc_path (cs_client s)))" "\<not> refuse (cs_tree s) (CRead (cc_path (cs_client s)))"
  shows "cs_client (poll_config sc sha s) = (cs_client s)\<lparr>cc_config := sc_ParseConfig sc text\<rparr>"
    and "cs_tree (poll_config sc sha s) = cs_tree s"
    and "hub_lastValue (cs_hub s) = Some (UVal (cs_prev s)) \<Longrightarrow>
      hub_lastValue (cs_hub (poll_config sc sha s)) = Some (UVal (ListEntries sc sha (cs_client (poll_config sc sha s))))"
  using load_file [OF assms]
  by (auto simp: poll_config_def Let_def sshConfigEntriesEqual_def entries_equal_iff)

text \<open>
  C25. A tick of the watcher between the two halves of \<open>AddEntry\<close> undoes the first: the request still answers success with the ID of the
  new entry, but the file keeps its text and the listing its entries, so the entry is nowhere.  Without the tick
  the two halves are \<open>AddEntry\<close>.
\<close>

theorem tick_loses_entry:
  assumes lib: "sshconf_files sc render" and begun: "add_patch sc sha e s = (s1, None)"
    and path: "cc_path (cs_client s) = d @ slash # n" "clean_dir d" "plain_elem n"
    and old: "look (cs_tree s) (cc_path (cs_client s)) = Some (File text m)"
    and free: "\<not> refuse (cs_tree s) (CStat (cc_path (cs_client s)))" "\<not> refuse (cs_tree s) (CRead (cc_path (cs_client s)))"
    and saved: "add_save sc sha e (poll_config sc sha s1) = (s2, Inr e')"
  shows "e' = e\<lparr>ce_ID := generateEntryID sha e\<rparr> \<and> (\<exists>m'. look (cs_tree s2) (cc_path (cs_client s)) = Some (File text m'))
    \<and> ListEntries sc sha (cs_client s2) = ListEntries sc sha ((cs_client s)\<lparr>cc_config := sc_ParseConfig sc text\<rparr>)
    \<and> (case add_save sc sha e s1 of (s', r) \<Rightarrow> AddEntry sc sha e position (cs_client s) (cs_tree s) = (cs_client s', cs_tree s', r))"
proof -
  have s1: "cs_tree s1 = cs_tree s" "cc_path (cs_client s1) = cc_path (cs_client s)"
    "(cs_client s1)\<lparr>cc_config := cfg\<rparr> = (cs_client s)\<lparr>cc_config := cfg\<rparr>" for cfg
    using begun by (auto simp: add_patch_def Let_def split: option.splits)
  let ?c = "(cs_client s)\<lparr>cc_config := sc_ParseConfig sc text\<rparr>"
  have tick: "cs_client (poll_config sc sha s1) = ?c" "cs_tree (poll_config sc sha s1) = cs_tree s"
    using tick_reads_file(1,2) [OF lib, where s = s1 and sha = sha] old free s1 by simp_all
  obtain t1 where save: "save_cc sc ?c (cs_tree s) = (t1, None)" and s2: "s2 = (poll_config sc sha s1)\<lparr>cs_tree := t1\<rparr>"
    and e': "e' = e\<lparr>ce_ID := generateEntryID sha e\<rparr>"
    using saved by (auto simp: add_save_def tick split: prod.splits option.splits)
  have "cc_path ?c = d @ slash # n" using path(1) by simp
  from save_cc_ok(1) [OF save lib this path(2,3)] obtain m' where
    "look t1 (cc_path (cs_client s)) = Some (File (render (sc_ParseConfig sc text)) m')" by auto
  moreover have "render (sc_ParseConfig sc text) = text" using lib by (simp add: sshconf_files_def)
  ultimately have "\<exists>m'. look (cs_tree s2) (cc_path (cs_client s)) = Some (File text m')" by (auto simp: s2)
  moreover have "cs_client s2 = ?c" by (simp add: s2 tick(1))
  moreover have "case add_save sc sha e s1 of (s', r) \<Rightarrow> AddEntry sc sha e position (cs_client s) (cs_tree s) = (cs_client s', cs_tree s', r)"
    using add_halves [of sc sha e position s] by (simp add: begun split: prod.split)
  ultimately show ?thesis using e' by simp
qed

definition demo_config_sys :: "string config_sys" where
  "demo_config_sys = \<lparr>cs_client = demo_client demo_ssh_config, cs_tree = demo_home demo_ssh_config, cs_prev = [], cs_hub = New_hub\<rparr>"

lemma tick_loses_entry_witness:
  "case add_save demo_sshconf id demo_new (poll_config demo_sshconf id (fst (add_patch demo_sshconf id demo_new demo_config_sys))) of
     (s2, r) \<Rightarrow> (\<exists>e'. r = Inr e' \<and> ce_ID e' = generateEntryID id demo_new) \<and> (\<exists>m. look (cs_tree s2) ''/s/config'' = Some (File demo_ssh_config m))"
proof -
  let ?s1 = "fst (add_patch demo_sshconf id demo_new demo_config_sys)"
  let ?r = "add_save demo_sshconf id demo_new (poll_config demo_sshconf id ?s1)"
  have "snd (add_patch demo_sshconf id demo_new demo_config_sys) = None" by code_simp
  then have begun: "add_patch demo_sshconf id demo_new demo_config_sys = (?s1, None)" by (simp add: prod_eq_iff)
  have "(case snd ?r of Inr _ \<Rightarrow> True | Inl _ \<Rightarrow> False)" by code_simp
  then obtain s2 e' where saved: "?r = (s2, Inr e')" by (cases ?r) (auto split: sum.splits)
  have place: "cc_path (cs_client demo_config_sys) = ''/s'' @ slash # ''config''"
    by (simp add: demo_config_sys_def demo_place(1))
  have old: "look (cs_tree demo_config_sys) (cc_path (cs_client demo_config_sys)) = Some (File demo_ssh_config 384)"
    by (simp add: demo_config_sys_def demo_home_def demo_client_def look_def)
  have free: "\<not> refuse (cs_tree demo_config_sys) x" for x by (simp add: demo_config_sys_def demo_place(4))
  from tick_loses_entry [OF demo_files begun place demo_place(2,3) old free free saved] show ?thesis
    by (simp add: saved place)
qed

end
