(* ===== verification/HostsWatch.thy ===== *)
theory HostsWatch
  imports HostsService Relay
begin

text \<open>
  From the file to the client: \<open>Watch\<close> of the managers of the hosts files (\<open>hosts/watcher.go\<close>), with the watcher that all its callers share, the
  poll loop, the hub, the relay and the gRPC stream put together.
\<close>

section \<open>The shared watcher\<close>

definition ensureWatcher :: "('e, 'v) watcher option \<Rightarrow> ('e, 'v) watcher" where
  "ensureWatcher w = (case w of None \<Rightarrow> new_watcher | Some w \<Rightarrow> w)"

text \<open>\<open>Watch\<close>: the watcher is made and its loop started if need be, then the goroutine of the relay is started.\<close>

definition Watch_manager :: "('e, 'v) watcher option \<Rightarrow> ('e, 'v) watcher \<times> ('e, 'v) update relay_sys" where
  "Watch_manager w =
     (let w1 = start_watcher (ensureWatcher w); s = Watch_begin (w_hub w1, []) in (w1\<lparr>w_hub := fst (fst s)\<rparr>, s))"

definition Watch_kh :: "(string, KnownHost list) watcher option \<Rightarrow> (string, KnownHost list) watcher \<times> (string, KnownHost list) update relay_sys"
where
  "Watch_kh w = Watch_manager w"

definition Watch_ak ::
    "(string, AuthorizedKey list) watcher option \<Rightarrow> (string, AuthorizedKey list) watcher \<times> (string, AuthorizedKey list) update relay_sys"
where
  "Watch_ak w = Watch_manager w"

text \<open>All callers share one loop.\<close>

lemma Watch_manager_loops:
  assumes "case w of None \<Rightarrow> True | Some x \<Rightarrow> w_started x \<and> length (w_loops x) = 1"
  shows "w_started (fst (Watch_manager w)) \<and> length (w_loops (fst (Watch_manager w))) = 1"
  using assms by (auto simp: Watch_manager_def Let_def ensureWatcher_def start_watcher_def new_watcher_def split: option.splits)

section \<open>A stream\<close>

text \<open>What one turn of the loop broadcasts.\<close>

definition turn_sends :: "('v \<Rightarrow> 'v \<Rightarrow> bool) \<Rightarrow> 'e + 'v \<Rightarrow> 'v phase \<Rightarrow> ('e, 'v) update list" where
  "turn_sends same res ph =
     (case ph of
        Starting \<Rightarrow> [case res of Inl e \<Rightarrow> UErr e | Inr v \<Rightarrow> UVal v]
      | Polling prev \<Rightarrow> (case res of Inl _ \<Rightarrow> [] | Inr v \<Rightarrow> if same prev v then [] else [UVal v])
      | Ended \<Rightarrow> [])"

text \<open>A turn of the loop with the result of its listing; then the client reads what there is.\<close>

definition stream_turn ::
    "('v \<Rightarrow> 'v \<Rightarrow> bool) \<Rightarrow> 'e + 'v \<Rightarrow> 'v phase \<times> ('e, 'v) update relay_sys \<Rightarrow> 'v phase \<times> ('e, 'v) update relay_sys" where
  "stream_turn same res st =
     (case st of (ph, ((b, ps), r)) \<Rightarrow>
      case loop_turn same res (ph, b) of (ph', b') \<Rightarrow>
        (ph', (reading_round ^^ 6) ((b', ps), r\<lparr>rl_since := rl_since r @ turn_sends same res ph\<rparr>)))"

definition stream_of :: "('v \<Rightarrow> 'v \<Rightarrow> bool) \<Rightarrow> ('e + 'v) list \<Rightarrow> 'v phase \<times> ('e, 'v) update relay_sys" where
  "stream_of same rs = fold (stream_turn same) rs (Starting, goes (snd (Watch_manager None)))"

lemma turn_publishes:
  "loop_turn same res (ph, b) = (ph', b') \<Longrightarrow>
   ((b', ps), r\<lparr>rl_since := rl_since r @ turn_sends same res ph\<rparr>) = fold publish (turn_sends same res ph) ((b, ps), r)"
  by (auto simp: loop_turn_def turn_sends_def poll_init_def poll_tick_def publish_def split: phase.splits sum.splits if_splits)

section \<open>What the client gets\<close>

definition idle :: "'a relay_sys \<Rightarrow> bool" where
  "idle s \<longleftrightarrow> relay_reachable s \<and> serving s \<and> pipeline s = []"

lemma serving_publish:
  assumes "relay_reachable s" and "serving s"
  shows "serving (publish u s)" and "pipeline s = [] \<Longrightarrow> pipeline (publish u s) = [u]" and "got (publish u s) = got s"
proof -
  obtain b ps r where s: "s = ((b, ps), r)" by (metis surj_pair)
  have inv: "relay_inv s" by (rule relay_inv_reachable [OF assms(1)])
  then have h: "hub_inv (b, ps)" by (simp add: s relay_inv_def)
  have sub: "rl_subCh r \<in> set (hub_subscribers b)" using assms(2) h by (simp add: s serving_def hub_inv_def)
  have "open_chan (Broadcast u b) (rl_subCh r)" using hub_inv_broadcast [OF h, of u] sub by (simp add: hub_inv_def hub_simps)
  then show "serving (publish u s)" using assms(2) by (simp add: s serving_def publish_def)
  show "pipeline (publish u s) = [u]" if "pipeline s = []"
    using that sub by (auto simp: s pipeline_def publish_def chan_of_Broadcast [OF h] split: option.splits)
  show "got (publish u s) = got s" by (simp add: s got_def publish_def)
qed

text \<open>A client that reads gets what is sent, at once.\<close>

lemma idle_reads:
  assumes s: "relay_reachable s" "serving s"
  shows "idle ((reading_round ^^ 6) s) \<and> got ((reading_round ^^ 6) s) = got s @ pipeline s"
proof -
  let ?t = "(reading_round ^^ 6) s"
  have "pipeline ?t = []" using reading_rounds [OF s(2), of 6] moves_le [of s] by (intro moves_0) linarith
  then show ?thesis using reading_rounds [OF s(2), of 6] reading_rounds_reachable [OF s(1), of 6] by (auto simp: idle_def)
qed

lemma idle_sent:
  assumes s: "idle s" and us: "length us \<le> 1"
  shows "idle ((reading_round ^^ 6) (fold publish us s)) \<and> got ((reading_round ^^ 6) (fold publish us s)) = got s @ us"
proof (cases us)
  case Nil
  then show ?thesis using idle_reads [of s] s by (simp add: idle_def)
next
  case (Cons u vs)
  then have us1: "us = [u]" using us by simp
  have reach: "relay_reachable s" "serving s" "pipeline s = []" using s by (simp_all add: idle_def)
  show ?thesis
    using idle_reads [OF publish_reachable [OF reach(1)] serving_publish(1) [OF reach(1,2)], of u]
      serving_publish(2,3) [OF reach(1,2), of u] reach(3) by (simp add: us1)
qed

lemma turn_sends_one: "length (turn_sends same res ph) \<le> 1"
  by (simp add: turn_sends_def split: phase.split sum.split)

lemma stream_turn_idle:
  assumes "idle (snd st)"
  shows "idle (snd (stream_turn same res st)) \<and> got (snd (stream_turn same res st)) = got (snd st) @ turn_sends same res (fst st)"
    and "fst (stream_turn same res st) = fst (loop_turn same res (fst st, fst (fst (snd st))))"
proof -
  obtain ph b ps r where st: "st = (ph, ((b, ps), r))" by (metis surj_pair)
  obtain ph' b' where turn: "loop_turn same res (ph, b) = (ph', b')" by (cases "loop_turn same res (ph, b)")
  show "idle (snd (stream_turn same res st)) \<and> got (snd (stream_turn same res st)) = got (snd st) @ turn_sends same res (fst st)"
    using idle_sent [OF _ turn_sends_one, of "((b, ps), r)" same res ph] assms turn_publishes [OF turn, of ps r]
    by (simp add: stream_turn_def st turn)
  show "fst (stream_turn same res st) = fst (loop_turn same res (fst st, fst (fst (snd st))))"
    by (simp add: stream_turn_def st turn)
qed

section \<open>The whole stream\<close>

text \<open>The values of the listings that did not fail.\<close>

definition listings :: "('e + 'v) list \<Rightarrow> 'v list" where
  "listings rs = concat (map (\<lambda>r. case r of Inl _ \<Rightarrow> [] | Inr v \<Rightarrow> [v]) rs)"

lemma listings_simps [simp]:
  "listings [] = []" "listings (Inl e # rs) = listings rs" "listings (Inr v # rs) = v # listings rs"
  "listings (rs @ [Inl e]) = listings rs" "listings (rs @ [Inr v]) = listings rs @ [v]"
  by (simp_all add: listings_def)

lemma remdups_adj_snoc:
  "xs \<noteq> [] \<Longrightarrow> remdups_adj (xs @ [x]) = remdups_adj xs @ (if last xs = x then [] else [x])"
  by (induction xs rule: remdups_adj.induct) auto

text \<open>Where the loop is, and what the client has, after the listings \<open>rs\<close>.\<close>

definition stream_state :: "('e + 'v) list \<Rightarrow> 'v phase \<times> ('e, 'v) update list" where
  "stream_state rs =
     (case rs of
        [] \<Rightarrow> (Starting, [])
      | Inl e # _ \<Rightarrow> (Ended, [UErr e])
      | Inr v # _ \<Rightarrow> (Polling (last (listings rs)), map UVal (remdups_adj (listings rs))))"

lemma stream_state_snoc:
  "fst (stream_state (rs @ [r])) = fst (loop_turn entries_equal r (fst (stream_state rs), b))"
  "snd (stream_state (rs @ [r])) = snd (stream_state rs) @ turn_sends entries_equal r (fst (stream_state rs))"
proof -
  have "fst (stream_state (rs @ [r])) = fst (loop_turn entries_equal r (fst (stream_state rs), b))
    \<and> snd (stream_state (rs @ [r])) = snd (stream_state rs) @ turn_sends entries_equal r (fst (stream_state rs))"
  proof (cases rs)
    case Nil
    then show ?thesis by (cases r) (simp_all add: stream_state_def loop_turn_def poll_init_def turn_sends_def)
  next
    case (Cons r0 rs')
    show ?thesis
    proof (cases r0)
      case (Inl e)
      then show ?thesis using Cons by (simp add: stream_state_def loop_turn_def turn_sends_def)
    next
      case (Inr v)
      let ?vs = "v # listings rs'"
      have old: "stream_state rs = (Polling (last ?vs), map UVal (remdups_adj ?vs))"
        by (simp add: stream_state_def Cons Inr)
      show ?thesis
      proof (cases r)
        case (Inl e)
        then have "stream_state (rs @ [r]) = (Polling (last ?vs), map UVal (remdups_adj ?vs))"
          by (simp add: stream_state_def Cons Inr)
        then show ?thesis unfolding old by (simp add: Inl loop_turn_def poll_tick_def turn_sends_def)
      next
        case (Inr w)
        then have "stream_state (rs @ [r]) = (Polling w, map UVal (remdups_adj (?vs @ [w])))"
          by (simp add: stream_state_def Cons \<open>r0 = Inr v\<close>)
        moreover have "remdups_adj (?vs @ [w]) = remdups_adj ?vs @ (if last ?vs = w then [] else [w])"
          by (rule remdups_adj_snoc) simp
        ultimately show ?thesis unfolding old
          by (simp add: Inr loop_turn_def poll_tick_def turn_sends_def entries_equal_iff del: remdups_adj.simps)
      qed
    qed
  qed
  then show "fst (stream_state (rs @ [r])) = fst (loop_turn entries_equal r (fst (stream_state rs), b))"
    and "snd (stream_state (rs @ [r])) = snd (stream_state rs) @ turn_sends entries_equal r (fst (stream_state rs))"
    by simp_all
qed

lemma begin_fresh: "snd (Watch_manager None) = Watch_begin (New_hub, [])"
  by (simp add: Watch_manager_def Let_def ensureWatcher_def start_watcher_def new_watcher_def)

lemma stream_start: "idle (goes (snd (Watch_manager None))) \<and> got (goes (snd (Watch_manager None))) = []"
proof -
  let ?s = "Watch_begin (New_hub, [])"
  have "relay_reachable (goes ?s)" by (intro goes_reachable relay_reachable.start hub_reachable.start)
  moreover have "serving (goes ?s) \<and> pipeline (goes ?s) = [] \<and> got (goes ?s) = []"
    by (simp add: Watch_begin_def subscribe_register_def New_hub_def Let_def replay_due_def goes_def relay_ready_def subscribe_replay_def
        serving_def pipeline_def got_def held_def open_chan_def chan_of_def)
  ultimately show ?thesis unfolding begin_fresh by (simp add: idle_def)
qed

lemma stream_of_state:
  "idle (snd (stream_of entries_equal rs)) \<and> (fst (stream_of entries_equal rs), got (snd (stream_of entries_equal rs))) = stream_state rs"
proof (induction rs rule: rev_induct)
  case Nil
  then show ?case using stream_start by (simp add: stream_of_def stream_state_def)
next
  case (snoc r rs)
  let ?st = "stream_of entries_equal rs"
  have st: "fst ?st = fst (stream_state rs)" "got (snd ?st) = snd (stream_state rs)" "idle (snd ?st)"
    using snoc.IH by (metis fst_conv snd_conv)+
  have step: "stream_of entries_equal (rs @ [r]) = stream_turn entries_equal r ?st" by (simp add: stream_of_def)
  show ?case unfolding step
    using stream_turn_idle [OF st(3), of entries_equal r] stream_state_snoc [of rs r] st by (simp add: prod_eq_iff)
qed

lemma sent_all: "send_updates what f (map (\<lambda>u. (u, None)) (map UVal vs)) = (map f vs, None)"
  by (induction vs) simp_all

text \<open>
  C8. From the file to the client: a client of \<open>WatchKnownHosts\<close> that keeps up gets the listings of the file at the polls,
  those that failed left out and each only when it differs from the one before, in this order and nothing else.  If the first
  listing fails it gets that error, which ends the stream, whatever the file is later.
\<close>

theorem known_hosts_stream:
  "WatchKnownHosts (map (\<lambda>u. (u, None))
      (got (snd (stream_of knownHostsEqual (map (\<lambda>fs. listing (List_kh path fs)) (fs0 # states)))))) =
    (case listing (List_kh path fs0) of
       Inl e \<Rightarrow> ([], Some (Internal, ''watch error: '' @ e))
     | Inr _ \<Rightarrow> (map (map toProtoKnownHost) (remdups_adj (listings (map (\<lambda>fs. listing (List_kh path fs)) (fs0 # states)))), None))"
proof -
  have same: "knownHostsEqual = entries_equal" by (intro ext) (simp add: knownHostsEqual_def)
  show ?thesis
    using stream_of_state [of "map (\<lambda>fs. listing (List_kh path fs)) (fs0 # states)"] unfolding same
    by (auto simp: stream_state_def WatchKnownHosts_def sent_all simp del: map_map remdups_adj.simps split: sum.splits)
qed

text \<open>The same for \<open>authorized_keys\<close>.\<close>

theorem authorized_keys_stream:
  "WatchAuthorizedKeys (map (\<lambda>u. (u, None))
      (got (snd (stream_of authorizedKeysEqual (map (\<lambda>fs. listing (List_ak path fs)) (fs0 # states)))))) =
    (case listing (List_ak path fs0) of
       Inl e \<Rightarrow> ([], Some (Internal, ''watch error: '' @ e))
     | Inr _ \<Rightarrow> (map (map toProtoAuthorizedKey) (remdups_adj (listings (map (\<lambda>fs. listing (List_ak path fs)) (fs0 # states)))), None))"
proof -
  have same: "authorizedKeysEqual = entries_equal" by (intro ext) (simp add: authorizedKeysEqual_def)
  show ?thesis
    using stream_of_state [of "map (\<lambda>fs. listing (List_ak path fs)) (fs0 # states)"] unfolding same
    by (auto simp: stream_state_def WatchAuthorizedKeys_def sent_all simp del: map_map remdups_adj.simps split: sum.splits)
qed

end
