(* ===== verification/AgentChanges.thy ===== *)
theory AgentChanges
  imports AgentWatch KeysWatch
begin

text \<open>
  \<open>SubscribeChanges\<close> of \<open>agent/agent.go\<close>: the goroutine that turns the updates of a subscription to the agent into signals for the
  watcher of the keys.  Its channel has room for one signal; the updates that it drops, and those that the subscription drops when it is full,
  are only needed as a reason to list the keys again.
\<close>

record 'a change_relay =
  cr_subs :: "'a subscriptions"
  cr_agentCh :: nat
  cr_out :: bool
  cr_closed :: bool
  cr_returned :: bool
  cr_panicked :: bool

text \<open>The start; without subscriptions the channel is closed and nothing runs (\<open>SubscribeChanges\<close> gives \<open>None\<close>).\<close>

definition changes_begin :: "'a subscriptions \<Rightarrow> 'a change_relay" where
  "changes_begin subs =
     (case Subscribe_agent subs of (agentCh, subs') \<Rightarrow>
        \<lparr>cr_subs = subs', cr_agentCh = agentCh, cr_out = False, cr_closed = False, cr_returned = False, cr_panicked = False\<rparr>)"

definition changes_return :: "'a change_relay \<Rightarrow> 'a change_relay" where
  "changes_return s = s\<lparr>cr_returned := True, cr_panicked := cr_panicked s \<or> cr_closed s, cr_closed := True\<rparr>"

text \<open>What the goroutine can do: end, when the context is done or the subscription closed and empty, or pass an update on as a signal.\<close>

definition changes_ready :: "'a change_relay \<Rightarrow> 'a change_relay list" where
  "changes_ready s =
     (if cr_returned s then []
      else (if cr_agentCh s \<in> set (ss_cancelled (cr_subs s)) then [changes_return s] else []) @
        (case receive_agent (cr_agentCh s) (cr_subs s) of
           (Some _, subs) \<Rightarrow> [s\<lparr>cr_subs := subs, cr_out := True, cr_panicked := cr_panicked s \<or> cr_closed s\<rparr>]
         | (None, _) \<Rightarrow>
             (case hub_chans (ss_hub (cr_subs s)) (cr_agentCh s) of
                Some c \<Rightarrow> if chan_closed c then [changes_return s] else []
              | None \<Rightarrow> [])))"

text \<open>
  Everything else: the agent notifies, contexts are cancelled, the subscriptions clean up, others subscribe and receive, and the watcher of the
  keys reads its signal; \<open>reading\<close> says whether it does.
\<close>

inductive changes_step :: "bool \<Rightarrow> 'a change_relay \<Rightarrow> 'a change_relay \<Rightarrow> bool" for reading where
  goroutine: "t \<in> set (changes_ready s) \<Longrightarrow> changes_step reading s t"
| notify: "changes_step reading s (s\<lparr>cr_subs := Notify skip u (cr_subs s)\<rparr>)"
| cancel: "changes_step reading s (s\<lparr>cr_subs := cancel_subscription ch (cr_subs s)\<rparr>)"
| delete: "changes_step reading s (s\<lparr>cr_subs := cleanup_delete ch (cr_subs s)\<rparr>)"
| closing: "changes_step reading s (s\<lparr>cr_subs := cleanup_close ch (cr_subs s)\<rparr>)"
| subscribe: "changes_step reading s (s\<lparr>cr_subs := snd (Subscribe_agent (cr_subs s))\<rparr>)"
| receive: "ch \<noteq> cr_agentCh s \<Longrightarrow> changes_step reading s (s\<lparr>cr_subs := snd (receive_agent ch (cr_subs s))\<rparr>)"
| read: "reading \<Longrightarrow> changes_step reading s (s\<lparr>cr_out := False\<rparr>)"

inductive changes_run :: "bool \<Rightarrow> 'a change_relay \<Rightarrow> 'a change_relay \<Rightarrow> bool" for reading where
  none: "changes_run reading s s"
| more: "changes_run reading s t \<Longrightarrow> changes_step reading t u \<Longrightarrow> changes_run reading s u"

section \<open>The invariant\<close>

definition live :: "'a change_relay \<Rightarrow> bool" where
  "live s \<longleftrightarrow> cr_agentCh s \<notin> set (ss_cancelled (cr_subs s))"

definition changes_inv :: "'a change_relay \<Rightarrow> bool" where
  "changes_inv s \<longleftrightarrow> sub_inv (cr_subs s) \<and> cr_agentCh s \<in> dom (hub_chans (ss_hub (cr_subs s)))
     \<and> (live s \<longrightarrow> cr_agentCh s \<in> set (hub_subscribers (ss_hub (cr_subs s))) \<and> \<not> cr_returned s)
     \<and> (cr_closed s \<longleftrightarrow> cr_returned s) \<and> \<not> cr_panicked s"

lemma sub_doms [simp]:
  "dom (hub_chans (ss_hub (Notify skip u s))) = dom (hub_chans (ss_hub s))"
  "dom (hub_chans (ss_hub (cancel_subscription ch s))) = dom (hub_chans (ss_hub s))"
  "dom (hub_chans (ss_hub (cleanup_delete ch s))) = dom (hub_chans (ss_hub s))"
  "dom (hub_chans (ss_hub (cleanup_close ch s))) = dom (hub_chans (ss_hub s))"
  "dom (hub_chans (ss_hub (snd (receive_agent ch s)))) = dom (hub_chans (ss_hub s))"
  by (simp_all add: Notify_def fold_notify_one cancel_subscription_def cleanup_delete_def cleanup_close_def receive_agent_def hub_simps
      split: prod.split) (metis hub_simps snd_conv)

lemma sub_subscribers [simp]:
  "hub_subscribers (ss_hub (Notify skip u s)) = hub_subscribers (ss_hub s)"
  "hub_subscribers (ss_hub (cancel_subscription ch s)) = hub_subscribers (ss_hub s)"
  "hub_subscribers (ss_hub (cleanup_close ch s)) = hub_subscribers (ss_hub s)"
  "hub_subscribers (ss_hub (snd (receive_agent ch s))) = hub_subscribers (ss_hub s)"
  by (simp_all add: Notify_def fold_notify_one cancel_subscription_def cleanup_close_def receive_agent_def hub_simps split: prod.split)
    (metis hub_simps snd_conv)

lemma sub_cancelled [simp]:
  "ss_cancelled (Notify skip u s) = ss_cancelled s" "ss_cancelled (cancel_subscription ch s) = ch # ss_cancelled s"
  "ss_cancelled (cleanup_delete ch s) = ss_cancelled s" "ss_cancelled (cleanup_close ch s) = ss_cancelled s"
  "ss_cancelled (snd (receive_agent ch s)) = ss_cancelled s" "ss_cancelled (snd (Subscribe_agent s)) = ss_cancelled s"
  by (simp_all add: Notify_def cancel_subscription_def cleanup_delete_def cleanup_close_def receive_agent_def Subscribe_agent_def
      subscribe_register_def Let_def split: prod.split)

lemma sub_chan_of:
  "chan_of (ss_hub (cancel_subscription ch s)) d = chan_of (ss_hub s) d"
  "chan_of (ss_hub (cleanup_delete ch s)) d = chan_of (ss_hub s) d"
  "chan_of (ss_hub (cleanup_close ch s)) d = chan_of (ss_hub s) d"
  "d \<noteq> ch \<Longrightarrow> chan_of (ss_hub (snd (receive_agent ch s))) d = chan_of (ss_hub s) d"
  "d \<noteq> hub_next (ss_hub s) \<Longrightarrow> chan_of (ss_hub (snd (Subscribe_agent s))) d = chan_of (ss_hub s) d"
  by (auto simp: chan_of_def cancel_subscription_def cleanup_delete_def cleanup_close_def close_chan_def receive_agent_def recv_chan_def
      Subscribe_agent_def subscribe_register_def Let_def split: option.split)

lemma delete_keeps:
  "d \<notin> set (ss_cancelled (cleanup_delete ch s)) \<Longrightarrow> d \<in> set (hub_subscribers (ss_hub s)) \<Longrightarrow>
   d \<in> set (hub_subscribers (ss_hub (cleanup_delete ch s)))"
  by (cases "d = ch") (auto simp: cleanup_delete_def split: if_splits)

lemma live_open: "changes_inv s \<Longrightarrow> live s \<Longrightarrow> open_chan (ss_hub (cr_subs s)) (cr_agentCh s)"
  by (simp add: changes_inv_def sub_inv_def)

lemma not_new: "changes_inv s \<Longrightarrow> cr_agentCh s \<noteq> hub_next (ss_hub (cr_subs s))"
  by (auto simp: changes_inv_def sub_inv_def)

lemma inv_subs:
  assumes "changes_inv s" and "sub_step (cr_subs s) subs" and "dom (hub_chans (ss_hub (cr_subs s))) \<subseteq> dom (hub_chans (ss_hub subs))"
    and "set (ss_cancelled (cr_subs s)) \<subseteq> set (ss_cancelled subs)"
    and "cr_agentCh s \<notin> set (ss_cancelled subs) \<Longrightarrow> cr_agentCh s \<in> set (hub_subscribers (ss_hub (cr_subs s))) \<Longrightarrow>
      cr_agentCh s \<in> set (hub_subscribers (ss_hub subs))"
  shows "changes_inv (s\<lparr>cr_subs := subs\<rparr>)"
  using assms sub_inv_step [OF assms(2)] by (auto simp: changes_inv_def live_def)

lemma changes_inv_goroutine:
  assumes inv: "changes_inv s" and t: "t \<in> set (changes_ready s)"
  shows "changes_inv t"
proof -
  have ret: "\<not> cr_returned s" using t by (auto simp: changes_ready_def split: if_splits)
  have return: "changes_inv (changes_return s)" if "\<not> live s"
    using inv ret that by (simp add: changes_inv_def changes_return_def live_def)
  obtain v subs where rec: "receive_agent (cr_agentCh s) (cr_subs s) = (v, subs)" by (cases "receive_agent (cr_agentCh s) (cr_subs s)")
  then have subs: "subs = snd (receive_agent (cr_agentCh s) (cr_subs s))" by simp
  have taken: "changes_inv (s\<lparr>cr_subs := subs\<rparr>)"
    unfolding subs using inv by (intro inv_subs sub_step.receive) simp_all
  have signal: "changes_inv (s\<lparr>cr_subs := subs, cr_out := True, cr_panicked := cr_panicked s \<or> cr_closed s\<rparr>)"
    using taken ret by (simp add: changes_inv_def live_def)
  have closed: "changes_inv (changes_return s)" if "Some c = hub_chans (ss_hub (cr_subs s)) (cr_agentCh s)" "chan_closed c" for c
  proof -
    have "\<not> live s" using live_open [OF inv] that by (metis open_chan_def option.inject)
    then show ?thesis by (rule return)
  qed
  show ?thesis using t ret rec return signal closed
    by (auto simp: changes_ready_def live_def split: option.splits if_splits)
qed

lemma changes_inv_step: "changes_step reading s t \<Longrightarrow> changes_inv s \<Longrightarrow> changes_inv t"
proof (induction rule: changes_step.induct)
  case (goroutine t s)
  then show ?case using changes_inv_goroutine by blast
next
  case (subscribe s)
  then show ?case
    by (intro inv_subs sub_step.subscribe) (auto simp: Subscribe_agent_def subscribe_register_def Let_def)
next
  case (delete s ch)
  then show ?case by (intro inv_subs sub_step.delete delete_keeps) simp_all
next
  case (read s)
  then show ?case by (simp add: changes_inv_def live_def)
qed (intro inv_subs; auto intro: sub_step.intros)+

lemma changes_inv_run: "changes_run reading s t \<Longrightarrow> changes_inv s \<Longrightarrow> changes_inv t"
  by (induction rule: changes_run.induct) (auto intro: changes_inv_step)

section \<open>No change is lost\<close>

definition pending :: "'a change_relay \<Rightarrow> bool" where
  "pending s \<longleftrightarrow> chan_of (ss_hub (cr_subs s)) (cr_agentCh s) \<noteq> None \<or> cr_out s"

lemma inv_begin_changes:
  assumes "sub_inv subs"
  shows "changes_inv (changes_begin subs) \<or> \<not> live (changes_begin subs)"
  using sub_inv_step [OF sub_step.subscribe assms]
  by (auto simp: changes_begin_def changes_inv_def live_def Subscribe_agent_def subscribe_register_def Let_def)

lemma Notify_pending:
  assumes "changes_inv s" and "live s"
  shows "pending (s\<lparr>cr_subs := Notify skip u (cr_subs s)\<rparr>)"
proof -
  let ?b = "ss_hub (cr_subs s)" and ?ch = "cr_agentCh s"
  have "chan_of (fold (notify_one skip u (ss_cancelled (cr_subs s))) (hub_subscribers ?b) ?b) ?ch
      = (case chan_of ?b ?ch of None \<Rightarrow> Some u | Some w \<Rightarrow> Some w)"
    using assms live_open [OF assms] by (intro fold_notify_chan) (auto simp: changes_inv_def sub_inv_def live_def)
  then show ?thesis by (auto simp: pending_def Notify_def split: option.split)
qed

lemma goroutine_pending:
  assumes "changes_inv s" and "live s" and "t \<in> set (changes_ready s)"
  shows "cr_out t"
  using assms live_open [OF assms(1,2)]
  by (auto simp: changes_ready_def live_def open_chan_def split: if_splits prod.splits option.splits)

lemma live_before: "changes_step reading s t \<Longrightarrow> live t \<Longrightarrow> live s"
  by (induction rule: changes_step.induct)
    (auto simp: live_def changes_ready_def changes_return_def split: if_splits prod.splits option.splits,
      (metis snd_conv sub_cancelled(5))+)

lemma pending_step:
  assumes "changes_step False s t" and "changes_inv s" and "live t" and "pending s"
  shows "pending t"
  using assms
proof (induction rule: changes_step.induct)
  case (goroutine t s)
  have "live s" using live_before [OF changes_step.goroutine [OF goroutine(1)] goroutine(3)] .
  then have "cr_out t" using goroutine_pending [OF goroutine(2) _ goroutine(1)] by blast
  then show ?case by (simp add: pending_def)
next
  case (notify s skip u)
  then show ?case using Notify_pending by (simp add: live_def)
next
  case (subscribe s)
  then show ?case using not_new [OF subscribe(1)] by (simp add: pending_def sub_chan_of)
qed (simp_all add: pending_def sub_chan_of)

lemma pending_run: "changes_run False s t \<Longrightarrow> changes_inv s \<Longrightarrow> live t \<Longrightarrow> pending s \<Longrightarrow> pending t"
proof (induction rule: changes_run.induct)
  case (more s t u)
  then show ?case using pending_step live_before changes_inv_run by blast
qed simp

text \<open>
  C7. No change of the agent is lost on the way to the watcher of the keys, although both channels drop what does not fit: after a
  notification, and as long as the context is not done and the watcher does not read, a signal is ready for it, at the latest after one step of the goroutine;
  and that signal sets the timer of the watcher, so keys are listed again after the change.
\<close>

theorem change_signalled:
  assumes subs: "sub_reachable subs" and run: "changes_run True (changes_begin subs) s" and begun: "live (changes_begin subs)"
    and after: "changes_run False (s\<lparr>cr_subs := Notify skip u (cr_subs s)\<rparr>) t" and live: "live t"
    and watcher: "lp_agent k" "\<not> lp_ended k"
  shows "\<exists>t'. (t' = t \<or> t' \<in> set (changes_ready t)) \<and> cr_out t' \<and> \<not> cr_closed t' \<and> \<not> cr_panicked t'
    \<and> lp_timer (handle_event now EvAgent k) = Some (now + debounceDelay)"
proof -
  let ?n = "s\<lparr>cr_subs := Notify skip u (cr_subs s)\<rparr>"
  have inv: "changes_inv s" using changes_inv_run [OF run] inv_begin_changes [OF sub_inv_reachable [OF subs]] begun by blast
  then have invn: "changes_inv ?n" by (rule changes_inv_step [OF changes_step.notify])
  have "live t \<Longrightarrow> live ?n" using after by (induction rule: changes_run.induct) (auto dest: live_before)
  then have "live s" using live by (simp add: live_def)
  have p: "pending t" by (rule pending_run [OF after invn live Notify_pending [OF inv \<open>live s\<close>]])
  have invt: "changes_inv t" by (rule changes_inv_run [OF after invn])
  have ret: "\<not> cr_returned t" using invt live by (simp add: changes_inv_def)
  have timer: "lp_timer (handle_event now EvAgent k) = Some (now + debounceDelay)" using watcher by (simp add: handle_event_def)
  show ?thesis
  proof (cases "cr_out t")
    case True
    then show ?thesis using invt ret timer by (intro exI [of _ t]) (simp add: changes_inv_def)
  next
    case False
    then obtain v where "chan_of (ss_hub (cr_subs t)) (cr_agentCh t) = Some v" using p by (auto simp: pending_def)
    then obtain subs' where "receive_agent (cr_agentCh t) (cr_subs t) = (Some v, subs')"
      by (cases "hub_chans (ss_hub (cr_subs t)) (cr_agentCh t)") (auto simp: receive_agent_def recv_chan_def chan_of_def)
    then obtain t' where t': "t' \<in> set (changes_ready t)" using ret by (auto simp: changes_ready_def)
    then have "cr_out t'" using goroutine_pending [OF invt live] by blast
    moreover have "changes_inv t'" by (rule changes_inv_goroutine [OF invt t'])
    moreover have "\<not> cr_returned t'" using t' ret live
      by (auto simp: changes_ready_def live_def changes_return_def split: if_splits prod.splits option.splits) (use live_open [OF invt live] in \<open>auto simp: open_chan_def\<close>)
    ultimately show ?thesis using t' timer by (intro exI [of _ t']) (simp add: changes_inv_def)
  qed
qed

lemma change_signalled_witness:
  "\<exists>t'. cr_out t' \<and> t' \<in> set (changes_ready ((changes_begin NewSubscriptions)\<lparr>cr_subs := Notify (\<lambda>_. False) ''u'' (cr_subs (changes_begin NewSubscriptions))\<rparr>))"
proof -
  let ?s = "changes_begin NewSubscriptions :: string change_relay"
  let ?t = "?s\<lparr>cr_subs := Notify (\<lambda>_. False) ''u'' (cr_subs ?s)\<rparr>"
  have live: "live ?s" "live ?t" "\<not> cr_out ?t"
    by (simp_all add: live_def changes_begin_def Subscribe_agent_def subscribe_register_def NewSubscriptions_def Let_def Notify_def)
  from change_signalled [OF sub_reachable.new changes_run.none live(1) changes_run.none live(2) demo_loop_fields(3,1)] live(3)
  show ?thesis by blast
qed

end
