(* ===== verification/Watches.thy ===== *)
theory Watches
  imports HostsWatch ConfigWatch KeysWatch ConnPool SystemStatus
begin

text \<open>
  The other \<open>Watch\<close> methods: of the ssh client's configuration, the keys, the connections and the ssh status.  Each has the
  form of those of the hosts files (\<open>Watch_manager\<close>), with a watcher of its own type.
\<close>

definition Watch_entries ::
    "(string, SSHConfigEntry list) watcher option \<Rightarrow> (string, SSHConfigEntry list) watcher \<times> (string, SSHConfigEntry list) update relay_sys"
where
  "Watch_entries w = Watch_manager w"

definition Watch_keys :: "(string, Key list) watcher option \<Rightarrow> (string, Key list) watcher \<times> (string, Key list) update relay_sys" where
  "Watch_keys w = Watch_manager w"

text \<open>The listings of the connections and of the status have no errors.\<close>

definition Watch_conns ::
    "(unit, Connection list) watcher option \<Rightarrow> (unit, Connection list) watcher \<times> (unit, Connection list) update relay_sys" where
  "Watch_conns w = Watch_manager w"

definition Watch_status :: "(unit, SSHStatus) watcher option \<Rightarrow> (unit, SSHStatus) watcher \<times> (unit, SSHStatus) update relay_sys" where
  "Watch_status w = Watch_manager w"

section \<open>One loop for all callers\<close>

fun watch_again :: "nat \<Rightarrow> ('e, 'v) watcher option \<Rightarrow> ('e, 'v) watcher option" where
  "watch_again 0 w = w"
| "watch_again (Suc n) w = watch_again n (Some (fst (Watch_manager w)))"

lemma watch_again_loops:
  "case w of None \<Rightarrow> True | Some x \<Rightarrow> w_started x \<and> length (w_loops x) = 1 \<Longrightarrow>
   case watch_again n w of None \<Rightarrow> w = None \<and> n = 0 | Some x \<Rightarrow> w_started x \<and> length (w_loops x) = 1"
proof (induction n arbitrary: w)
  case (Suc n)
  have "case Some (fst (Watch_manager w)) of None \<Rightarrow> True | Some x \<Rightarrow> w_started x \<and> length (w_loops x) = 1"
    using Watch_manager_loops [OF Suc.prems] by simp
  from Suc.IH [OF this] show ?case by (simp split: option.splits)
qed (simp split: option.splits)

text \<open>However often \<open>Watch\<close> is called, one goroutine lists the keys.\<close>

theorem one_loop: "map_option (\<lambda>x. length (w_loops x)) (watch_again (Suc n) None) = Some 1"
  using watch_again_loops [of None "Suc n"] by (auto split: option.splits)

section \<open>What a client of two polls gets\<close>

lemma two_polls:
  fixes v w :: 'v
  shows "got (snd (stream_of same [Inr v, Inr w] :: 'v phase \<times> ('e, 'v) update relay_sys)) = UVal v # (if same v w then [] else [UVal w])"
proof -
  let ?s0 = "(Starting, goes (snd (Watch_manager None))) :: 'v phase \<times> ('e, 'v) update relay_sys"
  let ?s1 = "stream_turn same (Inr v) ?s0"
  have s0: "idle (snd ?s0)" "got (snd ?s0) = []" by (simp_all add: stream_start)
  have s1: "idle (snd ?s1)" "got (snd ?s1) = [UVal v]" "fst ?s1 = Polling v"
    using stream_turn_idle [OF s0(1), of same "Inr v"] s0(2) by (simp_all add: turn_sends_def loop_turn_def poll_init_def)
  have "(stream_of same [Inr v, Inr w] :: 'v phase \<times> ('e, 'v) update relay_sys) = stream_turn same (Inr w) ?s1" by (simp add: stream_of_def)
  then show ?thesis using stream_turn_idle(1) [OF s1(1), of same "Inr w"] s1(2,3) by (simp add: turn_sends_def)
qed

text \<open>
  A client that watches the connections is not told that one was replaced: when between two polls a connection is closed and
  another opened, with a new identifier, the comparison answers that nothing has changed, and the stream still shows the closed one.
\<close>

theorem replaced_connection_hidden:
  assumes "cn_ID c \<noteq> cn_ID d"
  shows "got (snd (stream_of connectionsEqual [Inr [c], Inr [d]])) = [UVal [c]]"
  using assms by (simp add: two_polls connectionsEqual_def)

end
